(* ===== verification/Prelude.thy ===== *)
theory Prelude
  imports Main "HOL-Library.List_Lexorder" "HOL-Library.Char_ord"
begin

text \<open>
  Shared vocabulary of the development: results of fallible Python functions (a raised typed
  error is \<open>Inl\<close>, a returned value is \<open>Inr\<close>), the guard combinator that models
  \<open>if not cond: fail(...)\<close>, machines that leave their state alone when a request is
  rejected, and the generic list lemmas several components use.
\<close>

named_theorems result_simps \<open>introduction of results of guarded computations\<close>

type_synonym ('e, 'a) result = "'e + 'a"

definition require :: "bool \<Rightarrow> 'e \<Rightarrow> ('e, 'a) result \<Rightarrow> ('e, 'a) result" where
  "require b e k = (if b then k else Inl e)"

definition and_then :: "('e, 'a) result \<Rightarrow> ('a \<Rightarrow> ('e, 'b) result) \<Rightarrow> ('e, 'b) result" where
  "and_then r f = (case r of Inl e \<Rightarrow> Inl e | Inr x \<Rightarrow> f x)"

lemma require_simps [simp, result_simps]:
  "require True e k = k" "require False e k = Inl e"
  by (simp_all add: require_def)

lemma require_Inr [simp, result_simps]: "require b e k = Inr y \<longleftrightarrow> b \<and> k = Inr y"
  by (simp add: require_def)

lemma require_Inl [result_simps]:
  "require b e k = Inl d \<longleftrightarrow> (\<not> b \<and> d = e) \<or> (b \<and> k = Inl d)"
  by (auto simp: require_def)

lemma and_then_simps [simp, result_simps]:
  "and_then (Inl e) f = Inl e" "and_then (Inr x) f = f x"
  by (simp_all add: and_then_def)

lemma and_then_Inr [simp, result_simps]:
  "and_then r f = Inr y \<longleftrightarrow> (\<exists>x. r = Inr x \<and> f x = Inr y)"
  by (cases r) simp_all

lemma and_then_Inl [result_simps]:
  "and_then r f = Inl e \<longleftrightarrow> r = Inl e \<or> (\<exists>x. r = Inr x \<and> f x = Inl e)"
  by (cases r) simp_all

lemma and_then_require [simp]: "and_then (require b e k) f = require b e (and_then k f)"
  by (simp add: require_def)

definition accepts :: "('e, 'a) result \<Rightarrow> bool" where
  "accepts r = (case r of Inl _ \<Rightarrow> False | Inr _ \<Rightarrow> True)"

lemma accepts_iff: "accepts r \<longleftrightarrow> (\<exists>x. r = Inr x)"
  by (cases r) (simp_all add: accepts_def)

lemma accepts_simps [simp]: "accepts (Inr x)" "\<not> accepts (Inl e)"
  by (simp_all add: accepts_def)

lemma accepts_require [simp]: "accepts (require b e k) \<longleftrightarrow> b \<and> accepts k"
  by (simp add: require_def)

subsection \<open>Machines\<close>

text \<open>
  A component with state is a step \<open>'s \<Rightarrow> 'c \<Rightarrow> ('e, 's) result\<close>. A caller that
  catches the typed error keeps the old state, so a run over a list of requests goes on from
  there; \<open>run_all\<close> instead stops at the first error.
\<close>

definition step_or_stay :: "('s \<Rightarrow> 'c \<Rightarrow> ('e, 's) result) \<Rightarrow> 's \<Rightarrow> 'c \<Rightarrow> 's" where
  "step_or_stay step s c = (case step s c of Inl _ \<Rightarrow> s | Inr s' \<Rightarrow> s')"

fun run :: "('s \<Rightarrow> 'c \<Rightarrow> ('e, 's) result) \<Rightarrow> 's \<Rightarrow> 'c list \<Rightarrow> 's" where
  "run step s [] = s"
| "run step s (c # cs) = run step (step_or_stay step s c) cs"

fun run_all :: "('s \<Rightarrow> 'c \<Rightarrow> ('e, 's) result) \<Rightarrow> 's \<Rightarrow> 'c list \<Rightarrow> ('e, 's) result" where
  "run_all step s [] = Inr s"
| "run_all step s (c # cs) = and_then (step s c) (\<lambda>s'. run_all step s' cs)"

lemma run_append: "run step s (xs @ ys) = run step (run step s xs) ys"
  by (induction xs arbitrary: s) simp_all

lemma run_all_append:
  "run_all step s (xs @ ys) = and_then (run_all step s xs) (\<lambda>t. run_all step t ys)"
proof (induction xs arbitrary: s)
  case (Cons x xs)
  then show ?case by (cases "step s x") simp_all
qed simp

lemma run_all_run: "run_all step s cs = Inr t \<Longrightarrow> run step s cs = t"
  by (induction cs arbitrary: s) (auto simp: step_or_stay_def)

text \<open>The contract of a guarded machine: accepted steps keep the invariant and relate the old
  and the new state by a preorder (what never goes back).\<close>

locale guarded_machine =
  fixes step :: "'s \<Rightarrow> 'c \<Rightarrow> ('e, 's) result"
    and inv :: "'s \<Rightarrow> bool"
    and le :: "'s \<Rightarrow> 's \<Rightarrow> bool"
  assumes step_inv: "inv s \<Longrightarrow> step s c = Inr s' \<Longrightarrow> inv s'"
    and step_le: "inv s \<Longrightarrow> step s c = Inr s' \<Longrightarrow> le s s'"
    and le_refl: "le s s"
    and le_trans: "le s t \<Longrightarrow> le t u \<Longrightarrow> le s u"
begin

lemma stay_inv: "inv s \<Longrightarrow> inv (step_or_stay step s c)"
  by (auto simp: step_or_stay_def intro: step_inv split: sum.split)

lemma stay_le: "inv s \<Longrightarrow> le s (step_or_stay step s c)"
  by (auto simp: step_or_stay_def intro: step_le le_refl split: sum.split)

lemma run_inv: "inv s \<Longrightarrow> inv (run step s cs)"
  by (induction cs arbitrary: s) (auto intro: stay_inv)

lemma run_le: "inv s \<Longrightarrow> le s (run step s cs)"
proof (induction cs arbitrary: s)
  case Nil
  show ?case by (simp add: le_refl)
next
  case (Cons c cs)
  have "le s (step_or_stay step s c)" by (rule stay_le [OF Cons.prems])
  moreover have "le (step_or_stay step s c) (run step (step_or_stay step s c) cs)"
    by (rule Cons.IH [OF stay_inv [OF Cons.prems]])
  ultimately show ?case by (auto intro: le_trans)
qed

lemma run_all_inv: "inv s \<Longrightarrow> run_all step s cs = Inr t \<Longrightarrow> inv t"
  using run_inv run_all_run by metis

lemma run_all_le: "inv s \<Longrightarrow> run_all step s cs = Inr t \<Longrightarrow> le s t"
  using run_le run_all_run by metis

end

subsection \<open>Integer division\<close>

lemma floor_step: "1 \<le> (m :: int) \<Longrightarrow> x div m * m \<le> x \<and> x < x div m * m + m"
  using div_mult_mod_eq [of x m] pos_mod_bound [of m x] pos_mod_sign [of m x] by linarith

lemma le_div_int:
  assumes "1 \<le> (m :: int)"
  shows "k \<le> x div m \<longleftrightarrow> k * m \<le> x"
proof
  assume "k \<le> x div m"
  then have "k * m \<le> x div m * m" using assms by (intro mult_right_mono) simp_all
  then show "k * m \<le> x" using floor_step [OF assms, of x] by linarith
next
  assume "k * m \<le> x"
  then have "k * m < (x div m + 1) * m" using floor_step [OF assms, of x] by (simp add: distrib_right)
  then show "k \<le> x div m" using assms by (simp add: mult_less_cancel_right)
qed

subsection \<open>Lists\<close>

lemma map_of_filter_key:
  "map_of (filter (\<lambda>kv. P (fst kv)) xs) k = (if P k then map_of xs k else None)"
  by (induction xs) auto

lemma distinct_fst_filter: "distinct (map fst xs) \<Longrightarrow> distinct (map fst (filter P xs))"
  by (induction xs) auto

lemma map_of_mem_distinct:
  "distinct (map fst xs) \<Longrightarrow> (k, v) \<in> set xs \<longleftrightarrow> map_of xs k = Some v"
  using map_of_SomeD [of xs k v] by auto

lemma sorted_wrt_concat_map:
  "(\<And>x. x \<in> set xs \<Longrightarrow> sorted_wrt P (f x)) \<Longrightarrow>
   sorted_wrt (\<lambda>x y. \<forall>a \<in> set (f x). \<forall>b \<in> set (f y). P a b) xs \<Longrightarrow>
   sorted_wrt P (concat (map f xs))"
  by (induction xs) (auto simp: sorted_wrt_append)

lemma sorted_wrt_irrefl_distinct:
  "sorted_wrt P xs \<Longrightarrow> (\<And>x. \<not> P x x) \<Longrightarrow> distinct xs"
  by (induction xs) auto

lemma strict_sort_remdups: "sorted_wrt (<) (sort (remdups (xs :: 'a::linorder list)))"
  by (simp add: strict_sorted_iff)

lemma strict_sort_key_distinct:
  fixes f :: "'a \<Rightarrow> 'b::linorder"
  assumes "distinct (map f xs)"
  shows "sorted_wrt (\<lambda>x y. f x < f y) (sort_key f xs)"
proof -
  have "sorted (map f (sort_key f xs))" by simp
  moreover have "distinct (map f (sort_key f xs))"
    using assms by (metis distinct_map distinct_sort set_sort)
  ultimately have "sorted_wrt (<) (map f (sort_key f xs))" by (simp add: strict_sorted_iff)
  then show ?thesis by (simp add: sorted_wrt_map)
qed

end
