(* ===== verification/PyValue.thy ===== *)
theory PyValue
  imports Prelude
begin

text \<open>
  The Python values a caller can hand to a public entry point. The runtimes are written to be
  total over hostile input (exact types only), so their arguments are modelled as arbitrary
  object trees:
  \<^item> \<open>PStr s\<close> is an exact \<open>str\<close> that has a UTF-8 encoding, given by the bytes of that encoding
    (every grammar of the code is ASCII, and byte order is code-point order);
    \<open>PBadStr\<close> is an exact \<open>str\<close> without one (a lone surrogate);
  \<^item> \<open>PFloat r\<close> is a finite \<open>float\<close> given by its \<open>repr\<close>, \<open>PNonFinite\<close> a nan or an infinity;
  \<^item> \<open>PList\<close> and \<open>PDict\<close> are exact lists and dicts; the number is the object's identity (\<open>id\<close>),
    so two occurrences of one number are two references to one container. A dict is its items in
    insertion order;
  \<^item> \<open>POther\<close> is everything else: tuples, bytes, instances of subclasses of the exact types.
\<close>

datatype pyval =
    PNone
  | PBool bool
  | PInt int
  | PFloat string
  | PNonFinite
  | PStr string
  | PBadStr
  | PList nat "pyval list"
  | PDict nat "(pyval \<times> pyval) list"
  | POther

type_synonym pydict = "(pyval \<times> pyval) list"

text \<open>\<open>d[k]\<close> and \<open>d.get(k)\<close> for a string key.\<close>

definition pget :: "pydict \<Rightarrow> string \<Rightarrow> pyval option" where
  "pget d k = map_of d (PStr k)"

text \<open>\<open>type(x) is str\<close>\<close>

fun is_str :: "pyval \<Rightarrow> bool" where
  "is_str (PStr _) = True"
| "is_str PBadStr = True"
| "is_str _ = False"

text \<open>\<open>all(type(k) is str for k in d) and set(d) == set(fields)\<close>\<close>

definition keys_are :: "pydict \<Rightarrow> string list \<Rightarrow> bool" where
  "keys_are d fields \<longleftrightarrow>
     list_all is_str (map fst d) \<and> set (map fst d) = set (map PStr fields)"

text \<open>\<open>type(x) is int and lo <= x <= hi\<close>\<close>

fun int_in :: "pyval \<Rightarrow> int \<Rightarrow> int \<Rightarrow> bool" where
  "int_in (PInt n) lo hi \<longleftrightarrow> lo \<le> n \<and> n \<le> hi"
| "int_in _ lo hi \<longleftrightarrow> False"

text \<open>\<open>type(x) is str and pattern.fullmatch(x)\<close>\<close>

fun matches :: "(string \<Rightarrow> bool) \<Rightarrow> pyval \<Rightarrow> bool" where
  "matches grammar (PStr s) \<longleftrightarrow> grammar s"
| "matches grammar _ \<longleftrightarrow> False"

lemma int_in_iff: "int_in v lo hi \<longleftrightarrow> (\<exists>n. v = PInt n \<and> lo \<le> n \<and> n \<le> hi)"
  by (cases v) simp_all

lemma matches_iff: "matches g v \<longleftrightarrow> (\<exists>s. v = PStr s \<and> g s)"
  by (cases v) simp_all

lemma pget_simps [simp]:
  "pget [] k = None"
  "pget ((PStr j, v) # d) k = (if j = k then Some v else pget d k)"
  by (auto simp: pget_def)

lemma pget_dom: "(\<exists>v. pget d k = Some v) \<longleftrightarrow> PStr k \<in> set (map fst d)"
  unfolding pget_def by (metis domD domI dom_map_of_conv_image_fst image_set)

lemma keys_are_pget: "keys_are d fields \<Longrightarrow> k \<in> set fields \<Longrightarrow> \<exists>v. pget d k = Some v"
  by (auto simp: keys_are_def pget_dom)

text \<open>\<open>d[k]\<close> where the exact key set has been checked, and the content of an exact int or str.\<close>

definition fld :: "pydict \<Rightarrow> string \<Rightarrow> pyval" where
  "fld d k = (case pget d k of Some v \<Rightarrow> v | None \<Rightarrow> PNone)"

fun int_of :: "pyval \<Rightarrow> int" where
  "int_of (PInt n) = n"
| "int_of _ = 0"

fun opt_str :: "pyval \<Rightarrow> string option" where
  "opt_str (PStr s) = Some s"
| "opt_str _ = None"

fun opt_int :: "pyval \<Rightarrow> int option" where
  "opt_int (PInt n) = Some n"
| "opt_int _ = None"

lemma fld_simps:
  "fld ((PStr j, v) # d) k = (if j = k then v else fld d k)"
  by (simp add: fld_def)

subsection \<open>Assignment to a dict\<close>

text \<open>\<open>d[k] = v\<close>: an existing key keeps its place, a new key comes last.\<close>

fun dict_set :: "('a \<times> 'b) list \<Rightarrow> 'a \<Rightarrow> 'b \<Rightarrow> ('a \<times> 'b) list" where
  "dict_set [] k v = [(k, v)]"
| "dict_set ((j, w) # d) k v = (if j = k then (k, v) # d else (j, w) # dict_set d k v)"

lemma map_of_dict_set [simp]: "map_of (dict_set d k v) = (map_of d)(k \<mapsto> v)"
  by (induction d k v rule: dict_set.induct) (auto simp: fun_eq_iff)

lemma set_keys_dict_set [simp]: "fst ` set (dict_set d k v) = insert k (fst ` set d)"
  by (induction d k v rule: dict_set.induct) auto

lemma distinct_dict_set [simp]:
  "distinct (map fst (dict_set d k v)) \<longleftrightarrow> distinct (map fst d)"
  by (induction d k v rule: dict_set.induct) auto

lemma dict_set_new: "k \<notin> fst ` set d \<Longrightarrow> dict_set d k v = d @ [(k, v)]"
  by (induction d k v rule: dict_set.induct) auto

lemma set_dict_set_subset: "set (dict_set d k v) \<subseteq> insert (k, v) (set d)"
  by (induction d k v rule: dict_set.induct) auto

end
