(* ===== verification/Turn.thy ===== *)
theory Turn
  imports PyValue
begin

text \<open>
  The turn machine, \<open>src/tools/turn_runtime.py\<close> over \<open>src/data/contracts/turn.yaml\<close>: side to
  move, halfmove clock, fullmove number, and the fifty/seventyfive-move statuses. A
  \<open>TurnError\<close> is the \<open>Inl\<close> of its failure class; \<open>turn_code\<close> is the code it carries
  (\<open>retryable\<close> is always \<open>False\<close>, the message is not modelled).
\<close>

subsection \<open>Contract tables\<close>

datatype turn_class = No_side_to_move | Bad_counter | Illegal_transition | Unknown_termination

fun turn_code :: "turn_class \<Rightarrow> string" where
  "turn_code No_side_to_move = ''malformed_request''"
| "turn_code Bad_counter = ''malformed_request''"
| "turn_code Illegal_transition = ''illegal_transition''"
| "turn_code Unknown_termination = ''unknown_termination''"

definition turn_fields :: "string list" where
  "turn_fields = [''side_to_move'', ''halfmove_clock'', ''fullmove_number'']"

definition side_values :: "string list" where
  "side_values = [''w'', ''b'']"

definition reset_when :: "string list" where
  "reset_when = [''pawn_move'', ''capture'']"

definition move_kinds :: "string list" where
  "move_kinds = reset_when @ [''quiet'']"

definition termination_states :: "string list" where
  "termination_states = [''checkmate'', ''stalemate'', ''resignation'', ''timeout'',
     ''draw_agreement'', ''fifty_move_claim'', ''seventyfive_move_auto'', ''fivefold_auto'',
     ''threefold_claim'', ''insufficient_material'', ''variant_specific'']"

subsection \<open>State and operations\<close>

record turn_state =
  ts_side :: string
  ts_half :: int
  ts_full :: int

text \<open>The dict a turn state is, in the field order of the contract.\<close>

definition turn_dict :: "turn_state \<Rightarrow> pyval" where
  "turn_dict s = PDict 0 [(PStr ''side_to_move'', PStr (ts_side s)),
     (PStr ''halfmove_clock'', PInt (ts_half s)), (PStr ''fullmove_number'', PInt (ts_full s))]"

definition turn_counter :: "pydict \<Rightarrow> string \<Rightarrow> int \<Rightarrow> (turn_class, int) result" where
  "turn_counter d f lo = (case pget d f of
       Some (PInt n) \<Rightarrow> require (lo \<le> n) Bad_counter (Inr n)
     | _ \<Rightarrow> Inl Bad_counter)"

definition turn_validate :: "pyval \<Rightarrow> (turn_class, turn_state) result" where
  "turn_validate v = (case v of
       PDict _ d \<Rightarrow>
         (case pget d ''side_to_move'' of
            Some (PStr side) \<Rightarrow>
              require (side \<in> set side_values) No_side_to_move
              (and_then (turn_counter d ''halfmove_clock'' 0) (\<lambda>h.
               and_then (turn_counter d ''fullmove_number'' 1) (\<lambda>f.
               require (set (map fst d) = set (map PStr turn_fields)) Bad_counter
                 (Inr \<lparr>ts_side = side, ts_half = h, ts_full = f\<rparr>))))
          | _ \<Rightarrow> Inl No_side_to_move)
     | _ \<Rightarrow> Inl Bad_counter)"

definition turn_valid :: "turn_state \<Rightarrow> bool" where
  "turn_valid s \<longleftrightarrow> ts_side s \<in> set side_values \<and> 0 \<le> ts_half s \<and> 1 \<le> ts_full s"

text \<open>The transition after the checks: flip, count, reset.\<close>

definition turn_advance :: "turn_state \<Rightarrow> string \<Rightarrow> turn_state" where
  "turn_advance s kind =
     \<lparr>ts_side = hd (filter (\<lambda>x. x \<noteq> ts_side s) side_values),
      ts_half = (if kind \<in> set reset_when then 0 else ts_half s + 1),
      ts_full = (if (''black'' = ''black'') = (ts_side s = ''b'') then ts_full s + 1 else ts_full s)\<rparr>"

definition apply_move :: "pyval \<Rightarrow> pyval \<Rightarrow> pyval \<Rightarrow> (turn_class, turn_state) result" where
  "apply_move state kind terminated =
     and_then (turn_validate state) (\<lambda>s.
       if terminated \<noteq> PNone then
         (case terminated of
            PStr t \<Rightarrow> if t \<in> set termination_states then Inl Illegal_transition
                      else Inl Unknown_termination
          | _ \<Rightarrow> Inl Unknown_termination)
       else (case kind of
            PStr k \<Rightarrow> require (k \<noteq> ''null'') Illegal_transition
                       (require (k \<in> set move_kinds) Illegal_transition
                         (Inr (turn_advance s k)))
          | _ \<Rightarrow> Inl Illegal_transition))"

definition turn_identity :: "pyval \<Rightarrow> (turn_class, (string \<times> string) list) result" where
  "turn_identity state = and_then (turn_validate state)
     (\<lambda>s. Inr [(''side_to_move'', ts_side s)])"

definition termination_for :: "pyval \<Rightarrow> (turn_class, (string \<times> bool) option) result" where
  "termination_for state = and_then (turn_validate state) (\<lambda>s. Inr
     (if 150 \<le> ts_half s then Some (''seventyfive_move_auto'', True)
      else if 100 \<le> ts_half s then Some (''fifty_move_claim'', False)
      else None))"

text \<open>A state dict fed back by a caller, without a termination.\<close>

definition turn_step :: "turn_state \<Rightarrow> string \<Rightarrow> (turn_class, turn_state) result" where
  "turn_step s k = apply_move (turn_dict s) (PStr k) PNone"

subsection \<open>Lemmas\<close>

text \<open>The number of half moves a valid turn state stands for.\<close>

definition ply :: "turn_state \<Rightarrow> int" where
  "ply s = 2 * (ts_full s - 1) + (if ts_side s = ''b'' then 1 else 0)"

lemma side_values_cases: "s \<in> set side_values \<longleftrightarrow> s = ''w'' \<or> s = ''b''"
  by (auto simp: side_values_def)

lemma turn_validate_dict: "turn_valid s \<Longrightarrow> turn_validate (turn_dict s) = Inr s"
  by (auto simp: turn_validate_def turn_dict_def turn_valid_def turn_counter_def turn_fields_def)

lemma turn_validate_valid: "turn_validate v = Inr s \<Longrightarrow> turn_valid s"
  by (auto simp: turn_validate_def turn_valid_def turn_counter_def
      split: pyval.splits option.splits)

lemma turn_advance_valid: "turn_valid s \<Longrightarrow> turn_valid (turn_advance s k)"
  by (auto simp: turn_valid_def turn_advance_def side_values_def)

lemma turn_advance_ply: "turn_valid s \<Longrightarrow> ply (turn_advance s k) = ply s + 1"
  by (auto simp: turn_valid_def turn_advance_def side_values_def ply_def)

lemma turn_step_eq:
  "turn_valid s \<Longrightarrow> turn_step s k =
     (if k \<in> set move_kinds then Inr (turn_advance s k) else Inl Illegal_transition)"
  by (auto simp: turn_step_def apply_move_def turn_validate_dict require_def move_kinds_def
      reset_when_def)

interpretation tm: guarded_machine turn_step turn_valid "\<lambda>s t. ply s \<le> ply t"
  by unfold_locales (auto simp: turn_step_eq turn_advance_valid turn_advance_ply split: if_splits)

lemma turn_run_all:
  "turn_valid s \<Longrightarrow> set ks \<subseteq> set move_kinds \<Longrightarrow>
     run_all turn_step s ks = Inr (foldl turn_advance s ks)"
  by (induction ks arbitrary: s) (auto simp: turn_step_eq turn_advance_valid)

lemma foldl_advance_ply:
  "turn_valid s \<Longrightarrow> ply (foldl turn_advance s ks) = ply s + int (length ks)"
  by (induction ks arbitrary: s) (simp_all add: turn_advance_ply turn_advance_valid)

lemma foldl_advance_half:
  "ts_half (foldl turn_advance s ks) =
     (let q = takeWhile (\<lambda>k. k \<notin> set reset_when) (rev ks)
      in int (length q) + (if q = rev ks then ts_half s else 0))"
proof (induction ks rule: rev_induct)
  case (snoc k ks)
  have len: "takeWhile P (rev ks) = rev ks \<longleftrightarrow> list_all P ks" for P
    by (metis Ball_set rev_rev_ident set_rev takeWhile_eq_all_conv)
  show ?case using snoc by (auto simp: turn_advance_def Let_def)
qed simp

lemma foldl_advance_valid: "turn_valid s \<Longrightarrow> turn_valid (foldl turn_advance s ks)"
  by (induction ks arbitrary: s) (auto simp: turn_advance_valid)

subsection \<open>Properties\<close>

text \<open>C39. A game of accepted moves: from any state dict that validates, a list of declared move
  kinds is accepted in full, the state stays valid, the ply number grows by exactly one per
  move (so the sides alternate and the fullmove number grows exactly on black's moves), and the
  halfmove clock is the number of moves since the last pawn move or capture.\<close>

theorem turn_game:
  assumes "turn_validate v = Inr s" and "set ks \<subseteq> set move_kinds"
  shows "\<exists>t. run_all turn_step s ks = Inr t \<and> turn_valid t
    \<and> ply t = ply s + int (length ks)
    \<and> ts_half t = (let q = takeWhile (\<lambda>k. k \<notin> set reset_when) (rev ks)
         in int (length q) + (if q = rev ks then ts_half s else 0))"
  using turn_validate_valid [OF assms(1)] assms(2)
  by (intro exI [of _ "foldl turn_advance s ks"])
    (simp add: turn_run_all foldl_advance_ply foldl_advance_half foldl_advance_valid)

theorem turn_game_witness:
  "\<exists>t. run_all turn_step \<lparr>ts_side = ''w'', ts_half = 3, ts_full = 7\<rparr>
      [''quiet'', ''capture'', ''quiet''] = Inr t \<and> ply t = 15 \<and> ts_half t = 1"
proof -
  have v: "turn_validate (turn_dict \<lparr>ts_side = ''w'', ts_half = 3, ts_full = 7\<rparr>)
      = Inr \<lparr>ts_side = ''w'', ts_half = 3, ts_full = 7\<rparr>"
    by (rule turn_validate_dict) (simp add: turn_valid_def side_values_def)
  have k: "set [''quiet'', ''capture'', ''quiet''] \<subseteq> set move_kinds"
    by (simp add: move_kinds_def reset_when_def)
  show ?thesis using turn_game [OF v k] by (auto simp: ply_def reset_when_def)
qed

end
