(* ===== verification/Board.thy ===== *)
theory Board
  imports PyValue
begin

text \<open>
  Squares, coordinates and occupancy dicts as the legal-moves and en-passant runtimes use them:
  a square is a two-character string, its coordinates are the indices of its file and rank, a
  piece token is side and letter, and an occupancy is a dict from squares to tokens (its items
  in insertion order).
\<close>

type_synonym square = string
type_synonym token = string
type_synonym occupancy = "(square \<times> token) list"
type_synonym delta = "int \<times> int"

definition FILES :: string where "FILES = ''abcdefgh''"
definition RANKS :: string where "RANKS = ''12345678''"

text \<open>\<open>xs.index(c)\<close>; it is only called where \<open>c\<close> occurs.\<close>

fun index_of :: "string \<Rightarrow> char \<Rightarrow> int" where
  "index_of [] c = 0"
| "index_of (d # ds) c = (if c = d then 0 else 1 + index_of ds c)"

definition xy :: "square \<Rightarrow> int \<times> int" where
  "xy s = (index_of FILES (s ! 0), index_of RANKS (s ! 1))"

definition sq :: "int \<Rightarrow> int \<Rightarrow> square" where
  "sq x y = [FILES ! nat x, RANKS ! nat y]"

definition on_board :: "int \<Rightarrow> int \<Rightarrow> bool" where
  "on_board x y \<longleftrightarrow> 0 \<le> x \<and> x < int (length FILES) \<and> 0 \<le> y \<and> y < int (length RANKS)"

definition grammar_ok :: "string \<Rightarrow> bool" where
  "grammar_ok s \<longleftrightarrow> length s = 2 \<and> s ! 0 \<in> set FILES \<and> s ! 1 \<in> set RANKS"

definition other :: "char \<Rightarrow> char" where
  "other side = (if side = CHR ''w'' then CHR ''b'' else CHR ''w'')"

definition token_ok :: "string \<Rightarrow> bool" where
  "token_ok t \<longleftrightarrow> length t = 2 \<and> t ! 0 \<in> set ''wb'' \<and> t ! 1 \<in> set ''pnbrqk''"

definition king_count :: "occupancy \<Rightarrow> char \<Rightarrow> nat" where
  "king_count occ side = length (filter (\<lambda>t. t = [side, CHR ''k'']) (map snd occ))"

text \<open>What every validator of a position guarantees (keys are distinct because it is a dict).\<close>

definition valid_occ :: "occupancy \<Rightarrow> bool" where
  "valid_occ occ \<longleftrightarrow> distinct (map fst occ) \<and> (\<forall>(s, t) \<in> set occ. grammar_ok s \<and> token_ok t)
     \<and> king_count occ CHR ''w'' = 1 \<and> king_count occ CHR ''b'' = 1"

subsection \<open>Coordinates\<close>

lemma FILES_len [simp]: "length FILES = 8" and RANKS_len [simp]: "length RANKS = 8"
  by (simp_all add: FILES_def RANKS_def)

lemma on_board_iff: "on_board x y \<longleftrightarrow> 0 \<le> x \<and> x < 8 \<and> 0 \<le> y \<and> y < 8"
  by (simp add: on_board_def)

lemma coord_cases: "0 \<le> x \<Longrightarrow> x < (8::int) \<Longrightarrow>
    x = 0 \<or> x = 1 \<or> x = 2 \<or> x = 3 \<or> x = 4 \<or> x = 5 \<or> x = 6 \<or> x = 7"
  by arith

lemma index_FILES: "0 \<le> x \<Longrightarrow> x < 8 \<Longrightarrow> index_of FILES (FILES ! nat x) = x"
  by (drule (1) coord_cases) (auto simp: FILES_def)

lemma index_RANKS: "0 \<le> x \<Longrightarrow> x < 8 \<Longrightarrow> index_of RANKS (RANKS ! nat x) = x"
  by (drule (1) coord_cases) (auto simp: RANKS_def)

lemma RANKS_at [simp]: "RANKS ! Suc 0 = CHR ''2''" "RANKS ! 2 = CHR ''3''" "RANKS ! 3 = CHR ''4''"
  "RANKS ! 4 = CHR ''5''" "RANKS ! 5 = CHR ''6''" "RANKS ! 6 = CHR ''7''"
  by (simp_all add: RANKS_def)

lemma FILES_nth_inj: "0 \<le> x \<Longrightarrow> x < 8 \<Longrightarrow> 0 \<le> u \<Longrightarrow> u < 8 \<Longrightarrow> FILES ! nat x = FILES ! nat u \<longleftrightarrow> x = u"
  by (metis index_FILES)

lemma RANKS_nth: "0 \<le> y \<Longrightarrow> y < 8 \<Longrightarrow>
   (RANKS ! nat y = CHR ''2'' \<longleftrightarrow> y = 1) \<and> (RANKS ! nat y = CHR ''3'' \<longleftrightarrow> y = 2) \<and>
   (RANKS ! nat y = CHR ''4'' \<longleftrightarrow> y = 3) \<and> (RANKS ! nat y = CHR ''5'' \<longleftrightarrow> y = 4) \<and>
   (RANKS ! nat y = CHR ''6'' \<longleftrightarrow> y = 5) \<and> (RANKS ! nat y = CHR ''7'' \<longleftrightarrow> y = 6)"
  by (drule (1) coord_cases) (auto simp: RANKS_def)

lemma FILES_index: "c \<in> set FILES \<Longrightarrow>
    FILES ! nat (index_of FILES c) = c \<and> 0 \<le> index_of FILES c \<and> index_of FILES c < 8"
  by (auto simp: FILES_def)

lemma RANKS_index: "c \<in> set RANKS \<Longrightarrow>
    RANKS ! nat (index_of RANKS c) = c \<and> 0 \<le> index_of RANKS c \<and> index_of RANKS c < 8"
  by (auto simp: RANKS_def)

lemma xy_sq [simp]: "on_board x y \<Longrightarrow> xy (sq x y) = (x, y)"
  by (simp add: xy_def sq_def on_board_iff index_FILES index_RANKS)

lemma sq_grammar [simp]: "on_board x y \<Longrightarrow> grammar_ok (sq x y)"
  by (auto simp: grammar_ok_def sq_def on_board_iff)

lemma sq_inj: "on_board x y \<Longrightarrow> on_board u v \<Longrightarrow> sq x y = sq u v \<longleftrightarrow> x = u \<and> y = v"
  by (metis xy_sq prod.inject)

lemma grammar_xy:
  assumes "grammar_ok s" "xy s = (x, y)"
  shows "on_board x y" "sq x y = s"
proof -
  obtain c d where s: "s = [c, d]"
    using assms(1) by (auto simp: grammar_ok_def length_Suc_conv numeral_2_eq_2)
  show "on_board x y" "sq x y = s"
    using assms FILES_index [of c] RANKS_index [of d]
    by (auto simp: s grammar_ok_def xy_def sq_def on_board_iff)
qed

lemma grammar_sqE:
  assumes "grammar_ok s"
  obtains x y where "on_board x y" "s = sq x y" "xy s = (x, y)"
  using grammar_xy [OF assms] by (metis surj_pair)

lemma token_okE:
  assumes "token_ok t"
  obtains c p where "t = [c, p]" "c \<in> set ''wb''" "p \<in> set ''pnbrqk''"
  using assms by (auto simp: token_ok_def length_Suc_conv numeral_2_eq_2)

lemma other_simps [simp]: "other CHR ''w'' = CHR ''b''" "other CHR ''b'' = CHR ''w''"
  by (simp_all add: other_def)

lemma other_neq [simp]: "other c \<noteq> c" "c \<noteq> other c"
  by (auto simp: other_def)

lemma side_cases: "c \<in> set ''wb'' \<longleftrightarrow> c = CHR ''w'' \<or> c = CHR ''b''"
  by simp

lemma other_side: "c \<in> set ''wb'' \<Longrightarrow> other c \<in> set ''wb''"
  by (auto simp: other_def)

lemma enemy_iff: "a \<in> set ''wb'' \<Longrightarrow> b \<in> set ''wb'' \<Longrightarrow> a \<noteq> b \<longleftrightarrow> a = other b"
  by (auto simp: other_def)

declare One_nat_def [simp del]

subsection \<open>Walks\<close>

text \<open>Every slider loop of the runtimes walks in a fixed direction while it is on the board. What
  gets smaller is the room left before the edge.\<close>

definition ray_room :: "int \<Rightarrow> int \<Rightarrow> int \<Rightarrow> int \<Rightarrow> nat" where
  "ray_room dx dy x y = nat (if 0 < dx then 8 - x else if dx < 0 then x + 1
     else if 0 < dy then 8 - y else y + 1)"

lemma ray_room_less:
  "on_board x y \<Longrightarrow> (dx, dy) \<noteq> (0, 0) \<Longrightarrow> ray_room dx dy (x + dx) (y + dy) < ray_room dx dy x y"
  by (auto simp: ray_room_def on_board_iff)

text \<open>The shape of a walk: \<open>k\<close> steps from \<open>(x, y)\<close> that stay on the board, with nothing in
  the way before the last square.\<close>

definition reach :: "(square \<Rightarrow> bool) \<Rightarrow> int \<Rightarrow> int \<Rightarrow> int \<Rightarrow> int \<Rightarrow> nat \<Rightarrow> bool" where
  "reach blocked dx dy x y k \<longleftrightarrow>
     (\<forall>j \<le> k. on_board (x + int j * dx) (y + int j * dy)) \<and>
     (\<forall>j < k. \<not> blocked (sq (x + int j * dx) (y + int j * dy)))"

lemma reach_0: "reach B dx dy x y 0 \<longleftrightarrow> on_board x y"
  by (simp add: reach_def)

lemma reach_Suc: "reach B dx dy x y (Suc k) \<longleftrightarrow>
    on_board x y \<and> \<not> B (sq x y) \<and> reach B dx dy (x + dx) (y + dy) k"
proof -
  have 1: "(\<forall>j \<le> Suc k. P j) \<longleftrightarrow> P 0 \<and> (\<forall>j \<le> k. P (Suc j))" for P
    by (metis Suc_le_mono le0 not0_implies_Suc)
  have 2: "(\<forall>j < Suc k. P j) \<longleftrightarrow> P 0 \<and> (\<forall>j < k. P (Suc j))" for P
    by (metis All_less_Suc2)
  show ?thesis unfolding reach_def 1 2 by (auto simp: algebra_simps)
qed

lemma reach_ex_iff:
  "(\<exists>k. reach B dx dy x y k \<and> P (sq (x + int k * dx) (y + int k * dy))) \<longleftrightarrow>
     on_board x y \<and> (P (sq x y) \<or> (\<not> B (sq x y) \<and>
       (\<exists>k. reach B dx dy (x + dx) (y + dy) k
          \<and> P (sq (x + dx + int k * dx) (y + dy + int k * dy)))))"
  (is "?L \<longleftrightarrow> ?R")
proof -
  have *: "?L \<longleftrightarrow> (reach B dx dy x y 0 \<and> P (sq x y)) \<or>
      (\<exists>k. reach B dx dy x y (Suc k) \<and> P (sq (x + int (Suc k) * dx) (y + int (Suc k) * dy)))"
    by (metis (no_types, lifting) add.right_neutral mult_zero_left of_nat_0 not0_implies_Suc)
  show ?thesis unfolding * reach_0 reach_Suc by (auto simp: algebra_simps)
qed

end
