(* ===== verification/LegalMoves.thy ===== *)
theory LegalMoves
  imports Board
begin

text \<open>
  The legal-moves runtime, \<open>src/tools/legal_moves_runtime.py\<close> over
  \<open>src/data/contracts/legal_moves.yaml\<close>: pseudo-legal destinations, the attack relation, the
  legal move generator, the terminal classification and the validated transition. The public
  functions take arbitrary Python values; \<open>lm_validate\<close> turns a state dict into \<open>lm_state\<close> (the
  side, a one-character string, becomes its character), and the functions below it work on that.
  A \<open>LegalMovesError\<close> is \<open>Inl\<close> of its failure class, \<open>Malformed\<close> for a structural defect
  (class \<open>None\<close>); \<open>lm_code\<close> gives the code.
\<close>

subsection \<open>Contract tables\<close>

datatype lm_error = Malformed | Malformed_move | No_piece | Not_players_piece
  | Unreachable_target | Promotion_missing | Promotion_forbidden | Leaves_king_attacked

fun lm_code :: "lm_error \<Rightarrow> string" where
  "lm_code Malformed = ''malformed_request''"
| "lm_code Malformed_move = ''malformed_request''"
| "lm_code _ = ''illegal_move''"

definition KNIGHT_DELTAS :: "delta list" where
  "KNIGHT_DELTAS = [(1, 2), (2, 1), (-1, 2), (-2, 1), (1, -2), (2, -1), (-1, -2), (-2, -1)]"

definition KING_DELTAS :: "delta list" where
  "KING_DELTAS = [(1, 0), (-1, 0), (0, 1), (0, -1), (1, 1), (1, -1), (-1, 1), (-1, -1)]"

definition ROOK_DIRS :: "delta list" where
  "ROOK_DIRS = [(1, 0), (-1, 0), (0, 1), (0, -1)]"

definition BISHOP_DIRS :: "delta list" where
  "BISHOP_DIRS = [(1, 1), (1, -1), (-1, 1), (-1, -1)]"

definition QUEEN_DIRS :: "delta list" where
  "QUEEN_DIRS = [(1, 0), (-1, 0), (0, 1), (0, -1), (1, 1), (1, -1), (-1, 1), (-1, -1)]"

definition PROMO_VALUES :: "string list" where
  "PROMO_VALUES = [''q'', ''r'', ''b'', ''n'']"

definition FORWARD :: "char \<Rightarrow> delta" where
  "FORWARD side = (if side = CHR ''w'' then (0, 1) else (0, -1))"

definition CAPTURE_DELTAS :: "char \<Rightarrow> delta list" where
  "CAPTURE_DELTAS side = (if side = CHR ''w'' then [(1, 1), (-1, 1)] else [(1, -1), (-1, -1)])"

definition DOUBLE_RANK :: "char \<Rightarrow> char" where
  "DOUBLE_RANK side = (if side = CHR ''w'' then CHR ''2'' else CHR ''7'')"

definition PROMO_RANK :: "char \<Rightarrow> char" where
  "PROMO_RANK side = (if side = CHR ''w'' then CHR ''8'' else CHR ''1'')"

definition leaper :: "char \<Rightarrow> delta list option" where
  "leaper p = (if p = CHR ''n'' then Some KNIGHT_DELTAS
     else if p = CHR ''k'' then Some KING_DELTAS else None)"

definition slider :: "char \<Rightarrow> delta list option" where
  "slider p = (if p = CHR ''r'' then Some ROOK_DIRS else if p = CHR ''b'' then Some BISHOP_DIRS
     else if p = CHR ''q'' then Some QUEEN_DIRS else None)"

subsection \<open>States and moves\<close>

record lm_state =
  occupied :: occupancy
  to_move :: char

record lm_move =
  from_square :: square
  to_square :: square
  promotion :: "string option"

text \<open>\<open>_validate_state\<close>; \<open>_grammar_ok\<close> is \<open>matches grammar_ok\<close>.\<close>

fun occ_items :: "pydict \<Rightarrow> (lm_error, occupancy) result" where
  "occ_items [] = Inr []"
| "occ_items ((k, v) # d) =
     (case k of PStr s \<Rightarrow>
        require (grammar_ok s) Malformed
          (case v of PStr t \<Rightarrow> require (token_ok t) Malformed
             (and_then (occ_items d) (\<lambda>occ. Inr ((s, t) # occ)))
           | _ \<Rightarrow> Inl Malformed)
      | _ \<Rightarrow> Inl Malformed)"

definition lm_validate :: "pyval \<Rightarrow> (lm_error, lm_state) result" where
  "lm_validate state = (case state of PDict _ d \<Rightarrow>
       require (keys_are d [''occupied'', ''side_to_move'']) Malformed
       (case pget d ''occupied'' of
          Some (PDict _ items) \<Rightarrow>
            and_then (occ_items items) (\<lambda>occ.
            (case pget d ''side_to_move'' of
               Some (PStr [side]) \<Rightarrow>
                 require (side \<in> set ''wb'') Malformed
                 (require (\<forall>c \<in> set ''wb''. king_count occ c = 1) Malformed
                   (Inr \<lparr>occupied = occ, to_move = side\<rparr>))
             | _ \<Rightarrow> Inl Malformed))
        | _ \<Rightarrow> Inl Malformed)
     | _ \<Rightarrow> Inl Malformed)"

definition lm_valid :: "lm_state \<Rightarrow> bool" where
  "lm_valid s \<longleftrightarrow> valid_occ (occupied s) \<and> to_move s \<in> set ''wb''"

subsection \<open>Movement and attack\<close>

text \<open>The \<open>while\<close> loop of \<open>_pseudo_targets\<close>: empty squares, then the first piece if it is an
  enemy. The second conjunct of the guard only makes the walk total: every declared direction
  is non-zero.\<close>

function slide_targets :: "occupancy \<Rightarrow> char \<Rightarrow> int \<Rightarrow> int \<Rightarrow> int \<Rightarrow> int \<Rightarrow> square list" where
  "slide_targets occ side dx dy nx ny =
     (if on_board nx ny \<and> (dx, dy) \<noteq> (0, 0) then
        (case map_of occ (sq nx ny) of
           None \<Rightarrow> sq nx ny # slide_targets occ side dx dy (nx + dx) (ny + dy)
         | Some hit \<Rightarrow> (if hit ! 0 \<noteq> side then [sq nx ny] else []))
      else [])"
  by pat_completeness auto
termination
  by (relation "measure (\<lambda>(occ, side, dx, dy, nx, ny). ray_room dx dy nx ny)")
    (auto simp del: prod.inject intro: ray_room_less)

text \<open>The \<open>while\<close> loop of \<open>_attacked_squares\<close>: every square up to and including the first
  piece.\<close>

function slide_attacks :: "occupancy \<Rightarrow> int \<Rightarrow> int \<Rightarrow> int \<Rightarrow> int \<Rightarrow> square list" where
  "slide_attacks occ dx dy nx ny =
     (if on_board nx ny \<and> (dx, dy) \<noteq> (0, 0) then
        sq nx ny # (if map_of occ (sq nx ny) \<noteq> None then []
                    else slide_attacks occ dx dy (nx + dx) (ny + dy))
      else [])"
  by pat_completeness auto
termination
  by (relation "measure (\<lambda>(occ, dx, dy, nx, ny). ray_room dx dy nx ny)")
    (auto simp del: prod.inject intro: ray_room_less)

declare slide_targets.simps [simp del] slide_attacks.simps [simp del]

definition pawn_targets :: "occupancy \<Rightarrow> char \<Rightarrow> int \<Rightarrow> int \<Rightarrow> square list" where
  "pawn_targets occ side x y =
     (let (fx, fy) = FORWARD side in
      (if on_board (x + fx) (y + fy) \<and> map_of occ (sq (x + fx) (y + fy)) = None then
         sq (x + fx) (y + fy) #
         (if RANKS ! nat y = DOUBLE_RANK side \<and> on_board (x + 2 * fx) (y + 2 * fy)
             \<and> map_of occ (sq (x + 2 * fx) (y + 2 * fy)) = None
          then [sq (x + 2 * fx) (y + 2 * fy)] else [])
       else []) @
      concat (map (\<lambda>(dx, dy).
        if on_board (x + dx) (y + dy) then
          (case map_of occ (sq (x + dx) (y + dy)) of
             None \<Rightarrow> []
           | Some hit \<Rightarrow> (if hit ! 0 \<noteq> side then [sq (x + dx) (y + dy)] else []))
        else []) (CAPTURE_DELTAS side)))"

text \<open>\<open>_pseudo_targets(occ, sq)\<close> for the token on the square; \<open>exclude\<close> is the parameter
  \<open>_exclude_enemy_king\<close>, true in production. The set is its list of elements.\<close>

definition raw_targets :: "occupancy \<Rightarrow> square \<Rightarrow> token \<Rightarrow> square list" where
  "raw_targets occ s tok =
     (let side = tok ! 0; piece = tok ! 1; (x, y) = xy s in
      case leaper piece of
        Some ds \<Rightarrow> concat (map (\<lambda>(dx, dy).
          if on_board (x + dx) (y + dy) then
            (case map_of occ (sq (x + dx) (y + dy)) of
               None \<Rightarrow> [sq (x + dx) (y + dy)]
             | Some hit \<Rightarrow> (if hit ! 0 \<noteq> side then [sq (x + dx) (y + dy)] else []))
          else []) ds)
      | None \<Rightarrow>
         (case slider piece of
            Some ds \<Rightarrow> concat (map (\<lambda>(dx, dy).
              slide_targets occ side dx dy (x + dx) (y + dy)) ds)
          | None \<Rightarrow> if piece = CHR ''p'' then pawn_targets occ side x y else []))"

definition pseudo_targets :: "occupancy \<Rightarrow> square \<Rightarrow> token \<Rightarrow> bool \<Rightarrow> square list" where
  "pseudo_targets occ s tok exclude =
     (if exclude
      then filter (\<lambda>t. map_of occ t \<noteq> Some [other (tok ! 0), CHR ''k'']) (raw_targets occ s tok)
      else raw_targets occ s tok)"

text \<open>\<open>_attacked_squares(occ, side)\<close>: the body of the loop over the occupancy, and the loop.\<close>

definition piece_attacks :: "occupancy \<Rightarrow> square \<Rightarrow> token \<Rightarrow> square list" where
  "piece_attacks occ s tok =
     (let side = tok ! 0; piece = tok ! 1; (x, y) = xy s;
          hops = (\<lambda>ds. concat (map (\<lambda>(dx, dy).
            if on_board (x + dx) (y + dy) then [sq (x + dx) (y + dy)] else []) ds)) in
      case leaper piece of
        Some ds \<Rightarrow> hops ds
      | None \<Rightarrow>
         (case slider piece of
            Some ds \<Rightarrow> concat (map (\<lambda>(dx, dy). slide_attacks occ dx dy (x + dx) (y + dy)) ds)
          | None \<Rightarrow> if piece = CHR ''p'' then hops (CAPTURE_DELTAS side) else []))"

definition attacked_squares :: "occupancy \<Rightarrow> char \<Rightarrow> square list" where
  "attacked_squares occ side =
     concat (map (\<lambda>(s, tok). if tok ! 0 \<noteq> side then [] else piece_attacks occ s tok) occ)"

text \<open>\<open>next(sq for ...)\<close>: \<open>None\<close> would be a \<open>StopIteration\<close>.\<close>

definition king_square :: "occupancy \<Rightarrow> char \<Rightarrow> square option" where
  "king_square occ side = map_option fst (find (\<lambda>(s, tok). tok = [side, CHR ''k'']) occ)"

subsection \<open>Moves\<close>

definition apply_occupancy :: "occupancy \<Rightarrow> lm_move \<Rightarrow> occupancy" where
  "apply_occupancy occ m =
     (let tok = the (map_of occ (from_square m));
          tok' = (case promotion m of None \<Rightarrow> tok | Some p \<Rightarrow> tok ! 0 # p) in
      filter (\<lambda>kv. fst kv \<noteq> from_square m \<and> fst kv \<noteq> to_square m) occ @ [(to_square m, tok')])"

definition king_attacked :: "occupancy \<Rightarrow> char \<Rightarrow> bool" where
  "king_attacked occ side = (case king_square occ side of
       Some k \<Rightarrow> k \<in> set (attacked_squares occ (other side)) | None \<Rightarrow> True)"

definition leaves_king_safe :: "occupancy \<Rightarrow> lm_move \<Rightarrow> char \<Rightarrow> bool" where
  "leaves_king_safe occ m side = (\<not> king_attacked (apply_occupancy occ m) side)"

text \<open>\<open>legal_moves\<close> after \<open>_validate_state\<close>. Dict keys are distinct, so sorting the items is
  sorting by square; \<open>sorted\<close> of the target set is \<open>sort\<close> of its list without repetitions.\<close>

definition promotes :: "token \<Rightarrow> square \<Rightarrow> char \<Rightarrow> bool" where
  "promotes tok t side \<longleftrightarrow> tok ! 1 = CHR ''p'' \<and> t ! 1 = PROMO_RANK side"

definition piece_moves :: "occupancy \<Rightarrow> char \<Rightarrow> square \<Rightarrow> token \<Rightarrow> lm_move list" where
  "piece_moves occ side s tok =
     filter (\<lambda>m. leaves_king_safe occ m side)
       (concat (map (\<lambda>t. map (\<lambda>pr. \<lparr>from_square = s, to_square = t, promotion = pr\<rparr>)
            (if promotes tok t side then map Some PROMO_VALUES else [None]))
          (sort (remdups (pseudo_targets occ s tok True)))))"

definition lm_moves :: "lm_state \<Rightarrow> lm_move list" where
  "lm_moves st = concat (map (\<lambda>(s, tok).
       if tok ! 0 \<noteq> to_move st then [] else piece_moves (occupied st) (to_move st) s tok)
     (sort_key fst (occupied st)))"

definition legal_moves :: "pyval \<Rightarrow> (lm_error, lm_move list) result" where
  "legal_moves state = and_then (lm_validate state) (\<lambda>st. Inr (lm_moves st))"

definition is_attacked :: "pyval \<Rightarrow> pyval \<Rightarrow> pyval \<Rightarrow> (lm_error, bool) result" where
  "is_attacked state square attacker = and_then (lm_validate state) (\<lambda>st.
     (case square of PStr s \<Rightarrow> require (grammar_ok s) Malformed
        (case attacker of PStr [a] \<Rightarrow> require (a \<in> set ''wb'') Malformed
           (Inr (s \<in> set (attacked_squares (occupied st) a)))
         | _ \<Rightarrow> Inl Malformed)
      | _ \<Rightarrow> Inl Malformed))"

definition lm_status :: "lm_state \<Rightarrow> string" where
  "lm_status st =
     (let check = king_attacked (occupied st) (to_move st);
          zero = (length (lm_moves st) = 0) in
      if check \<and> zero then ''checkmate'' else if zero then ''stalemate''
      else if check then ''check'' else ''none'')"

definition terminal_status :: "pyval \<Rightarrow> (lm_error, string) result" where
  "terminal_status state = and_then (lm_validate state) (\<lambda>st. Inr (lm_status st))"

text \<open>\<open>_validate_move_shape\<close>. A promotion that is a \<open>str\<close> without a UTF-8 encoding is kept as
  the empty string: neither is in the enum.\<close>

definition move_shape :: "pyval \<Rightarrow> (lm_error, lm_move) result" where
  "move_shape v = (case v of PDict _ d \<Rightarrow>
       require (list_all is_str (map fst d)) Malformed_move
       (require (set (map fst d) \<subseteq> PStr ` {''from_square'', ''to_square'', ''promotion''})
         Malformed_move
       (case (pget d ''from_square'', pget d ''to_square'') of
          (Some (PStr fr), Some (PStr to)) \<Rightarrow>
            require (grammar_ok fr \<and> grammar_ok to) Malformed_move
            (require (fr \<noteq> to) Malformed_move
            (case pget d ''promotion'' of
               None \<Rightarrow> Inr \<lparr>from_square = fr, to_square = to, promotion = None\<rparr>
             | Some (PStr p) \<Rightarrow> Inr \<lparr>from_square = fr, to_square = to, promotion = Some p\<rparr>
             | Some PBadStr \<Rightarrow> Inr \<lparr>from_square = fr, to_square = to, promotion = Some []\<rparr>
             | _ \<Rightarrow> Inl Malformed_move))
        | _ \<Rightarrow> Inl Malformed_move))
     | _ \<Rightarrow> Inl Malformed_move)"

text \<open>\<open>apply\<close> after the two structural checks.\<close>

definition lm_apply :: "lm_state \<Rightarrow> lm_move \<Rightarrow> (lm_error, lm_state) result" where
  "lm_apply st m = (let occ = occupied st; side = to_move st in
     case map_of occ (from_square m) of
       None \<Rightarrow> Inl No_piece
     | Some tok \<Rightarrow>
        require (tok ! 0 = side) Not_players_piece
        (require (to_square m \<in> set (pseudo_targets occ (from_square m) tok True))
          Unreachable_target
        (require (case promotion m of None \<Rightarrow> True | Some p \<Rightarrow> p \<in> set PROMO_VALUES) Promotion_forbidden
        (require (promotes tok (to_square m) side \<longrightarrow> promotion m \<noteq> None) Promotion_missing
        (require (\<not> promotes tok (to_square m) side \<longrightarrow> promotion m = None) Promotion_forbidden
        (require (leaves_king_safe occ m side) Leaves_king_attacked
          (Inr \<lparr>occupied = apply_occupancy occ m, to_move = side\<rparr>)))))))"

definition apply_legal :: "pyval \<Rightarrow> pyval \<Rightarrow> (lm_error, lm_state) result" where
  "apply_legal state v =
     and_then (lm_validate state) (\<lambda>st. and_then (move_shape v) (lm_apply st))"

end
