(* ===== verification/LegalMovesFacts.thy ===== *)
theory LegalMovesFacts
  imports LegalMoves
begin

text \<open>
  Facts about the legal-moves runtime: what the slider walks reach, that the move generator and
  the validated transition agree, that accepted moves preserve well-formed positions and never
  leave the mover's king attacked, the order of the generated list, and that the attack relation
  is pseudo-legal capture.
\<close>

definition piece_on :: "occupancy \<Rightarrow> square \<Rightarrow> bool" where
  "piece_on occ s \<longleftrightarrow> map_of occ s \<noteq> None"

subsection \<open>Walks\<close>

lemma slide_attacks_iff:
  "(dx, dy) \<noteq> (0, 0) \<Longrightarrow> z \<in> set (slide_attacks occ dx dy x y) \<longleftrightarrow>
     (\<exists>k. reach (piece_on occ) dx dy x y k \<and> z = sq (x + int k * dx) (y + int k * dy))"
proof (induction occ dx dy x y rule: slide_attacks.induct)
  case (1 occ dx dy x y)
  note step = reach_ex_iff [of "piece_on occ" dx dy x y "\<lambda>s. z = s"]
  show ?case
    by (subst slide_attacks.simps, subst step) (use 1 in \<open>auto simp: piece_on_def [of occ "sq x y"]\<close>)
qed

lemma slide_targets_iff:
  "(dx, dy) \<noteq> (0, 0) \<Longrightarrow> z \<in> set (slide_targets occ side dx dy x y) \<longleftrightarrow>
     (\<exists>k. reach (piece_on occ) dx dy x y k \<and> z = sq (x + int k * dx) (y + int k * dy))
     \<and> (\<forall>hit. map_of occ z = Some hit \<longrightarrow> hit ! 0 \<noteq> side)"
proof (induction occ side dx dy x y rule: slide_targets.induct)
  case (1 occ side dx dy x y)
  note step = reach_ex_iff [of "piece_on occ" dx dy x y "\<lambda>s. z = s"]
  show ?case
    by (subst slide_targets.simps, subst step) (use 1 in \<open>auto simp: piece_on_def [of occ "sq x y"] split: option.splits\<close>)
qed

lemma slider_nonzero: "slider p = Some ds \<Longrightarrow> (dx, dy) \<in> set ds \<Longrightarrow> (dx, dy) \<noteq> (0, 0)"
  by (auto simp: slider_def ROOK_DIRS_def BISHOP_DIRS_def QUEEN_DIRS_def split: if_splits)

lemma leaper_nonzero: "leaper p = Some ds \<Longrightarrow> (dx, dy) \<in> set ds \<Longrightarrow> (dx, dy) \<noteq> (0, 0)"
  by (auto simp: leaper_def KNIGHT_DELTAS_def KING_DELTAS_def split: if_splits)

lemma capture_delta_nonzero: "(dx, dy) \<in> set (CAPTURE_DELTAS c) \<Longrightarrow> (dx, dy) \<noteq> (0, 0)"
  by (auto simp: CAPTURE_DELTAS_def split: if_splits)

subsection \<open>Destinations\<close>

lemma reach_end: "reach B dx dy x y k \<Longrightarrow> on_board (x + int k * dx) (y + int k * dy)"
  by (simp add: reach_def)

lemma mem_if_list: "t \<in> set (if b then xs else ys) \<longleftrightarrow> (if b then t \<in> set xs else t \<in> set ys)"
  by simp

lemma mem_case_option: "t \<in> set (case q of None \<Rightarrow> xs | Some h \<Rightarrow> f h) \<longleftrightarrow>
    (q = None \<and> t \<in> set xs) \<or> (\<exists>h. q = Some h \<and> t \<in> set (f h))"
  by (cases q) simp_all

lemma mem_concat_pairs: "t \<in> set (concat (map (\<lambda>(a, b). f a b) ds)) \<longleftrightarrow>
    (\<exists>a b. (a, b) \<in> set ds \<and> t \<in> set (f a b))"
  by auto

lemmas mem_targets = mem_if_list mem_case_option mem_concat_pairs

lemma mem_pawn_targets:
  "t \<in> set (pawn_targets occ c x y) \<longleftrightarrow> (let (fx, fy) = FORWARD c in
     on_board (x + fx) (y + fy) \<and> map_of occ (sq (x + fx) (y + fy)) = None \<and>
       (t = sq (x + fx) (y + fy) \<or>
        RANKS ! nat y = DOUBLE_RANK c \<and> on_board (x + 2 * fx) (y + 2 * fy) \<and>
        map_of occ (sq (x + 2 * fx) (y + 2 * fy)) = None \<and> t = sq (x + 2 * fx) (y + 2 * fy)))
   \<or> (\<exists>dx dy hit. (dx, dy) \<in> set (CAPTURE_DELTAS c) \<and> on_board (x + dx) (y + dy) \<and>
        map_of occ (sq (x + dx) (y + dy)) = Some hit \<and> hit ! 0 \<noteq> c \<and> t = sq (x + dx) (y + dy))"
  unfolding pawn_targets_def Let_def split_beta mem_targets set_append Un_iff
    list.set insert_iff empty_iff
  by (intro arg_cong2 [where f = "(\<or>)"]) auto

lemma pawn_targets_square:
  assumes "t \<in> set (pawn_targets occ c x y)"
  shows "grammar_ok t \<and> (\<forall>hit. map_of occ t = Some hit \<longrightarrow> hit ! 0 \<noteq> c)"
  using assms unfolding mem_pawn_targets Let_def split_beta by fastforce

lemma raw_targets_square:
  assumes "t \<in> set (raw_targets occ s tok)"
  shows "grammar_ok t" "map_of occ t = Some hit \<Longrightarrow> hit ! 0 \<noteq> tok ! 0"
proof -
  have "grammar_ok t \<and> (\<forall>hit. map_of occ t = Some hit \<longrightarrow> hit ! 0 \<noteq> tok ! 0)"
  proof (cases "leaper (tok ! 1)")
    case (Some ds)
    then show ?thesis using assms
      by (auto simp: raw_targets_def Let_def split: if_splits option.splits prod.splits)
  next
    case None
    note leaper_none = None
    show ?thesis
    proof (cases "slider (tok ! 1)")
      case (Some ds)
      obtain x y where xy: "xy s = (x, y)" by fastforce
      from assms obtain dx dy where d: "(dx, dy) \<in> set ds"
        and t: "t \<in> set (slide_targets occ (tok ! 0) dx dy (x + dx) (y + dy))"
        by (auto simp: raw_targets_def Let_def leaper_none Some xy)
      from t show ?thesis
        by (auto simp: slide_targets_iff [OF slider_nonzero [OF Some d]] dest: reach_end)
    next
      case None
      obtain x y where xy: "xy s = (x, y)" by fastforce
      from assms have "t \<in> set (pawn_targets occ (tok ! 0) x y)"
        by (auto simp: raw_targets_def Let_def leaper_none None xy split: if_splits)
      then show ?thesis by (rule pawn_targets_square)
    qed
  qed
  then show "grammar_ok t" "map_of occ t = Some hit \<Longrightarrow> hit ! 0 \<noteq> tok ! 0" by auto
qed

lemma pseudo_targets_square:
  assumes "t \<in> set (pseudo_targets occ s tok True)"
  shows "grammar_ok t" "map_of occ t = Some hit \<Longrightarrow> hit ! 0 \<noteq> tok ! 0"
    "map_of occ t \<noteq> Some [other (tok ! 0), CHR ''k'']"
  using assms raw_targets_square by (auto simp: pseudo_targets_def)

lemma pseudo_targets_moves:
  "map_of occ s = Some tok \<Longrightarrow> t \<in> set (pseudo_targets occ s tok True) \<Longrightarrow> t \<noteq> s"
  using pseudo_targets_square(2) by blast

subsection \<open>Generator and validator\<close>

text \<open>What the checks of \<open>apply\<close> amount to.\<close>

definition playable :: "lm_state \<Rightarrow> lm_move \<Rightarrow> token \<Rightarrow> bool" where
  "playable st m tok \<longleftrightarrow> map_of (occupied st) (from_square m) = Some tok
     \<and> tok ! 0 = to_move st
     \<and> to_square m \<in> set (pseudo_targets (occupied st) (from_square m) tok True)
     \<and> (if promotes tok (to_square m) (to_move st) then promotion m \<in> Some ` set PROMO_VALUES
        else promotion m = None)
     \<and> leaves_king_safe (occupied st) m (to_move st)"

lemma lm_apply_Inr:
  "lm_apply st m = Inr st' \<longleftrightarrow> (\<exists>tok. playable st m tok) \<and>
     st' = \<lparr>occupied = apply_occupancy (occupied st) m, to_move = to_move st\<rparr>"
  by (cases "promotion m")
    (auto simp: lm_apply_def playable_def Let_def split: option.splits if_splits)

lemma accepts_lm_apply: "accepts (lm_apply st m) \<longleftrightarrow> (\<exists>tok. playable st m tok)"
  by (auto simp: accepts_iff lm_apply_Inr)

lemma mem_piece_moves:
  "m \<in> set (piece_moves occ side s tok) \<longleftrightarrow> from_square m = s
     \<and> to_square m \<in> set (pseudo_targets occ s tok True)
     \<and> (if promotes tok (to_square m) side then promotion m \<in> Some ` set PROMO_VALUES
        else promotion m = None)
     \<and> leaves_king_safe occ m side"
  by (cases m) (auto simp: piece_moves_def)

lemma mem_lm_moves:
  assumes "distinct (map fst (occupied st))"
  shows "m \<in> set (lm_moves st) \<longleftrightarrow> (\<exists>tok. playable st m tok)"
  by (auto simp: lm_moves_def playable_def mem_piece_moves
      map_of_mem_distinct [OF assms, symmetric] split: if_splits)

lemma lm_valid_distinct: "lm_valid st \<Longrightarrow> distinct (map fst (occupied st))"
  by (simp add: lm_valid_def valid_occ_def)

subsection \<open>Preservation\<close>

lemma king_count_filter:
  "distinct (map fst occ) \<Longrightarrow>
     king_count (filter (\<lambda>kv. fst kv \<noteq> s) occ) c
       + (if map_of occ s = Some [c, CHR ''k''] then 1 else 0) = king_count occ c"
proof (induction occ)
  case (Cons kv occ)
  obtain k v where kv: "kv = (k, v)" by fastforce
  show ?case
  proof (cases "k = s")
    case True
    with Cons.prems kv have "filter (\<lambda>kv. fst kv \<noteq> s) occ = occ"
      by (auto simp: filter_id_conv)
    with True kv show ?thesis by (simp add: king_count_def)
  next
    case False
    with Cons kv show ?thesis by (simp add: king_count_def)
  qed
qed (simp add: king_count_def)

lemma king_count_append: "king_count (xs @ ys) c = king_count xs c + king_count ys c"
  by (simp add: king_count_def)

lemma apply_occupancy_kings:
  assumes d: "distinct (map fst occ)" and f: "map_of occ s = Some tok" and ne: "t \<noteq> s"
    and nk: "map_of occ t \<noteq> Some [c, CHR ''k'']"
    and kk: "tok' = [c, CHR ''k''] \<longleftrightarrow> tok = [c, CHR ''k'']"
  shows "king_count (filter (\<lambda>kv. fst kv \<noteq> s \<and> fst kv \<noteq> t) occ @ [(t, tok')]) c
    = king_count occ c"
proof -
  let ?A = "filter (\<lambda>kv. fst kv \<noteq> s) occ"
  have two: "filter (\<lambda>kv. fst kv \<noteq> s \<and> fst kv \<noteq> t) occ = filter (\<lambda>kv. fst kv \<noteq> t) ?A"
    by (simp add: conj_commute)
  have "map_of ?A t = map_of occ t"
    using ne by (simp add: map_of_filter_key [where P = "\<lambda>k. k \<noteq> s"])
  then have "king_count (filter (\<lambda>kv. fst kv \<noteq> t) ?A) c = king_count ?A c"
    using king_count_filter [OF distinct_fst_filter [OF d, of "\<lambda>kv. fst kv \<noteq> s"], of t c] nk by simp
  then have "king_count (filter (\<lambda>kv. fst kv \<noteq> s \<and> fst kv \<noteq> t) occ) c = king_count ?A c"
    unfolding two .
  then show ?thesis
    using king_count_filter [OF d, of s c] f kk
    by (auto simp only: king_count_append) (auto simp: king_count_def)
qed

lemma playable_shape:
  assumes v: "lm_valid st" and pl: "playable st m tok"
  defines "tok' \<equiv> (case promotion m of None \<Rightarrow> tok | Some p \<Rightarrow> tok ! 0 # p)"
  shows "token_ok tok" "token_ok tok'"
    "tok' = [c, CHR ''k''] \<longleftrightarrow> tok = [c, CHR ''k'']"
proof -
  have "(from_square m, tok) \<in> set (occupied st)"
    using pl by (simp add: playable_def map_of_SomeD)
  then show ok: "token_ok tok" using v by (auto simp: lm_valid_def valid_occ_def)
  then obtain a p where tok: "tok = [a, p]" and a: "a \<in> set ''wb''" by (rule token_okE)
  have "token_ok tok' \<and> (tok' = [c, CHR ''k''] \<longleftrightarrow> tok = [c, CHR ''k''])"
  proof (cases "promotion m")
    case None
    then show ?thesis using ok by (simp add: tok'_def)
  next
    case (Some q)
    with pl have "promotes tok (to_square m) (to_move st)" "q \<in> set PROMO_VALUES"
      by (auto simp: playable_def split: if_splits)
    then have "p = CHR ''p''" "q = ''q'' \<or> q = ''r'' \<or> q = ''b'' \<or> q = ''n''"
      by (auto simp: promotes_def tok PROMO_VALUES_def)
    then show ?thesis using a by (auto simp: tok'_def Some tok token_ok_def)
  qed
  then show "token_ok tok'" "tok' = [c, CHR ''k''] \<longleftrightarrow> tok = [c, CHR ''k'']" by blast+
qed

lemma apply_occupancy_valid:
  assumes v: "lm_valid st" and p: "playable st m tok"
  shows "valid_occ (apply_occupancy (occupied st) m)"
proof -
  let ?occ = "occupied st"
  let ?tok' = "case promotion m of None \<Rightarrow> tok | Some p \<Rightarrow> tok ! 0 # p"
  let ?new = "filter (\<lambda>kv. fst kv \<noteq> from_square m \<and> fst kv \<noteq> to_square m) ?occ
    @ [(to_square m, ?tok')]"
  note sh = playable_shape [OF v p]
  from p have f: "map_of ?occ (from_square m) = Some tok" and side: "tok ! 0 = to_move st"
    and t: "to_square m \<in> set (pseudo_targets ?occ (from_square m) tok True)"
    by (simp_all add: playable_def)
  have new: "apply_occupancy ?occ m = ?new" by (simp add: apply_occupancy_def f)
  have d: "distinct (map fst ?occ)" using v by (rule lm_valid_distinct)
  have nk: "map_of ?occ (to_square m) \<noteq> Some [c, CHR ''k'']" if "c \<in> set ''wb''" for c
  proof
    assume k: "map_of ?occ (to_square m) = Some [c, CHR ''k'']"
    then have "c \<noteq> tok ! 0" using pseudo_targets_square(2) [OF t k] by simp
    then have "c = other (tok ! 0)"
      using that v side by (auto simp: lm_valid_def other_def)
    then show False using k pseudo_targets_square(3) [OF t] by simp
  qed
  have "king_count ?new c = 1" if "c \<in> set ''wb''" for c
    using apply_occupancy_kings [OF d f pseudo_targets_moves [OF f t] nk [OF that] sh(3)]
      v that by (auto simp: lm_valid_def valid_occ_def)
  moreover have "distinct (map fst ?new)"
    using distinct_fst_filter [OF d] by auto
  moreover have "\<forall>(s, t) \<in> set ?new. grammar_ok s \<and> token_ok t"
    using v sh(2) pseudo_targets_square(1) [OF t] by (auto simp: lm_valid_def valid_occ_def)
  ultimately show ?thesis unfolding new valid_occ_def by auto
qed

lemma lm_apply_valid: "lm_valid st \<Longrightarrow> lm_apply st m = Inr st' \<Longrightarrow> lm_valid st'"
  by (auto simp: lm_apply_Inr lm_valid_def intro: apply_occupancy_valid [unfolded lm_valid_def])

lemma lm_apply_safe: "lm_apply st m = Inr st' \<Longrightarrow>
    to_move st' = to_move st \<and> \<not> king_attacked (occupied st') (to_move st)"
  by (auto simp: lm_apply_Inr playable_def leaves_king_safe_def)

subsection \<open>Attack is pseudo-legal capture\<close>

text \<open>What a piece attacks with: one-step deltas (leapers, pawns) and slide directions.\<close>

definition hop_deltas :: "token \<Rightarrow> delta list" where
  "hop_deltas tok = (case leaper (tok ! 1) of Some ds \<Rightarrow> ds
     | None \<Rightarrow> if slider (tok ! 1) = None \<and> tok ! 1 = CHR ''p'' then CAPTURE_DELTAS (tok ! 0) else [])"

definition slide_dirs :: "token \<Rightarrow> delta list" where
  "slide_dirs tok = (case leaper (tok ! 1) of Some _ \<Rightarrow> []
     | None \<Rightarrow> (case slider (tok ! 1) of Some ds \<Rightarrow> ds | None \<Rightarrow> []))"

lemma deltas_nonzero:
  "(dx, dy) \<in> set (hop_deltas tok) \<Longrightarrow> (dx, dy) \<noteq> (0, 0)"
  "(dx, dy) \<in> set (slide_dirs tok) \<Longrightarrow> (dx, dy) \<noteq> (0, 0)"
  by (cases "leaper (tok ! 1)"; cases "slider (tok ! 1)";
      force simp: hop_deltas_def slide_dirs_def dest: leaper_nonzero slider_nonzero
        capture_delta_nonzero split: if_split_asm)+

definition covers :: "(square \<Rightarrow> bool) \<Rightarrow> square \<Rightarrow> token \<Rightarrow> square \<Rightarrow> bool" where
  "covers blocked s tok t \<longleftrightarrow> (let (x, y) = xy s in
     (\<exists>dx dy. (dx, dy) \<in> set (hop_deltas tok) \<and> on_board (x + dx) (y + dy)
        \<and> t = sq (x + dx) (y + dy)) \<or>
     (\<exists>dx dy. (dx, dy) \<in> set (slide_dirs tok) \<and>
        (\<exists>k. reach blocked dx dy (x + dx) (y + dy) k
           \<and> t = sq (x + dx + int k * dx) (y + dy + int k * dy))))"

lemma mem_piece_attacks: "t \<in> set (piece_attacks occ s tok) \<longleftrightarrow> covers (piece_on occ) s tok t"
proof -
  obtain x y where xy: "xy s = (x, y)" by fastforce
  have slide: "(\<exists>dx dy. (dx, dy) \<in> set ds \<and> t \<in> set (slide_attacks occ dx dy (x + dx) (y + dy)))
    \<longleftrightarrow> (\<exists>dx dy. (dx, dy) \<in> set ds \<and> (\<exists>k. reach (piece_on occ) dx dy (x + dx) (y + dy) k
           \<and> t = sq (x + dx + int k * dx) (y + dy + int k * dy)))"
    if "slider p = Some ds" for p ds
    using slide_attacks_iff [OF slider_nonzero [OF that]] by blast
  show ?thesis
  proof (cases "leaper (tok ! 1)")
    case (Some ds)
    then show ?thesis
      by (simp add: piece_attacks_def covers_def hop_deltas_def slide_dirs_def xy mem_targets)
        blast
  next
    case None
    note l = None
    show ?thesis
    proof (cases "slider (tok ! 1)")
      case (Some ds)
      then show ?thesis
        by (simp add: piece_attacks_def covers_def hop_deltas_def slide_dirs_def xy mem_targets
            l slide del: set_concat)
    next
      case None
      then show ?thesis
        by (simp add: piece_attacks_def covers_def hop_deltas_def slide_dirs_def xy l) blast
    qed
  qed
qed

lemma mem_raw_targets_enemy:
  assumes "map_of occ t = Some hit" "hit ! 0 \<noteq> tok ! 0"
  shows "t \<in> set (raw_targets occ s tok) \<longleftrightarrow> t \<in> set (piece_attacks occ s tok)"
proof -
  obtain x y where xy: "xy s = (x, y)" by fastforce
  show ?thesis
  proof (cases "leaper (tok ! 1)")
    case (Some ds)
    show ?thesis
      using assms
      by (simp add: raw_targets_def piece_attacks_def xy Some mem_targets del: set_concat)
        (metis option.distinct(1) option.inject)
  next
    case None
    note l = None
    show ?thesis
    proof (cases "slider (tok ! 1)")
      case (Some ds)
      have "t \<in> set (slide_targets occ (tok ! 0) dx dy u v) \<longleftrightarrow> t \<in> set (slide_attacks occ dx dy u v)"
        if "(dx, dy) \<in> set ds" for dx dy u v
        using assms slider_nonzero [OF Some that]
        by (simp add: slide_targets_iff slide_attacks_iff)
      then show ?thesis
        by (simp add: raw_targets_def piece_attacks_def xy l Some mem_concat_pairs
            del: set_concat) blast
    next
      case None
      show ?thesis
        using assms
        by (simp add: raw_targets_def piece_attacks_def xy l None mem_pawn_targets Let_def
            split_beta mem_targets del: set_concat) (metis option.distinct(1))
    qed
  qed
qed

lemma reach_agree:
  assumes "(dx, dy) \<noteq> (0, 0)" "reach B dx dy x y k"
    and "\<And>s. s \<noteq> sq (x + int k * dx) (y + int k * dy) \<Longrightarrow> B s \<longleftrightarrow> B' s"
  shows "reach B' dx dy x y k"
proof -
  have "sq (x + int j * dx) (y + int j * dy) \<noteq> sq (x + int k * dx) (y + int k * dy)" if "j < k" for j
    using assms(1,2) that by (subst sq_inj) (auto simp: reach_def)
  then show ?thesis using assms(2,3) by (auto simp: reach_def)
qed

lemma covers_agree:
  assumes "covers B s tok t" and "\<And>u. u \<noteq> t \<Longrightarrow> B u \<longleftrightarrow> B' u"
  shows "covers B' s tok t"
  using assms(1) unfolding covers_def Let_def split_beta
  by (elim disjE exE conjE) (use assms(2) in \<open>blast intro: reach_agree [OF deltas_nonzero(2)]\<close>)+

lemma covers_self: "grammar_ok s \<Longrightarrow> \<not> covers B s tok s"
proof
  assume g: "grammar_ok s" and c: "covers B s tok s"
  obtain x y where s: "on_board x y" "s = sq x y" "xy s = (x, y)" using g by (rule grammar_sqE)
  from c consider (hop) dx dy where "(dx, dy) \<in> set (hop_deltas tok)" "on_board (x + dx) (y + dy)"
      "sq x y = sq (x + dx) (y + dy)"
    | (slide) dx dy k where "(dx, dy) \<in> set (slide_dirs tok)"
      "reach B dx dy (x + dx) (y + dy) k" "sq x y = sq (x + dx + int k * dx) (y + dy + int k * dy)"
    unfolding covers_def s(3) s(2) [symmetric] Let_def prod.case by (metis s(2))
  then show False
  proof cases
    case hop
    then show False using deltas_nonzero(1) [OF hop(1)] s(1) by (simp add: sq_inj)
  next
    case slide
    then have "x = x + dx + int k * dx" "y = y + dy + int k * dy"
      using sq_inj [OF s(1) reach_end [OF slide(2)]] by simp_all
    then have "(1 + int k) * dx = 0" "(1 + int k) * dy = 0" by (simp_all add: algebra_simps)
    then show False using deltas_nonzero(2) [OF slide(1)] by simp
  qed
qed

lemma mem_attacked_squares:
  assumes "distinct (map fst occ)"
  shows "t \<in> set (attacked_squares occ side) \<longleftrightarrow>
     (\<exists>s tok. map_of occ s = Some tok \<and> tok ! 0 = side \<and> covers (piece_on occ) s tok t)"
  by (auto simp: attacked_squares_def mem_piece_attacks map_of_mem_distinct [OF assms, symmetric]
      split: if_split_asm)

text \<open>The position with an enemy pawn put on a square: a square is attacked when that pawn could
  be captured.\<close>

definition with_enemy_pawn :: "occupancy \<Rightarrow> char \<Rightarrow> square \<Rightarrow> occupancy" where
  "with_enemy_pawn occ side s =
     (s, [other side, CHR ''p'']) # filter (\<lambda>kv. fst kv \<noteq> s) occ"

lemma map_of_with_enemy_pawn:
  "map_of (with_enemy_pawn occ side s) u =
     (if u = s then Some [other side, CHR ''p''] else map_of occ u)"
  by (simp add: with_enemy_pawn_def map_of_filter_key [where P = "\<lambda>k. k \<noteq> s"])

lemma covers_with_enemy_pawn:
  "covers (piece_on (with_enemy_pawn occ side t)) s tok t \<longleftrightarrow> covers (piece_on occ) s tok t"
  by (auto simp: piece_on_def map_of_with_enemy_pawn elim!: covers_agree)

lemma attacked_capture:
  assumes d: "distinct (map fst occ)" and g: "grammar_ok s" and a: "a \<in> set ''wb''"
  defines "occ' \<equiv> with_enemy_pawn occ a s"
  shows "s \<in> set (attacked_squares occ a) \<longleftrightarrow>
    (\<exists>p tok. map_of occ' p = Some tok \<and> tok ! 0 = a \<and> s \<in> set (pseudo_targets occ' p tok True))"
proof -
  have hit: "map_of occ' s = Some [other a, CHR ''p'']"
    by (simp add: occ'_def map_of_with_enemy_pawn)
  have "s \<in> set (pseudo_targets occ' p tok True) \<longleftrightarrow> covers (piece_on occ) p tok s"
    if "tok ! 0 = a" for p tok
    using that mem_raw_targets_enemy [OF hit, of tok p]
    by (simp add: pseudo_targets_def mem_piece_attacks hit)
      (simp add: occ'_def covers_with_enemy_pawn)
  moreover have "map_of occ' p = Some tok \<longleftrightarrow> map_of occ p = Some tok"
    if "tok ! 0 = a" "covers (piece_on occ) p tok s" for p tok
    using that covers_self [OF g] by (auto simp: occ'_def map_of_with_enemy_pawn)
  ultimately show ?thesis unfolding mem_attacked_squares [OF d] by metis
qed

subsection \<open>The order of the generated list\<close>

definition promo_rank :: "lm_move \<Rightarrow> nat" where
  "promo_rank m = (case promotion m of None \<Rightarrow> 0
     | Some p \<Rightarrow> length (takeWhile (\<lambda>q. q \<noteq> p) PROMO_VALUES))"

definition move_before :: "lm_move \<Rightarrow> lm_move \<Rightarrow> bool" where
  "move_before m n \<longleftrightarrow> from_square m < from_square n \<or> from_square m = from_square n \<and>
     (to_square m < to_square n \<or> to_square m = to_square n \<and> promo_rank m < promo_rank n)"

lemma piece_moves_ordered: "sorted_wrt move_before (piece_moves occ side s tok)"
  unfolding piece_moves_def
proof (rule sorted_wrt_filter, rule sorted_wrt_concat_map, goal_cases)
  case (1 t)
  show ?case by (simp add: move_before_def promo_rank_def PROMO_VALUES_def)
next
  case 2
  show ?case
    by (rule sorted_wrt_mono_rel [OF _ strict_sort_remdups]) (auto simp: move_before_def)
qed

lemma lm_moves_ordered_list:
  assumes "distinct (map fst (occupied st))"
  shows "sorted_wrt move_before (lm_moves st)"
  unfolding lm_moves_def
proof (rule sorted_wrt_concat_map, goal_cases)
  case (1 x)
  show ?case by (cases x) (simp add: piece_moves_ordered)
next
  case 2
  show ?case
    by (rule sorted_wrt_mono_rel [OF _ strict_sort_key_distinct [OF assms]])
      (auto simp: move_before_def mem_piece_moves split: if_split_asm)
qed

subsection \<open>State dicts\<close>

definition lm_dict :: "lm_state \<Rightarrow> pyval" where
  "lm_dict st = PDict 0 [(PStr ''occupied'',
       PDict 1 (map (\<lambda>(s, t). (PStr s, PStr t)) (occupied st))),
     (PStr ''side_to_move'', PStr [to_move st])]"

definition move_dict :: "lm_move \<Rightarrow> pyval" where
  "move_dict m = PDict 2 ([(PStr ''from_square'', PStr (from_square m)),
     (PStr ''to_square'', PStr (to_square m))] @
     (case promotion m of None \<Rightarrow> [] | Some p \<Rightarrow> [(PStr ''promotion'', PStr p)]))"

lemma occ_items_dict:
  "\<forall>(s, t) \<in> set occ. grammar_ok s \<and> token_ok t \<Longrightarrow>
     occ_items (map (\<lambda>(s, t). (PStr s, PStr t)) occ) = Inr occ"
  by (induction occ) auto

lemma lm_validate_dict: "lm_valid st \<Longrightarrow> lm_validate (lm_dict st) = Inr st"
  by (auto simp: lm_valid_def valid_occ_def lm_validate_def lm_dict_def keys_are_def
      occ_items_dict)

lemma move_shape_dict:
  "grammar_ok (from_square m) \<Longrightarrow> grammar_ok (to_square m) \<Longrightarrow> from_square m \<noteq> to_square m \<Longrightarrow>
     move_shape (move_dict m) = Inr m"
  by (cases "promotion m") (auto simp: move_shape_def move_dict_def)

lemma playable_squares:
  assumes v: "lm_valid st" and p: "playable st m tok"
  shows "grammar_ok (from_square m)" "grammar_ok (to_square m)" "from_square m \<noteq> to_square m"
proof -
  from p have f: "map_of (occupied st) (from_square m) = Some tok"
    and t: "to_square m \<in> set (pseudo_targets (occupied st) (from_square m) tok True)"
    by (simp_all add: playable_def)
  show "grammar_ok (from_square m)"
    using v map_of_SomeD [OF f] by (auto simp: lm_valid_def valid_occ_def)
  show "grammar_ok (to_square m)" using pseudo_targets_square(1) [OF t] .
  show "from_square m \<noteq> to_square m" using pseudo_targets_moves [OF f t] by simp
qed

lemma apply_legal_dict:
  "lm_valid st \<Longrightarrow> playable st m tok \<Longrightarrow>
     apply_legal (lm_dict st) (move_dict m) = lm_apply st m"
  using playable_squares by (simp add: apply_legal_def lm_validate_dict move_shape_dict)

lemma find_mem: "x \<in> set xs \<Longrightarrow> P x \<Longrightarrow> \<exists>y. find P xs = Some y \<and> y \<in> set xs \<and> P y"
  by (induction xs) auto

lemma find_king:
  assumes d: "distinct (map fst occ)" and n: "king_count occ c = 1"
  shows "\<exists>k. king_square occ c = Some k \<and> map_of occ k = Some [c, CHR ''k'']"
proof -
  have "filter (\<lambda>t. t = [c, CHR ''k'']) (map snd occ) \<noteq> []"
    using n unfolding king_count_def by (metis list.size(3) zero_neq_one)
  then obtain s where "(s, [c, CHR ''k'']) \<in> set occ" by (auto simp: filter_empty_conv)
  from find_mem [OF this, of "\<lambda>(s, tok). tok = [c, CHR ''k'']"] obtain k where
    "find (\<lambda>(s, tok). tok = [c, CHR ''k'']) occ = Some (k, [c, CHR ''k''])"
    "(k, [c, CHR ''k'']) \<in> set occ" by auto
  then show ?thesis by (simp add: king_square_def map_of_mem_distinct [OF d])
qed

end
