(* ===== verification/LegalMovesProps.thy ===== *)
theory LegalMovesProps
  imports LegalMovesFacts
begin

text \<open>The properties of the legal-moves runtime, with their witnesses.\<close>

text \<open>A position with a pawn that can promote by advancing and by capturing.\<close>

definition promo_position :: lm_state where
  "promo_position = \<lparr>occupied = [(''e1'', ''wk''), (''h4'', ''bk''), (''a7'', ''wp''), (''b8'', ''bn'')],
     to_move = CHR ''w''\<rparr>"

lemma promo_position_valid: "lm_valid promo_position"
  by code_simp

interpretation lm: guarded_machine lm_apply lm_valid "\<lambda>s t. to_move s = to_move t"
  by unfold_locales (auto dest: lm_apply_valid lm_apply_safe)

definition promo_capture :: lm_move where
  "promo_capture = \<lparr>from_square = ''a7'', to_square = ''b8'', promotion = Some ''q''\<rparr>"

text \<open>C1. Generator and validator agree: on every position that passes validation, the moves
  \<open>legal_moves\<close> returns are exactly the moves \<open>apply\<close> accepts, promotions included, and the
  state dict and move dict of each of them are accepted by the public entry point.\<close>

theorem legal_moves_are_accepted_moves:
  assumes "lm_valid st"
  shows "set (lm_moves st) = {m. accepts (lm_apply st m)} \<and>
    (\<forall>m \<in> set (lm_moves st). accepts (apply_legal (lm_dict st) (move_dict m)))"
proof -
  note mem = mem_lm_moves [OF lm_valid_distinct [OF assms]]
  have "accepts (apply_legal (lm_dict st) (move_dict m))" if "playable st m tok" for m tok
    unfolding apply_legal_dict [OF assms that] accepts_lm_apply using that by blast
  then show ?thesis by (auto simp: mem accepts_lm_apply)
qed

theorem legal_moves_are_accepted_moves_witness:
  "promo_capture \<in> set (lm_moves promo_position)
     \<and> accepts (apply_legal (lm_dict promo_position) (move_dict promo_capture))"
proof -
  have a: "accepts (lm_apply promo_position promo_capture)" by code_simp
  show ?thesis
    using a legal_moves_are_accepted_moves [OF promo_position_valid] by blast
qed

text \<open>An accepted move is a legal chess move on the occupancy: the moved piece (or the piece it
  promotes to) is alone on its new square, its old square is empty, a captured piece is gone and
  every other square is untouched; the new state is well formed again (in particular no king was
  captured or created), so it passes validation, and the mover's king is not attacked in it.\<close>

theorem accepted_move_transition:
  assumes "lm_valid st" and "lm_apply st m = Inr st'"
  shows "lm_valid st' \<and> lm_validate (lm_dict st') = Inr st'
    \<and> to_move st' = to_move st \<and> \<not> king_attacked (occupied st') (to_move st)
    \<and> (\<exists>tok. map_of (occupied st) (from_square m) = Some tok \<and> tok ! 0 = to_move st \<and>
        map_of (occupied st') = (map_of (occupied st))(from_square m := None,
          to_square m \<mapsto> (case promotion m of None \<Rightarrow> tok | Some p \<Rightarrow> tok ! 0 # p)))"
proof -
  obtain tok where p: "playable st m tok" and st': "occupied st' = apply_occupancy (occupied st) m"
    using assms(2) by (auto simp: lm_apply_Inr)
  note v = lm_apply_valid [OF assms]
  have "map_of (occupied st') = (map_of (occupied st))(from_square m := None,
      to_square m \<mapsto> (case promotion m of None \<Rightarrow> tok | Some p \<Rightarrow> tok ! 0 # p))"
    using p playable_squares(3) [OF assms(1) p] unfolding st'
    by (auto simp: apply_occupancy_def playable_def map_add_def fun_eq_iff
        map_of_filter_key [where P = "\<lambda>k. k \<noteq> from_square m \<and> k \<noteq> to_square m"]
        split: option.split)
  with v p lm_apply_safe [OF assms(2)] show ?thesis
    by (auto simp: lm_validate_dict playable_def)
qed

theorem accepted_move_transition_witness:
  "\<exists>st'. lm_apply promo_position promo_capture = Inr st' \<and> lm_valid st'
     \<and> map_of (occupied st') ''b8'' = Some ''wq'' \<and> map_of (occupied st') ''a7'' = None"
proof -
  have "accepts (lm_apply promo_position promo_capture)" by code_simp
  then obtain st' where a: "lm_apply promo_position promo_capture = Inr st'"
    by (auto simp: accepts_iff)
  show ?thesis
    using a accepted_move_transition [OF promo_position_valid a]
    by (auto simp: promo_position_def promo_capture_def)
qed

text \<open>The terminal classification: checkmate and stalemate are reported exactly when the
  validated transition accepts no move, checkmate and check exactly when the king of the side to
  move is attacked; the four answers exclude each other.\<close>

theorem terminal_status_classifies:
  assumes "lm_validate v = Inr st" and "distinct (map fst (occupied st))"
  shows "\<exists>r. terminal_status v = Inr r \<and> (let
      check = king_attacked (occupied st) (to_move st);
      stuck = (\<forall>m. \<not> accepts (lm_apply st m)) in
    (r = ''checkmate'' \<longleftrightarrow> check \<and> stuck) \<and> (r = ''stalemate'' \<longleftrightarrow> \<not> check \<and> stuck) \<and>
    (r = ''check'' \<longleftrightarrow> check \<and> \<not> stuck) \<and> (r = ''none'' \<longleftrightarrow> \<not> check \<and> \<not> stuck))"
proof -
  have "lm_moves st = [] \<longleftrightarrow> (\<forall>m. \<not> accepts (lm_apply st m))"
    using mem_lm_moves [OF assms(2)] by (auto simp: accepts_lm_apply) (metis list.set_intros(1) neq_Nil_conv)
  then show ?thesis
    using assms(1) by (auto simp: terminal_status_def lm_status_def Let_def)
qed

definition mate_position :: lm_state where
  "mate_position = \<lparr>occupied = [(''a1'', ''wk''), (''h8'', ''bk''), (''g7'', ''wq''), (''g1'', ''wr'')],
     to_move = CHR ''b''\<rparr>"

theorem terminal_status_classifies_witness:
  "terminal_status (lm_dict mate_position) = Inr ''checkmate'' \<and>
     (\<forall>m. \<not> accepts (lm_apply mate_position m))"
proof -
  have v: "lm_valid mate_position" by code_simp
  have "lm_status mate_position = ''checkmate''" by code_simp
  then have "terminal_status (lm_dict mate_position) = Inr ''checkmate''"
    by (simp add: terminal_status_def lm_validate_dict [OF v])
  with terminal_status_classifies [OF lm_validate_dict [OF v] lm_valid_distinct [OF v]]
  show ?thesis by (auto simp: Let_def)
qed

text \<open>The attack relation is pseudo-legal capture: a side attacks a square exactly when, with
  an enemy pawn put on that square, one of its pieces has a pseudo-legal move onto it. This ties
  the two separately written walks (\<open>_attacked_squares\<close> and \<open>_pseudo_targets\<close>) together.\<close>

theorem attack_is_pseudo_legal_capture:
  assumes "lm_validate v = Inr st" and "distinct (map fst (occupied st))"
    and "grammar_ok s" and "a \<in> set ''wb''"
  shows "is_attacked v (PStr s) (PStr [a]) =
    Inr (\<exists>p tok. map_of (with_enemy_pawn (occupied st) a s) p = Some tok \<and> tok ! 0 = a \<and>
      s \<in> set (pseudo_targets (with_enemy_pawn (occupied st) a s) p tok True))"
  using assms by (simp add: is_attacked_def attacked_capture)

theorem attack_is_pseudo_legal_capture_witness:
  "\<exists>b. is_attacked (lm_dict mate_position) (PStr ''g8'') (PStr ''w'') = Inr b \<and> b"
proof -
  have v: "lm_valid mate_position" by code_simp
  have q: "map_of (with_enemy_pawn (occupied mate_position) CHR ''w'' ''g8'') ''g7'' = Some ''wq''"
    by code_simp
  have t: "''g8'' \<in> set (pseudo_targets (with_enemy_pawn (occupied mate_position) CHR ''w'' ''g8'')
      ''g7'' ''wq'' True)" by code_simp
  have g: "grammar_ok ''g8''" by code_simp
  show ?thesis
    using attack_is_pseudo_legal_capture [OF lm_validate_dict [OF v] lm_valid_distinct [OF v] g,
        of "CHR ''w''"] q t by fastforce
qed

text \<open>C40. The generated list is strictly ordered by (from, to, promotion) and so has no
  repetitions, whatever the order of the occupancy dict.\<close>

theorem legal_moves_ordered:
  assumes "lm_valid st"
  shows "sorted_wrt move_before (lm_moves st) \<and> distinct (lm_moves st)"
  using lm_moves_ordered_list [OF lm_valid_distinct [OF assms]]
  by (auto intro: sorted_wrt_irrefl_distinct simp: move_before_def)

theorem legal_moves_ordered_witness:
  "sorted_wrt move_before (lm_moves promo_position) \<and> 2 \<le> length (lm_moves promo_position)"
proof -
  have "2 \<le> length (lm_moves promo_position)" by code_simp
  with legal_moves_ordered [OF promo_position_valid] show ?thesis by blast
qed

end
