(* ===== verification/Castling.thy ===== *)
theory Castling
  imports Board
begin

text \<open>
  The castling runtime, \<open>src/tools/castling_runtime.py\<close> over \<open>src/data/contracts/castling.yaml\<close>:
  the rights grammar, the loss events and the castling move itself. \<open>cs_validate\<close> and
  \<open>cs_validate_move\<close> turn the caller's dicts into \<open>cs_state\<close> and \<open>cs_event\<close>; a
  \<open>CastlingError\<close> is \<open>Inl\<close> of its class, \<open>Structural\<close> for class \<open>None\<close>.
\<close>

subsection \<open>Contract tables\<close>

datatype cs_error = Structural | Rights_malformed | Rights_inconsistent | Path_blocked
  | King_unmoved_required | Through_check

fun cs_code :: "cs_error \<Rightarrow> string" where
  "cs_code Structural = ''malformed_request''"
| "cs_code Rights_malformed = ''malformed_request''"
| "cs_code Rights_inconsistent = ''illegal_position''"
| "cs_code Path_blocked = ''illegal_move''"
| "cs_code King_unmoved_required = ''illegal_move''"
| "cs_code Through_check = ''illegal_move''"

definition RIGHTS :: string where "RIGHTS = ''KQkq''"
definition RIGHTS_NONE :: string where "RIGHTS_NONE = ''-''"

record cs_path =
  king_from :: square
  king_to :: square
  rook_from :: square
  rook_to :: square
  king_transit :: "square list"
  empty_required :: "square list"

definition cs_path :: "char \<Rightarrow> cs_path" where
  "cs_path r =
    (if r = CHR ''K'' then \<lparr>king_from = ''e1'', king_to = ''g1'', rook_from = ''h1'', rook_to = ''f1'',
        king_transit = [''f1''], empty_required = [''f1'', ''g1'']\<rparr>
     else if r = CHR ''Q'' then \<lparr>king_from = ''e1'', king_to = ''c1'', rook_from = ''a1'', rook_to = ''d1'',
        king_transit = [''d1''], empty_required = [''d1'', ''c1'', ''b1'']\<rparr>
     else if r = CHR ''k'' then \<lparr>king_from = ''e8'', king_to = ''g8'', rook_from = ''h8'', rook_to = ''f8'',
        king_transit = [''f8''], empty_required = [''f8'', ''g8'']\<rparr>
     else \<lparr>king_from = ''e8'', king_to = ''c8'', rook_from = ''a8'', rook_to = ''d8'',
        king_transit = [''d8''], empty_required = [''d8'', ''c8'', ''b8'']\<rparr>)"

text \<open>\<open>_HOME[right]\<close>: the king's and the rook's home square.\<close>

definition home_king :: "char \<Rightarrow> square" where
  "home_king r = (if r = CHR ''K'' \<or> r = CHR ''Q'' then ''e1'' else ''e8'')"

definition home_rook :: "char \<Rightarrow> square" where
  "home_rook r = (if r = CHR ''K'' then ''h1'' else if r = CHR ''Q'' then ''a1''
     else if r = CHR ''k'' then ''h8'' else ''a8'')"

definition loss_king :: "char \<Rightarrow> string" where
  "loss_king side = (if side = CHR ''w'' then ''KQ'' else ''kq'')"

definition loss_rook :: "(square \<times> char) list" where
  "loss_rook = [(''h1'', CHR ''K''), (''a1'', CHR ''Q''), (''h8'', CHR ''k''), (''a8'', CHR ''q'')]"

definition cs_squares :: "square list" where
  "cs_squares = concat (map (\<lambda>r. [home_king r, home_rook r]) RIGHTS)
     @ concat (map (\<lambda>r. let p = cs_path r in [king_from p, king_to p, rook_from p, rook_to p]
         @ king_transit p @ empty_required p) RIGHTS)
     @ map fst loss_rook"

subsection \<open>States and events\<close>

record cs_state =
  rights :: string
  cs_occ :: occupancy
  attacked :: "square list"
  cs_side :: char

datatype cs_event = Castle char | King_move char | Rook_move_from square | Rook_capture_on square

fun cs_items :: "pydict \<Rightarrow> (cs_error, occupancy) result" where
  "cs_items [] = Inr []"
| "cs_items ((k, v) # d) =
     (case k of PStr s \<Rightarrow>
        require (s \<in> set cs_squares) Structural
          (case v of PStr t \<Rightarrow> require (token_ok t) Structural
             (and_then (cs_items d) (\<lambda>occ. Inr ((s, t) # occ)))
           | _ \<Rightarrow> Inl Structural)
      | _ \<Rightarrow> Inl Structural)"

fun cs_attacked :: "pyval list \<Rightarrow> (cs_error, square list) result" where
  "cs_attacked [] = Inr []"
| "cs_attacked (v # vs) =
     (case v of PStr s \<Rightarrow> require (s \<in> set cs_squares) Structural
          (and_then (cs_attacked vs) (\<lambda>ss. Inr (s # ss)))
      | _ \<Rightarrow> Inl Structural)"

text \<open>A \<open>rights\<close> field that is a \<open>str\<close> without a UTF-8 encoding is kept as the empty string:
  neither is canonical.\<close>

definition cs_validate :: "pyval \<Rightarrow> (cs_error, cs_state) result" where
  "cs_validate state = (case state of PDict _ d \<Rightarrow>
       require (set (map fst d) = PStr ` {''rights'', ''occupied'', ''attacked'', ''side_to_move''})
         Structural
       (and_then (case pget d ''rights'' of Some (PStr r) \<Rightarrow> Inr r | Some PBadStr \<Rightarrow> Inr []
            | _ \<Rightarrow> Inl Structural) (\<lambda>r.
        case pget d ''occupied'' of Some (PDict _ items) \<Rightarrow>
          and_then (cs_items items) (\<lambda>occ.
          case pget d ''attacked'' of Some (PList _ vs) \<Rightarrow>
            and_then (cs_attacked vs) (\<lambda>att.
            require (distinct att) Structural
            (case pget d ''side_to_move'' of Some (PStr [side]) \<Rightarrow>
               require (side \<in> set ''wb'') Structural
                 (Inr \<lparr>rights = r, cs_occ = occ, attacked = att, cs_side = side\<rparr>)
             | _ \<Rightarrow> Inl Structural))
          | _ \<Rightarrow> Inl Structural)
        | _ \<Rightarrow> Inl Structural))
     | _ \<Rightarrow> Inl Structural)"

definition event_arg :: "pydict \<Rightarrow> string \<Rightarrow> (string \<Rightarrow> bool) \<Rightarrow> (cs_error, string) result" where
  "event_arg d field ok = require (set (map fst d) = PStr ` {''type'', field}) Structural
     (case pget d field of Some (PStr s) \<Rightarrow> require (ok s) Structural (Inr s)
      | _ \<Rightarrow> Inl Structural)"

definition cs_validate_move :: "pyval \<Rightarrow> (cs_error, cs_event) result" where
  "cs_validate_move move = (case move of PDict _ d \<Rightarrow>
      (case pget d ''type'' of
         Some (PStr t) \<Rightarrow>
           if t = ''castle'' then
             and_then (event_arg d ''right'' (\<lambda>s. s \<in> set (map (\<lambda>c. [c]) RIGHTS)))
               (\<lambda>s. Inr (Castle (hd s)))
           else if t = ''king_move'' then
             and_then (event_arg d ''side'' (\<lambda>s. s \<in> set [''w'', ''b''])) (\<lambda>s. Inr (King_move (hd s)))
           else if t = ''rook_move_from'' then
             and_then (event_arg d ''square'' (\<lambda>s. s \<in> set (map fst loss_rook)))
               (\<lambda>s. Inr (Rook_move_from s))
           else if t = ''rook_capture_on'' then
             and_then (event_arg d ''square'' (\<lambda>s. s \<in> set (map fst loss_rook)))
               (\<lambda>s. Inr (Rook_capture_on s))
           else Inl Structural
       | _ \<Rightarrow> Inl Structural)
    | _ \<Rightarrow> Inl Structural)"

subsection \<open>Operations\<close>

text \<open>\<open>_grammar_ok\<close>, \<open>_canonical\<close> and \<open>_side_of\<close>.\<close>

definition rights_ok :: "string \<Rightarrow> bool" where
  "rights_ok r \<longleftrightarrow> r = RIGHTS_NONE \<or>
     (r \<noteq> [] \<and> set r \<subseteq> set RIGHTS \<and> distinct r \<and> filter (\<lambda>c. c \<in> set r) RIGHTS = r)"

definition held :: "string \<Rightarrow> string" where
  "held r = (if r = RIGHTS_NONE then [] else r)"

definition canonical_rights :: "string \<Rightarrow> string" where
  "canonical_rights h = (if h = [] then RIGHTS_NONE else filter (\<lambda>c. c \<in> set h) RIGHTS)"

definition side_of :: "char \<Rightarrow> char" where
  "side_of r = (if r \<in> set ''KQ'' then CHR ''w'' else CHR ''b'')"

definition without :: "string \<Rightarrow> string \<Rightarrow> string" where
  "without h loss = filter (\<lambda>c. c \<notin> set loss) h"

definition castle :: "cs_state \<Rightarrow> char \<Rightarrow> (cs_error, cs_state) result" where
  "castle s r = (let side = side_of r; p = cs_path r; occ = cs_occ s; att = attacked s in
     require (side = cs_side s) Structural
     (require (r \<in> set (held (rights s))) King_unmoved_required
     (require (map_of occ (home_king r) = Some [side, CHR ''k'']
         \<and> map_of occ (home_rook r) = Some [side, CHR ''r'']) Rights_inconsistent
     (require (\<not> list_ex (\<lambda>q. map_of occ q \<noteq> None) (empty_required p)) Path_blocked
     (require (\<not> (home_king r \<in> set att \<or> king_to p \<in> set att
         \<or> list_ex (\<lambda>q. q \<in> set att) (king_transit p))) Through_check
       (Inr \<lparr>rights = canonical_rights (without (held (rights s)) (loss_king side)),
             cs_occ = dict_set (dict_set
               (filter (\<lambda>kv. fst kv \<noteq> home_king r \<and> fst kv \<noteq> home_rook r) occ)
               (king_to p) [side, CHR ''k'']) (rook_to p) [side, CHR ''r''],
             attacked = att, cs_side = cs_side s\<rparr>))))))"

definition cs_step :: "cs_state \<Rightarrow> cs_event \<Rightarrow> (cs_error, cs_state) result" where
  "cs_step s e = require (rights_ok (rights s)) Rights_malformed
     (let lose = (\<lambda>loss. Inr (s\<lparr>rights := canonical_rights (without (held (rights s)) loss)\<rparr>)) in
      case e of
        King_move side \<Rightarrow> lose (loss_king side)
      | Rook_move_from q \<Rightarrow> lose [the (map_of loss_rook q)]
      | Rook_capture_on q \<Rightarrow> lose [the (map_of loss_rook q)]
      | Castle r \<Rightarrow> castle s r)"

definition apply_castling :: "pyval \<Rightarrow> pyval \<Rightarrow> (cs_error, cs_state) result" where
  "apply_castling state move =
     and_then (cs_validate state) (\<lambda>s. and_then (cs_validate_move move) (cs_step s))"

definition castling_identity :: "pyval \<Rightarrow> (cs_error, (string \<times> string) list) result" where
  "castling_identity state = and_then (cs_validate state) (\<lambda>s.
     require (rights_ok (rights s)) Rights_malformed (Inr [(''rights'', rights s)]))"

definition castling_turn_effect :: "pyval \<Rightarrow> pyval \<Rightarrow> (cs_error, string \<times> string) result" where
  "castling_turn_effect state move =
     and_then (cs_validate state) (\<lambda>s. and_then (cs_validate_move move) (\<lambda>e.
     case e of Castle r \<Rightarrow> require (rights_ok (rights s)) Rights_malformed
         (Inr (''increment'', if side_of r = CHR ''b'' then ''increment'' else ''same''))
     | _ \<Rightarrow> Inl Structural))"

end
