(* ===== verification/CastlingFacts.thy ===== *)
theory CastlingFacts
  imports Castling
begin

text \<open>Castling rights only shrink, stay canonical, and a castling move relocates exactly king and
  rook and ends the side's castling for good.\<close>

definition cs_valid :: "cs_state \<Rightarrow> bool" where
  "cs_valid s \<longleftrightarrow> distinct (map fst (cs_occ s))
     \<and> (\<forall>(q, t) \<in> set (cs_occ s). q \<in> set cs_squares \<and> token_ok t)
     \<and> set (attacked s) \<subseteq> set cs_squares \<and> distinct (attacked s) \<and> cs_side s \<in> set ''wb''"

lemma RIGHTS_set: "c \<in> set RIGHTS \<longleftrightarrow> c = CHR ''K'' \<or> c = CHR ''Q'' \<or> c = CHR ''k'' \<or> c = CHR ''q''"
  by (simp add: RIGHTS_def)

lemma rights_ok_canonical: "set h \<subseteq> set RIGHTS \<Longrightarrow> rights_ok (canonical_rights h)"
proof (cases "h = []")
  case False
  assume "set h \<subseteq> set RIGHTS"
  with False have "\<exists>c. c \<in> set h \<and> c \<in> set RIGHTS" by (cases h) auto
  then have "filter (\<lambda>c. c \<in> set h) RIGHTS \<noteq> []" by (auto simp: filter_empty_conv)
  moreover have "distinct RIGHTS" by (simp add: RIGHTS_def)
  moreover have "filter (\<lambda>c. c \<in> set RIGHTS \<and> c \<in> set h) RIGHTS = filter (\<lambda>c. c \<in> set h) RIGHTS"
    by (rule filter_cong) auto
  ultimately show ?thesis using False by (auto simp: rights_ok_def canonical_rights_def)
qed (simp add: canonical_rights_def rights_ok_def)

lemma held_set: "rights_ok r \<Longrightarrow> set (held r) \<subseteq> set RIGHTS"
  by (auto simp: rights_ok_def held_def)

lemma held_canonical: "set h \<subseteq> set RIGHTS \<Longrightarrow> set (held (canonical_rights h)) = set h"
proof (cases "h = []")
  case False
  assume h: "set h \<subseteq> set RIGHTS"
  have "filter (\<lambda>c. c \<in> set h) RIGHTS \<noteq> RIGHTS_NONE"
    by (auto simp: RIGHTS_NONE_def RIGHTS_def)
  with False h show ?thesis by (auto simp: canonical_rights_def held_def)
qed (simp add: canonical_rights_def held_def)

lemma without_set [simp]: "set (without h l) = set h - set l"
  by (auto simp: without_def)

lemma canonical_held_id: "rights_ok r \<Longrightarrow> canonical_rights (held r) = r"
  by (auto simp: rights_ok_def canonical_rights_def held_def RIGHTS_NONE_def)

lemma lose_rights:
  assumes "rights_ok r"
  shows "rights_ok (canonical_rights (without (held r) l))"
    "set (held (canonical_rights (without (held r) l))) = set (held r) - set l"
proof -
  have "set (without (held r) l) \<subseteq> set RIGHTS" using held_set [OF assms] by auto
  then show "rights_ok (canonical_rights (without (held r) l))"
    "set (held (canonical_rights (without (held r) l))) = set (held r) - set l"
    using held_canonical [of "without (held r) l"] rights_ok_canonical by simp_all
qed

text \<open>Which rights an event takes away.\<close>

fun event_loss :: "cs_event \<Rightarrow> string" where
  "event_loss (King_move side) = loss_king side"
| "event_loss (Rook_move_from q) = [the (map_of loss_rook q)]"
| "event_loss (Rook_capture_on q) = [the (map_of loss_rook q)]"
| "event_loss (Castle r) = loss_king (side_of r)"

lemma cs_step_rights:
  assumes "cs_step s e = Inr s'"
  shows "rights_ok (rights s)"
    "rights s' = canonical_rights (without (held (rights s)) (event_loss e))"
  using assms by (auto simp: cs_step_def castle_def Let_def split: cs_event.splits)

lemma cs_step_rights_ok: "cs_step s e = Inr s' \<Longrightarrow> rights_ok (rights s')"
  and cs_step_held: "cs_step s e = Inr s' \<Longrightarrow>
     set (held (rights s')) = set (held (rights s)) - set (event_loss e)"
  by (simp_all add: cs_step_rights(2) lose_rights cs_step_rights(1))

lemma castle_squares: "r \<in> set RIGHTS \<Longrightarrow>
    king_to (cs_path r) \<in> set cs_squares \<and> rook_to (cs_path r) \<in> set cs_squares"
  by (auto simp: RIGHTS_set cs_path_def cs_squares_def RIGHTS_def)

lemma cs_step_valid:
  assumes v: "cs_valid s" and st: "cs_step s e = Inr s'"
  shows "cs_valid s'"
proof (cases e)
  case (Castle r)
  let ?A = "filter (\<lambda>kv. fst kv \<noteq> home_king r \<and> fst kv \<noteq> home_rook r) (cs_occ s)"
  let ?B = "dict_set ?A (king_to (cs_path r)) [side_of r, CHR ''k'']"
  from st Castle have r: "r \<in> set (held (rights s))" and ok: "rights_ok (rights s)"
    and occ: "cs_occ s' = dict_set ?B (rook_to (cs_path r)) [side_of r, CHR ''r'']"
    and rest: "attacked s' = attacked s" "cs_side s' = cs_side s"
    by (auto simp: cs_step_def castle_def Let_def)
  have "r \<in> set RIGHTS" using r held_set [OF ok] by auto
  note sq = castle_squares [OF this]
  have "set (cs_occ s') \<subseteq> {(rook_to (cs_path r), [side_of r, CHR ''r'']),
      (king_to (cs_path r), [side_of r, CHR ''k''])} \<union> set (cs_occ s)"
    using set_dict_set_subset [of ?B] set_dict_set_subset [of ?A] by (fastforce simp: occ)
  moreover have "distinct (map fst (cs_occ s'))"
    using v distinct_fst_filter by (auto simp: occ cs_valid_def)
  moreover have "token_ok [side_of r, CHR ''r'']" "token_ok [side_of r, CHR ''k'']"
    by (simp_all add: token_ok_def side_of_def)
  ultimately show ?thesis using v sq rest unfolding cs_valid_def by fastforce
qed (use assms in \<open>auto simp: cs_valid_def cs_step_def Let_def\<close>)

interpretation cs: guarded_machine cs_step cs_valid
  "\<lambda>s t. set (held (rights t)) \<subseteq> set (held (rights s))"
  by unfold_locales (auto simp: cs_step_valid cs_step_held)

lemma side_of_loss: "c \<in> set RIGHTS \<Longrightarrow> side_of c = side_of r \<Longrightarrow> c \<in> set (loss_king (side_of r))"
  by (auto simp: RIGHTS_set side_of_def loss_king_def split: if_splits)

lemma castle_Inr: "cs_step s (Castle r) = Inr s' \<Longrightarrow> r \<in> set (held (rights s))"
  by (auto simp: cs_step_def castle_def Let_def)

text \<open>Geometry of the paths: two squares toward the rook, the rook on the square passed over.\<close>

lemma castle_geometry:
  assumes "r \<in> set RIGHTS"
  shows "let p = cs_path r; (kx, ky) = xy (home_king r); (rx, ry) = xy (home_rook r);
      d = (if kx < rx then 1 else -1) in
    ry = ky \<and> xy (king_to p) = (kx + 2 * d, ky) \<and> xy (rook_to p) = (kx + d, ky)
    \<and> king_transit p = [rook_to p] \<and> king_to p \<in> set (empty_required p)
    \<and> rook_to p \<in> set (empty_required p)
    \<and> set (empty_required p) = {sq x ky | x. min kx rx < x \<and> x < max kx rx}"
proof -
  have 1: "{f x | x. 4 < x \<and> x < 7} = {f 5, f 6}" for f :: "int \<Rightarrow> square"
  proof -
    have "{x. 4 < x \<and> x < (7::int)} = {5, 6}" by auto
    then show ?thesis by (auto simp: setcompr_eq_image)
  qed
  have 2: "{f x | x. 0 < x \<and> x < 4} = {f 1, f 2, f 3}" for f :: "int \<Rightarrow> square"
  proof -
    have "{x. 0 < x \<and> x < (4::int)} = {1, 2, 3}" by auto
    then show ?thesis by (auto simp: setcompr_eq_image)
  qed
  show ?thesis using assms unfolding RIGHTS_set
    by (elim disjE)
      (simp_all add: cs_path_def home_king_def home_rook_def xy_def FILES_def RANKS_def 1 2
        sq_def insert_commute)
qed

subsection \<open>Properties\<close>

text \<open>C30. Rights are irrevocable: over any sequence of castling-domain events (rejected ones
  included) the state stays well formed, a canonical rights field stays canonical, and no right
  that is missing is ever regained.\<close>

theorem castling_rights_irrevocable:
  assumes "cs_valid s" and "rights_ok (rights s)"
  shows "cs_valid (run cs_step s es) \<and> rights_ok (rights (run cs_step s es))
    \<and> set (held (rights (run cs_step s es))) \<subseteq> set (held (rights s))"
proof -
  have "rights_ok (rights (run cs_step s es))" using assms(2)
    by (induction es arbitrary: s)
      (auto simp: step_or_stay_def dest: cs_step_rights_ok split: sum.split)
  with cs.run_inv [OF assms(1)] cs.run_le [OF assms(1)] show ?thesis by blast
qed

definition castle_ready :: cs_state where
  "castle_ready = \<lparr>rights = ''KQkq'', cs_occ = [(''e1'', ''wk''), (''h1'', ''wr''), (''a1'', ''wr''),
      (''e8'', ''bk''), (''h8'', ''br''), (''b8'', ''bn'')],
     attacked = [''b1'', ''d1''], cs_side = CHR ''w''\<rparr>"

lemma castle_ready_valid: "cs_valid castle_ready" "rights_ok (rights castle_ready)"
  by code_simp+

theorem castling_rights_irrevocable_witness:
  "rights (run cs_step castle_ready [Castle CHR ''Q'', Rook_move_from ''h1'', Castle CHR ''K'']) = ''Qkq''
    \<and> rights_ok ''Qkq''"
proof -
  have e: "rights (run cs_step castle_ready [Castle CHR ''Q'', Rook_move_from ''h1'', Castle CHR ''K''])
      = ''Qkq''" by code_simp
  show ?thesis
    using castling_rights_irrevocable [OF castle_ready_valid,
        of "[Castle CHR ''Q'', Rook_move_from ''h1'', Castle CHR ''K'']"] e by simp
qed

text \<open>What a castling move is. An accepted castle of a declared right moves the king exactly
  two squares toward the rook and puts the rook on the square the king passed over; both home
  squares are vacated, every other square is untouched, all squares between king and rook were
  empty, and the king's square, the square passed and the destination were not attacked.\<close>

theorem castle_relocates:
  assumes "r \<in> set RIGHTS" and "cs_step s (Castle r) = Inr s'"
  shows "\<exists>kx rx y d. xy (home_king r) = (kx, y) \<and> xy (home_rook r) = (rx, y)
    \<and> d = (if kx < rx then 1 else -1)
    \<and> map_of (cs_occ s') = (map_of (cs_occ s))(home_king r := None, home_rook r := None,
        sq (kx + 2 * d) y \<mapsto> [cs_side s, CHR ''k''], sq (kx + d) y \<mapsto> [cs_side s, CHR ''r''])
    \<and> (\<forall>x. min kx rx < x \<and> x < max kx rx \<longrightarrow> map_of (cs_occ s) (sq x y) = None)
    \<and> {home_king r, sq (kx + d) y, sq (kx + 2 * d) y} \<inter> set (attacked s) = {}"
proof -
  obtain kx y where k: "xy (home_king r) = (kx, y)" by fastforce
  obtain rx ry where rr: "xy (home_rook r) = (rx, ry)" by fastforce
  define d where "d = (if kx < rx then 1 else - 1 :: int)"
  have g: "ry = y" "xy (king_to (cs_path r)) = (kx + 2 * d, y)"
    "xy (rook_to (cs_path r)) = (kx + d, y)" "king_transit (cs_path r) = [rook_to (cs_path r)]"
    "set (empty_required (cs_path r)) = {sq x y | x. min kx rx < x \<and> x < max kx rx}"
    using castle_geometry [OF assms(1)] by (simp_all add: k rr d_def Let_def)
  have gr: "grammar_ok (king_to (cs_path r))" "grammar_ok (rook_to (cs_path r))"
    using assms(1) by (auto simp: RIGHTS_set cs_path_def grammar_ok_def FILES_def RANKS_def)
  have kt: "king_to (cs_path r) = sq (kx + 2 * d) y" "rook_to (cs_path r) = sq (kx + d) y"
    using grammar_xy(2) [OF gr(1) g(2)] grammar_xy(2) [OF gr(2) g(3)] by simp_all
  from assms(2) have occ: "cs_occ s' = dict_set (dict_set
        (filter (\<lambda>kv. fst kv \<noteq> home_king r \<and> fst kv \<noteq> home_rook r) (cs_occ s))
        (sq (kx + 2 * d) y) [cs_side s, CHR ''k'']) (sq (kx + d) y) [cs_side s, CHR ''r'']"
    and e: "\<not> list_ex (\<lambda>q. map_of (cs_occ s) q \<noteq> None) (empty_required (cs_path r))"
    and a: "home_king r \<notin> set (attacked s)" "sq (kx + 2 * d) y \<notin> set (attacked s)"
      "sq (kx + d) y \<notin> set (attacked s)"
    by (auto simp: cs_step_def castle_def Let_def kt g(4))
  have "\<forall>x. min kx rx < x \<and> x < max kx rx \<longrightarrow> map_of (cs_occ s) (sq x y) = None"
    using e unfolding list_ex_iff g(5) by blast
  moreover have "map_of (cs_occ s') = (map_of (cs_occ s))(home_king r := None, home_rook r := None,
      sq (kx + 2 * d) y \<mapsto> [cs_side s, CHR ''k''], sq (kx + d) y \<mapsto> [cs_side s, CHR ''r''])"
    unfolding occ by (auto simp: fun_eq_iff
        map_of_filter_key [where P = "\<lambda>q. q \<noteq> home_king r \<and> q \<noteq> home_rook r"])
  ultimately show ?thesis using k rr g(1) a d_def by blast
qed

theorem castle_relocates_witness:
  "\<exists>s'. cs_step castle_ready (Castle CHR ''K'') = Inr s' \<and> map_of (cs_occ s') ''g1'' = Some ''wk''
     \<and> map_of (cs_occ s') ''f1'' = Some ''wr'' \<and> map_of (cs_occ s') ''e1'' = None"
proof -
  have "accepts (cs_step castle_ready (Castle CHR ''K''))" by code_simp
  then obtain s' where s': "cs_step castle_ready (Castle CHR ''K'') = Inr s'"
    by (auto simp: accepts_iff)
  have k: "CHR ''K'' \<in> set RIGHTS" by (simp add: RIGHTS_def)
  show ?thesis
    using castle_relocates [OF k s'] s'
    by (auto simp: home_king_def home_rook_def xy_def FILES_def RANKS_def sq_def castle_ready_def)
qed

text \<open>A side castles at most once: after an accepted castle no sequence of events makes
  another castle of the same side, on either wing, acceptable again.\<close>

theorem castle_at_most_once:
  assumes "cs_valid s" and "cs_step s (Castle r) = Inr s'" and "side_of r' = side_of r"
  shows "\<not> accepts (cs_step (run cs_step s' es) (Castle r'))"
proof
  let ?t = "run cs_step s' es"
  assume "accepts (cs_step ?t (Castle r'))"
  then have "r' \<in> set (held (rights ?t))" by (auto simp: accepts_iff dest: castle_Inr)
  then have m: "r' \<in> set (held (rights s'))" using cs.run_le [OF cs_step_valid [OF assms(1,2)]] by auto
  have "r' \<in> set RIGHTS" using m held_set [OF cs_step_rights_ok [OF assms(2)]] by auto
  then have "r' \<in> set (loss_king (side_of r))" using side_of_loss [OF _ assms(3)] by blast
  then show False using m by (simp add: cs_step_held [OF assms(2)])
qed

theorem castle_at_most_once_witness:
  "\<exists>s'. cs_step castle_ready (Castle CHR ''K'') = Inr s'
     \<and> \<not> accepts (cs_step (run cs_step s' [King_move CHR ''b'']) (Castle CHR ''Q''))"
proof -
  have "accepts (cs_step castle_ready (Castle CHR ''K''))" by code_simp
  then obtain s' where s': "cs_step castle_ready (Castle CHR ''K'') = Inr s'"
    by (auto simp: accepts_iff)
  show ?thesis
    using s' castle_at_most_once [OF castle_ready_valid(1) s', of "CHR ''Q''" "[King_move CHR ''b'']"]
    by (auto simp: side_of_def simp del: run.simps)
qed

end
