(* ===== verification/EnPassant.thy ===== *)
theory EnPassant
  imports Board
begin

text \<open>
  The en-passant runtime, \<open>src/graph/en_passant.py\<close> over \<open>src/data/contracts/en_passant.yaml\<close>:
  applying one move to \<open>{ep_target, occupied, side_to_move}\<close>, the capture with its
  preconditions, the canonical identity value and the turn linkage. \<open>ep_read_state\<close> and
  \<open>ep_read_move\<close> validate and detach the caller's dicts; an \<open>EnPassantError\<close> is \<open>Inl\<close> of its
  class.
\<close>

subsection \<open>Contract tables\<close>

datatype ep_error = Target_malformed | Target_inconsistent | Capture_precondition | Pinned_capture

fun ep_code :: "ep_error \<Rightarrow> string" where
  "ep_code Target_malformed = ''malformed_request''"
| "ep_code Target_inconsistent = ''illegal_position''"
| "ep_code Capture_precondition = ''illegal_move''"
| "ep_code Pinned_capture = ''illegal_move''"

definition EP_NONE :: string where "EP_NONE = ''-''"

record ep_set_on =
  so_from :: char
  so_to :: char
  so_target :: char

definition set_on :: "char \<Rightarrow> ep_set_on" where
  "set_on side = (if side = CHR ''w'' then \<lparr>so_from = CHR ''2'', so_to = CHR ''4'', so_target = CHR ''3''\<rparr>
     else \<lparr>so_from = CHR ''7'', so_to = CHR ''5'', so_target = CHR ''6''\<rparr>)"

text \<open>\<open>_MOVER[side]\<close>: the rank the capturing pawn stands on, and that of the captured pawn.\<close>

definition mover_rank :: "char \<Rightarrow> char" where
  "mover_rank side = (if side = CHR ''w'' then CHR ''5'' else CHR ''4'')"

definition captured_rank :: "char \<Rightarrow> char" where
  "captured_rank side = (if side = CHR ''w'' then CHR ''5'' else CHR ''4'')"

definition ep_move_types :: "string list" where
  "ep_move_types = [''pawn-advance'', ''ep-capture'', ''quiet'']"

subsection \<open>States and moves\<close>

record ep_state =
  ep_target :: string
  ep_occ :: occupancy
  ep_side :: char

record ep_move =
  em_kind :: string
  em_from :: square
  em_to :: square

fun ep_items :: "pydict \<Rightarrow> (ep_error, occupancy) result" where
  "ep_items [] = Inr []"
| "ep_items ((k, v) # d) =
     (case (k, v) of (PStr s, PStr t) \<Rightarrow>
        require (grammar_ok s \<and> token_ok t) Target_malformed
          (and_then (ep_items d) (\<lambda>occ. Inr ((s, t) # occ)))
      | _ \<Rightarrow> Inl Target_malformed)"

text \<open>\<open>_read_state\<close>. A target that is a \<open>str\<close> without a UTF-8 encoding is kept as the empty
  string: neither is in the grammar.\<close>

definition ep_read_state :: "pyval \<Rightarrow> (ep_error, ep_state) result" where
  "ep_read_state state = (case state of PDict _ d \<Rightarrow>
       require (keys_are d [''ep_target'', ''occupied'', ''side_to_move'']) Target_malformed
       (and_then (case pget d ''ep_target'' of Some (PStr t) \<Rightarrow> Inr t | Some PBadStr \<Rightarrow> Inr []
            | _ \<Rightarrow> Inl Target_malformed) (\<lambda>target.
        case pget d ''side_to_move'' of
          Some (PStr [side]) \<Rightarrow>
            require (side \<in> set ''wb'') Target_malformed
            (case pget d ''occupied'' of
               Some (PDict _ items) \<Rightarrow> and_then (ep_items items) (\<lambda>occ.
                 require (\<forall>c \<in> set ''wb''. king_count occ c = 1) Target_malformed
                   (Inr \<lparr>ep_target = target, ep_occ = occ, ep_side = side\<rparr>))
             | _ \<Rightarrow> Inl Target_malformed)
        | _ \<Rightarrow> Inl Target_malformed))
     | _ \<Rightarrow> Inl Target_malformed)"

definition ep_read_move :: "pyval \<Rightarrow> (ep_error, ep_move) result" where
  "ep_read_move move = (case move of PDict _ d \<Rightarrow>
       require (keys_are d [''type'', ''from'', ''to'']) Target_malformed
       (case (pget d ''type'', pget d ''from'', pget d ''to'') of
          (Some (PStr k), Some (PStr f), Some (PStr t)) \<Rightarrow>
            require (k \<in> set ep_move_types) Target_malformed
            (require (grammar_ok f \<and> grammar_ok t) Target_malformed
              (Inr \<lparr>em_kind = k, em_from = f, em_to = t\<rparr>))
        | _ \<Rightarrow> Inl Target_malformed)
     | _ \<Rightarrow> Inl Target_malformed)"

subsection \<open>Attack\<close>

text \<open>\<open>ord\<close>, the coordinates \<open>(ord(s[0]) - 97, int(s[1]))\<close> and \<open>chr(97 + f) + str(r)\<close>.\<close>

definition ord :: "char \<Rightarrow> int" where
  "ord c = int (of_char c)"

definition file_no :: "square \<Rightarrow> int" where "file_no s = ord (s ! 0) - 97"
definition rank_no :: "square \<Rightarrow> int" where "rank_no s = ord (s ! 1) - 48"

definition ep_sq :: "int \<Rightarrow> int \<Rightarrow> square" where
  "ep_sq f r = sq f (r - 1)"

text \<open>The loop of \<open>_clear\<close> from \<open>(f, r)\<close> to the end square. The last two conjuncts of the guard
  only make the walk total: it is called on aligned squares, where it reaches the end before the
  edge (\<open>clear_walk_line\<close> in AttackGeometry).\<close>

function clear_walk :: "occupancy \<Rightarrow> int \<times> int \<Rightarrow> int \<Rightarrow> int \<Rightarrow> int \<Rightarrow> int \<Rightarrow> bool" where
  "clear_walk occ end step_f step_r f r =
     (if (f, r) \<noteq> end \<and> on_board f (r - 1) \<and> (step_f, step_r) \<noteq> (0, 0) then
        (if map_of occ (ep_sq f r) \<noteq> None then False
         else clear_walk occ end step_f step_r (f + step_f) (r + step_r))
      else True)"
  by pat_completeness auto
termination
proof (relation "measure (\<lambda>(occ, end, df, dr, f, r). ray_room df dr f (r - 1))", goal_cases)
  case (2 occ e df dr f r)
  then show ?case using ray_room_less [of f "r - 1" df dr] by (simp add: algebra_simps)
qed simp

declare clear_walk.simps [simp del]

definition clear :: "occupancy \<Rightarrow> square \<Rightarrow> square \<Rightarrow> int \<Rightarrow> int \<Rightarrow> bool" where
  "clear occ a b step_f step_r =
     clear_walk occ (file_no b, rank_no b) step_f step_r (file_no a + step_f) (rank_no a + step_r)"

definition piece_hits :: "occupancy \<Rightarrow> square \<Rightarrow> char \<Rightarrow> square \<Rightarrow> token \<Rightarrow> bool" where
  "piece_hits occ square by s tok =
     (let df = file_no s - file_no square; dr = rank_no s - rank_no square; piece = tok ! 1 in
      if piece = CHR ''p'' then dr = (if by = CHR ''w'' then - 1 else 1) \<and> \<bar>df\<bar> = 1
      else if piece = CHR ''n'' then (\<bar>df\<bar>, \<bar>dr\<bar>) \<in> {(1, 2), (2, 1)}
      else if piece = CHR ''k'' then max \<bar>df\<bar> \<bar>dr\<bar> = 1
      else ((piece \<in> set ''rq'' \<and> (df = 0 \<or> dr = 0)) \<or> (piece \<in> set ''bq'' \<and> \<bar>df\<bar> = \<bar>dr\<bar>))
        \<and> (df, dr) \<noteq> (0, 0) \<and> clear occ square s (sgn df) (sgn dr))"

definition ep_attacked :: "occupancy \<Rightarrow> square \<Rightarrow> char \<Rightarrow> bool" where
  "ep_attacked occ square by =
     list_ex (\<lambda>(s, tok). tok ! 0 = by \<and> piece_hits occ square by s tok) occ"

subsection \<open>Operations\<close>

definition ep_grammar :: "string \<Rightarrow> bool" where
  "ep_grammar t \<longleftrightarrow> t = EP_NONE \<or> (length t = 2 \<and> t ! 0 \<in> set FILES \<and> t ! 1 \<in> set ''36'')"

definition capture_result :: "ep_state \<Rightarrow> square \<Rightarrow> square \<Rightarrow> occupancy" where
  "capture_result st frm to =
     dict_set (filter (\<lambda>kv. fst kv \<noteq> frm \<and> fst kv \<noteq> [ep_target st ! 0, captured_rank (ep_side st)])
       (ep_occ st)) to [ep_side st, CHR ''p'']"

definition ep_king :: "occupancy \<Rightarrow> char \<Rightarrow> square option" where
  "ep_king occ side = map_option fst (find (\<lambda>(s, tok). tok = [side, CHR ''k'']) occ)"

definition ep_capture :: "ep_state \<Rightarrow> square \<Rightarrow> square \<Rightarrow> (ep_error, ep_state) result" where
  "ep_capture st frm to = (let target = ep_target st; occ = ep_occ st; side = ep_side st;
       opp = other side; captured = [target ! 0, captured_rank side];
       result = capture_result st frm to in
     require (ep_grammar target) Target_malformed
     (require (target \<noteq> EP_NONE) Capture_precondition
     (require (map_of occ target = None) Target_inconsistent
     (require (target ! 1 = so_target (set_on opp)) Target_inconsistent
     (require (map_of occ captured = Some [opp, CHR ''p'']) Target_inconsistent
     (require (to = target \<and> frm ! 1 = mover_rank side \<and> \<bar>ord (frm ! 0) - ord (target ! 0)\<bar> = 1
         \<and> map_of occ frm = Some [side, CHR ''p'']) Capture_precondition
     (case ep_king result side of
        None \<Rightarrow> Inl Target_malformed
      | Some king \<Rightarrow> require (\<not> ep_attacked result king opp) Pinned_capture
          (Inr \<lparr>ep_target = EP_NONE, ep_occ = result, ep_side = opp\<rparr>))))))))"

definition ep_new_target :: "char \<Rightarrow> ep_move \<Rightarrow> token \<Rightarrow> string" where
  "ep_new_target side m tok = (let so = set_on side; f = em_from m; t = em_to m in
     if em_kind m = ''pawn-advance'' \<and> tok ! 1 = CHR ''p'' \<and> f ! 0 = t ! 0
        \<and> f ! 1 = so_from so \<and> t ! 1 = so_to so
     then [t ! 0, so_target so] else EP_NONE)"

definition ep_step :: "ep_state \<Rightarrow> ep_move \<Rightarrow> (ep_error, ep_state) result" where
  "ep_step st m =
     (if em_kind m = ''ep-capture'' then ep_capture st (em_from m) (em_to m)
      else (case map_of (ep_occ st) (em_from m) of
          None \<Rightarrow> Inl Target_malformed
        | Some tok \<Rightarrow> Inr \<lparr>ep_target = ep_new_target (ep_side st) m tok,
            ep_occ = dict_set (filter (\<lambda>kv. fst kv \<noteq> em_from m) (ep_occ st)) (em_to m) tok,
            ep_side = other (ep_side st)\<rparr>))"

definition apply_ep :: "pyval \<Rightarrow> pyval \<Rightarrow> (ep_error, ep_state) result" where
  "apply_ep state move =
     and_then (ep_read_state state) (\<lambda>st. and_then (ep_read_move move) (ep_step st))"

text \<open>\<open>identity_value\<close>: the loop over the two neighbouring files.\<close>

definition ep_identity_of :: "ep_state \<Rightarrow> string" where
  "ep_identity_of st = (let target = ep_target st in
     if target = EP_NONE \<or> \<not> ep_grammar target then EP_NONE
     else if list_ex (\<lambda>df. let f = (ord (target ! 0) - 97) + df in
         0 \<le> f \<and> f \<le> 7 \<and> accepts (ep_capture st [FILES ! nat f, mover_rank (ep_side st)] target))
       [- 1, 1] then target else EP_NONE)"

definition ep_identity_value :: "pyval \<Rightarrow> (ep_error, string) result" where
  "ep_identity_value state = and_then (ep_read_state state) (\<lambda>st. Inr (ep_identity_of st))"

definition ep_turn_transition :: "pyval \<Rightarrow> pyval \<Rightarrow> (ep_error, string \<times> string) result" where
  "ep_turn_transition kind side = (case (kind, side) of
     (PStr k, PStr [s]) \<Rightarrow> require (k \<in> set ep_move_types \<and> s \<in> set ''wb'') Target_malformed
       (Inr (if k \<in> set [''pawn-advance'', ''ep-capture''] then ''reset'' else ''increment'',
             if s = CHR ''b'' then ''increment'' else ''same''))
   | _ \<Rightarrow> Inl Target_malformed)"

end
