(* ===== verification/AttackGeometry.thy ===== *)
theory AttackGeometry
  imports LegalMovesFacts EnPassant
begin

text \<open>
  The geometry behind the attack relation: which squares a token covers in terms of coordinate
  differences, and that the en-passant runtime's test (\<open>piece_hits\<close>, by alignment and a walk from
  the target) is the legal-moves runtime's relation (\<open>covers\<close>, by deltas and walks from the
  piece).
\<close>

subsection \<open>Directions and lines\<close>

lemma mem_knight: "(a, b) \<in> set KNIGHT_DELTAS \<longleftrightarrow> (\<bar>a\<bar>, \<bar>b\<bar>) \<in> {(1, 2), (2, 1)}"
  by (auto simp: KNIGHT_DELTAS_def abs_eq_iff')

lemma mem_king: "(a, b) \<in> set KING_DELTAS \<longleftrightarrow> max \<bar>a\<bar> \<bar>b\<bar> = 1"
proof
  assume m: "max \<bar>a\<bar> \<bar>b\<bar> = 1"
  then have "a \<in> {- 1, 0, 1}" "b \<in> {- 1, 0, 1}" "(a, b) \<noteq> (0, 0)" by auto
  then show "(a, b) \<in> set KING_DELTAS" by (auto simp: KING_DELTAS_def)
qed (auto simp: KING_DELTAS_def)

definition unit_dir :: "int \<Rightarrow> int \<Rightarrow> bool" where
  "unit_dir dx dy \<longleftrightarrow> dx \<in> {- 1, 0, 1} \<and> dy \<in> {- 1, 0, 1} \<and> (dx, dy) \<noteq> (0, 0)"

lemma mem_rook: "(a, b) \<in> set ROOK_DIRS \<longleftrightarrow> unit_dir a b \<and> (a = 0 \<or> b = 0)"
  by (auto simp: ROOK_DIRS_def unit_dir_def)

lemma mem_bishop: "(a, b) \<in> set BISHOP_DIRS \<longleftrightarrow> unit_dir a b \<and> \<bar>a\<bar> = \<bar>b\<bar>"
  by (auto simp: BISHOP_DIRS_def unit_dir_def)

lemma mem_queen: "(a, b) \<in> set QUEEN_DIRS \<longleftrightarrow> unit_dir a b"
  by (auto simp: QUEEN_DIRS_def unit_dir_def)

lemma mem_slide_dirs:
  assumes "tok ! 1 \<in> set ''pnbrqk''"
  shows "(a, b) \<in> set (slide_dirs tok) \<longleftrightarrow> unit_dir a b \<and>
    ((tok ! 1 \<in> set ''rq'' \<and> (a = 0 \<or> b = 0)) \<or> (tok ! 1 \<in> set ''bq'' \<and> \<bar>a\<bar> = \<bar>b\<bar>))"
proof -
  have "unit_dir a b \<Longrightarrow> (a = 0 \<or> b = 0) \<or> \<bar>a\<bar> = \<bar>b\<bar>" by (auto simp: unit_dir_def)
  then show ?thesis using assms
    by (auto simp: slide_dirs_def leaper_def slider_def mem_rook mem_bishop mem_queen)
qed

text \<open>A unit direction and a number of steps are determined by the difference they make.\<close>

lemma line_unique:
  assumes "unit_dir dx dy" "0 < n"
  shows "sgn (n * dx) = dx" "sgn (n * dy) = dy" "max \<bar>n * dx\<bar> \<bar>n * dy\<bar> = n"
    "n * dx = 0 \<longleftrightarrow> dx = 0" "n * dy = 0 \<longleftrightarrow> dy = 0" "\<bar>n * dx\<bar> = \<bar>n * dy\<bar> \<longleftrightarrow> \<bar>dx\<bar> = \<bar>dy\<bar>"
  using assms by (auto simp: unit_dir_def)

lemma line_exists:
  assumes "a = 0 \<or> b = 0 \<or> \<bar>a\<bar> = \<bar>b\<bar>" "(a, b) \<noteq> (0, 0)"
  shows "unit_dir (sgn a) (sgn b)" "0 < max \<bar>a\<bar> \<bar>b\<bar>"
    "max \<bar>a\<bar> \<bar>b\<bar> * sgn a = a" "max \<bar>a\<bar> \<bar>b\<bar> * sgn b = (b :: int)"
  using assms by (auto simp: unit_dir_def sgn_if max_def abs_if split: if_splits)

text \<open>A walk of \<open>n\<close> steps between two squares of the board stays on the board.\<close>

lemma between_on_board:
  assumes "on_board x y" "on_board (x + n * dx) (y + n * dy)" "unit_dir dx dy" "0 \<le> j" "j \<le> n"
  shows "on_board (x + j * dx) (y + j * dy)"
proof -
  have "0 \<le> a + j * d \<and> a + j * d < 8" if "0 \<le> a" "a < 8" "0 \<le> a + n * d" "a + n * d < 8"
    "d \<in> {- 1, 0, 1}" for a d :: int
    using that assms(4,5) by auto
  then show ?thesis using assms(1-3) by (auto simp: on_board_iff unit_dir_def)
qed

text \<open>Nothing strictly between two squares of a line.\<close>

definition line_clear :: "(square \<Rightarrow> bool) \<Rightarrow> int \<Rightarrow> int \<Rightarrow> int \<Rightarrow> int \<Rightarrow> int \<Rightarrow> bool" where
  "line_clear B x y dx dy n \<longleftrightarrow> (\<forall>j. 0 < j \<and> j < n \<longrightarrow> \<not> B (sq (x + j * dx) (y + j * dy)))"

lemma line_clear_reverse:
  "line_clear B (x + n * dx) (y + n * dy) (- dx) (- dy) n \<longleftrightarrow> line_clear B x y dx dy n"
proof -
  have *: "line_clear B (x + n * dx) (y + n * dy) (- dx) (- dy) n" if "line_clear B x y dx dy n"
    for x y dx dy
    unfolding line_clear_def
  proof (intro allI impI)
    fix j assume "0 < j \<and> j < n"
    then have "\<not> B (sq (x + (n - j) * dx) (y + (n - j) * dy))"
      using that unfolding line_clear_def by simp
    then show "\<not> B (sq (x + n * dx + j * - dx) (y + n * dy + j * - dy))"
      by (simp add: algebra_simps)
  qed
  show ?thesis
    using * [of x y dx dy] * [of "x + n * dx" "y + n * dy" "- dx" "- dy"] by auto
qed

lemma reach_line:
  assumes "on_board x y" "unit_dir dx dy"
  shows "reach B dx dy (x + dx) (y + dy) k \<longleftrightarrow>
    on_board (x + (1 + int k) * dx) (y + (1 + int k) * dy) \<and> line_clear B x y dx dy (1 + int k)"
proof -
  have e: "x + dx + int j * dx = x + (1 + int j) * dx" "y + dy + int j * dy = y + (1 + int j) * dy"
    for j by (simp_all add: algebra_simps)
  have "(\<forall>j < k. \<not> B (sq (x + (1 + int j) * dx) (y + (1 + int j) * dy))) \<longleftrightarrow>
      line_clear B x y dx dy (1 + int k)"
  proof
    assume l: "\<forall>j < k. \<not> B (sq (x + (1 + int j) * dx) (y + (1 + int j) * dy))"
    show "line_clear B x y dx dy (1 + int k)" unfolding line_clear_def
    proof (intro allI impI)
      fix j assume "0 < j \<and> j < 1 + int k"
      then have "nat (j - 1) < k" by (simp add: nat_less_iff)
      from l [rule_format, OF this] show "\<not> B (sq (x + j * dx) (y + j * dy))"
        using \<open>0 < j \<and> j < 1 + int k\<close> by simp
    qed
  qed (auto simp: line_clear_def)
  moreover have "on_board (x + (1 + int j) * dx) (y + (1 + int j) * dy)"
    if "on_board (x + (1 + int k) * dx) (y + (1 + int k) * dy)" "j \<le> k" for j
    using between_on_board [OF assms(1) that(1) assms(2)] that(2) by simp
  ultimately show ?thesis unfolding reach_def e by auto
qed

lemma slide_reaches:
  assumes "on_board x y" "on_board u v" "unit_dir dx dy"
  shows "(\<exists>k. reach B dx dy (x + dx) (y + dy) k
       \<and> sq u v = sq (x + dx + int k * dx) (y + dy + int k * dy)) \<longleftrightarrow>
     (\<exists>n > 0. u = x + n * dx \<and> v = y + n * dy \<and> line_clear B x y dx dy n)"
proof -
  have e: "x + dx + int j * dx = x + (1 + int j) * dx" "y + dy + int j * dy = y + (1 + int j) * dy"
    for j by (simp_all add: algebra_simps)
  show ?thesis unfolding e reach_line [OF assms(1,3)]
  proof
    assume "\<exists>n > 0. u = x + n * dx \<and> v = y + n * dy \<and> line_clear B x y dx dy n"
    then obtain n where n: "0 < n" "u = x + n * dx" "v = y + n * dy" "line_clear B x y dx dy n"
      by blast
    then show "\<exists>k. (on_board (x + (1 + int k) * dx) (y + (1 + int k) * dy)
        \<and> line_clear B x y dx dy (1 + int k))
        \<and> sq u v = sq (x + (1 + int k) * dx) (y + (1 + int k) * dy)"
      using assms(2) by (intro exI [of _ "nat (n - 1)"]) simp
  next
    assume "\<exists>k. (on_board (x + (1 + int k) * dx) (y + (1 + int k) * dy)
        \<and> line_clear B x y dx dy (1 + int k))
        \<and> sq u v = sq (x + (1 + int k) * dx) (y + (1 + int k) * dy)"
    then obtain k where k: "on_board (x + (1 + int k) * dx) (y + (1 + int k) * dy)"
      "line_clear B x y dx dy (1 + int k)" "sq u v = sq (x + (1 + int k) * dx) (y + (1 + int k) * dy)"
      by blast
    then show "\<exists>n > 0. u = x + n * dx \<and> v = y + n * dy \<and> line_clear B x y dx dy n"
      using sq_inj [OF assms(2) k(1)] by (intro exI [of _ "1 + int k"]) simp
  qed
qed

text \<open>What a token covers, by coordinate differences.\<close>

lemma covers_geometry:
  assumes p: "on_board x y" "on_board u v" and tok: "token_ok tok"
  shows "covers B (sq x y) tok (sq u v) \<longleftrightarrow> (let a = u - x; b = v - y; p = tok ! 1 in
     if p = CHR ''p'' then \<bar>a\<bar> = 1 \<and> b = (if tok ! 0 = CHR ''w'' then 1 else - 1)
     else if p = CHR ''n'' then (\<bar>a\<bar>, \<bar>b\<bar>) \<in> {(1, 2), (2, 1)}
     else if p = CHR ''k'' then max \<bar>a\<bar> \<bar>b\<bar> = 1
     else ((p \<in> set ''rq'' \<and> (a = 0 \<or> b = 0)) \<or> (p \<in> set ''bq'' \<and> \<bar>a\<bar> = \<bar>b\<bar>))
       \<and> (a, b) \<noteq> (0, 0) \<and> line_clear B x y (sgn a) (sgn b) (max \<bar>a\<bar> \<bar>b\<bar>))"
proof -
  have pc: "tok ! 1 \<in> set ''pnbrqk''" using tok by (simp add: token_ok_def)
  have hop: "(\<exists>dx dy. (dx, dy) \<in> set ds \<and> on_board (x + dx) (y + dy)
      \<and> sq u v = sq (x + dx) (y + dy)) \<longleftrightarrow> (u - x, v - y) \<in> set ds" for ds
  proof
    assume "\<exists>dx dy. (dx, dy) \<in> set ds \<and> on_board (x + dx) (y + dy) \<and> sq u v = sq (x + dx) (y + dy)"
    then obtain dx dy where "(dx, dy) \<in> set ds" "u = x + dx" "v = y + dy"
      using sq_inj [OF p(2)] by blast
    then show "(u - x, v - y) \<in> set ds" by simp
  next
    assume "(u - x, v - y) \<in> set ds"
    then show "\<exists>dx dy. (dx, dy) \<in> set ds \<and> on_board (x + dx) (y + dy) \<and> sq u v = sq (x + dx) (y + dy)"
      using p(2) by (intro exI [of _ "u - x"] exI [of _ "v - y"]) simp
  qed
  have slide: "(\<exists>dx dy. (dx, dy) \<in> set (slide_dirs tok) \<and>
      (\<exists>k. reach B dx dy (x + dx) (y + dy) k
         \<and> sq u v = sq (x + dx + int k * dx) (y + dy + int k * dy))) \<longleftrightarrow>
    ((tok ! 1 \<in> set ''rq'' \<and> (u = x \<or> v = y)) \<or> (tok ! 1 \<in> set ''bq'' \<and> \<bar>u - x\<bar> = \<bar>v - y\<bar>))
       \<and> (u - x, v - y) \<noteq> (0, 0)
       \<and> line_clear B x y (sgn (u - x)) (sgn (v - y)) (max \<bar>u - x\<bar> \<bar>v - y\<bar>)" (is "?L \<longleftrightarrow> ?R")
  proof
    assume ?L
    then obtain dx dy n where d: "(dx, dy) \<in> set (slide_dirs tok)" "0 < n" "u = x + n * dx"
      "v = y + n * dy" "line_clear B x y dx dy n"
      using slide_reaches [OF p] mem_slide_dirs [OF pc] by blast
    then have ud: "unit_dir dx dy" using mem_slide_dirs [OF pc] by blast
    then have "(dx, dy) \<noteq> (0, 0)" by (simp add: unit_dir_def)
    then show ?R using d line_unique [OF ud d(2)] mem_slide_dirs [OF pc, of dx dy] by auto
  next
    assume R: ?R
    let ?a = "u - x" and ?b = "v - y"
    have al: "?a = 0 \<or> ?b = 0 \<or> \<bar>?a\<bar> = \<bar>?b\<bar>" "(?a, ?b) \<noteq> (0, 0)" using R by auto
    note le = line_exists [OF al]
    have "\<exists>n > 0. u = x + n * sgn ?a \<and> v = y + n * sgn ?b \<and> line_clear B x y (sgn ?a) (sgn ?b) n"
      using R le by (intro exI [of _ "max \<bar>?a\<bar> \<bar>?b\<bar>"]) simp
    moreover have "(sgn ?a, sgn ?b) \<in> set (slide_dirs tok)"
      using R le(1) by (auto simp: mem_slide_dirs [OF pc] sgn_if)
    ultimately show ?L using slide_reaches [OF p le(1)] by blast
  qed
  have "slide_dirs tok = []" if "tok ! 1 \<in> set ''pnk''"
    using that by (auto simp: slide_dirs_def leaper_def slider_def)
  moreover have "hop_deltas tok = []" if "tok ! 1 \<in> set ''rbq''"
    using that by (auto simp: hop_deltas_def leaper_def slider_def)
  moreover have "(a, b) \<in> set (CAPTURE_DELTAS c) \<longleftrightarrow> \<bar>a\<bar> = 1 \<and> b = (if c = CHR ''w'' then 1 else - 1)"
    for a b c by (auto simp: CAPTURE_DELTAS_def)
  ultimately show ?thesis
    using pc unfolding covers_def xy_sq [OF p(1)] Let_def prod.case hop slide
    by (auto simp: hop_deltas_def leaper_def slider_def mem_knight mem_king)
qed

subsection \<open>The en-passant runtime's test\<close>

lemma ord_FILES: "0 \<le> x \<Longrightarrow> x < 8 \<Longrightarrow> ord (FILES ! nat x) = x + 97"
  by (drule (1) coord_cases) (auto simp: FILES_def ord_def)

lemma ord_RANKS: "0 \<le> x \<Longrightarrow> x < 8 \<Longrightarrow> ord (RANKS ! nat x) = x + 49"
  by (drule (1) coord_cases) (auto simp: RANKS_def ord_def)

lemma coords_sq [simp]:
  "on_board x y \<Longrightarrow> file_no (sq x y) = x" "on_board x y \<Longrightarrow> rank_no (sq x y) = y + 1"
  by (simp_all add: file_no_def rank_no_def sq_def on_board_iff ord_FILES ord_RANKS)

lemma clear_walk_line:
  assumes ud: "unit_dir sx sy" and b: "on_board u v" "on_board (u + n * sx) (v + n * sy)"
    and n: "0 < n" "0 \<le> i" "i \<le> n"
  shows "clear_walk occ (u + n * sx, v + n * sy + 1) sx sy (u + i * sx) (v + i * sy + 1) \<longleftrightarrow>
    (\<forall>j. i \<le> j \<and> j < n \<longrightarrow> map_of occ (sq (u + j * sx) (v + j * sy)) = None)"
  using n(2,3)
proof (induction "nat (n - i)" arbitrary: i)
  case 0
  then have "i = n" by simp
  then show ?case by (subst clear_walk.simps) auto
next
  case (Suc m)
  then have i: "i < n" by simp
  have nz: "(sx, sy) \<noteq> (0, 0)" using ud by (simp add: unit_dir_def)
  have ne: "(u + i * sx, v + i * sy + 1) \<noteq> (u + n * sx, v + n * sy + 1)" using nz i by auto
  have ob: "on_board (u + i * sx) (v + i * sy)"
    using between_on_board [OF b ud] Suc.prems by simp
  have IH: "clear_walk occ (u + n * sx, v + n * sy + 1) sx sy
      (u + i * sx + sx) (v + i * sy + 1 + sy) \<longleftrightarrow>
    (\<forall>j. i + 1 \<le> j \<and> j < n \<longrightarrow> map_of occ (sq (u + j * sx) (v + j * sy)) = None)"
    using Suc.hyps(1) [of "i + 1"] Suc.hyps(2) i Suc.prems by (simp add: algebra_simps)
  have split: "(\<forall>j. i \<le> j \<and> j < n \<longrightarrow> P j) \<longleftrightarrow> P i \<and> (\<forall>j. i + 1 \<le> j \<and> j < n \<longrightarrow> P j)"
    for P :: "int \<Rightarrow> bool"
  proof -
    have "i \<le> j \<longleftrightarrow> j = i \<or> i + 1 \<le> j" for j by auto
    then show ?thesis using i by auto
  qed
  show ?case
    by (subst clear_walk.simps, subst split, subst IH)
      (use nz ne ob in \<open>simp add: ep_sq_def\<close>)
qed

lemma piece_hits_covers:
  assumes p: "on_board x y" "on_board u v" and tok: "token_ok tok"
  shows "piece_hits occ (sq u v) (tok ! 0) (sq x y) tok \<longleftrightarrow>
    covers (piece_on occ) (sq x y) tok (sq u v)"
proof -
  let ?a = "x - u" and ?b = "y - v"
  let ?n = "max \<bar>?a\<bar> \<bar>?b\<bar>"
  have cl: "clear occ (sq u v) (sq x y) (sgn ?a) (sgn ?b) \<longleftrightarrow>
      line_clear (piece_on occ) x y (sgn (u - x)) (sgn (v - y)) (max \<bar>u - x\<bar> \<bar>v - y\<bar>)"
    if al: "?a = 0 \<or> ?b = 0 \<or> \<bar>?a\<bar> = \<bar>?b\<bar>" "(?a, ?b) \<noteq> (0, 0)"
  proof -
    note le = line_exists [OF al]
    have xy: "x = u + ?n * sgn ?a" "y = v + ?n * sgn ?b" using le(3,4) by simp_all
    have "clear_walk occ (u + ?n * sgn ?a, v + ?n * sgn ?b + 1) (sgn ?a) (sgn ?b)
        (u + 1 * sgn ?a) (v + 1 * sgn ?b + 1) \<longleftrightarrow>
      (\<forall>j. 1 \<le> j \<and> j < ?n \<longrightarrow> map_of occ (sq (u + j * sgn ?a) (v + j * sgn ?b)) = None)"
      using le(2) p xy by (intro clear_walk_line [OF le(1)]) simp_all
    then have "clear occ (sq u v) (sq x y) (sgn ?a) (sgn ?b) \<longleftrightarrow>
        line_clear (piece_on occ) u v (sgn ?a) (sgn ?b) ?n"
      using p xy by (simp add: clear_def line_clear_def piece_on_def algebra_simps int_one_le_iff_zero_less)
    also have "\<dots> \<longleftrightarrow> line_clear (piece_on occ) (u + ?n * sgn ?a) (v + ?n * sgn ?b)
        (- sgn ?a) (- sgn ?b) ?n"
      by (simp add: line_clear_reverse)
    also have "\<dots> \<longleftrightarrow> line_clear (piece_on occ) x y (sgn (u - x)) (sgn (v - y)) (max \<bar>u - x\<bar> \<bar>v - y\<bar>)"
      using xy by (simp add: sgn_minus [symmetric] abs_minus_commute)
    finally show ?thesis .
  qed
  show ?thesis
    unfolding covers_geometry [OF p tok] piece_hits_def
    using tok p cl by (auto simp: Let_def token_ok_def abs_minus_commute)
qed

lemma ep_attacked_iff:
  assumes v: "valid_occ occ" and s: "grammar_ok s"
  shows "ep_attacked occ s by \<longleftrightarrow> s \<in> set (attacked_squares occ by)"
proof -
  have d: "distinct (map fst occ)" using v by (simp add: valid_occ_def)
  obtain u w where uw: "on_board u w" "s = sq u w" using s by (rule grammar_sqE)
  have "piece_hits occ s (tok ! 0) q tok \<longleftrightarrow> covers (piece_on occ) q tok s"
    if "map_of occ q = Some tok" for q tok
  proof -
    have "(q, tok) \<in> set occ" using that by (rule map_of_SomeD)
    then have g: "grammar_ok q" "token_ok tok" using v by (auto simp: valid_occ_def)
    obtain x y where "on_board x y" "q = sq x y" using g(1) by (rule grammar_sqE)
    then show ?thesis using piece_hits_covers [OF _ uw(1) g(2)] uw(2) by blast
  qed
  moreover have "ep_attacked occ s by \<longleftrightarrow>
      (\<exists>q tok. (q, tok) \<in> set occ \<and> tok ! 0 = by \<and> piece_hits occ s by q tok)"
    by (auto simp: ep_attacked_def list_ex_iff)
  ultimately show ?thesis
    unfolding mem_attacked_squares [OF d] map_of_mem_distinct [OF d] by blast
qed

end
