(* ===== verification/EnPassantFacts.thy ===== *)
theory EnPassantFacts
  imports AttackGeometry
begin

text \<open>The en-passant machine: lifetime of the target, the capture, and the identity value.\<close>

definition ep_valid :: "ep_state \<Rightarrow> bool" where
  "ep_valid st \<longleftrightarrow> valid_occ (ep_occ st) \<and> ep_side st \<in> set ''wb''"

definition captured_square :: "ep_state \<Rightarrow> square" where
  "captured_square st = [ep_target st ! 0, captured_rank (ep_side st)]"

text \<open>The preconditions of a capture, before the king test.\<close>

definition capturable :: "ep_state \<Rightarrow> square \<Rightarrow> square \<Rightarrow> bool" where
  "capturable st frm to \<longleftrightarrow> ep_grammar (ep_target st) \<and> ep_target st \<noteq> EP_NONE
     \<and> map_of (ep_occ st) (ep_target st) = None
     \<and> ep_target st ! 1 = so_target (set_on (other (ep_side st)))
     \<and> map_of (ep_occ st) (captured_square st) = Some [other (ep_side st), CHR ''p'']
     \<and> to = ep_target st \<and> frm ! 1 = mover_rank (ep_side st)
     \<and> \<bar>ord (frm ! 0) - ord (ep_target st ! 0)\<bar> = 1
     \<and> map_of (ep_occ st) frm = Some [ep_side st, CHR ''p'']"

lemma capture_result_eq:
  assumes "capturable st frm to"
  shows "capture_result st frm to =
    filter (\<lambda>kv. fst kv \<noteq> frm \<and> fst kv \<noteq> captured_square st) (ep_occ st)
      @ [(to, [ep_side st, CHR ''p''])]"
  using assms unfolding capture_result_def captured_square_def capturable_def
  by (subst dict_set_new) (auto simp: map_of_eq_None_iff rev_image_eqI)

lemma king_count_filter2:
  assumes "distinct (map fst occ)" "map_of occ a \<noteq> Some [c, CHR ''k'']"
    "map_of occ b \<noteq> Some [c, CHR ''k'']"
  shows "king_count (filter (\<lambda>kv. fst kv \<noteq> a \<and> fst kv \<noteq> b) occ) c = king_count occ c"
proof -
  let ?A = "filter (\<lambda>kv. fst kv \<noteq> a) occ"
  have "map_of ?A b \<noteq> Some [c, CHR ''k'']"
    using assms(3) by (simp add: map_of_filter_key [where P = "\<lambda>k. k \<noteq> a"])
  then have "king_count (filter (\<lambda>kv. fst kv \<noteq> b) ?A) c = king_count occ c"
    using king_count_filter [OF distinct_fst_filter [OF assms(1), of "\<lambda>kv. fst kv \<noteq> a"], of b c]
      king_count_filter [OF assms(1), of a c] assms(2) by simp
  then show ?thesis by (simp add: conj_commute)
qed

lemma ep_target_square: "ep_grammar t \<Longrightarrow> t \<noteq> EP_NONE \<Longrightarrow> grammar_ok t"
  by (auto simp: ep_grammar_def grammar_ok_def RANKS_def)

lemma capture_result_valid:
  assumes v: "ep_valid st" and c: "capturable st frm to"
  shows "valid_occ (capture_result st frm to)"
proof -
  have vo: "valid_occ (ep_occ st)" and s: "ep_side st \<in> set ''wb''"
    using v by (simp_all add: ep_valid_def)
  then have d: "distinct (map fst (ep_occ st))" by (simp add: valid_occ_def)
  have k: "king_count (capture_result st frm to) x = king_count (ep_occ st) x" for x
    using c king_count_filter2 [OF d, of frm x "captured_square st"]
    unfolding capture_result_eq [OF c] king_count_append
    by (simp add: capturable_def) (simp add: king_count_def)
  have new: "to \<notin> fst ` set (ep_occ st)"
    using c by (simp add: capturable_def map_of_eq_None_iff)
  have "distinct (map fst (capture_result st frm to))"
    unfolding capture_result_eq [OF c] using distinct_fst_filter [OF d] new by auto
  moreover have "grammar_ok to"
    using c ep_target_square by (auto simp: capturable_def)
  moreover have "token_ok [ep_side st, CHR ''p'']" using s by (auto simp: token_ok_def)
  ultimately show ?thesis
    using vo k unfolding capture_result_eq [OF c] valid_occ_def by auto
qed

lemma ep_king_square: "ep_king = king_square"
  by (simp add: ep_king_def king_square_def fun_eq_iff)

lemma ep_capture_Inr:
  assumes v: "ep_valid st"
  shows "ep_capture st frm to = Inr st' \<longleftrightarrow> capturable st frm to
    \<and> \<not> king_attacked (capture_result st frm to) (ep_side st)
    \<and> st' = \<lparr>ep_target = EP_NONE, ep_occ = capture_result st frm to, ep_side = other (ep_side st)\<rparr>"
proof (cases "capturable st frm to")
  case True
  let ?r = "capture_result st frm to"
  have vr: "valid_occ ?r" using capture_result_valid [OF v True] .
  have "king_count ?r (ep_side st) = 1" using vr v by (auto simp: ep_valid_def valid_occ_def)
  then obtain k where k: "king_square ?r (ep_side st) = Some k"
    and m: "map_of ?r k = Some [ep_side st, CHR ''k'']"
    using find_king vr unfolding valid_occ_def by blast
  have "grammar_ok k" using vr map_of_SomeD [OF m] by (auto simp: valid_occ_def)
  then have "ep_attacked ?r k (other (ep_side st)) \<longleftrightarrow> king_attacked ?r (ep_side st)"
    by (simp add: ep_attacked_iff [OF vr] king_attacked_def k)
  with True k show ?thesis
    by (auto simp: ep_capture_def capturable_def captured_square_def Let_def ep_king_square)
next
  case False
  then show ?thesis
    by (auto simp: ep_capture_def capturable_def captured_square_def Let_def)
qed

text \<open>A capture never runs out of kings (the \<open>next\<close> of the source never raises).\<close>

lemma ep_capture_no_structural_error:
  assumes "ep_valid st" "ep_grammar (ep_target st)"
  shows "ep_capture st frm to \<noteq> Inl Target_malformed"
proof (cases "capturable st frm to")
  case True
  have "valid_occ (capture_result st frm to)" using capture_result_valid [OF assms(1) True] .
  then have "king_square (capture_result st frm to) (ep_side st) \<noteq> None"
    using find_king assms(1) by (fastforce simp: valid_occ_def ep_valid_def)
  then show ?thesis using assms(2)
    by (auto simp: ep_capture_def Let_def ep_king_square result_simps split: option.splits)
next
  case False
  then show ?thesis using assms(2)
    by (auto simp: ep_capture_def Let_def capturable_def captured_square_def result_simps)
qed

subsection \<open>Identity\<close>

lemma capturable_from:
  assumes v: "ep_valid st" and c: "capturable st frm to"
  shows "\<exists>df \<in> {- 1, 1}. let f = ord (ep_target st ! 0) - 97 + df in
    0 \<le> f \<and> f \<le> 7 \<and> frm = [FILES ! nat f, mover_rank (ep_side st)]"
proof -
  have "(frm, [ep_side st, CHR ''p'']) \<in> set (ep_occ st)"
    using c by (simp add: capturable_def map_of_SomeD)
  then have g: "grammar_ok frm" using v by (auto simp: ep_valid_def valid_occ_def)
  obtain x y where xy: "on_board x y" "frm = sq x y" using g by (rule grammar_sqE)
  have "ord (frm ! 0) = x + 97" using xy by (simp add: sq_def on_board_iff ord_FILES)
  then have "x = ord (ep_target st ! 0) - 97 - 1 \<or> x = ord (ep_target st ! 0) - 97 + 1"
    using c by (auto simp: capturable_def abs_eq_iff')
  moreover have "frm = [FILES ! nat x, mover_rank (ep_side st)]"
    using c xy by (simp add: capturable_def sq_def)
  ultimately show ?thesis using xy(1) by (auto simp: on_board_iff Let_def)
qed

lemma accepts_ep_capture:
  "ep_valid st \<Longrightarrow> accepts (ep_capture st frm to) \<longleftrightarrow> capturable st frm to
     \<and> \<not> king_attacked (capture_result st frm to) (ep_side st)"
  by (auto simp: accepts_iff ep_capture_Inr)

lemma ep_target_lifetime_aux:
  assumes "ep_valid st" and "grammar_ok (em_from m)" and "grammar_ok (em_to m)"
    and "ep_step st m = Inr st'"
  shows "ep_side st' = other (ep_side st) \<and> (ep_target st' \<noteq> EP_NONE \<longleftrightarrow>
      em_kind m = ''pawn-advance'' \<and> (\<exists>c. map_of (ep_occ st) (em_from m) = Some [c, CHR ''p''])
      \<and> (\<exists>f. if ep_side st = CHR ''w''
           then em_from m = [f, CHR ''2''] \<and> em_to m = [f, CHR ''4''] \<and> ep_target st' = [f, CHR ''3'']
           else em_from m = [f, CHR ''7''] \<and> em_to m = [f, CHR ''5''] \<and> ep_target st' = [f, CHR ''6'']))"
proof (cases "em_kind m = ''ep-capture''")
  case True
  then show ?thesis using assms(1,4) by (auto simp: ep_step_def ep_capture_Inr)
next
  case False
  then obtain tok where tok: "map_of (ep_occ st) (em_from m) = Some tok"
    and t: "ep_target st' = ep_new_target (ep_side st) m tok" "ep_side st' = other (ep_side st)"
    using assms(4) by (auto simp: ep_step_def split: option.splits)
  have "token_ok tok" using map_of_SomeD [OF tok] assms(1) by (auto simp: ep_valid_def valid_occ_def)
  then obtain c p where p: "tok = [c, p]" by (auto elim!: token_okE)
  obtain f y where f: "em_from m = [f, y]"
    using assms(2) by (auto simp: grammar_ok_def length_Suc_conv numeral_2_eq_2)
  obtain g v where g: "em_to m = [g, v]"
    using assms(3) by (auto simp: grammar_ok_def length_Suc_conv numeral_2_eq_2)
  show ?thesis
    using t tok unfolding f by (auto simp: ep_new_target_def Let_def set_on_def tok p f g EP_NONE_def)
qed

subsection \<open>Properties\<close>

definition ep_double :: ep_state where
  "ep_double = \<lparr>ep_target = ''-'', ep_occ = [(''e1'', ''wk''), (''h8'', ''bk''), (''e2'', ''wp''), (''d4'', ''bp'')],
     ep_side = CHR ''w''\<rparr>"

definition e2e4 :: ep_move where
  "e2e4 = \<lparr>em_kind = ''pawn-advance'', em_from = ''e2'', em_to = ''e4''\<rparr>"

lemma ep_double_valid: "ep_valid ep_double"
  by code_simp

text \<open>Lifetime of the target: every accepted move passes the turn, and the target it leaves is
  the square a pawn of the moved token's file has just passed over when the move is a two-square
  pawn advance from its start rank, and the none sentinel after any other move.\<close>

theorem ep_target_lifetime:
  assumes "ep_valid st" and "grammar_ok (em_from m)" and "grammar_ok (em_to m)"
    and "ep_step st m = Inr st'"
  shows "ep_side st' = other (ep_side st) \<and> (ep_target st' \<noteq> EP_NONE \<longleftrightarrow>
      em_kind m = ''pawn-advance'' \<and> (\<exists>c. map_of (ep_occ st) (em_from m) = Some [c, CHR ''p''])
      \<and> (\<exists>f. if ep_side st = CHR ''w''
           then em_from m = [f, CHR ''2''] \<and> em_to m = [f, CHR ''4''] \<and> ep_target st' = [f, CHR ''3'']
           else em_from m = [f, CHR ''7''] \<and> em_to m = [f, CHR ''5''] \<and> ep_target st' = [f, CHR ''6'']))"
  using assms by (rule ep_target_lifetime_aux)

theorem ep_target_lifetime_witness:
  "\<exists>st'. ep_step ep_double e2e4 = Inr st' \<and> ep_target st' = ''e3'' \<and> ep_side st' = CHR ''b''"
proof -
  have g: "grammar_ok (em_from e2e4)" "grammar_ok (em_to e2e4)" by code_simp+
  have e: "(case ep_step ep_double e2e4 of Inl _ \<Rightarrow> False | Inr s \<Rightarrow> ep_target s = ''e3'')" by code_simp
  then obtain st' where st': "ep_step ep_double e2e4 = Inr st'" "ep_target st' = ''e3''"
    by (auto split: sum.splits)
  then show ?thesis
    using ep_target_lifetime [OF ep_double_valid g st'(1)] by (auto simp: ep_double_def)
qed

text \<open>C29. The capture: an accepted en-passant capture is of the stored target by a pawn of the side
  to move; it removes the enemy pawn from the captured rank (not from the destination), relocates
  the capturing pawn, touches nothing else, clears the target, passes the turn, leaves a well-formed
  position and, judged on the resulting position with the attack relation of the legal-moves
  runtime, leaves the mover's king unattacked.\<close>

theorem ep_capture_transition:
  assumes "ep_valid st" and "ep_capture st frm to = Inr st'"
  shows "to = ep_target st \<and> ep_target st' = EP_NONE \<and> ep_side st' = other (ep_side st)
    \<and> map_of (ep_occ st) frm = Some [ep_side st, CHR ''p'']
    \<and> map_of (ep_occ st) (captured_square st) = Some [other (ep_side st), CHR ''p'']
    \<and> map_of (ep_occ st') = (map_of (ep_occ st))(frm := None, captured_square st := None,
        to \<mapsto> [ep_side st, CHR ''p''])
    \<and> ep_valid st' \<and> \<not> king_attacked (ep_occ st') (ep_side st)"
proof -
  have c: "capturable st frm to" and k: "\<not> king_attacked (capture_result st frm to) (ep_side st)"
    and st': "st' = \<lparr>ep_target = EP_NONE, ep_occ = capture_result st frm to, ep_side = other (ep_side st)\<rparr>"
    using assms by (auto simp: ep_capture_Inr)
  have "map_of (capture_result st frm to) =
      (map_of (ep_occ st))(frm := None, captured_square st := None, to \<mapsto> [ep_side st, CHR ''p''])"
    by (auto simp: capture_result_def captured_square_def fun_eq_iff
        map_of_filter_key [where P = "\<lambda>q. q \<noteq> frm \<and> q \<noteq> [ep_target st ! 0, captured_rank (ep_side st)]"])
  then show ?thesis
    using c k capture_result_valid [OF assms(1) c] assms(1)
    by (auto simp: st' capturable_def ep_valid_def other_def)
qed

definition ep_ready :: ep_state where
  "ep_ready = \<lparr>ep_target = ''d6'', ep_occ = [(''e1'', ''wk''), (''e8'', ''bk''), (''e5'', ''wp''), (''d5'', ''bp'')],
     ep_side = CHR ''w''\<rparr>"

lemma ep_ready_valid: "ep_valid ep_ready"
  by code_simp

theorem ep_capture_transition_witness:
  "\<exists>st'. ep_capture ep_ready ''e5'' ''d6'' = Inr st' \<and> map_of (ep_occ st') ''d6'' = Some ''wp''
     \<and> map_of (ep_occ st') ''d5'' = None"
proof -
  have "accepts (ep_capture ep_ready ''e5'' ''d6'')" by code_simp
  then obtain st' where st': "ep_capture ep_ready ''e5'' ''d6'' = Inr st'" by (auto simp: accepts_iff)
  show ?thesis
    using ep_capture_transition [OF ep_ready_valid st'] st'
    by (auto simp: ep_ready_def captured_square_def captured_rank_def)
qed

text \<open>Consistency of what the machine stores: after an accepted two-square advance of a pawn of
  the side to move over an empty square, no capture attempt is rejected as an inconsistent target;
  in particular a capture by a pawn standing next to the advanced pawn can only fail for the king's
  safety.\<close>

theorem ep_stored_target_consistent:
  assumes "ep_valid st" and "ep_step st m = Inr st'" and "em_kind m = ''pawn-advance''"
    and "grammar_ok (em_from m)" and "grammar_ok (em_to m)"
    and "map_of (ep_occ st) (em_from m) = Some [ep_side st, CHR ''p'']"
    and "ep_target st' \<noteq> EP_NONE" and "map_of (ep_occ st) (ep_target st') = None"
  shows "ep_capture st' frm to \<noteq> Inl Target_inconsistent"
proof -
  have s: "ep_side st \<in> set ''wb''" using assms(1) by (simp add: ep_valid_def)
  have kind: "em_kind m \<noteq> ''ep-capture''" using assms(3) by simp
  have occ: "ep_occ st' = dict_set (filter (\<lambda>kv. fst kv \<noteq> em_from m) (ep_occ st)) (em_to m)
      [ep_side st, CHR ''p'']"
    using assms(2,6) kind by (auto simp: ep_step_def)
  obtain f where f: "ep_side st' = other (ep_side st)" and sq: "if ep_side st = CHR ''w''
      then em_from m = [f, CHR ''2''] \<and> em_to m = [f, CHR ''4''] \<and> ep_target st' = [f, CHR ''3'']
      else em_from m = [f, CHR ''7''] \<and> em_to m = [f, CHR ''5''] \<and> ep_target st' = [f, CHR ''6'']"
    using ep_target_lifetime_aux [OF assms(1,4,5,2)] assms(7) by blast
  have "map_of (ep_occ st') (em_to m) = Some [ep_side st, CHR ''p'']" by (simp add: occ)
  moreover have "map_of (ep_occ st') (ep_target st') = None"
    using assms(8) sq
    by (auto simp: occ map_of_filter_key [where P = "\<lambda>q. q \<noteq> em_from m"] split: if_splits)
  ultimately show ?thesis
    using sq f s
    by (auto simp: ep_capture_def Let_def result_simps set_on_def captured_rank_def other_def
        split: if_splits option.splits)
qed

theorem ep_stored_target_consistent_witness:
  "\<exists>st'. ep_step ep_double e2e4 = Inr st' \<and> ep_capture st' ''c4'' ''e3'' \<noteq> Inl Target_inconsistent
     \<and> accepts (ep_capture st' ''d4'' ''e3'')"
proof -
  have g: "grammar_ok (em_from e2e4)" "grammar_ok (em_to e2e4)" by code_simp+
  have "(case ep_step ep_double e2e4 of Inl _ \<Rightarrow> False
     | Inr s \<Rightarrow> ep_target s = ''e3'' \<and> accepts (ep_capture s ''d4'' ''e3''))" by code_simp
  then obtain st' where st': "ep_step ep_double e2e4 = Inr st'" "ep_target st' = ''e3''"
    "accepts (ep_capture st' ''d4'' ''e3'')"
    by (auto split: sum.splits)
  show ?thesis
    using st' ep_stored_target_consistent [OF ep_double_valid st'(1) _ g, of "''c4''" "''e3''"]
    by (auto simp: ep_double_def e2e4_def EP_NONE_def)
qed

text \<open>The identity value looks at two candidate squares only, and that is enough: it is the
  stored target exactly when some move whatsoever would be accepted as an en-passant capture, and
  the none sentinel otherwise.\<close>

theorem ep_identity_exhaustive:
  assumes "ep_valid st"
  shows "ep_identity_of st =
    (if \<exists>frm to. accepts (ep_capture st frm to) then ep_target st else EP_NONE)"
proof (cases "\<exists>frm to. accepts (ep_capture st frm to)")
  case True
  then obtain frm to where a: "accepts (ep_capture st frm to)" by blast
  then have c: "capturable st frm to" by (simp add: accepts_ep_capture [OF assms])
  then have to: "to = ep_target st" "ep_target st \<noteq> EP_NONE" "ep_grammar (ep_target st)"
    by (simp_all add: capturable_def)
  with capturable_from [OF assms c] a True show ?thesis
    by (auto simp: ep_identity_of_def Let_def)
next
  case False
  then show ?thesis by (auto simp: ep_identity_of_def Let_def)
qed

theorem ep_identity_exhaustive_witness: "ep_identity_of ep_ready = ''d6''"
proof -
  have "accepts (ep_capture ep_ready ''e5'' ''d6'')" by code_simp
  then show ?thesis using ep_identity_exhaustive [OF ep_ready_valid] by (auto simp: ep_ready_def)
qed

end
