(* ===== verification/Fen.thy ===== *)
theory Fen
  imports Board Decimal
begin

text \<open>
  The FEN parser and emitter, \<open>src/graph/fen.py\<close> over \<open>src/data/contracts/fen.yaml\<close> (and the
  linked castling home squares and en-passant \<open>set_on\<close> geometry). A board is a dict from
  (file index, rank number) to a piece letter. A \<open>FenError\<close> is \<open>Inl\<close> of its class.
\<close>

subsection \<open>Contract tables\<close>

datatype fen_error = Malformed_fen | Impossible_position

type_synonym fen_board = "((int \<times> int) \<times> char) list"

definition fen_knight_deltas :: "delta list" where
  "fen_knight_deltas = [(1, 2), (2, 1), (2, -1), (1, -2), (-1, -2), (-2, -1), (-2, 1), (-1, 2)]"

definition fen_king_deltas :: "delta list" where
  "fen_king_deltas = [(1, 0), (1, 1), (0, 1), (-1, 1), (-1, 0), (-1, -1), (0, -1), (1, -1)]"

definition fen_rook_directions :: "delta list" where
  "fen_rook_directions = [(1, 0), (-1, 0), (0, 1), (0, -1)]"

definition fen_bishop_directions :: "delta list" where
  "fen_bishop_directions = [(1, 1), (1, -1), (-1, 1), (-1, -1)]"

definition fen_pawn_deltas :: "bool \<Rightarrow> delta list" where
  "fen_pawn_deltas by_white = (if by_white then [(1, 1), (-1, 1)] else [(1, -1), (-1, -1)])"

definition piece_letters :: string where "piece_letters = ''pnbrqkPNBRQK''"
definition empty_run_digits :: string where "empty_run_digits = ''12345678''"

definition is_upper :: "char \<Rightarrow> bool" where
  "is_upper c \<longleftrightarrow> c \<in> set ''PNBRQK''"

text \<open>\<open>ch.lower()\<close> on piece letters.\<close>

definition lower :: "char \<Rightarrow> char" where
  "lower c = (case map_of (zip ''PNBRQK'' ''pnbrqk'') c of Some d \<Rightarrow> d | None \<Rightarrow> c)"

definition cased :: "bool \<Rightarrow> char \<Rightarrow> char" where
  "cased by_white c = (if by_white then c else lower c)"

subsection \<open>Attack\<close>

text \<open>The slider loop of \<open>_attack\<close>, from the target outward. The last conjunct of the guard only
  makes the walk total: every declared direction is non-zero.\<close>

function fen_slide :: "fen_board \<Rightarrow> char list \<Rightarrow> int \<Rightarrow> int \<Rightarrow> int \<Rightarrow> int \<Rightarrow> bool" where
  "fen_slide board want df dr nf nr =
     (if 0 \<le> nf \<and> nf < 8 \<and> 1 \<le> nr \<and> nr \<le> 8 \<and> (df, dr) \<noteq> (0, 0) then
        (case map_of board (nf, nr) of
           Some piece \<Rightarrow> piece \<in> set want
         | None \<Rightarrow> fen_slide board want df dr (nf + df) (nr + dr))
      else False)"
  by pat_completeness auto
termination
proof (relation "measure (\<lambda>(board, want, df, dr, nf, nr). ray_room df dr nf (nr - 1))", goal_cases)
  case (2 board want df dr nf nr)
  then show ?case using ray_room_less [of nf "nr - 1" df dr]
    by (simp add: on_board_iff algebra_simps)
qed simp

declare fen_slide.simps [simp del]

definition fen_attack :: "int \<times> int \<Rightarrow> fen_board \<Rightarrow> bool \<Rightarrow> bool" where
  "fen_attack square board by_white = (let (f, r) = square in
     list_ex (\<lambda>(df, dr). map_of board (f - df, r - dr) = Some (cased by_white CHR ''P''))
       (fen_pawn_deltas by_white)
     \<or> list_ex (\<lambda>(df, dr). map_of board (f + df, r + dr) = Some (cased by_white CHR ''N''))
       fen_knight_deltas
     \<or> list_ex (\<lambda>(df, dr). map_of board (f + df, r + dr) = Some (cased by_white CHR ''K''))
       fen_king_deltas
     \<or> list_ex (\<lambda>(directions, kinds). list_ex (\<lambda>(df, dr).
           fen_slide board (map (cased by_white) kinds) df dr (f + df) (r + dr)) directions)
       [(fen_rook_directions, ''RQ''), (fen_bishop_directions, ''BQ'')])"

subsection \<open>Grammar\<close>

record fen_position =
  fp_board :: fen_board
  fp_color :: string
  fp_rights :: string
  fp_ep :: "string option"
  fp_half :: nat
  fp_full :: nat

text \<open>The loop over one rank: file counter \<open>f\<close>, previous character a digit, board so far. Keys
  are new (the file grows), so an assignment appends.\<close>

fun parse_rank :: "int \<Rightarrow> string \<Rightarrow> nat \<Rightarrow> bool \<Rightarrow> fen_board \<Rightarrow> (fen_error, fen_board) result" where
  "parse_rank rank_no [] f prev_digit board = require (f = 8) Malformed_fen (Inr board)"
| "parse_rank rank_no (ch # chs) f prev_digit board =
     (if ch \<in> set empty_run_digits then
        require (\<not> prev_digit) Malformed_fen
          (parse_rank rank_no chs (f + digit_val ch) True board)
      else if ch = CHR ''0'' then Inl Malformed_fen
      else if ch \<in> set piece_letters then
        parse_rank rank_no chs (f + 1) False (board @ [((int f, rank_no), ch)])
      else Inl Malformed_fen)"

fun parse_ranks :: "int \<Rightarrow> string list \<Rightarrow> fen_board \<Rightarrow> (fen_error, fen_board) result" where
  "parse_ranks rank_no [] board = Inr board"
| "parse_ranks rank_no (rank # rest) board =
     require (rank \<noteq> []) Malformed_fen
       (and_then (parse_rank rank_no rank 0 False board) (\<lambda>b. parse_ranks (rank_no - 1) rest b))"

definition parse_placement :: "string \<Rightarrow> (fen_error, fen_board) result" where
  "parse_placement placement = (let ranks = split_on CHR ''/'' placement in
     require (length ranks = 8) Malformed_fen (parse_ranks 8 ranks []))"

text \<open>A counter: ASCII digits, within the interpreter's limit of 4300 digits for \<open>int(s)\<close>, no
  leading zeros, at least \<open>lo\<close>.\<close>

definition parse_counter :: "nat \<Rightarrow> string \<Rightarrow> (fen_error, nat) result" where
  "parse_counter lo s = require (s \<noteq> [] \<and> list_all is_digit s) Malformed_fen
     (require (length s \<le> 4300) Malformed_fen
     (require (s = dec (undec s)) Malformed_fen
     (require (lo \<le> undec s) Malformed_fen (Inr (undec s)))))"

definition parse_castling :: "string \<Rightarrow> (fen_error, string) result" where
  "parse_castling s = (if s = ''-'' then Inr []
     else require (s \<noteq> [] \<and> set s \<subseteq> set ''KQkq'') Malformed_fen
       (require (distinct s) Malformed_fen
       (require (filter (\<lambda>c. c \<in> set s) ''KQkq'' = s) Malformed_fen (Inr s))))"

definition parse_ep :: "string \<Rightarrow> (fen_error, string option) result" where
  "parse_ep s = (if s = ''-'' then Inr None
     else require (length s = 2 \<and> s ! 0 \<in> set FILES \<and> s ! 1 \<in> set ''36'') Malformed_fen
       (Inr (Some s)))"

subsection \<open>Position rules\<close>

definition squares_of :: "fen_board \<Rightarrow> char \<Rightarrow> (int \<times> int) list" where
  "squares_of board c = map fst (filter (\<lambda>kv. snd kv = c) board)"

definition kings_adjacent :: "int \<times> int \<Rightarrow> int \<times> int \<Rightarrow> bool" where
  "kings_adjacent w b \<longleftrightarrow> max \<bar>fst w - fst b\<bar> \<bar>snd w - snd b\<bar> \<le> 1"

definition material_ok :: "fen_board \<Rightarrow> bool \<Rightarrow> bool" where
  "material_ok board white = (let mine = filter (\<lambda>p. is_upper p = white) (map snd board);
       count = (\<lambda>k. length (filter (\<lambda>p. lower p = k) mine));
       pawns = count CHR ''p'' in
     \<not> (8 < pawns \<or> 16 < length mine) \<and>
     sum_list (map (\<lambda>(kind, start). count kind - start)
       [(CHR ''q'', 1), (CHR ''r'', 2), (CHR ''b'', 2), (CHR ''n'', 2)]) \<le> 8 - pawns)"

definition castling_consistent :: "fen_board \<Rightarrow> char \<Rightarrow> bool" where
  "castling_consistent board right =
     (let rank = (if is_upper right then 1 else 8);
          rook_file = (if right = CHR ''K'' \<or> right = CHR ''k'' then 7 else 0) in
      map_of board (4, rank) = Some (if is_upper right then CHR ''K'' else CHR ''k'')
      \<and> map_of board (rook_file, rank) = Some (if is_upper right then CHR ''R'' else CHR ''r''))"

text \<open>File index, target rank number, and the ranks of the advanced pawn and of its origin.\<close>

definition ep_consistent :: "fen_board \<Rightarrow> bool \<Rightarrow> nat \<Rightarrow> string \<Rightarrow> bool" where
  "ep_consistent board white_to_move half ep =
     (let f = index_of FILES (ep ! 0); r = (if ep ! 1 = CHR ''3'' then 3 else 6);
          white_advanced = (ep ! 1 = CHR ''3'');
          to_rank = (if white_advanced then 4 else 5);
          from_rank = (if white_advanced then 2 else 7) in
      \<not> ((white_advanced \<and> white_to_move) \<or> (\<not> white_advanced \<and> \<not> white_to_move))
      \<and> map_of board (f, to_rank) = Some (if white_advanced then CHR ''P'' else CHR ''p'')
      \<and> map_of board (f, r) = None \<and> map_of board (f, from_rank) = None \<and> half = 0)"

definition position_ok :: "fen_position \<Rightarrow> bool" where
  "position_ok p \<longleftrightarrow> (let board = fp_board p; white = (fp_color p = ''w'');
       wk = squares_of board CHR ''K''; bk = squares_of board CHR ''k'' in
     length wk = 1 \<and> length bk = 1 \<and> \<not> kings_adjacent (hd wk) (hd bk)
     \<and> \<not> list_ex (\<lambda>((_, r), c). c \<in> set ''Pp'' \<and> r \<in> set [1, 8]) board
     \<and> material_ok board True \<and> material_ok board False
     \<and> \<not> fen_attack (if white then hd bk else hd wk) board white
     \<and> list_all (castling_consistent board) (fp_rights p)
     \<and> (case fp_ep p of None \<Rightarrow> True | Some ep \<Rightarrow> ep_consistent board white (fp_half p) ep))"

definition parse_fields :: "string list \<Rightarrow> (fen_error, fen_position) result" where
  "parse_fields parts = (case parts of
     [placement, color, castling, ep, half, full] \<Rightarrow>
       require (list_all (\<lambda>s. s \<noteq> []) parts) Malformed_fen
       (and_then (parse_placement placement) (\<lambda>board.
        require (color = ''w'' \<or> color = ''b'') Malformed_fen
       (and_then (parse_counter 0 half) (\<lambda>h.
        and_then (parse_counter 1 full) (\<lambda>n.
        and_then (parse_castling castling) (\<lambda>rights.
        and_then (parse_ep ep) (\<lambda>ep_square.
        let p = \<lparr>fp_board = board, fp_color = color, fp_rights = rights, fp_ep = ep_square,
                 fp_half = h, fp_full = n\<rparr> in
        require (position_ok p) Impossible_position (Inr p))))))))
   | _ \<Rightarrow> Inl Malformed_fen)"

definition parse_fen :: "pyval \<Rightarrow> (fen_error, fen_position) result" where
  "parse_fen text = (case text of
     PStr s \<Rightarrow> parse_fields (split_on CHR '' '' s) | _ \<Rightarrow> Inl Malformed_fen)"

subsection \<open>Emission\<close>

text \<open>The inner loop: the squares of a rank in file order, and the run of empty squares.\<close>

fun emit_row :: "char option list \<Rightarrow> nat \<Rightarrow> string" where
  "emit_row [] gap = (if gap \<noteq> 0 then dec gap else [])"
| "emit_row (Some piece # cells) gap =
     (if gap \<noteq> 0 then dec gap else []) @ piece # emit_row cells 0"
| "emit_row (None # cells) gap = emit_row cells (gap + 1)"

definition row_cells :: "fen_board \<Rightarrow> int \<Rightarrow> char option list" where
  "row_cells board r = map (\<lambda>f. map_of board (f, r)) [0, 1, 2, 3, 4, 5, 6, 7]"

definition emit_placement :: "fen_board \<Rightarrow> string" where
  "emit_placement board =
     join_on CHR ''/'' (map (\<lambda>r. emit_row (row_cells board r) 0) [8, 7, 6, 5, 4, 3, 2, 1])"

definition emit_fen :: "fen_position \<Rightarrow> string" where
  "emit_fen p = join_on CHR '' '' [emit_placement (fp_board p), fp_color p,
     (if fp_rights p = [] then ''-'' else fp_rights p),
     (case fp_ep p of None \<Rightarrow> ''-'' | Some e \<Rightarrow> e), dec (fp_half p), dec (fp_full p)]"

end
