(* ===== verification/FenFacts.thy ===== *)
theory FenFacts
  imports Fen AttackGeometry EnPassantFacts CastlingFacts
begin

text \<open>
  The parser and emitter of \<open>src/graph/fen.py\<close>: what an accepted text parses to, that emission
  gives the accepted text back, and that an accepted position satisfies what the legal-moves and
  en-passant runtimes demand of an occupancy, with the same attack relation.
\<close>

subsection \<open>Placement text and board\<close>

text \<open>The squares of a rank that a rank text describes, and the dict items they make.\<close>

fun rank_cells :: "string \<Rightarrow> char option list" where
  "rank_cells [] = []"
| "rank_cells (ch # chs) = (if ch \<in> set empty_run_digits then replicate (digit_val ch) None
     else [Some ch]) @ rank_cells chs"

fun placed :: "int \<Rightarrow> int \<Rightarrow> char option list \<Rightarrow> fen_board" where
  "placed rn f [] = []"
| "placed rn f (None # cells) = placed rn (f + 1) cells"
| "placed rn f (Some ch # cells) = ((f, rn), ch) # placed rn (f + 1) cells"

fun ranks_placed :: "int \<Rightarrow> string list \<Rightarrow> fen_board" where
  "ranks_placed rn [] = []"
| "ranks_placed rn (rank # ranks) = placed rn 0 (rank_cells rank) @ ranks_placed (rn - 1) ranks"

lemma run_digit: "ch \<in> set empty_run_digits \<Longrightarrow>
    digit_val ch \<noteq> 0 \<and> dec (digit_val ch) = [ch]"
  by (auto simp: empty_run_digits_def digit_val.simps dec_small digit_char_def)

lemma placed_skip: "placed rn f (replicate n None @ cells) = placed rn (f + int n) cells"
  by (induction n arbitrary: f) (simp_all add: algebra_simps)

lemma parse_rank_cells:
  "parse_rank rn chs f pd board = Inr b \<Longrightarrow>
     f + length (rank_cells chs) = 8 \<and> b = board @ placed rn (int f) (rank_cells chs)"
  by (induction rn chs f pd board rule: parse_rank.induct)
    (auto split: if_splits simp: placed_skip algebra_simps)

lemma parse_rank_letters:
  "parse_rank rn chs f pd board = Inr b \<Longrightarrow> set chs \<subseteq> set empty_run_digits \<union> set piece_letters"
  by (induction rn chs f pd board rule: parse_rank.induct) (auto split: if_splits)

lemma emit_row_skip: "emit_row (replicate n None @ cells) gap = emit_row cells (gap + n)"
  by (induction n arbitrary: gap) simp_all

lemma parse_rank_emit:
  "parse_rank rn chs f pd board = Inr b \<Longrightarrow> (gap \<noteq> 0 \<longrightarrow> pd) \<Longrightarrow>
     emit_row (rank_cells chs) gap = (if gap \<noteq> 0 then dec gap else []) @ chs"
proof (induction rn chs f pd board arbitrary: gap rule: parse_rank.induct)
  case (2 rn ch chs f pd board)
  show ?case
  proof (cases "ch \<in> set empty_run_digits")
    case True
    then have "gap = 0" using "2.prems" by auto
    then show ?thesis
      using 2 True run_digit [OF True] by (simp add: emit_row_skip)
  next
    case False
    then show ?thesis using 2 by (auto split: if_splits)
  qed
qed simp

lemma nth_shift: "nat (g - f) - Suc 0 = nat (g - (f + 1))" for f g :: int
  by arith

lemma map_of_placed:
  "map_of (placed rn f cells) (g, r) =
     (if r = rn \<and> f \<le> g \<and> g < f + int (length cells) then cells ! nat (g - f) else None)"
proof (induction rn f cells rule: placed.induct)
  case (2 rn f cells)
  then show ?case by (auto simp: nth_Cons') (simp only: nth_shift)
next
  case (3 rn f ch cells)
  then show ?case by (auto simp: nth_Cons') (simp only: nth_shift)
qed auto

lemma placed_rank: "((f, r), ch) \<in> set (placed rn g cells) \<Longrightarrow> r = rn"
  by (induction rn g cells rule: placed.induct) auto

lemma map_of_ranks_low: "map_of (ranks_placed rn ranks) (g, r) \<noteq> None \<Longrightarrow> r \<le> rn"
  by (induction rn ranks rule: ranks_placed.induct)
    (auto simp: map_add_def map_of_placed split: option.splits if_splits)

lemma map_of_ranks_placed:
  assumes "\<forall>rank \<in> set ranks. length (rank_cells rank) = 8" "0 \<le> g" "g < 8"
  shows "i < length ranks \<Longrightarrow>
    map_of (ranks_placed rn ranks) (g, rn - int i) = rank_cells (ranks ! i) ! nat g"
  using assms(1)
proof (induction rn ranks arbitrary: i rule: ranks_placed.induct)
  case (2 rn rank ranks)
  show ?case
  proof (cases i)
    case 0
    then have "map_of (ranks_placed (rn - 1) ranks) (g, rn) = None"
      using map_of_ranks_low [of "rn - 1" ranks g rn] by fastforce
    then show ?thesis using 0 2 assms by (simp add: map_of_placed map_add_def split: option.split)
  next
    case (Suc j)
    then have "map_of (ranks_placed (rn - 1) ranks) (g, rn - 1 - int j) = rank_cells (ranks ! j) ! nat g"
      using 2 by simp
    then show ?thesis using Suc
      by (auto simp: map_add_def map_of_placed algebra_simps split: option.split)
  qed
qed simp

lemma parse_ranks_placed:
  "parse_ranks rn ranks board = Inr b \<Longrightarrow> b = board @ ranks_placed rn ranks \<and>
     (\<forall>rank \<in> set ranks. length (rank_cells rank) = 8 \<and> emit_row (rank_cells rank) 0 = rank
        \<and> set rank \<subseteq> set empty_run_digits \<union> set piece_letters)"
proof (induction rn ranks board arbitrary: b rule: parse_ranks.induct)
  case (2 rn rank ranks board)
  then obtain c where c: "parse_rank rn rank 0 False board = Inr c"
    "parse_ranks (rn - 1) ranks c = Inr b" by auto
  show ?case
    using 2(1) [OF c(2)] parse_rank_cells [OF c(1)] parse_rank_emit [OF c(1), of 0]
      parse_rank_letters [OF c(1)] by auto
qed simp

lemma row_cells_placed:
  assumes "\<forall>rank \<in> set ranks. length (rank_cells rank) = 8" "i < length ranks"
  shows "row_cells (ranks_placed rn ranks) (rn - int i) = rank_cells (ranks ! i)"
proof (rule nth_equalityI)
  have l: "length (rank_cells (ranks ! i)) = 8" using assms by simp
  then show "length (row_cells (ranks_placed rn ranks) (rn - int i)) = length (rank_cells (ranks ! i))"
    by (simp add: row_cells_def)
  fix j assume "j < length (row_cells (ranks_placed rn ranks) (rn - int i))"
  then have j: "j < 8" by (simp add: row_cells_def)
  then have "[0, 1, 2, 3, 4, 5, 6, 7] ! j = int j"
    by (auto simp: less_Suc_eq numeral_eq_Suc)
  then show "row_cells (ranks_placed rn ranks) (rn - int i) ! j = rank_cells (ranks ! i) ! j"
    using map_of_ranks_placed [OF assms(1) _ _ assms(2), of "int j" rn] j
    by (simp add: row_cells_def del: list.map)
qed

theorem placement_roundtrip:
  assumes p: "parse_placement placement = Inr b"
  shows "emit_placement b = placement"
proof -
  let ?ranks = "split_on CHR ''/'' placement"
  have len: "length ?ranks = 8" and pr: "parse_ranks 8 ?ranks [] = Inr b"
    using p by (simp_all add: parse_placement_def Let_def)
  note f = parse_ranks_placed [OF pr]
  have row: "emit_row (row_cells b (8 - int i)) 0 = ?ranks ! i" if "i < 8" for i
    using f row_cells_placed [of ?ranks i 8] that len by auto
  have "map (\<lambda>r. emit_row (row_cells b r) 0) [8, 7, 6, 5, 4, 3, 2, 1] = ?ranks"
  proof (rule nth_equalityI)
    fix i assume "i < length (map (\<lambda>r. emit_row (row_cells b r) 0) [8, 7, 6, 5, 4, 3, 2, 1])"
    then have i: "i < 8" by simp
    then have "[8, 7, 6, 5, 4, 3, 2, 1] ! i = 8 - int i" by (auto simp: less_Suc_eq numeral_eq_Suc)
    then show "map (\<lambda>r. emit_row (row_cells b r) 0) [8, 7, 6, 5, 4, 3, 2, 1] ! i = ?ranks ! i"
      using row [OF i] i by (simp del: list.map)
  qed (use len in simp)
  then show ?thesis by (simp add: emit_placement_def del: list.map)
qed

subsection \<open>The same board as an occupancy\<close>

definition letter_token :: "char \<Rightarrow> token" where
  "letter_token ch = [(if is_upper ch then CHR ''w'' else CHR ''b''), lower ch]"

definition occ_of :: "fen_board \<Rightarrow> occupancy" where
  "occ_of board = map (\<lambda>((f, r), ch). (sq f (r - 1), letter_token ch)) board"

definition board_ok :: "fen_board \<Rightarrow> bool" where
  "board_ok board \<longleftrightarrow> distinct (map fst board) \<and>
     (\<forall>((f, r), ch) \<in> set board. on_board f (r - 1) \<and> ch \<in> set piece_letters)"

lemma letter_token_ok: "ch \<in> set piece_letters \<Longrightarrow> token_ok (letter_token ch)"
  by (auto simp: piece_letters_def letter_token_def token_ok_def is_upper_def lower_def)

lemma letter_token_inj:
  "c \<in> set piece_letters \<Longrightarrow> d \<in> set piece_letters \<Longrightarrow> letter_token c = letter_token d \<longleftrightarrow> c = d"
  by (auto simp: piece_letters_def letter_token_def is_upper_def lower_def)

lemma letter_token_eq:
  assumes "c \<in> set piece_letters" "k \<in> set ''PNBRQK''"
  shows "letter_token c = [(if white then CHR ''w'' else CHR ''b''), lower k] \<longleftrightarrow> c = cased white k"
  using assms by (auto simp: piece_letters_def letter_token_def is_upper_def lower_def cased_def)

lemma map_of_occ_of:
  assumes "\<forall>((f, r), ch) \<in> set board. on_board f (r - 1)" "on_board f r"
  shows "map_of (occ_of board) (sq f r) = map_option letter_token (map_of board (f, r + 1))"
  using assms(1)
proof (induction board)
  case (Cons kv board)
  obtain g q ch where kv: "kv = ((g, q), ch)" by (metis prod.collapse)
  then show ?case using Cons sq_inj [OF assms(2), of g "q - 1"]
    by (auto simp: occ_of_def)
qed (simp add: occ_of_def)

lemma board_ok_squares: "board_ok board \<Longrightarrow> \<forall>((f, r), ch) \<in> set board. on_board f (r - 1)"
  by (auto simp: board_ok_def)

lemma board_ok_at:
  assumes "board_ok board" "map_of board (f, r) = Some c"
  shows "on_board f (r - 1)" "c \<in> set piece_letters"
  using map_of_SomeD [OF assms(2)] assms(1) by (auto simp: board_ok_def)

lemma board_ok_ConsD: "board_ok (kv # board) \<Longrightarrow> board_ok board"
  by (simp add: board_ok_def)

lemma distinct_occ_of: "board_ok board \<Longrightarrow> distinct (map fst (occ_of board))"
proof (induction board)
  case (Cons kv board)
  obtain g q ch where kv: "kv = ((g, q), ch)" by (metis prod.collapse)
  have ok: "board_ok board" by (rule board_ok_ConsD [OF Cons.prems])
  have new: "on_board g (q - 1)" "map_of board (g, q) = None"
    using Cons.prems by (auto simp: board_ok_def kv map_of_eq_None_iff image_iff)
  have "map_of (occ_of board) (sq g (q - 1)) = None"
    using map_of_occ_of [OF board_ok_squares [OF ok] new(1)] new(2) by simp
  then show ?case using Cons.IH [OF ok] by (simp add: kv occ_of_def map_of_eq_None_iff image_image)
qed (simp add: occ_of_def)

text \<open>A slider covers a square exactly if the walk back from that square meets it first.\<close>

lemma slide_dirs_sym:
  "tok ! 1 \<in> set ''pnbrqk'' \<Longrightarrow> (- a, - b) \<in> set (slide_dirs tok) \<longleftrightarrow> (a, b) \<in> set (slide_dirs tok)"
  by (auto simp: mem_slide_dirs unit_dir_def)

lemma covers_backwards:
  assumes p: "on_board x y" "on_board u v" and tok: "tok ! 1 \<in> set ''rbq''"
  shows "covers B (sq x y) tok (sq u v) \<longleftrightarrow> (\<exists>dx dy. (dx, dy) \<in> set (slide_dirs tok) \<and>
    (\<exists>n > 0. x = u + n * dx \<and> y = v + n * dy \<and> line_clear B u v dx dy n))"
proof -
  have pc: "tok ! 1 \<in> set ''pnbrqk''" using tok by auto
  have ud: "(dx, dy) \<in> set (slide_dirs tok) \<Longrightarrow> unit_dir dx dy" for dx dy
    by (simp add: mem_slide_dirs [OF pc])
  have no_hop: "hop_deltas tok = []" using tok by (auto simp: hop_deltas_def leaper_def slider_def)
  have "covers B (sq x y) tok (sq u v) \<longleftrightarrow> (\<exists>dx dy. (dx, dy) \<in> set (slide_dirs tok) \<and>
      (\<exists>n > 0. u = x + n * dx \<and> v = y + n * dy \<and> line_clear B x y dx dy n))"
    unfolding covers_def xy_sq [OF p(1)] Let_def prod.case no_hop
    using slide_reaches [OF p ud] by (simp cong: conj_cong)
  also have "\<dots> \<longleftrightarrow> (\<exists>dx dy. (- dx, - dy) \<in> set (slide_dirs tok) \<and>
      (\<exists>n > 0. u = x + n * - dx \<and> v = y + n * - dy \<and> line_clear B x y (- dx) (- dy) n))"
    by (metis minus_minus)
  also have "\<dots> \<longleftrightarrow> (\<exists>dx dy. (dx, dy) \<in> set (slide_dirs tok) \<and>
      (\<exists>n > 0. x = u + n * dx \<and> y = v + n * dy \<and> line_clear B u v dx dy n))"
    unfolding slide_dirs_sym [OF pc]
    by (intro ex_cong1 conj_cong refl) (auto simp: line_clear_reverse)
  finally show ?thesis .
qed

lemma fen_slide_reach:
  assumes b: "board_ok board" and d: "(df, dr) \<noteq> (0, 0)" and w: "set want \<subseteq> set piece_letters"
  shows "fen_slide board want df dr nf nr \<longleftrightarrow>
    (\<exists>k. reach (piece_on (occ_of board)) df dr nf (nr - 1) k \<and>
       (\<exists>c \<in> set want. map_of (occ_of board) (sq (nf + int k * df) (nr - 1 + int k * dr))
          = Some (letter_token c)))"
  using b d w
proof (induction board want df dr nf nr rule: fen_slide.induct)
  case (1 board want df dr nf nr)
  let ?B = "piece_on (occ_of board)"
  let ?P = "\<lambda>s. \<exists>c \<in> set want. map_of (occ_of board) s = Some (letter_token c)"
  have guard: "(0 \<le> nf \<and> nf < 8 \<and> 1 \<le> nr \<and> nr \<le> 8) \<longleftrightarrow> on_board nf (nr - 1)"
    by (auto simp: on_board_iff)
  have at: "map_of (occ_of board) (sq nf (nr - 1)) = map_option letter_token (map_of board (nf, nr))"
    if "on_board nf (nr - 1)"
    using map_of_occ_of [OF board_ok_squares [OF "1.prems"(1)] that] by simp
  show ?case
  proof (cases "on_board nf (nr - 1)")
    case True
    show ?thesis
    proof (cases "map_of board (nf, nr)")
      case None
      have "fen_slide board want df dr (nf + df) (nr + dr) \<longleftrightarrow>
          (\<exists>k. reach ?B df dr (nf + df) (nr - 1 + dr) k
             \<and> ?P (sq (nf + df + int k * df) (nr - 1 + dr + int k * dr)))"
        using "1.IH" [OF _ None] "1.prems" guard True by (simp add: algebra_simps)
      then show ?thesis
        by (subst fen_slide.simps, subst reach_ex_iff [where P = ?P])
          (use None True at guard "1.prems" in \<open>simp add: piece_on_def\<close>)
    next
      case (Some p)
      have "p \<in> set piece_letters" by (rule board_ok_at [OF "1.prems"(1) Some])
      then have "p \<in> set want \<longleftrightarrow> ?P (sq nf (nr - 1))"
        using at [OF True] Some "1.prems"(3) letter_token_inj [of p] by auto
      then show ?thesis
        by (subst fen_slide.simps, subst reach_ex_iff [where P = ?P])
          (use Some True at guard "1.prems" in \<open>simp add: piece_on_def\<close>)
    qed
  next
    case False
    then show ?thesis
      by (subst fen_slide.simps, subst reach_ex_iff [where P = ?P])
        (use guard in auto)
  qed
qed

text \<open>A piece of a given side and letter on a square.\<close>

definition standing :: "fen_board \<Rightarrow> bool \<Rightarrow> char \<Rightarrow> int \<Rightarrow> int \<Rightarrow> bool" where
  "standing board white k x y \<longleftrightarrow> map_of board (x, y + 1) = Some (cased white k)"

definition side_char :: "bool \<Rightarrow> char" where
  "side_char white = (if white then CHR ''w'' else CHR ''b'')"

lemma standing_token:
  assumes "board_ok board" "k \<in> set ''PNBRQK''"
  shows "standing board white k x y \<longleftrightarrow> on_board x y \<and>
    map_of (occ_of board) (sq x y) = Some [side_char white, lower k]"
proof -
  have "on_board x y" if "standing board white k x y"
    using that board_ok_at [OF assms(1), of x "y + 1"] by (auto simp: standing_def)
  moreover have "standing board white k x y \<longleftrightarrow>
      map_of (occ_of board) (sq x y) = Some [side_char white, lower k]" if "on_board x y"
    using map_of_occ_of [OF board_ok_squares [OF assms(1)] that] board_ok_at [OF assms(1)]
      letter_token_eq [OF _ assms(2), of _ white]
    by (auto simp: standing_def side_char_def)
  ultimately show ?thesis by blast
qed

lemma fen_slide_standing:
  assumes b: "board_ok board" and o: "on_board u v" and d: "unit_dir df dr"
    and w: "set kinds \<subseteq> set ''PNBRQK''"
  shows "fen_slide board (map (cased white) kinds) df dr (u + df) (v + 1 + dr) \<longleftrightarrow>
    (\<exists>x y. \<exists>k \<in> set kinds. standing board white k x y \<and> on_board x y \<and>
      (\<exists>n > 0. x = u + n * df \<and> y = v + n * dr
         \<and> line_clear (piece_on (occ_of board)) u v df dr n))"
proof -
  let ?B = "piece_on (occ_of board)"
  let ?P = "\<lambda>s. \<exists>k \<in> set kinds. map_of (occ_of board) s = Some [side_char white, lower k]"
  have nz: "(df, dr) \<noteq> (0, 0)" using d by (simp add: unit_dir_def)
  have sub: "cased white k \<in> set piece_letters" if "k \<in> set kinds" for k
    using w that by (auto simp: cased_def lower_def piece_letters_def)
  have tok: "letter_token (cased white k) = [side_char white, lower k]" if "k \<in> set kinds" for k
    using letter_token_eq [of "cased white k" k white] sub [OF that] w that by (auto simp: side_char_def)
  have "fen_slide board (map (cased white) kinds) df dr (u + df) (v + 1 + dr) \<longleftrightarrow>
      (\<exists>k. reach ?B df dr (u + df) (v + dr) k \<and> ?P (sq (u + df + int k * df) (v + dr + int k * dr)))"
    using fen_slide_reach [OF b nz, of "map (cased white) kinds" "u + df" "v + 1 + dr"] sub
    by (auto simp: tok)
  also have "\<dots> \<longleftrightarrow> (\<exists>x y. on_board x y \<and> ?P (sq x y) \<and>
      (\<exists>k. reach ?B df dr (u + df) (v + dr) k \<and> sq x y = sq (u + df + int k * df) (v + dr + int k * dr)))"
    by (metis reach_end)
  also have "\<dots> \<longleftrightarrow> (\<exists>x y. on_board x y \<and> ?P (sq x y) \<and>
      (\<exists>n > 0. x = u + n * df \<and> y = v + n * dr \<and> line_clear ?B u v df dr n))"
    using slide_reaches [OF o _ d] by (metis (no_types, lifting))
  also have "\<dots> \<longleftrightarrow> (\<exists>x y. \<exists>k \<in> set kinds. standing board white k x y \<and> on_board x y \<and>
      (\<exists>n > 0. x = u + n * df \<and> y = v + n * dr \<and> line_clear ?B u v df dr n))"
    using standing_token [OF b] w by blast
  finally show ?thesis .
qed

lemma lower_surj: "p \<in> set ''pnbrqk'' \<Longrightarrow> \<exists>k \<in> set ''PNBRQK''. lower k = p"
  by (auto simp: lower_def)

lemma fen_delta_sets: "set fen_knight_deltas = set KNIGHT_DELTAS" "set fen_king_deltas = set KING_DELTAS"
  by code_simp+

lemma attackers_standing:
  assumes b: "board_ok board"
  shows "(\<exists>s tok. map_of (occ_of board) s = Some tok \<and> tok ! 0 = side_char white \<and> Q s tok) \<longleftrightarrow>
    (\<exists>x y. \<exists>k \<in> set ''PNBRQK''. standing board white k x y \<and> Q (sq x y) [side_char white, lower k])"
proof
  assume "\<exists>s tok. map_of (occ_of board) s = Some tok \<and> tok ! 0 = side_char white \<and> Q s tok"
  then obtain s tok where st: "map_of (occ_of board) s = Some tok" "tok ! 0 = side_char white" "Q s tok"
    by blast
  obtain f r ch where "((f, r), ch) \<in> set board" and s: "s = sq f (r - 1)" "tok = letter_token ch"
    using map_of_SomeD [OF st(1)] by (auto simp: occ_of_def)
  then have c: "ch \<in> set piece_letters" "on_board f (r - 1)" using b by (auto simp: board_ok_def)
  obtain k where k: "k \<in> set ''PNBRQK''" "tok = [side_char white, lower k]"
    using letter_token_ok [OF c(1)] st(2) lower_surj unfolding s by (metis token_okE nth_Cons_0)
  have "standing board white k f (r - 1)"
    using standing_token [OF b k(1)] c(2) st(1) s k(2) by simp
  then show "\<exists>x y. \<exists>k \<in> set ''PNBRQK''. standing board white k x y \<and> Q (sq x y) [side_char white, lower k]"
    using st(3) k s by blast
next
  assume "\<exists>x y. \<exists>k \<in> set ''PNBRQK''. standing board white k x y \<and> Q (sq x y) [side_char white, lower k]"
  then show "\<exists>s tok. map_of (occ_of board) s = Some tok \<and> tok ! 0 = side_char white \<and> Q s tok"
    using standing_token [OF b] by (metis nth_Cons_0)
qed

text \<open>The hop and slide tests of \<open>_attack\<close> as what the standing pieces cover.\<close>

lemma fen_hops:
  assumes b: "board_ok board"
  shows "list_ex (\<lambda>(df, dr). map_of board (u - df, v + 1 - dr) = Some (cased white CHR ''P''))
      (fen_pawn_deltas white) \<longleftrightarrow>
    (\<exists>x y. standing board white CHR ''P'' x y \<and> \<bar>u - x\<bar> = 1 \<and> v - y = (if white then 1 else - 1))"
    (is "?P")
    and "list_ex (\<lambda>(df, dr). map_of board (u + df, v + 1 + dr) = Some (cased white CHR ''N''))
      fen_knight_deltas \<longleftrightarrow>
    (\<exists>x y. standing board white CHR ''N'' x y \<and> (\<bar>u - x\<bar>, \<bar>v - y\<bar>) \<in> {(1, 2), (2, 1)})" (is "?N")
    and "list_ex (\<lambda>(df, dr). map_of board (u + df, v + 1 + dr) = Some (cased white CHR ''K''))
      fen_king_deltas \<longleftrightarrow>
    (\<exists>x y. standing board white CHR ''K'' x y \<and> max \<bar>u - x\<bar> \<bar>v - y\<bar> = 1)" (is "?K")
proof -
  have plus: "list_ex (\<lambda>(df, dr). map_of board (u + df, v + 1 + dr) = Some c) ds \<longleftrightarrow>
      (\<exists>x y. map_of board (x, y + 1) = Some c \<and> (x - u, y - v) \<in> set ds)" for c ds
  proof -
    have "(\<exists>df dr. (df, dr) \<in> set ds \<and> map_of board (u + df, v + 1 + dr) = Some c) \<longleftrightarrow>
        (\<exists>x y. map_of board (x, y + 1) = Some c \<and> (x - u, y - v) \<in> set ds)" (is "?A \<longleftrightarrow> ?B")
    proof
      assume ?A
      then obtain df dr where "(df, dr) \<in> set ds" "map_of board (u + df, v + 1 + dr) = Some c" by blast
      then show ?B by (intro exI [of _ "u + df"] exI [of _ "v + dr"]) (simp add: algebra_simps)
    next
      assume ?B
      then obtain x y where "map_of board (x, y + 1) = Some c" "(x - u, y - v) \<in> set ds" by blast
      then show ?A by (intro exI [of _ "x - u"] exI [of _ "y - v"]) (simp add: algebra_simps)
    qed
    then show ?thesis by (auto simp: list_ex_iff)
  qed
  have minus: "list_ex (\<lambda>(df, dr). map_of board (u - df, v + 1 - dr) = Some c) ds \<longleftrightarrow>
      list_ex (\<lambda>(df, dr). map_of board (u + df, v + 1 + dr) = Some c) (map (\<lambda>(df, dr). (- df, - dr)) ds)"
    for c ds by (induction ds) auto
  have pawn: "(x - u, y - v) \<in> set (map (\<lambda>(df, dr). (- df, - dr)) (fen_pawn_deltas white)) \<longleftrightarrow>
      \<bar>u - x\<bar> = 1 \<and> v - y = (if white then 1 else - 1)" for x y
    by (auto simp: fen_pawn_deltas_def)
  have knight: "(x - u, y - v) \<in> set fen_knight_deltas \<longleftrightarrow>
      (\<bar>u - x\<bar>, \<bar>v - y\<bar>) \<in> {(1, 2), (2, 1)}" for x y
    unfolding fen_delta_sets mem_knight by (simp add: abs_minus_commute)
  have king: "(x - u, y - v) \<in> set fen_king_deltas \<longleftrightarrow> max \<bar>u - x\<bar> \<bar>v - y\<bar> = 1" for x y
    unfolding fen_delta_sets mem_king by (simp add: abs_minus_commute)
  show ?P ?N ?K unfolding minus plus pawn knight king standing_def by blast+
qed

lemma covers_standing:
  assumes p: "on_board x y" "on_board u v"
  shows "covers B (sq x y) [side_char white, lower CHR ''P''] (sq u v) \<longleftrightarrow>
      \<bar>u - x\<bar> = 1 \<and> v - y = (if white then 1 else - 1)"
    and "covers B (sq x y) [side_char white, lower CHR ''N''] (sq u v) \<longleftrightarrow>
      (\<bar>u - x\<bar>, \<bar>v - y\<bar>) \<in> {(1, 2), (2, 1)}"
    and "covers B (sq x y) [side_char white, lower CHR ''K''] (sq u v) \<longleftrightarrow> max \<bar>u - x\<bar> \<bar>v - y\<bar> = 1"
  by (subst covers_geometry [OF p], simp add: token_ok_def side_char_def lower_def,
      simp add: side_char_def lower_def Let_def)+

lemma covers_standing_slider:
  assumes p: "on_board x y" "on_board u v" and k: "k \<in> set ''RBQ''"
  shows "covers B (sq x y) [side_char white, lower k] (sq u v) \<longleftrightarrow>
    (\<exists>dx dy. unit_dir dx dy \<and> ((k \<in> set ''RQ'' \<and> (dx = 0 \<or> dy = 0)) \<or> (k \<in> set ''BQ'' \<and> \<bar>dx\<bar> = \<bar>dy\<bar>))
       \<and> (\<exists>n > 0. x = u + n * dx \<and> y = v + n * dy \<and> line_clear B u v dx dy n))"
proof -
  have l: "[side_char white, lower k] ! 1 = lower k" "lower k \<in> set ''rbq''"
    "lower k \<in> set ''pnbrqk''" "lower k \<in> set ''rq'' \<longleftrightarrow> k \<in> set ''RQ''"
    "lower k \<in> set ''bq'' \<longleftrightarrow> k \<in> set ''BQ''"
    using k by (auto simp: lower_def)
  show ?thesis
    unfolding covers_backwards [OF p, of "[side_char white, lower k]", unfolded l(1), OF l(2)]
      mem_slide_dirs [of "[side_char white, lower k]", unfolded l(1), OF l(3)] l(4,5)
    by blast
qed

lemma mem_fen_dirs: "(a, b) \<in> set fen_rook_directions \<longleftrightarrow> unit_dir a b \<and> (a = 0 \<or> b = 0)"
  "(a, b) \<in> set fen_bishop_directions \<longleftrightarrow> unit_dir a b \<and> \<bar>a\<bar> = \<bar>b\<bar>"
  by (auto simp: fen_rook_directions_def fen_bishop_directions_def unit_dir_def)

lemma standing_on_board: "board_ok board \<Longrightarrow> standing board white k x y \<Longrightarrow> on_board x y"
  using board_ok_at(1) [of board x "y + 1"] by (simp add: standing_def)

theorem fen_attack_iff:
  assumes b: "board_ok board" and o: "on_board u v"
  shows "fen_attack (u, v + 1) board white \<longleftrightarrow>
    sq u v \<in> set (attacked_squares (occ_of board) (side_char white))"
proof -
  let ?B = "piece_on (occ_of board)"
  let ?st = "standing board white"
  define cov where "cov k x y = covers ?B (sq x y) [side_char white, lower k] (sq u v)" for k x y
  define line where "line x y dx dy \<longleftrightarrow>
    (\<exists>n > 0. x = u + n * dx \<and> y = v + n * dy \<and> line_clear ?B u v dx dy n)" for x y dx dy
  note ob = standing_on_board [OF b]
  have slide: "list_ex (\<lambda>(df, dr). fen_slide board (map (cased white) kinds) df dr (u + df) (v + 1 + dr)) ds
      \<longleftrightarrow> (\<exists>x y. \<exists>k \<in> set kinds. ?st k x y \<and> (\<exists>dx dy. (dx, dy) \<in> set ds \<and> line x y dx dy))"
    if "set kinds \<subseteq> set ''PNBRQK''" "\<And>a b. (a, b) \<in> set ds \<Longrightarrow> unit_dir a b" for kinds ds
    using fen_slide_standing [OF b o that(2) that(1), of _ _ white] ob
    unfolding list_ex_iff line_def by fast
  have sliders: "(\<exists>x y. \<exists>k \<in> set ''RQ''. ?st k x y \<and> (\<exists>dx dy. (dx, dy) \<in> set fen_rook_directions \<and> line x y dx dy))
      \<or> (\<exists>x y. \<exists>k \<in> set ''BQ''. ?st k x y \<and> (\<exists>dx dy. (dx, dy) \<in> set fen_bishop_directions \<and> line x y dx dy))
      \<longleftrightarrow> (\<exists>x y. \<exists>k \<in> set ''RBQ''. ?st k x y \<and> cov k x y)"
    (is "?L \<longleftrightarrow> ?R")
  proof -
    define slid where "slid k x y \<longleftrightarrow> (\<exists>dx dy. unit_dir dx dy \<and>
        ((k \<in> set ''RQ'' \<and> (dx = 0 \<or> dy = 0)) \<or> (k \<in> set ''BQ'' \<and> \<bar>dx\<bar> = \<bar>dy\<bar>)) \<and> line x y dx dy)"
      for k x y
    have "cov k x y \<longleftrightarrow> slid k x y" if "?st k x y" "k \<in> set ''RBQ''" for k x y
      unfolding cov_def slid_def line_def by (rule covers_standing_slider [OF ob [OF that(1)] o that(2)])
    then have "?R \<longleftrightarrow> (\<exists>x y. \<exists>k \<in> set ''RBQ''. ?st k x y \<and> slid k x y)" by blast
    also have "\<dots> \<longleftrightarrow> ?L"
    proof -
      define R where "R x y \<longleftrightarrow> (\<exists>dx dy. (dx, dy) \<in> set fen_rook_directions \<and> line x y dx dy)" for x y
      define B where "B x y \<longleftrightarrow> (\<exists>dx dy. (dx, dy) \<in> set fen_bishop_directions \<and> line x y dx dy)" for x y
      have "slid CHR ''R'' x y \<longleftrightarrow> R x y" "slid CHR ''B'' x y \<longleftrightarrow> B x y"
        "slid CHR ''Q'' x y \<longleftrightarrow> R x y \<or> B x y" for x y
        unfolding slid_def R_def B_def mem_fen_dirs by simp_all blast+
      then show ?thesis unfolding R_def [symmetric] B_def [symmetric] by auto
    qed
    finally show ?thesis by simp
  qed
  have "sq u v \<in> set (attacked_squares (occ_of board) (side_char white)) \<longleftrightarrow>
      (\<exists>x y. \<exists>k \<in> set ''PNBRQK''. ?st k x y \<and> cov k x y)"
    unfolding mem_attacked_squares [OF distinct_occ_of [OF b]] attackers_standing [OF b] cov_def ..
  also have "\<dots> \<longleftrightarrow> (\<exists>x y. ?st CHR ''P'' x y \<and> cov CHR ''P'' x y)
      \<or> (\<exists>x y. ?st CHR ''N'' x y \<and> cov CHR ''N'' x y)
      \<or> (\<exists>x y. ?st CHR ''K'' x y \<and> cov CHR ''K'' x y)
      \<or> (\<exists>x y. \<exists>k \<in> set ''RBQ''. ?st k x y \<and> cov k x y)"
    by auto
  also have "\<dots> \<longleftrightarrow> fen_attack (u, v + 1) board white"
  proof -
    have hop: "?st CHR ''P'' x y \<and> cov CHR ''P'' x y \<longleftrightarrow>
          ?st CHR ''P'' x y \<and> \<bar>u - x\<bar> = 1 \<and> v - y = (if white then 1 else - 1)"
        "?st CHR ''N'' x y \<and> cov CHR ''N'' x y \<longleftrightarrow>
          ?st CHR ''N'' x y \<and> (\<bar>u - x\<bar>, \<bar>v - y\<bar>) \<in> {(1, 2), (2, 1)}"
        "?st CHR ''K'' x y \<and> cov CHR ''K'' x y \<longleftrightarrow> ?st CHR ''K'' x y \<and> max \<bar>u - x\<bar> \<bar>v - y\<bar> = 1" for x y
      unfolding cov_def using covers_standing [OF ob o, where B = ?B and white = white] by blast+
    have s1: "list_ex (\<lambda>(df, dr). fen_slide board (map (cased white) ''RQ'') df dr (u + df) (v + 1 + dr))
        fen_rook_directions \<longleftrightarrow> (\<exists>x y. \<exists>k \<in> set ''RQ''. ?st k x y \<and>
          (\<exists>dx dy. (dx, dy) \<in> set fen_rook_directions \<and> line x y dx dy))"
      and s2: "list_ex (\<lambda>(df, dr). fen_slide board (map (cased white) ''BQ'') df dr (u + df) (v + 1 + dr))
        fen_bishop_directions \<longleftrightarrow> (\<exists>x y. \<exists>k \<in> set ''BQ''. ?st k x y \<and>
          (\<exists>dx dy. (dx, dy) \<in> set fen_bishop_directions \<and> line x y dx dy))"
      by (rule slide; simp add: mem_fen_dirs)+
    have two: "list_ex f [a, b] \<longleftrightarrow> f a \<or> f b" for f a and b :: "delta list \<times> string" by simp
    show ?thesis
      unfolding hop fen_attack_def Let_def prod.case fen_hops [OF b] sliders [symmetric]
        two s1 s2 by blast
  qed
  finally show ?thesis by simp
qed

subsection \<open>What an accepted text parses to\<close>

lemma placed_mem:
  "((g, r), ch) \<in> set (placed rn f cells) \<Longrightarrow>
     r = rn \<and> f \<le> g \<and> g < f + int (length cells) \<and> Some ch \<in> set cells"
  by (induction rn f cells rule: placed.induct) auto

lemma placed_distinct: "distinct (map fst (placed rn f cells))"
  by (induction rn f cells rule: placed.induct) (auto dest: placed_mem)

lemma ranks_placed_mem:
  "((g, r), ch) \<in> set (ranks_placed rn ranks) \<Longrightarrow>
     \<forall>rank \<in> set ranks. length (rank_cells rank) = 8 \<Longrightarrow>
     rn - int (length ranks) < r \<and> r \<le> rn \<and> 0 \<le> g \<and> g < 8
       \<and> (\<exists>rank \<in> set ranks. Some ch \<in> set (rank_cells rank))"
  by (induction rn ranks rule: ranks_placed.induct) (auto dest: placed_mem)

lemma ranks_placed_low: "((g, r), ch) \<in> set (ranks_placed rn ranks) \<Longrightarrow> r \<le> rn"
  by (induction rn ranks rule: ranks_placed.induct) (auto dest: placed_rank)

lemma ranks_placed_distinct:
  "\<forall>rank \<in> set ranks. length (rank_cells rank) = 8 \<Longrightarrow> distinct (map fst (ranks_placed rn ranks))"
  by (induction rn ranks rule: ranks_placed.induct)
    (auto simp: placed_distinct dest!: placed_mem ranks_placed_low)

lemma rank_cells_letter: "Some ch \<in> set (rank_cells chs) \<Longrightarrow> ch \<in> set chs \<and> ch \<notin> set empty_run_digits"
  by (induction chs) (auto split: if_splits)

lemma parse_placement_ok:
  assumes "parse_placement placement = Inr b"
  shows "board_ok b"
proof -
  let ?ranks = "split_on CHR ''/'' placement"
  have len: "length ?ranks = 8" and pr: "parse_ranks 8 ?ranks [] = Inr b"
    using assms by (simp_all add: parse_placement_def Let_def)
  note f = parse_ranks_placed [OF pr]
  have eight: "\<forall>rank \<in> set ?ranks. length (rank_cells rank) = 8" and b: "b = ranks_placed 8 ?ranks"
    using f by auto
  have "on_board g (r - 1) \<and> ch \<in> set piece_letters" if "((g, r), ch) \<in> set b" for g r ch
  proof -
    note m = ranks_placed_mem [OF that [unfolded b] eight]
    then obtain rank where r: "rank \<in> set ?ranks" "Some ch \<in> set (rank_cells rank)" by blast
    have "ch \<in> set piece_letters" using rank_cells_letter [OF r(2)] f r(1) by blast
    then show ?thesis using m len by (simp add: on_board_iff)
  qed
  then show ?thesis using ranks_placed_distinct [OF eight] b by (auto simp: board_ok_def)
qed

lemma parse_counter_text: "parse_counter lo s = Inr n \<Longrightarrow> dec n = s \<and> lo \<le> n"
  by (auto simp: parse_counter_def)

lemma parse_fieldsE:
  assumes "parse_fields parts = Inr p"
  obtains placement color castling ep half full where
    "parts = [placement, color, castling, ep, half, full]"
    "parse_placement placement = Inr (fp_board p)" "color = fp_color p" "fp_color p = ''w'' \<or> fp_color p = ''b''"
    "parse_counter 0 half = Inr (fp_half p)" "parse_counter 1 full = Inr (fp_full p)"
    "parse_castling castling = Inr (fp_rights p)" "parse_ep ep = Inr (fp_ep p)" "position_ok p"
  using assms by (auto simp: parse_fields_def Let_def split: list.splits)

lemma parse_castling_text: "parse_castling s = Inr r \<Longrightarrow> (if r = [] then ''-'' else r) = s"
  by (auto simp: parse_castling_def split: if_splits)

lemma parse_ep_text: "parse_ep s = Inr e \<Longrightarrow> (case e of None \<Rightarrow> ''-'' | Some t \<Rightarrow> t) = s"
  by (auto simp: parse_ep_def split: if_splits)

lemma parsed_fields:
  assumes "parse_fen (PStr s) = Inr p"
  shows "split_on CHR '' '' s = [emit_placement (fp_board p), fp_color p,
    (if fp_rights p = [] then ''-'' else fp_rights p), (case fp_ep p of None \<Rightarrow> ''-'' | Some e \<Rightarrow> e),
    dec (fp_half p), dec (fp_full p)]"
proof -
  have "parse_fields (split_on CHR '' '' s) = Inr p" using assms by (simp add: parse_fen_def)
  from parse_fieldsE [OF this] obtain placement color castling ep half full where a:
    "split_on CHR '' '' s = [placement, color, castling, ep, half, full]"
    "parse_placement placement = Inr (fp_board p)" "color = fp_color p"
    "parse_counter 0 half = Inr (fp_half p)" "parse_counter 1 full = Inr (fp_full p)"
    "parse_castling castling = Inr (fp_rights p)" "parse_ep ep = Inr (fp_ep p)" by metis
  show ?thesis
    using a(1) placement_roundtrip [OF a(2)] a(3) parse_counter_text [OF a(4)]
      parse_counter_text [OF a(5)] parse_castling_text [OF a(6)] parse_ep_text [OF a(7)]
    by simp
qed

lemma emit_parsed: "parse_fen (PStr s) = Inr p \<Longrightarrow> emit_fen p = s"
  using parsed_fields [of s p] join_split [of "CHR '' ''" s] by (simp add: emit_fen_def)

definition start_fen :: string where
  "start_fen = ''rnbqkbnr/pppppppp/8/8/8/8/PPPPPPPP/RNBQKBNR w KQkq - 0 1''"

definition ep_fen :: string where
  "ep_fen = ''4k3/8/8/3pP3/8/8/8/4K3 w - d6 0 12''"

text \<open>C28. Round trip: the emitter gives back, character for character, every text that the parser
  accepts; so no two texts parse to the same position, and re-parsing the emission of an accepted
  position gives that position.\<close>

theorem fen_roundtrip:
  assumes "parse_fen (PStr s) = Inr p"
  shows "emit_fen p = s \<and> parse_fen (PStr (emit_fen p)) = Inr p"
  using emit_parsed [OF assms] assms by simp

theorem fen_roundtrip_witness:
  "\<exists>p. parse_fen (PStr start_fen) = Inr p \<and> emit_fen p = start_fen"
proof -
  have "accepts (parse_fen (PStr start_fen))" by code_simp
  then obtain p where p: "parse_fen (PStr start_fen) = Inr p" by (auto simp: accepts_iff)
  then show ?thesis using fen_roundtrip [OF p] by blast
qed

subsection \<open>An accepted position is playable\<close>

lemma squares_of_occ:
  assumes "board_ok board" "k \<in> set ''PNBRQK''"
  shows "length (filter (\<lambda>t. t = [side_char white, lower k]) (map snd (occ_of board))) =
    length (squares_of board (cased white k))"
  using assms(1)
proof (induction board)
  case (Cons kv board)
  obtain g q ch where kv: "kv = ((g, q), ch)" by (metis prod.collapse)
  have ok: "board_ok board" by (rule board_ok_ConsD [OF Cons.prems])
  have "ch \<in> set piece_letters" using Cons.prems by (simp add: board_ok_def kv)
  from letter_token_eq [OF this assms(2), of white] Cons.IH [OF ok]
  show ?case by (simp add: kv occ_of_def squares_of_def side_char_def)
qed (simp add: occ_of_def squares_of_def)

lemma length_oneE: "length xs = 1 \<Longrightarrow> \<exists>x. xs = [x]"
  by (cases xs) auto

lemma position_kings:
  assumes b: "board_ok board" and k: "length (squares_of board (cased white CHR ''K'')) = 1"
  shows "\<exists>u v. squares_of board (cased white CHR ''K'') = [(u, v + 1)] \<and> on_board u v
    \<and> king_square (occ_of board) (side_char white) = Some (sq u v)"
proof -
  obtain sqr where "squares_of board (cased white CHR ''K'') = [sqr]"
    using length_oneE [OF k] ..
  then obtain u r where s: "squares_of board (cased white CHR ''K'') = [(u, r)]"
    by (cases sqr) simp
  then have "(u, r) \<in> set (squares_of board (cased white CHR ''K''))" by simp
  then have "((u, r), cased white CHR ''K'') \<in> set board" unfolding squares_of_def by auto
  then have at: "map_of board (u, r) = Some (cased white CHR ''K'')"
    using b unfolding board_ok_def by (metis map_of_eq_Some_iff)
  have o: "on_board u (r - 1)" by (rule board_ok_at [OF b at])
  have tok: "[side_char white, lower CHR ''K''] = [side_char white, CHR ''k'']" by (simp add: lower_def)
  have d: "distinct (map fst (occ_of board))" by (rule distinct_occ_of [OF b])
  have n: "king_count (occ_of board) (side_char white) = 1"
    using squares_of_occ [OF b, of "CHR ''K''" white] k by (simp add: king_count_def lower_def)
  obtain q where q: "king_square (occ_of board) (side_char white) = Some q"
    "map_of (occ_of board) q = Some [side_char white, CHR ''k'']"
    using find_king [OF d n] by blast
  obtain x y ch where xy: "((x, y), ch) \<in> set board" "q = sq x (y - 1)"
    "letter_token ch = [side_char white, CHR ''k'']"
    using map_of_SomeD [OF q(2)] by (auto simp: occ_of_def)
  have "ch \<in> set piece_letters" using b xy(1) by (auto simp: board_ok_def)
  then have "ch = cased white CHR ''K''"
    using letter_token_eq [of ch "CHR ''K''" white] xy(3) by (simp add: lower_def side_char_def)
  then have "(x, y) \<in> set (squares_of board (cased white CHR ''K''))"
    using xy(1) unfolding squares_of_def by force
  then have "x = u" "y = r" using s by simp_all
  then show ?thesis using s q(1) xy(2) o by (intro exI [of _ u] exI [of _ "r - 1"]) simp
qed

text \<open>The states that the other runtimes would be given for a parsed position.\<close>

definition fen_lm :: "fen_position \<Rightarrow> lm_state" where
  "fen_lm p = \<lparr>occupied = occ_of (fp_board p), to_move = hd (fp_color p)\<rparr>"

definition fen_ep :: "fen_position \<Rightarrow> ep_state" where
  "fen_ep p = \<lparr>ep_target = (case fp_ep p of None \<Rightarrow> EP_NONE | Some e \<Rightarrow> e),
     ep_occ = occ_of (fp_board p), ep_side = hd (fp_color p)\<rparr>"

lemma board_valid_occ:
  assumes b: "board_ok board" and k: "length (squares_of board CHR ''K'') = 1"
    "length (squares_of board CHR ''k'') = 1"
  shows "valid_occ (occ_of board)"
proof -
  have "king_count (occ_of board) (side_char w) = length (squares_of board (cased w CHR ''K''))" for w
    using squares_of_occ [OF b, of "CHR ''K''" w] by (simp add: king_count_def lower_def)
  from this [of True] this [of False] have "king_count (occ_of board) CHR ''w'' = 1"
    "king_count (occ_of board) CHR ''b'' = 1"
    using k by (simp_all add: side_char_def cased_def lower_def)
  moreover have "\<forall>(s, t) \<in> set (occ_of board). grammar_ok s \<and> token_ok t"
    using b by (auto simp: occ_of_def board_ok_def letter_token_ok)
  ultimately show ?thesis using distinct_occ_of [OF b] by (simp add: valid_occ_def)
qed

lemma parsed_board:
  assumes "parse_fen (PStr s) = Inr p"
  shows "board_ok (fp_board p) \<and> position_ok p \<and> (fp_color p = ''w'' \<or> fp_color p = ''b'')
    \<and> (\<forall>e. fp_ep p = Some e \<longrightarrow> length e = 2 \<and> e ! 0 \<in> set FILES \<and> e ! 1 \<in> set ''36'')
    \<and> fp_full p \<ge> 1 \<and> set (fp_rights p) \<subseteq> set ''KQkq''"
proof -
  have "parse_fields (split_on CHR '' '' s) = Inr p" using assms by (simp add: parse_fen_def)
  then show ?thesis
    by (rule parse_fieldsE)
      (auto simp: parse_placement_ok parse_ep_def parse_castling_def dest: parse_counter_text
        split: if_splits)
qed

lemma position_valid_occ: "board_ok (fp_board p) \<Longrightarrow> position_ok p \<Longrightarrow> valid_occ (occ_of (fp_board p))"
  by (rule board_valid_occ) (auto simp: position_ok_def Let_def)

lemma position_king_safe:
  assumes b: "board_ok (fp_board p)" and ok: "position_ok p"
    and c: "fp_color p = ''w'' \<or> fp_color p = ''b''"
  shows "\<not> king_attacked (occ_of (fp_board p)) (other (hd (fp_color p)))"
proof -
  define white where "white = (fp_color p = ''w'')"
  have side: "hd (fp_color p) = side_char white" "other (side_char white) = side_char (\<not> white)"
    "other (side_char (\<not> white)) = side_char white"
    using c by (auto simp: white_def side_char_def)
  have k: "length (squares_of (fp_board p) (cased (\<not> white) CHR ''K'')) = 1"
    "\<not> fen_attack (hd (squares_of (fp_board p) (cased (\<not> white) CHR ''K''))) (fp_board p) white"
    using ok by (auto simp: position_ok_def Let_def cased_def lower_def white_def)
  obtain u v where uv: "squares_of (fp_board p) (cased (\<not> white) CHR ''K'') = [(u, v + 1)]"
    "on_board u v" "king_square (occ_of (fp_board p)) (side_char (\<not> white)) = Some (sq u v)"
    using position_kings [OF b k(1)] by blast
  then show ?thesis
    using k(2) fen_attack_iff [OF b uv(2), of white] by (simp add: side king_attacked_def)
qed

lemma position_ep_square:
  assumes b: "board_ok (fp_board p)" and ok: "position_ok p"
    and c: "fp_color p = ''w'' \<or> fp_color p = ''b''"
    and e: "fp_ep p = Some e" "length e = 2" "e ! 0 \<in> set FILES" "e ! 1 \<in> set ''36''"
  shows "let side = hd (fp_color p); occ = occ_of (fp_board p) in
    ep_grammar e \<and> e \<noteq> EP_NONE \<and> e ! 1 = so_target (set_on (other side)) \<and> map_of occ e = None
    \<and> map_of occ [e ! 0, captured_rank side] = Some [other side, CHR ''p'']"
proof -
  obtain c0 c1 where ee: "e = [c0, c1]" using e(2) by (auto simp: length_Suc_conv numeral_2_eq_2)
  define f where "f = index_of FILES c0"
  have f: "FILES ! nat f = c0" "0 \<le> f" "f < 8" using FILES_index [of c0] e(3) by (simp_all add: f_def ee)
  have cons: "ep_consistent (fp_board p) (fp_color p = ''w'') (fp_half p) e"
    using ok e(1) by (simp add: position_ok_def Let_def)
  note at = map_of_occ_of [OF board_ok_squares [OF b]]
  have s: "sq f 2 = [c0, CHR ''3'']" "sq f 5 = [c0, CHR ''6'']" "sq f 3 = [c0, CHR ''4'']"
    "sq f 4 = [c0, CHR ''5'']"
    by (simp_all add: sq_def f(1))
  have o: "on_board f 2" "on_board f 5" "on_board f 3" "on_board f 4" using f by (simp_all add: on_board_iff)
  from c show ?thesis
  proof
    assume w: "fp_color p = ''w''"
    then have "c1 = CHR ''6''" "map_of (fp_board p) (f, 6) = None" "map_of (fp_board p) (f, 5) = Some CHR ''p''"
      using cons e(4) by (auto simp: ep_consistent_def Let_def ee f_def split: if_splits)
    then show ?thesis using w at [OF o(2)] at [OF o(4)] s e(3)
      by (simp add: ee ep_grammar_def EP_NONE_def set_on_def captured_rank_def letter_token_def is_upper_def lower_def)
  next
    assume w: "fp_color p = ''b''"
    then have "c1 = CHR ''3''" "map_of (fp_board p) (f, 3) = None" "map_of (fp_board p) (f, 4) = Some CHR ''P''"
      using cons e(4) by (auto simp: ep_consistent_def Let_def ee f_def split: if_splits)
    then show ?thesis using w at [OF o(1)] at [OF o(3)] s e(3)
      by (simp add: ee ep_grammar_def EP_NONE_def set_on_def captured_rank_def letter_token_def is_upper_def lower_def)
  qed
qed

lemma position_castling_home:
  assumes b: "board_ok (fp_board p)" and ok: "position_ok p" and r: "r \<in> set (fp_rights p)"
    "r \<in> set ''KQkq''"
  shows "map_of (occ_of (fp_board p)) (home_king r) = Some [side_of r, CHR ''k'']
    \<and> map_of (occ_of (fp_board p)) (home_rook r) = Some [side_of r, CHR ''r'']"
proof -
  have cons: "castling_consistent (fp_board p) r"
    using ok r(1) by (auto simp: position_ok_def Let_def list_all_iff)
  note at = map_of_occ_of [OF board_ok_squares [OF b]]
  have s: "sq 4 0 = ''e1''" "sq 7 0 = ''h1''" "sq 0 0 = ''a1''" "sq 4 7 = ''e8''" "sq 7 7 = ''h8''"
    "sq 0 7 = ''a8''" by code_simp+
  have o: "on_board 4 0" "on_board 7 0" "on_board 0 0" "on_board 4 7" "on_board 7 7" "on_board 0 7"
    by code_simp+
  note facts = at [OF o(1)] at [OF o(2)] at [OF o(3)] at [OF o(4)] at [OF o(5)] at [OF o(6)]
  note defs = castling_consistent_def home_king_def home_rook_def side_of_def is_upper_def
    letter_token_def lower_def
  consider "r = CHR ''K''" | "r = CHR ''Q''" | "r = CHR ''k''" | "r = CHR ''q''" using r(2) by auto
  then show ?thesis by cases (use cons facts in \<open>simp_all add: s defs\<close>)
qed

text \<open>C3. An accepted position is playable: it is a valid state of the legal-moves and of the
  en-passant runtime, the side that just moved is not left in check, a stored en-passant target
  is one that the en-passant runtime never calls malformed or inconsistent, and every castling
  right has its king and rook on the home squares of the castling runtime.\<close>

theorem fen_position_playable:
  assumes "parse_fen (PStr s) = Inr p"
  shows "lm_valid (fen_lm p) \<and> ep_valid (fen_ep p)
    \<and> \<not> king_attacked (occupied (fen_lm p)) (other (to_move (fen_lm p)))
    \<and> (\<forall>e frm to. fp_ep p = Some e \<longrightarrow>
        ep_capture (fen_ep p) frm to \<notin> {Inl Target_malformed, Inl Target_inconsistent})
    \<and> (\<forall>r \<in> set (fp_rights p).
        map_of (occ_of (fp_board p)) (home_king r) = Some [side_of r, CHR ''k'']
        \<and> map_of (occ_of (fp_board p)) (home_rook r) = Some [side_of r, CHR ''r''])"
proof -
  have p: "board_ok (fp_board p)" "position_ok p" "fp_color p = ''w'' \<or> fp_color p = ''b''"
    and e: "\<And>e. fp_ep p = Some e \<Longrightarrow> length e = 2 \<and> e ! 0 \<in> set FILES \<and> e ! 1 \<in> set ''36''"
    and r: "set (fp_rights p) \<subseteq> set ''KQkq''"
    using parsed_board [OF assms] by metis+
  have v: "lm_valid (fen_lm p)" "ep_valid (fen_ep p)"
    using position_valid_occ [OF p(1,2)] p(3)
    by (auto simp: lm_valid_def ep_valid_def fen_lm_def fen_ep_def)
  have "ep_capture (fen_ep p) frm to \<notin> {Inl Target_malformed, Inl Target_inconsistent}"
    if "fp_ep p = Some e" for e frm to
  proof -
    have "ep_target (fen_ep p) = e" using that by (simp add: fen_ep_def)
    note g = position_ep_square [OF p that] e [OF that]
    have "ep_capture (fen_ep p) frm to \<noteq> Inl Target_malformed"
      by (rule ep_capture_no_structural_error [OF v(2)]) (use g that in \<open>simp add: fen_ep_def Let_def\<close>)
    moreover have "ep_capture (fen_ep p) frm to \<noteq> Inl Target_inconsistent"
      using g that
      by (auto simp: ep_capture_def fen_ep_def Let_def require_Inl split: option.splits)
    ultimately show ?thesis by blast
  qed
  then show ?thesis
    using v position_king_safe [OF p] position_castling_home [OF p(1,2)] r
    by (auto simp: fen_lm_def)
qed

theorem fen_position_playable_witness:
  "\<exists>p. parse_fen (PStr ep_fen) = Inr p \<and> lm_valid (fen_lm p)
    \<and> ep_capture (fen_ep p) ''e5'' ''d6'' \<noteq> Inl Target_inconsistent"
proof -
  have "accepts (parse_fen (PStr ep_fen))" by code_simp
  then obtain p where p: "parse_fen (PStr ep_fen) = Inr p" by (auto simp: accepts_iff)
  have "(case parse_fen (PStr ep_fen) of Inr p \<Rightarrow> fp_ep p = Some ''d6'' | Inl _ \<Rightarrow> False)" by code_simp
  then show ?thesis using fen_position_playable [OF p] p by auto
qed

text \<open>The three attack tests of the repository agree on every board of distinct on-board
  pieces with one king a side: the FEN parser's walk from the target, the legal-moves runtime's
  walk from the pieces, and the en-passant runtime's test by distance and clear line.\<close>

theorem attack_tests_agree:
  assumes "parse_fen (PStr s) = Inr p" and "on_board u v"
  shows "(fen_attack (u, v + 1) (fp_board p) white \<longleftrightarrow>
      sq u v \<in> set (attacked_squares (occ_of (fp_board p)) (side_char white)))
    \<and> (fen_attack (u, v + 1) (fp_board p) white \<longleftrightarrow>
      ep_attacked (occ_of (fp_board p)) (sq u v) (side_char white))"
proof -
  have b: "board_ok (fp_board p)" and v: "valid_occ (occ_of (fp_board p))"
    using parsed_board [OF assms(1)] position_valid_occ by blast+
  show ?thesis
    using fen_attack_iff [OF b assms(2)] ep_attacked_iff [OF v sq_grammar [OF assms(2)]] by simp
qed

theorem attack_tests_agree_witness:
  "\<exists>p. parse_fen (PStr ep_fen) = Inr p \<and> ep_attacked (occ_of (fp_board p)) ''d6'' CHR ''w''
    \<and> ''d6'' \<in> set (attacked_squares (occ_of (fp_board p)) CHR ''w'')"
proof -
  have "(case parse_fen (PStr ep_fen) of Inr p \<Rightarrow> fen_attack (3, 6) (fp_board p) True | Inl _ \<Rightarrow> False)"
    by code_simp
  then obtain p where p: "parse_fen (PStr ep_fen) = Inr p" "fen_attack (3, 6) (fp_board p) True"
    by (auto split: sum.splits)
  have "sq 3 5 = ''d6''" "on_board 3 5" "(5::int) + 1 = 6" by code_simp+
  then show ?thesis using attack_tests_agree [OF p(1), of 3 5 True] p by (auto simp: side_char_def)
qed

end
