(* ===== verification/SHA256.thy ===== *)
theory SHA256
  imports Prelude "HOL-Library.Word"
begin

text \<open>
  Python's \<open>hashlib.sha256(data).hexdigest()\<close>: FIPS 180-4 over 32-bit words. Every identifier of
  the jobs runtimes and the position digest is such a digest behind a prefix; what the properties
  use of it is that it is a function of the bytes and that its text is 64 lower-case hexadecimal
  digits (\<open>sha256_hex_grammar\<close>).
\<close>

unbundle bit_operations_syntax

text \<open>The round constants and the initial value, in decimal.\<close>

type_synonym w32 = "32 word"

definition sha_K :: "w32 list" where
  "sha_K = [
     1116352408, 1899447441, 3049323471, 3921009573, 961987163, 1508970993, 2453635748, 2870763221,
     3624381080, 310598401, 607225278, 1426881987, 1925078388, 2162078206, 2614888103, 3248222580,
     3835390401, 4022224774, 264347078, 604807628, 770255983, 1249150122, 1555081692, 1996064986,
     2554220882, 2821834349, 2952996808, 3210313671, 3336571891, 3584528711, 113926993, 338241895,
     666307205, 773529912, 1294757372, 1396182291, 1695183700, 1986661051, 2177026350, 2456956037,
     2730485921, 2820302411, 3259730800, 3345764771, 3516065817, 3600352804, 4094571909, 275423344,
     430227734, 506948616, 659060556, 883997877, 958139571, 1322822218, 1537002063, 1747873779,
     1955562222, 2024104815, 2227730452, 2361852424, 2428436474, 2756734187, 3204031479, 3329325298]"

definition sha_H0 :: "w32 list" where
  "sha_H0 = [
     1779033703, 3144134277, 1013904242, 2773480762, 1359893119, 2600822924, 528734635, 1541459225]"

definition rotr :: "nat \<Rightarrow> w32 \<Rightarrow> w32" where
  "rotr n w = (drop_bit n w OR push_bit (32 - n) w)"

text \<open>Padding: the bit 1, zeros, and the length in bits as 64 bits, to a multiple of 64 bytes.\<close>

definition byte_chars :: "nat \<Rightarrow> nat \<Rightarrow> string" where
  "byte_chars k n = map (\<lambda>i. char_of (n div 256 ^ (k - 1 - i) mod 256)) [0..<k]"

definition sha_pad :: "string \<Rightarrow> string" where
  "sha_pad m = m @ char_of (128 :: nat) # replicate ((119 - length m mod 64) mod 64) (char_of (0 :: nat))
     @ byte_chars 8 (8 * length m)"

fun be_words :: "string \<Rightarrow> w32 list" where
  "be_words (a # b # c # d # rest) =
     (push_bit 24 (of_char a) OR push_bit 16 (of_char b) OR push_bit 8 (of_char c) OR of_char d)
       # be_words rest"
| "be_words _ = []"

text \<open>The message schedule, newest word first, and one round of the compression.\<close>

fun schedule :: "nat \<Rightarrow> w32 list \<Rightarrow> w32 list" where
  "schedule 0 w = w"
| "schedule (Suc n) w = (let a = w ! 1; b = w ! 14;
       s1 = rotr 17 a XOR rotr 19 a XOR drop_bit 10 a;
       s0 = rotr 7 b XOR rotr 18 b XOR drop_bit 3 b in
     schedule n ((s1 + w ! 6 + s0 + w ! 15) # w))"

fun sha_round :: "w32 list \<Rightarrow> w32 \<times> w32 \<Rightarrow> w32 list" where
  "sha_round [a, b, c, d, e, f, g, h] (k, w) =
     (let t1 = h + (rotr 6 e XOR rotr 11 e XOR rotr 25 e) + ((e AND f) XOR (NOT e AND g)) + k + w;
          t2 = (rotr 2 a XOR rotr 13 a XOR rotr 22 a) + ((a AND b) XOR (a AND c) XOR (b AND c)) in
      [t1 + t2, a, b, c, d + t1, e, f, g])"
| "sha_round hs _ = hs"

definition sha_block :: "w32 list \<Rightarrow> w32 list \<Rightarrow> w32 list" where
  "sha_block hs ws =
     map2 (+) hs (foldl sha_round hs (zip sha_K (rev (schedule 48 (rev ws)))))"

fun sha_blocks :: "nat \<Rightarrow> w32 list \<Rightarrow> w32 list \<Rightarrow> w32 list" where
  "sha_blocks 0 hs ws = hs"
| "sha_blocks (Suc n) hs ws = sha_blocks n (sha_block hs (take 16 ws)) (drop 16 ws)"

definition hex_digit :: "nat \<Rightarrow> char" where
  "hex_digit n = ''0123456789abcdef'' ! (n mod 16)"

definition hex_word :: "w32 \<Rightarrow> string" where
  "hex_word w = map (\<lambda>i. hex_digit (unat w div 16 ^ (7 - i))) [0..<8]"

definition sha256_hex :: "string \<Rightarrow> string" where
  "sha256_hex m = (let ws = be_words (sha_pad m) in
     concat (map hex_word (sha_blocks (length ws div 16) sha_H0 ws)))"

subsection \<open>The form of a digest\<close>

definition is_hex :: "char \<Rightarrow> bool" where
  "is_hex c \<longleftrightarrow> c \<in> set ''0123456789abcdef''"

lemma hex_digit_is_hex [simp]: "is_hex (hex_digit n)"
proof -
  have "n mod 16 < length ''0123456789abcdef''" by simp
  then show ?thesis unfolding is_hex_def hex_digit_def by (rule nth_mem)
qed

lemma sha_round_length [simp]: "length (sha_round hs kw) = length hs"
  by (induction hs kw rule: sha_round.induct) (auto simp: Let_def)

lemma foldl_sha_round_length [simp]: "length (foldl sha_round hs kws) = length hs"
  by (induction kws arbitrary: hs) simp_all

lemma sha_blocks_length [simp]: "length (sha_blocks n hs ws) = length hs"
  by (induction n arbitrary: hs ws) (simp_all add: sha_block_def)

lemma concat_hex_length: "length (concat (map hex_word ws)) = 8 * length ws"
  by (induction ws) (simp_all add: hex_word_def)

theorem sha256_hex_grammar: "length (sha256_hex m) = 64 \<and> list_all is_hex (sha256_hex m)"
  by (auto simp: sha256_hex_def Let_def concat_hex_length sha_H0_def list_all_iff hex_word_def
      simp del: map_append upt_rec_numeral)

end
