(* ===== verification/Json.thy ===== *)
theory Json
  imports PyValue Decimal SHA256
begin

text \<open>
  JSON as the jobs runtimes use it: \<open>json.loads(json.dumps(x, sort_keys=True, ...))\<close> as the
  detached copy of an admissible Python value (\<open>detach\<close>), and the text that
  \<open>json.dumps(x, sort_keys=True, separators=(",", ":"))\<close> makes of it, with
  \<open>ensure_ascii=False\<close> (\<open>canon False\<close>) or \<open>ensure_ascii=True\<close> (\<open>canon True\<close>), as UTF-8 bytes.
\<close>

datatype json =
    JNull
  | JBool bool
  | JInt int
  | JFloat string
  | JStr string
  | JArr "json list"
  | JObj "(string \<times> json) list"

text \<open>A value without a JSON form is never detached: every caller validates first.\<close>

fun key_bytes :: "pyval \<Rightarrow> string" where
  "key_bytes (PStr s) = s"
| "key_bytes _ = []"

fun detach :: "pyval \<Rightarrow> json" where
  "detach (PBool b) = JBool b"
| "detach (PInt n) = JInt n"
| "detach (PFloat r) = JFloat r"
| "detach (PStr s) = JStr s"
| "detach (PList _ vs) = JArr (map detach vs)"
| "detach (PDict _ d) = JObj (sort_key fst (map (\<lambda>(k, v). (key_bytes k, detach v)) d))"
| "detach _ = JNull"

subsection \<open>Text\<close>

definition hex4 :: "nat \<Rightarrow> string" where
  "hex4 n = map (\<lambda>i. hex_digit (n div 16 ^ (3 - i))) [0..<4]"

definition u_escape :: "nat \<Rightarrow> string" where
  "u_escape n = CHR 0x5C # CHR ''u'' # hex4 n"

text \<open>The escapes that both forms share.\<close>

definition short_escape :: "nat \<Rightarrow> string option" where
  "short_escape n = map_of [(34, [CHR 0x5C, CHR 0x22]), (92, [CHR 0x5C, CHR 0x5C]),
     (8, [CHR 0x5C, CHR ''b'']), (12, [CHR 0x5C, CHR ''f'']), (10, [CHR 0x5C, CHR ''n'']),
     (13, [CHR 0x5C, CHR ''r'']), (9, [CHR 0x5C, CHR ''t''])] n"

definition plain_escape :: "char \<Rightarrow> string" where
  "plain_escape c = (case short_escape (of_char c) of Some e \<Rightarrow> e
     | None \<Rightarrow> if of_char c < (32 :: nat) then u_escape (of_char c) else [c])"

text \<open>Code points of UTF-8 bytes; a continuation byte gives six bits.\<close>

definition low6 :: "char \<Rightarrow> nat" where
  "low6 c = of_char c mod 64"

fun code_points :: "string \<Rightarrow> nat list" where
  "code_points [] = []"
| "code_points (a # s) = (let n = of_char a in
     if n < 128 then n # code_points s
     else if n < 224 then (case s of b # t \<Rightarrow> ((n mod 32) * 64 + low6 b) # code_points t | _ \<Rightarrow> [])
     else if n < 240 then (case s of b # c # t \<Rightarrow>
         ((n mod 16) * 4096 + low6 b * 64 + low6 c) # code_points t | _ \<Rightarrow> [])
     else (case s of b # c # d # t \<Rightarrow>
         ((n mod 8) * 262144 + low6 b * 4096 + low6 c * 64 + low6 d) # code_points t | _ \<Rightarrow> []))"

text \<open>A code point past the basic plane is two surrogates.\<close>

definition ascii_escape :: "nat \<Rightarrow> string" where
  "ascii_escape n = (case short_escape n of Some e \<Rightarrow> e
     | None \<Rightarrow> if 32 \<le> n \<and> n < 127 then [char_of n]
       else if n < 65536 then u_escape n
       else u_escape (55296 + (n - 65536) div 1024) @ u_escape (56320 + (n - 65536) mod 1024))"

definition json_string :: "bool \<Rightarrow> string \<Rightarrow> string" where
  "json_string ascii s = CHR 0x22 # (if ascii then concat (map ascii_escape (code_points s))
     else concat (map plain_escape s)) @ [CHR 0x22]"

definition int_text :: "int \<Rightarrow> string" where
  "int_text n = (if n < 0 then CHR ''-'' # dec (nat (- n)) else dec (nat n))"

fun canon :: "bool \<Rightarrow> json \<Rightarrow> string" where
  "canon ascii JNull = ''null''"
| "canon ascii (JBool b) = (if b then ''true'' else ''false'')"
| "canon ascii (JInt n) = int_text n"
| "canon ascii (JFloat r) = r"
| "canon ascii (JStr s) = json_string ascii s"
| "canon ascii (JArr vs) = CHR ''['' # join_on CHR '','' (map (canon ascii) vs) @ '']''"
| "canon ascii (JObj d) = CHR ''{'' #
     join_on CHR '','' (map (\<lambda>(k, v). json_string ascii k @ CHR '':'' # canon ascii v) d) @ ''}''"

text \<open>\<open>prefix:\<close> and the digest of bytes.\<close>

definition tagged :: "string \<Rightarrow> string \<Rightarrow> string" where
  "tagged prefix body = prefix @ CHR '':'' # sha256_hex body"

definition tag_grammar :: "string \<Rightarrow> string \<Rightarrow> bool" where
  "tag_grammar prefix s \<longleftrightarrow> take (length prefix + 1) s = prefix @ '':'' \<and>
     length s = length prefix + 65 \<and> list_all is_hex (drop (length prefix + 1) s)"

text \<open>The digest of the prefix, a NUL byte and the text.\<close>

definition sealed :: "string \<Rightarrow> string \<Rightarrow> string" where
  "sealed prefix body = tagged prefix (prefix @ CHR 0x00 # body)"

lemma tagged_grammar [simp]: "tag_grammar prefix (tagged prefix body)"
  using sha256_hex_grammar [of body] by (simp add: tag_grammar_def tagged_def)

lemma sealed_grammar [simp]: "tag_grammar prefix (sealed prefix body)"
  by (simp add: sealed_def)

end
