(* ===== verification/Payload.thy ===== *)
theory Payload
  imports Json "HOL-Library.Multiset"
begin

text \<open>
  Payload admission, shared text of \<open>_scalar\<close> and \<open>_payloads_ok\<close> in \<open>src/server/jobs_queue.py\<close>
  (and of the copies in the restart, cancel and dead-letter runtimes): an iterative walk with an
  explicit stack and the set of container identities met so far. \<open>payload_walk_iff\<close> gives the
  recursive reading of the loop.
\<close>

definition MAX_DEPTH :: nat where "MAX_DEPTH = 64"
definition MAX_INT_DIGITS :: nat where "MAX_INT_DIGITS = 4000"
definition INT_BITS :: nat where "INT_BITS = 13288"

text \<open>\<open>node.bit_length() > _INT_BITS\<close> is a pre-screen; the interpreter's limit of 4300 digits for
  \<open>str\<close> is out of reach behind it.\<close>

fun scalar_ok :: "pyval \<Rightarrow> bool" where
  "scalar_ok PNone = True"
| "scalar_ok (PBool _) = True"
| "scalar_ok (PInt n) =
     (\<bar>n\<bar> < 2 ^ INT_BITS \<and> length (dec (nat \<bar>n\<bar>)) \<le> MAX_INT_DIGITS)"
| "scalar_ok (PFloat _) = True"
| "scalar_ok (PStr _) = True"
| "scalar_ok _ = False"

definition key_ok :: "pyval \<Rightarrow> bool" where
  "key_ok k \<longleftrightarrow> is_str k \<and> scalar_ok k"

lemma sum_size_list: "sum_list (map (\<lambda>x. Suc (size x)) vs) = size_list size (vs :: pyval list)"
  by (induction vs) simp_all

lemma sum_size_dict:
  "sum_list (map (\<lambda>(k, x). Suc (size x)) d) \<le> size_list (size_prod size size) (d :: pydict)"
  by (induction d) auto

text \<open>The stack's top is the head of the list; children are pushed in order. The result is the set
  of identities met, or None for a rejection.\<close>

function payload_walk :: "(pyval \<times> nat) list \<Rightarrow> nat list \<Rightarrow> nat list option" where
  "payload_walk [] visited = Some visited"
| "payload_walk ((node, depth) # pending) visited =
     (case node of
        PList i items \<Rightarrow>
          if depth > MAX_DEPTH \<or> i \<in> set visited then None
          else payload_walk (rev (map (\<lambda>item. (item, depth + 1)) items) @ pending) (i # visited)
      | PDict i items \<Rightarrow>
          if depth > MAX_DEPTH \<or> i \<in> set visited then None
          else if \<not> list_all (\<lambda>(key, _). key_ok key) items then None
          else payload_walk (rev (map (\<lambda>(_, item). (item, depth + 1)) items) @ pending) (i # visited)
      | _ \<Rightarrow> if scalar_ok node then payload_walk pending visited else None)"
  by pat_completeness auto

termination
  by (relation "measure (\<lambda>(st, _). sum_list (map (\<lambda>(x, _). Suc (size x)) st))")
    (auto simp: comp_def sum_size_list split_def less_Suc_eq_le
      simp flip: rev_map intro!: le_SucI sum_size_dict [unfolded split_def])

subsection \<open>The recursive reading\<close>

text \<open>Identities of the containers of a value, in order; admissible scalars and keys, and depth.\<close>

fun containers :: "pyval \<Rightarrow> nat list" where
  "containers (PList i vs) = i # concat (map containers vs)"
| "containers (PDict i d) = i # concat (map (\<lambda>(k, v). containers v) d)"
| "containers _ = []"

fun tree_ok :: "nat \<Rightarrow> pyval \<Rightarrow> bool" where
  "tree_ok d (PList i vs) \<longleftrightarrow> d \<le> MAX_DEPTH \<and> list_all (tree_ok (d + 1)) vs"
| "tree_ok d (PDict i kvs) \<longleftrightarrow> d \<le> MAX_DEPTH \<and> list_all (\<lambda>(k, v). key_ok k \<and> tree_ok (d + 1) v) kvs"
| "tree_ok d v \<longleftrightarrow> scalar_ok v"

definition stack_ids :: "(pyval \<times> nat) list \<Rightarrow> nat list" where
  "stack_ids st = concat (map (\<lambda>(x, _). containers x) st)"

definition stack_ok :: "(pyval \<times> nat) list \<Rightarrow> nat list \<Rightarrow> bool" where
  "stack_ok st visited \<longleftrightarrow> list_all (\<lambda>(x, d). tree_ok d x) st \<and> distinct (stack_ids st)
     \<and> set (stack_ids st) \<inter> set visited = {}"

lemma stack_ids_simps [simp]:
  "stack_ids [] = []" "stack_ids ((x, d) # st) = containers x @ stack_ids st"
  by (simp_all add: stack_ids_def)

lemma stack_ids_append [simp]: "stack_ids (a @ b) = stack_ids a @ stack_ids b"
  by (simp add: stack_ids_def)

lemma stack_ids_rev: "mset (stack_ids (rev st)) = mset (stack_ids st)"
  by (induction st) (auto simp: stack_ids_def)

lemma stack_ids_rev_props [simp]:
  "distinct (stack_ids (rev st)) = distinct (stack_ids st)"
  "set (stack_ids (rev st)) = set (stack_ids st)"
  using stack_ids_rev [of st] by (metis mset_eq_imp_distinct_iff, metis mset_eq_setD)

lemma stack_ids_items:
  "stack_ids (map (\<lambda>x. (x, d)) vs) = concat (map containers vs)"
  "stack_ids (map (\<lambda>(_, x). (x, d)) kvs) = concat (map (\<lambda>(k, v). containers v) kvs)"
  by (simp_all add: stack_ids_def comp_def split_def)

lemma stack_ok_push:
  assumes "kids = map (\<lambda>x. (x, d + 1)) vs" "d \<le> MAX_DEPTH"
  shows "stack_ok ((PList i vs, d) # pending) visited \<longleftrightarrow>
    i \<notin> set visited \<and> stack_ok (rev kids @ pending) (i # visited)"
  using assms(2) unfolding assms(1)
  by (auto simp: stack_ok_def list_all_iff stack_ids_items)

lemma stack_ok_push_dict:
  assumes "d \<le> MAX_DEPTH"
  shows "stack_ok ((PDict i kvs, d) # pending) visited \<longleftrightarrow> i \<notin> set visited \<and>
    list_all (\<lambda>(k, _). key_ok k) kvs \<and>
    stack_ok (rev (map (\<lambda>(_, x). (x, d + 1)) kvs) @ pending) (i # visited)"
  using assms by (auto simp: stack_ok_def list_all_iff stack_ids_items)

lemma stack_ok_deep: "\<not> d \<le> MAX_DEPTH \<Longrightarrow> \<not> stack_ok ((PList i vs, d) # pending) visited"
  "\<not> d \<le> MAX_DEPTH \<Longrightarrow> \<not> stack_ok ((PDict i kvs, d) # pending) visited"
  by (auto simp: stack_ok_def)

lemma payload_walk_cases:
  "case payload_walk st visited of
     Some v' \<Rightarrow> stack_ok st visited \<and> set v' = set visited \<union> set (stack_ids st)
   | None \<Rightarrow> \<not> stack_ok st visited"
proof (induction st visited rule: payload_walk.induct)
  case (1 visited)
  show ?case by (simp add: stack_ok_def)
next
  case (2 node depth pending visited)
  show ?case
  proof (cases node)
    case (PList i vs)
    show ?thesis
      using 2 stack_ok_push [OF refl, where d = depth and vs = vs and i = i and pending = pending and visited = visited]
        stack_ok_deep(1) [of depth i vs pending visited]
      by (auto simp: PList stack_ids_items not_less split: option.splits)
  next
    case (PDict i kvs)
    show ?thesis
      using 2 stack_ok_push_dict [of depth i kvs pending visited]
        stack_ok_deep(2) [of depth i kvs pending visited]
      by (auto simp: PDict stack_ids_items [unfolded split_def] not_less split_def split: option.splits)
        (metis snd_conv)
  qed (use 2 in \<open>auto simp: stack_ok_def split: option.splits\<close>)
qed

declare payload_walk.simps [simp del]

text \<open>One payload: admissible exactly if its tree is, no container occurs twice and none was met
  before; the identities it adds are those of its containers.\<close>

definition payload_ok :: "pyval \<Rightarrow> nat list \<Rightarrow> nat list option" where
  "payload_ok root visited = payload_walk [(root, 1)] visited"

lemma payload_ok_iff:
  "(\<exists>v'. payload_ok root visited = Some v') \<longleftrightarrow>
     tree_ok 1 root \<and> distinct (containers root) \<and> set (containers root) \<inter> set visited = {}"
  using payload_walk_cases [of "[(root, 1)]" visited]
  by (auto simp: payload_ok_def stack_ok_def split: option.splits)

lemma payload_ok_ids:
  "payload_ok root visited = Some v' \<Longrightarrow> set v' = set visited \<union> set (containers root)"
  using payload_walk_cases [of "[(root, 1)]" visited]
  by (simp add: payload_ok_def)

text \<open>An int is admissible exactly if it has at most 4000 digits.\<close>

lemma dec_length: "0 < k \<Longrightarrow> length (dec n) \<le> k \<longleftrightarrow> n < 10 ^ k"
proof (induction n arbitrary: k rule: dec.induct)
  case (1 n)
  show ?case
  proof (cases "n < 10")
    case True
    have "(10 :: nat) ^ 1 \<le> 10 ^ k" using 1 by (intro power_increasing) simp_all
    then show ?thesis using True 1 by (simp add: dec_small)
  next
    case False
    then obtain j where k: "k = Suc j" using 1 by (cases k) auto
    show ?thesis
    proof (cases j)
      case 0
      then show ?thesis using False k by (simp add: dec_big)
    next
      case (Suc i)
      have "length (dec (n div 10)) \<le> j \<longleftrightarrow> n div 10 < 10 ^ j" using 1 False Suc by simp
      moreover have "n div 10 < 10 ^ j \<longleftrightarrow> n < 10 ^ Suc j"
        by (simp add: less_mult_imp_div_less div_less_iff_less_mult mult.commute)
      ultimately show ?thesis using False k by (simp add: dec_big)
    qed
  qed
qed

lemma ten_power_bits: "(5 :: int) ^ a \<le> 2 ^ b \<Longrightarrow> (10 :: int) ^ (a * k) \<le> 2 ^ ((a + b) * k)"
proof -
  assume "(5 :: int) ^ a \<le> 2 ^ b"
  then have "(2 :: int) ^ a * 5 ^ a \<le> 2 ^ a * 2 ^ b" by (rule mult_left_mono) simp
  then have "(2 * 5 :: int) ^ a \<le> 2 ^ (a + b)" by (simp only: power_mult_distrib power_add)
  then have "((10 :: int) ^ a) ^ k \<le> (2 ^ (a + b)) ^ k" by (intro power_mono) simp_all
  then show ?thesis by (simp only: power_mult)
qed

lemma payload_int_ok: "scalar_ok (PInt n) \<longleftrightarrow> \<bar>n\<bar> < 10 ^ MAX_INT_DIGITS"
proof -
  have e: "500 * 8 = MAX_INT_DIGITS" "(500 + 1161) * 8 = INT_BITS"
    by (simp_all add: MAX_INT_DIGITS_def INT_BITS_def)
  have "(5 :: int) ^ 500 \<le> 2 ^ 1161" by simp
  from ten_power_bits [OF this, of 8, unfolded e]
  have "\<bar>n\<bar> < 10 ^ MAX_INT_DIGITS \<Longrightarrow> \<bar>n\<bar> < 2 ^ INT_BITS" by (rule less_le_trans [rotated])
  moreover have "length (dec (nat \<bar>n\<bar>)) \<le> MAX_INT_DIGITS \<longleftrightarrow> nat \<bar>n\<bar> < 10 ^ MAX_INT_DIGITS"
    by (rule dec_length) (simp add: MAX_INT_DIGITS_def)
  moreover have "nat \<bar>n\<bar> < 10 ^ MAX_INT_DIGITS \<longleftrightarrow> \<bar>n\<bar> < 10 ^ MAX_INT_DIGITS"
    by (simp add: nat_less_iff)
  ultimately show ?thesis by auto
qed

end
