(* ===== verification/Queue.thy ===== *)
theory Queue
  imports Payload "HOL-Library.Product_Lexorder"
begin

text \<open>
  The jobs queue, \<open>src/server/jobs_queue.py\<close> over \<open>src/data/contracts/queue.yaml\<close>: validation
  of requests and states, and the transitions enqueue, claim, ack and nack. \<open>check_state\<close> and
  \<open>check_request\<close> return the detached working copy; a \<open>QueueError\<close> is \<open>Inl\<close> of its class. The
  state is committed last, so a rejected call leaves the caller's state: \<open>queue_apply\<close> returns a
  new state only in \<open>Inr\<close>.
\<close>

subsection \<open>Contract constants and grammars\<close>

datatype queue_error = Malformed_queue_request | Unknown_job | Lease_conflict | Dedupe_conflict
  | Capacity_exceeded | Corrupt_queue

fun queue_code :: "queue_error \<Rightarrow> string" where
  "queue_code Malformed_queue_request = ''malformed_request''"
| "queue_code Unknown_job = ''unknown_job''"
| "queue_code Lease_conflict = ''lease_conflict''"
| "queue_code Dedupe_conflict = ''dedupe_conflict''"
| "queue_code Capacity_exceeded = ''capacity_exceeded''"
| "queue_code Corrupt_queue = ''corrupt_queue''"

definition MAX_NOW :: int where "MAX_NOW = 2 ^ 53 - 1"
definition MAX_LEASE_MS :: int where "MAX_LEASE_MS = 3600000"
definition MAX_PRIORITY :: int where "MAX_PRIORITY = 9"
definition MAX_JOBS :: nat where "MAX_JOBS = 10000"
definition MAX_ATTEMPTS :: int where "MAX_ATTEMPTS = 5"
definition SEQ_LIMIT :: int where "SEQ_LIMIT = MAX_NOW"
definition CLOCK_LIMIT :: int where "CLOCK_LIMIT = MAX_NOW"

definition name_char :: "char \<Rightarrow> bool" where
  "name_char c \<longleftrightarrow>
     c \<in> set ''ABCDEFGHIJKLMNOPQRSTUVWXYZabcdefghijklmnopqrstuvwxyz0123456789._:-''"

definition dedupe_key_ok :: "string \<Rightarrow> bool" where
  "dedupe_key_ok s \<longleftrightarrow> 1 \<le> length s \<and> length s \<le> 128 \<and> list_all name_char s"

definition worker_ok :: "string \<Rightarrow> bool" where
  "worker_ok s \<longleftrightarrow> 1 \<le> length s \<and> length s \<le> 64 \<and> list_all name_char s"

definition job_id_ok :: "string \<Rightarrow> bool" where
  "job_id_ok = tag_grammar ''job1''"

definition STATE_FIELDS :: "string list" where
  "STATE_FIELDS = [''jobs'', ''next_seq'']"

definition JOB_FIELDS :: "string list" where
  "JOB_FIELDS = [''job_id'', ''seq'', ''priority'', ''payload'', ''status'', ''attempts'',
     ''lease_owner'', ''lease_expires_at'']"

definition OP_FIELDS :: "string \<Rightarrow> string list option" where
  "OP_FIELDS op = map_of [(''enqueue'', [''op'', ''dedupe_key'', ''priority'', ''payload'']),
     (''claim'', [''op'', ''worker'', ''now'', ''lease_ms'']),
     (''ack'', [''op'', ''job_id'', ''worker'', ''now'']),
     (''nack'', [''op'', ''job_id'', ''worker'', ''now''])] op"

subsection \<open>State\<close>

datatype status = Ready | Leased | Done | Dead

fun status_text :: "status \<Rightarrow> string" where
  "status_text Ready = ''ready''"
| "status_text Leased = ''leased''"
| "status_text Done = ''done''"
| "status_text Dead = ''dead''"

definition read_status :: "pyval \<Rightarrow> status option" where
  "read_status v = (case v of PStr s \<Rightarrow>
     map_of [(''ready'', Ready), (''leased'', Leased), (''done'', Done), (''dead'', Dead)] s
   | _ \<Rightarrow> None)"

record job =
  job_id :: string
  seq :: int
  priority :: int
  payload :: json
  status :: status
  attempts :: int
  lease_owner :: "string option"
  lease_expires_at :: "int option"

record queue =
  jobs :: "job list"
  next_seq :: int

text \<open>The lease fields that go with a status.\<close>

definition lease_ok :: "status \<Rightarrow> pyval \<Rightarrow> pyval \<Rightarrow> int \<Rightarrow> bool" where
  "lease_ok st owner expires n =
     (if st = Leased then matches worker_ok owner \<and> int_in expires 1 MAX_NOW \<and> n \<ge> 1
      else owner = PNone \<and> expires = PNone)"

text \<open>\<open>_job_ok\<close>, returning the detached job and the extended set of identities.\<close>

definition job_ok :: "pydict \<Rightarrow> int \<Rightarrow> int \<Rightarrow> nat list \<Rightarrow> (job \<times> nat list) option" where
  "job_ok d lowest nxt visited = (let n = int_of (fld d ''attempts'') in
     if \<not> int_in (fld d ''seq'') lowest (nxt - 1) then None
     else if \<not> int_in (fld d ''priority'') 0 MAX_PRIORITY then None
     else (case read_status (fld d ''status'') of None \<Rightarrow> None
     | Some st \<Rightarrow>
       if \<not> int_in (fld d ''attempts'') 0 MAX_ATTEMPTS then None
       else if \<not> lease_ok st (fld d ''lease_owner'') (fld d ''lease_expires_at'') n then None
       else if st = Dead \<and> n \<noteq> MAX_ATTEMPTS then None
       else if st = Done \<and> n < 1 then None
       else (case payload_ok (fld d ''payload'') visited of None \<Rightarrow> None
         | Some v \<Rightarrow> Some (\<lparr>job_id = key_bytes (fld d ''job_id''), seq = int_of (fld d ''seq''),
             priority = int_of (fld d ''priority''), payload = detach (fld d ''payload''),
             status = st, attempts = n, lease_owner = opt_str (fld d ''lease_owner''),
             lease_expires_at = opt_int (fld d ''lease_expires_at'')\<rparr>, v))))"

text \<open>The loop of \<open>_check_state\<close>: ids seen, identities seen, the lowest admissible seq.\<close>

fun check_jobs :: "pyval list \<Rightarrow> string list \<Rightarrow> nat list \<Rightarrow> int \<Rightarrow> int
    \<Rightarrow> (queue_error, job list) result" where
  "check_jobs [] ids visited lowest nxt = Inr []"
| "check_jobs (v # vs) ids visited lowest nxt =
     (case v of PDict _ d \<Rightarrow>
        require (keys_are d JOB_FIELDS) Corrupt_queue
        (require (matches job_id_ok (fld d ''job_id'') \<and> key_bytes (fld d ''job_id'') \<notin> set ids)
          Corrupt_queue
          (case job_ok d lowest nxt visited of None \<Rightarrow> Inl Corrupt_queue
           | Some (j, visited') \<Rightarrow>
               and_then (check_jobs vs (job_id j # ids) visited' (seq j + 1) nxt)
                 (\<lambda>js. Inr (j # js))))
      | _ \<Rightarrow> Inl Corrupt_queue)"

definition check_state :: "pyval \<Rightarrow> (queue_error, queue) result" where
  "check_state state = (case state of PDict _ d \<Rightarrow>
     require (keys_are d STATE_FIELDS) Corrupt_queue
     (case fld d ''jobs'' of PList _ vs \<Rightarrow>
        require (int_in (fld d ''next_seq'') 0 MAX_NOW \<and> length vs \<le> MAX_JOBS) Corrupt_queue
        (and_then (check_jobs vs [] [] 0 (int_of (fld d ''next_seq''))) (\<lambda>js.
          Inr \<lparr>jobs = js, next_seq = int_of (fld d ''next_seq'')\<rparr>))
      | _ \<Rightarrow> Inl Corrupt_queue)
   | _ \<Rightarrow> Inl Corrupt_queue)"

subsection \<open>Requests\<close>

datatype request =
    Enqueue string int json
  | Claim string int int
  | Ack string string int
  | Nack string string int

definition check_request :: "pyval \<Rightarrow> int \<Rightarrow> (queue_error, request) result" where
  "check_request v clock_limit = (case v of PDict _ d \<Rightarrow>
     require (list_all is_str (map fst d) \<and> PStr ''op'' \<in> set (map fst d)) Malformed_queue_request
     (case fld d ''op'' of PStr op \<Rightarrow>
        (case OP_FIELDS op of None \<Rightarrow> Inl Malformed_queue_request
         | Some names \<Rightarrow> require (keys_are d names) Malformed_queue_request
           (if op = ''enqueue'' then
              require (matches dedupe_key_ok (fld d ''dedupe_key'')
                  \<and> int_in (fld d ''priority'') 0 MAX_PRIORITY
                  \<and> payload_ok (fld d ''payload'') [] \<noteq> None) Malformed_queue_request
                (Inr (Enqueue (key_bytes (fld d ''dedupe_key'')) (int_of (fld d ''priority''))
                  (detach (fld d ''payload''))))
            else
              require (matches worker_ok (fld d ''worker'') \<and> int_in (fld d ''now'') 0 MAX_NOW)
                Malformed_queue_request
              (let worker = key_bytes (fld d ''worker''); now = int_of (fld d ''now'') in
               if op = ''claim'' then
                 require (int_in (fld d ''lease_ms'') 1 MAX_LEASE_MS
                     \<and> now + int_of (fld d ''lease_ms'') \<le> clock_limit) Malformed_queue_request
                   (Inr (Claim worker now (int_of (fld d ''lease_ms''))))
               else
                 require (matches job_id_ok (fld d ''job_id'')) Malformed_queue_request
                   (Inr (if op = ''ack'' then Ack (key_bytes (fld d ''job_id'')) worker now
                         else Nack (key_bytes (fld d ''job_id'')) worker now)))))
      | _ \<Rightarrow> Inl Malformed_queue_request)
   | _ \<Rightarrow> Inl Malformed_queue_request)"

subsection \<open>Transitions\<close>

text \<open>The canonical JSON of a state (sorted keys) and the two derived ids.\<close>

definition opt_json :: "('a \<Rightarrow> json) \<Rightarrow> 'a option \<Rightarrow> json" where
  "opt_json f x = (case x of None \<Rightarrow> JNull | Some a \<Rightarrow> f a)"

definition job_json :: "job \<Rightarrow> json" where
  "job_json j = JObj [(''attempts'', JInt (attempts j)), (''job_id'', JStr (job_id j)),
     (''lease_expires_at'', opt_json JInt (lease_expires_at j)),
     (''lease_owner'', opt_json JStr (lease_owner j)), (''payload'', payload j),
     (''priority'', JInt (priority j)), (''seq'', JInt (seq j)),
     (''status'', JStr (status_text (status j)))]"

definition queue_json :: "queue \<Rightarrow> json" where
  "queue_json q = JObj [(''jobs'', JArr (map job_json (jobs q))), (''next_seq'', JInt (next_seq q))]"

definition job_id_for :: "string \<Rightarrow> string" where
  "job_id_for key = tagged ''job1'' (''job1|'' @ key)"

definition state_id_for :: "queue \<Rightarrow> string" where
  "state_id_for q = tagged ''qs1'' (canon False (queue_json q))"

definition by_id :: "job list \<Rightarrow> string \<Rightarrow> job option" where
  "by_id js jid = find (\<lambda>j. job_id j = jid) js"

text \<open>\<open>job.update(...)\<close> on the job object inside the working copy (ids are unique there).\<close>

definition update_job :: "queue \<Rightarrow> string \<Rightarrow> (job \<Rightarrow> job) \<Rightarrow> queue" where
  "update_job q jid f = q\<lparr>jobs := map (\<lambda>j. if job_id j = jid then f j else j) (jobs q)\<rparr>"

definition enqueue :: "queue \<Rightarrow> string \<Rightarrow> int \<Rightarrow> json \<Rightarrow> (queue_error, job \<times> queue) result" where
  "enqueue q key pr body = (let jid = job_id_for key in
     case by_id (jobs q) jid of
       Some old \<Rightarrow> require (priority old = pr \<and> canon False (payload old) = canon False body)
         Dedupe_conflict (Inr (old, q))
     | None \<Rightarrow> require (\<not> (length (jobs q) \<ge> MAX_JOBS \<or> next_seq q \<ge> SEQ_LIMIT)) Capacity_exceeded
         (let j = \<lparr>job_id = jid, seq = next_seq q, priority = pr, payload = body, status = Ready,
                   attempts = 0, lease_owner = None, lease_expires_at = None\<rparr> in
          Inr (j, \<lparr>jobs = jobs q @ [j], next_seq = next_seq q + 1\<rparr>)))"

definition claimable :: "int \<Rightarrow> job \<Rightarrow> bool" where
  "claimable now j \<longleftrightarrow> status j = Ready \<or>
     (status j = Leased \<and> (case lease_expires_at j of Some e \<Rightarrow> e \<le> now | None \<Rightarrow> False))"

definition kill :: "job \<Rightarrow> job" where
  "kill j = j\<lparr>status := Dead, lease_owner := None, lease_expires_at := None\<rparr>"

definition lease :: "string \<Rightarrow> int \<Rightarrow> job \<Rightarrow> job" where
  "lease worker expires j = j\<lparr>status := Leased, attempts := attempts j + 1,
     lease_owner := Some worker, lease_expires_at := Some expires\<rparr>"

fun claim_loop :: "job list \<Rightarrow> queue \<Rightarrow> string \<Rightarrow> int \<Rightarrow> job option \<times> queue" where
  "claim_loop [] q worker expires = (None, q)"
| "claim_loop (j # js) q worker expires =
     (if attempts j \<ge> MAX_ATTEMPTS then claim_loop js (update_job q (job_id j) kill) worker expires
      else (Some (lease worker expires j), update_job q (job_id j) (lease worker expires)))"

definition claim_order :: "int \<Rightarrow> job list \<Rightarrow> job list" where
  "claim_order now js = sort_key (\<lambda>j. (priority j, seq j)) (filter (claimable now) js)"

definition claim :: "queue \<Rightarrow> string \<Rightarrow> int \<Rightarrow> int \<Rightarrow> job option \<times> queue" where
  "claim q worker now lease_ms = claim_loop (claim_order now (jobs q)) q worker (now + lease_ms)"

definition held_by :: "job \<Rightarrow> string \<Rightarrow> int \<Rightarrow> bool" where
  "held_by j worker now \<longleftrightarrow> status j = Leased \<and> lease_owner j = Some worker
     \<and> (case lease_expires_at j of Some e \<Rightarrow> now < e | None \<Rightarrow> False)"

definition release :: "status \<Rightarrow> job \<Rightarrow> job" where
  "release st j = j\<lparr>status := st, lease_owner := None, lease_expires_at := None\<rparr>"

definition settle :: "queue \<Rightarrow> string \<Rightarrow> string \<Rightarrow> int \<Rightarrow> status \<Rightarrow> (queue_error, job \<times> queue) result" where
  "settle q jid worker now st = (case by_id (jobs q) jid of
       None \<Rightarrow> Inl Unknown_job
     | Some j \<Rightarrow> require (held_by j worker now) Lease_conflict
         (Inr (release st j, update_job q jid (release st))))"

definition some_job :: "(queue_error, job \<times> queue) result \<Rightarrow> (queue_error, job option \<times> queue) result" where
  "some_job r = and_then r (\<lambda>(j, q). Inr (Some j, q))"

fun queue_step :: "queue \<Rightarrow> request \<Rightarrow> (queue_error, job option \<times> queue) result" where
  "queue_step q (Enqueue key pr body) = some_job (enqueue q key pr body)"
| "queue_step q (Claim worker now lease_ms) = Inr (claim q worker now lease_ms)"
| "queue_step q (Ack jid worker now) = some_job (settle q jid worker now Done)"
| "queue_step q (Nack jid worker now) = some_job (settle q jid worker now Ready)"

fun op_text :: "request \<Rightarrow> string" where
  "op_text (Enqueue _ _ _) = ''enqueue''"
| "op_text (Claim _ _ _) = ''claim''"
| "op_text (Ack _ _ _) = ''ack''"
| "op_text (Nack _ _ _) = ''nack''"

record receipt =
  r_op :: string
  r_job_id :: "string option"
  r_status :: "status option"
  r_attempts :: "int option"
  r_lease_expires_at :: "int option"
  r_state_id :: string

definition receipt_of :: "request \<Rightarrow> job option \<Rightarrow> queue \<Rightarrow> receipt" where
  "receipt_of r j q = \<lparr>r_op = op_text r, r_job_id = map_option job_id j,
     r_status = map_option status j, r_attempts = map_option attempts j,
     r_lease_expires_at = (case j of None \<Rightarrow> None | Some i \<Rightarrow> lease_expires_at i),
     r_state_id = state_id_for q\<rparr>"

definition queue_apply :: "pyval \<Rightarrow> pyval \<Rightarrow> (queue_error, receipt \<times> queue) result" where
  "queue_apply state v =
     and_then (check_request v CLOCK_LIMIT) (\<lambda>r.
     and_then (check_state state) (\<lambda>q.
     and_then (queue_step q r) (\<lambda>(j, q'). Inr (receipt_of r j q', q'))))"

end
