(* ===== verification/QueueFacts.thy ===== *)
theory QueueFacts
  imports Queue
begin

text \<open>
  The queue's invariant and what a step does to each job: \<open>queue_ok\<close> is what \<open>check_state\<close>
  establishes and every transition keeps; \<open>job_move\<close> is the life cycle of one job, and every
  transition moves every job along it.
\<close>

declare One_nat_def [simp del]

subsection \<open>Invariant\<close>

fun json_ok :: "nat \<Rightarrow> json \<Rightarrow> bool" where
  "json_ok d (JInt n) \<longleftrightarrow> \<bar>n\<bar> < 10 ^ MAX_INT_DIGITS"
| "json_ok d (JArr vs) \<longleftrightarrow> d \<le> MAX_DEPTH \<and> list_all (json_ok (d + 1)) vs"
| "json_ok d (JObj kvs) \<longleftrightarrow> d \<le> MAX_DEPTH \<and> sorted (map fst kvs)
     \<and> list_all (\<lambda>(k, v). json_ok (d + 1) v) kvs"
| "json_ok d _ \<longleftrightarrow> True"

definition job_inv :: "int \<Rightarrow> job \<Rightarrow> bool" where
  "job_inv nxt j \<longleftrightarrow> job_id_ok (job_id j) \<and> 0 \<le> seq j \<and> seq j < nxt
     \<and> 0 \<le> priority j \<and> priority j \<le> MAX_PRIORITY \<and> json_ok 1 (payload j)
     \<and> 0 \<le> attempts j \<and> attempts j \<le> MAX_ATTEMPTS
     \<and> (if status j = Leased
        then attempts j \<ge> 1 \<and> (case lease_owner j of Some w \<Rightarrow> worker_ok w | None \<Rightarrow> False)
          \<and> (case lease_expires_at j of Some e \<Rightarrow> 1 \<le> e \<and> e \<le> MAX_NOW | None \<Rightarrow> False)
        else lease_owner j = None \<and> lease_expires_at j = None)
     \<and> (status j = Dead \<longrightarrow> attempts j = MAX_ATTEMPTS) \<and> (status j = Done \<longrightarrow> attempts j \<ge> 1)"

definition queue_ok :: "queue \<Rightarrow> bool" where
  "queue_ok q \<longleftrightarrow> 0 \<le> next_seq q \<and> next_seq q \<le> MAX_NOW \<and> length (jobs q) \<le> MAX_JOBS
     \<and> distinct (map job_id (jobs q)) \<and> sorted_wrt (<) (map seq (jobs q))
     \<and> list_all (job_inv (next_seq q)) (jobs q)"

lemma tree_ok_detach: "tree_ok d v \<Longrightarrow> json_ok d (detach v)"
proof (induction d v rule: tree_ok.induct)
  case (2 d i kvs)
  then show ?case by (auto simp: list_all_iff)
qed (auto simp: list_all_iff payload_int_ok simp del: scalar_ok.simps(3))

lemma payload_ok_json: "payload_ok v visited = Some v' \<Longrightarrow> json_ok 1 (detach v)"
  using payload_ok_iff [of v visited] tree_ok_detach by blast

lemma read_status_text [simp]: "read_status (PStr (status_text st)) = Some st"
  by (cases st) (simp_all add: read_status_def)

lemma job_ok_Some:
  "job_ok d lowest nxt visited = Some (j, v) \<longleftrightarrow>
     int_in (fld d ''seq'') lowest (nxt - 1) \<and> int_in (fld d ''priority'') 0 MAX_PRIORITY \<and>
     int_in (fld d ''attempts'') 0 MAX_ATTEMPTS \<and> payload_ok (fld d ''payload'') visited = Some v \<and>
     (\<exists>st. read_status (fld d ''status'') = Some st \<and>
       lease_ok st (fld d ''lease_owner'') (fld d ''lease_expires_at'') (int_of (fld d ''attempts'')) \<and>
       (st = Dead \<longrightarrow> int_of (fld d ''attempts'') = MAX_ATTEMPTS) \<and>
       (st = Done \<longrightarrow> 1 \<le> int_of (fld d ''attempts'')) \<and>
       j = \<lparr>job_id = key_bytes (fld d ''job_id''), seq = int_of (fld d ''seq''),
         priority = int_of (fld d ''priority''), payload = detach (fld d ''payload''),
         status = st, attempts = int_of (fld d ''attempts''), lease_owner = opt_str (fld d ''lease_owner''),
         lease_expires_at = opt_int (fld d ''lease_expires_at'')\<rparr>)"
  unfolding job_ok_def Let_def by (simp split: option.split) force

lemma job_ok_inv:
  assumes "job_ok d lowest nxt visited = Some (j, v)" "0 \<le> lowest" "matches job_id_ok (fld d ''job_id'')"
  shows "job_inv nxt j \<and> lowest \<le> seq j \<and> job_id j = key_bytes (fld d ''job_id'')"
proof -
  obtain st where *: "int_in (fld d ''seq'') lowest (nxt - 1)" "int_in (fld d ''priority'') 0 MAX_PRIORITY"
     "int_in (fld d ''attempts'') 0 MAX_ATTEMPTS" "payload_ok (fld d ''payload'') visited = Some v"
     "lease_ok st (fld d ''lease_owner'') (fld d ''lease_expires_at'') (int_of (fld d ''attempts''))"
     "st = Dead \<longrightarrow> int_of (fld d ''attempts'') = MAX_ATTEMPTS" "st = Done \<longrightarrow> 1 \<le> int_of (fld d ''attempts'')"
     and j: "j = \<lparr>job_id = key_bytes (fld d ''job_id''), seq = int_of (fld d ''seq''),
         priority = int_of (fld d ''priority''), payload = detach (fld d ''payload''),
         status = st, attempts = int_of (fld d ''attempts''), lease_owner = opt_str (fld d ''lease_owner''),
         lease_expires_at = opt_int (fld d ''lease_expires_at'')\<rparr>"
    using assms(1) unfolding job_ok_Some by blast
  show ?thesis unfolding j job_inv_def
    using *(1-3,5-7) payload_ok_json [OF *(4)] assms(2,3)
    by (auto simp: lease_ok_def int_in_iff matches_iff split: if_splits)
qed

lemma check_jobs_Cons:
  "check_jobs (v # vs) ids visited lo nxt = Inr js \<longleftrightarrow> (\<exists>i d j v' js'. v = PDict i d
     \<and> keys_are d JOB_FIELDS \<and> matches job_id_ok (fld d ''job_id'') \<and> key_bytes (fld d ''job_id'') \<notin> set ids
     \<and> job_ok d lo nxt visited = Some (j, v') \<and> check_jobs vs (job_id j # ids) v' (seq j + 1) nxt = Inr js'
     \<and> js = j # js')"
proof (cases v)
  case (PDict i d)
  show ?thesis
  proof (cases "job_ok d lo nxt visited")
    case (Some p)
    then show ?thesis by (cases p) (auto simp: PDict)
  qed (simp add: PDict)
qed simp_all

lemma check_jobs_inv:
  "check_jobs vs ids visited lowest nxt = Inr js \<Longrightarrow> 0 \<le> lowest \<Longrightarrow>
     list_all (job_inv nxt) js \<and> sorted_wrt (<) (map seq js) \<and> (\<forall>j \<in> set js. lowest \<le> seq j)
     \<and> distinct (map job_id js) \<and> set (map job_id js) \<inter> set ids = {} \<and> length js = length vs"
proof (induction vs ids visited lowest nxt arbitrary: js rule: check_jobs.induct)
  case (2 v vs ids visited lowest nxt)
  then obtain i d j v' js' where *: "v = PDict i d" "matches job_id_ok (fld d ''job_id'')"
    "key_bytes (fld d ''job_id'') \<notin> set ids" "job_ok d lowest nxt visited = Some (j, v')"
    "check_jobs vs (job_id j # ids) v' (seq j + 1) nxt = Inr js'" "js = j # js'"
    unfolding check_jobs_Cons by blast
  have j: "job_inv nxt j" "lowest \<le> seq j" "job_id j = key_bytes (fld d ''job_id'')"
    using job_ok_inv [OF *(4) "2.prems"(2) *(2)] by auto
  have js': "list_all (job_inv nxt) js' \<and> sorted_wrt (<) (map seq js') \<and> (\<forall>k \<in> set js'. seq j + 1 \<le> seq k)
     \<and> distinct (map job_id js') \<and> set (map job_id js') \<inter> set (job_id j # ids) = {}
     \<and> length js' = length vs"
    using "2.IH" [OF *(1) *(4) refl *(5)] j(2) "2.prems"(2) by simp
  show ?case unfolding *(6) using js' j *(3) by auto
qed simp

theorem check_state_ok: "check_state v = Inr q \<Longrightarrow> queue_ok q"
  by (auto simp: check_state_def queue_ok_def int_in_iff dest!: check_jobs_inv split: pyval.splits)

fun request_ok :: "request \<Rightarrow> bool" where
  "request_ok (Enqueue key pr body) \<longleftrightarrow> dedupe_key_ok key \<and> 0 \<le> pr \<and> pr \<le> MAX_PRIORITY \<and> json_ok 1 body"
| "request_ok (Claim w now ms) \<longleftrightarrow> worker_ok w \<and> 0 \<le> now \<and> 1 \<le> ms \<and> ms \<le> MAX_LEASE_MS
     \<and> now + ms \<le> CLOCK_LIMIT"
| "request_ok (Ack jid w now) \<longleftrightarrow> job_id_ok jid \<and> worker_ok w \<and> 0 \<le> now \<and> now \<le> MAX_NOW"
| "request_ok (Nack jid w now) \<longleftrightarrow> job_id_ok jid \<and> worker_ok w \<and> 0 \<le> now \<and> now \<le> MAX_NOW"

lemma check_request_ok: "check_request v CLOCK_LIMIT = Inr r \<Longrightarrow> request_ok r"
  by (auto simp: check_request_def int_in_iff matches_iff Let_def payload_ok_json
      split: pyval.splits option.splits if_splits)

subsection \<open>The life cycle of a job\<close>

text \<open>What one transition can do to one job.\<close>

inductive job_move :: "job \<Rightarrow> job \<Rightarrow> bool" where
  stay: "job_move j j"
| deliver: "status j = Ready \<or> status j = Leased \<Longrightarrow> attempts j < MAX_ATTEMPTS \<Longrightarrow> worker_ok w \<Longrightarrow>
    1 \<le> e \<Longrightarrow> e \<le> MAX_NOW \<Longrightarrow> job_move j (lease w e j)"
| bury: "status j = Ready \<or> status j = Leased \<Longrightarrow> attempts j \<ge> MAX_ATTEMPTS \<Longrightarrow> job_move j (kill j)"
| settled: "status j = Leased \<Longrightarrow> st = Ready \<or> st = Done \<Longrightarrow> job_move j (release st j)"

inductive_cases job_moveE: "job_move j k"

lemma job_move_fixed:
  "job_move j k \<Longrightarrow> job_id k = job_id j \<and> seq k = seq j \<and> priority k = priority j \<and> payload k = payload j
     \<and> attempts j \<le> attempts k \<and> (status j \<in> {Done, Dead} \<longrightarrow> k = j)"
  by (erule job_moveE) (auto simp: lease_def kill_def release_def)

lemma job_move_inv: "job_move j k \<Longrightarrow> job_inv nxt j \<Longrightarrow> job_inv nxt k"
  by (erule job_moveE) (auto simp: lease_def kill_def release_def job_inv_def split: if_splits)

lemma job_moves_fixed:
  "job_move\<^sup>*\<^sup>* j k \<Longrightarrow> job_id k = job_id j \<and> seq k = seq j \<and> priority k = priority j \<and> payload k = payload j
     \<and> attempts j \<le> attempts k \<and> (status j \<in> {Done, Dead} \<longrightarrow> k = j)"
proof (induction rule: rtranclp_induct)
  case (step k l)
  then show ?case using job_move_fixed [OF step(2)] by auto
qed simp

text \<open>A transition moves every job and may append new ones.\<close>

definition queue_moves :: "queue \<Rightarrow> queue \<Rightarrow> bool" where
  "queue_moves q q' \<longleftrightarrow> next_seq q \<le> next_seq q' \<and>
     (\<exists>js new. jobs q' = js @ new \<and> list_all2 job_move\<^sup>*\<^sup>* (jobs q) js)"

lemma list_all2_moves_refl: "list_all2 job_move\<^sup>*\<^sup>* js js"
  by (simp add: list_all2_refl)

lemma queue_moves_refl: "queue_moves q q"
  unfolding queue_moves_def using list_all2_moves_refl by auto

lemma queue_moves_trans:
  assumes "queue_moves q r" "queue_moves r s"
  shows "queue_moves q s"
proof -
  obtain js new ks more where 1: "jobs r = js @ new" "list_all2 job_move\<^sup>*\<^sup>* (jobs q) js"
    and 2: "jobs s = ks @ more" "list_all2 job_move\<^sup>*\<^sup>* (jobs r) ks"
    using assms unfolding queue_moves_def by blast
  obtain k1 k2 where k: "ks = k1 @ k2" "list_all2 job_move\<^sup>*\<^sup>* js k1"
    using 2(2) unfolding 1(1) list_all2_append1 by blast
  have "list_all2 job_move\<^sup>*\<^sup>* (jobs q) k1"
    by (rule list_all2_trans [OF _ 1(2) k(2)]) (rule rtranclp_trans)
  then show ?thesis using 2(1) k(1) assms unfolding queue_moves_def by auto
qed

text \<open>The shape every transition has on the jobs already there.\<close>

lemma map_moves:
  assumes "\<And>j. j \<in> set (jobs q) \<Longrightarrow> job_move j (f j)" "queue_ok q"
  shows "queue_ok (q\<lparr>jobs := map f (jobs q)\<rparr>) \<and> queue_moves q (q\<lparr>jobs := map f (jobs q)\<rparr>)"
proof
  have fx: "job_id (f j) = job_id j" "seq (f j) = seq j" "job_inv nxt j \<Longrightarrow> job_inv nxt (f j)"
    if "j \<in> set (jobs q)" for j nxt
    using job_move_fixed [OF assms(1) [OF that]] job_move_inv [OF assms(1) [OF that]] by auto
  then have "map job_id (map f (jobs q)) = map job_id (jobs q)" "map seq (map f (jobs q)) = map seq (jobs q)"
    by simp_all
  then show "queue_ok (q\<lparr>jobs := map f (jobs q)\<rparr>)"
    using assms(2) fx(3) by (auto simp: queue_ok_def list_all_iff simp del: map_map)
  have "list_all2 job_move\<^sup>*\<^sup>* (jobs q) (map f (jobs q))"
    using assms(1) by (auto simp: list_all2_conv_all_nth)
  then show "queue_moves q (q\<lparr>jobs := map f (jobs q)\<rparr>)"
    unfolding queue_moves_def by (intro conjI exI [of _ "map f (jobs q)"] exI [of _ "[]"]) simp_all
qed

lemma update_job_moves:
  assumes "queue_ok q" "j \<in> set (jobs q)" "job_move j (f j)"
  shows "queue_ok (update_job q (job_id j) f) \<and> queue_moves q (update_job q (job_id j) f)"
proof -
  have "distinct (map job_id (jobs q))" using assms(1) by (simp add: queue_ok_def)
  then have "k = j" if "k \<in> set (jobs q)" "job_id k = job_id j" for k
    using that assms(2) by (metis distinct_map inj_on_def)
  then show ?thesis unfolding update_job_def
    by (intro map_moves assms(1)) (auto intro: stay assms(3))
qed

lemma by_id_Some: "by_id js jid = Some j \<Longrightarrow> j \<in> set js \<and> job_id j = jid"
  by (auto simp: by_id_def find_Some_iff)

lemma by_id_None: "by_id js jid = None \<longleftrightarrow> jid \<notin> set (map job_id js)"
  by (auto simp: by_id_def find_None_iff)

lemma settle_moves:
  assumes "queue_ok q" "settle q jid w now st = Inr (j, q')" "st = Ready \<or> st = Done"
  shows "queue_ok q' \<and> queue_moves q q'"
proof -
  obtain k where k: "by_id (jobs q) jid = Some k" "held_by k w now" "q' = update_job q jid (release st)"
    using assms(2) by (auto simp: settle_def split: option.splits)
  have "job_move k (release st k)" using k(2) assms(3) by (intro settled) (auto simp: held_by_def)
  then show ?thesis using update_job_moves [OF assms(1), of k] by_id_Some [OF k(1)] k(3) by simp
qed

lemma enqueue_moves:
  assumes "queue_ok q" "enqueue q key pr body = Inr (j, q')" "0 \<le> pr" "pr \<le> MAX_PRIORITY" "json_ok 1 body"
  shows "queue_ok q' \<and> queue_moves q q'"
proof (cases "by_id (jobs q) (job_id_for key)")
  case None
  then have *: "j = \<lparr>job_id = job_id_for key, seq = next_seq q, priority = pr, payload = body, status = Ready,
      attempts = 0, lease_owner = None, lease_expires_at = None\<rparr>"
    "q' = \<lparr>jobs = jobs q @ [j], next_seq = next_seq q + 1\<rparr>" "length (jobs q) < MAX_JOBS" "next_seq q < SEQ_LIMIT"
    using assms(2) by (auto simp: enqueue_def Let_def)
  have "job_inv (next_seq q') j"
    using assms(1,3-5) by (simp add: * job_inv_def queue_ok_def job_id_ok_def job_id_for_def MAX_ATTEMPTS_def)
  moreover have "job_inv (next_seq q') k" if "job_inv (next_seq q) k" for k
    using that by (simp add: job_inv_def *)
  moreover have "\<forall>k \<in> set (jobs q). seq k < seq j"
    using assms(1) by (auto simp: queue_ok_def list_all_iff job_inv_def *)
  ultimately have "queue_ok q'"
    using assms(1) None *(3,4)
    by (auto simp: queue_ok_def by_id_None list_all_iff sorted_wrt_append *(1,2) SEQ_LIMIT_def)
  moreover have "queue_moves q q'"
    unfolding queue_moves_def using list_all2_moves_refl [of "jobs q"] by (auto simp: *)
  ultimately show ?thesis ..
next
  case (Some k)
  then have "q' = q" using assms(2) by (auto simp: enqueue_def)
  then show ?thesis using assms(1) queue_moves_refl by simp
qed

subsection \<open>Claim\<close>

definition live :: "job \<Rightarrow> bool" where
  "live j \<longleftrightarrow> attempts j < MAX_ATTEMPTS"

definition claim_effect :: "job list \<Rightarrow> string \<Rightarrow> int \<Rightarrow> job \<Rightarrow> job" where
  "claim_effect js w e j =
     (if job_id j \<in> job_id ` set (takeWhile (\<lambda>k. \<not> live k) js) then kill j
      else case find live js of None \<Rightarrow> j | Some k \<Rightarrow> if job_id j = job_id k then lease w e j else j)"

lemma kill_id [simp]: "job_id (kill j) = job_id j"
  by (simp add: kill_def)

lemma claim_effect_other: "job_id j \<notin> job_id ` set js \<Longrightarrow> claim_effect js w e j = j"
  by (auto simp: claim_effect_def find_Some_iff split: option.splits dest: set_takeWhileD)

lemma claim_loop_eq:
  "distinct (map job_id js) \<Longrightarrow>
     claim_loop js q w e = (map_option (lease w e) (find live js),
       q\<lparr>jobs := map (claim_effect js w e) (jobs q)\<rparr>)"
proof (induction js arbitrary: q)
  case Nil
  show ?case by (simp add: claim_effect_def)
next
  case (Cons k ks)
  show ?case
  proof (cases "live k")
    case True
    then have "claim_effect (k # ks) w e = (\<lambda>j. if job_id j = job_id k then lease w e j else j)"
      by (simp add: claim_effect_def fun_eq_iff)
    then show ?thesis using True by (simp add: live_def update_job_def)
  next
    case False
    have "claim_effect ks w e (if job_id j = job_id k then kill j else j) = claim_effect (k # ks) w e j" for j
      using Cons.prems False by (auto simp: claim_effect_other) (auto simp: claim_effect_def)
    then have "map (claim_effect ks w e) (jobs (update_job q (job_id k) kill)) =
        map (claim_effect (k # ks) w e) (jobs q)"
      by (simp add: update_job_def)
    then show ?thesis using False Cons
      by (simp add: live_def) (simp add: update_job_def)
  qed
qed

text \<open>The order of claims; no two jobs of a queue are equal in it.\<close>

definition rank :: "job \<Rightarrow> int \<times> int" where
  "rank j = (priority j, seq j)"

lemma queue_ok_inj:
  assumes "queue_ok q" "j \<in> set (jobs q)" "k \<in> set (jobs q)"
  shows "job_id j = job_id k \<longleftrightarrow> j = k" "seq j = seq k \<longleftrightarrow> j = k"
proof -
  have "distinct (map job_id (jobs q))" "distinct (map seq (jobs q))"
    using assms(1) unfolding queue_ok_def by (blast intro: sorted_wrt_irrefl_distinct less_irrefl)+
  then show "job_id j = job_id k \<longleftrightarrow> j = k" "seq j = seq k \<longleftrightarrow> j = k"
    using assms(2,3) by (auto simp: distinct_map inj_on_def)
qed

lemma claim_order_sorted:
  assumes "queue_ok q"
  shows "sorted_wrt (\<lambda>j k. rank j < rank k) (claim_order now (jobs q))"
    and "set (claim_order now (jobs q)) = {j \<in> set (jobs q). claimable now j}"
    and "distinct (map job_id (claim_order now (jobs q)))"
proof -
  have d: "distinct (jobs q)" using assms by (simp add: queue_ok_def distinct_map)
  have "inj_on rank (set (filter (claimable now) (jobs q)))"
    using queue_ok_inj(2) [OF assms] by (auto simp: inj_on_def rank_def)
  then show "sorted_wrt (\<lambda>j k. rank j < rank k) (claim_order now (jobs q))"
    unfolding claim_order_def rank_def [symmetric] using d
    by (intro strict_sort_key_distinct) (simp add: distinct_map)
  show s: "set (claim_order now (jobs q)) = {j \<in> set (jobs q). claimable now j}"
    by (simp add: claim_order_def)
  have "distinct (claim_order now (jobs q))" using d by (simp add: claim_order_def)
  then show "distinct (map job_id (claim_order now (jobs q)))"
    using queue_ok_inj(1) [OF assms] s by (auto simp: distinct_map inj_on_def)
qed

lemma find_split: "find P xs = Some x \<Longrightarrow> \<exists>ys. xs = takeWhile (\<lambda>y. \<not> P y) xs @ x # ys \<and> P x"
  by (induction xs) (auto split: if_splits)

lemma find_None_all: "find P xs = None \<Longrightarrow> takeWhile (\<lambda>y. \<not> P y) xs = xs"
  by (induction xs) (auto split: if_splits)

theorem claim_spec:
  assumes ok: "queue_ok q"
  shows "case claim q w now ms of
      (None, q') \<Rightarrow> (\<forall>j \<in> set (jobs q). claimable now j \<longrightarrow> \<not> live j)
        \<and> q' = q\<lparr>jobs := map (\<lambda>k. if claimable now k then kill k else k) (jobs q)\<rparr>
    | (Some j', q') \<Rightarrow> \<exists>j \<in> set (jobs q). claimable now j \<and> live j \<and> j' = lease w (now + ms) j
        \<and> (\<forall>k \<in> set (jobs q). claimable now k \<and> live k \<longrightarrow> rank j \<le> rank k)
        \<and> q' = q\<lparr>jobs := map (\<lambda>k. if k = j then j'
            else if claimable now k \<and> rank k < rank j then kill k else k) (jobs q)\<rparr>"
proof -
  let ?js = "claim_order now (jobs q)" and ?e = "now + ms"
  let ?dead = "takeWhile (\<lambda>k. \<not> live k) ?js"
  note srt = claim_order_sorted [OF ok, of now]
  note inj = queue_ok_inj(1) [OF ok]
  have cl: "claim q w now ms = (map_option (lease w ?e) (find live ?js),
      q\<lparr>jobs := map (claim_effect ?js w ?e) (jobs q)\<rparr>)"
    unfolding claim_def by (rule claim_loop_eq [OF srt(3)])
  have sub: "set ?dead \<subseteq> set (jobs q)" using set_takeWhileD srt(2) by fastforce
  have ids: "job_id k \<in> job_id ` set ?dead \<longleftrightarrow> k \<in> set ?dead" if "k \<in> set (jobs q)" for k
    using inj [OF that] sub by auto
  show ?thesis
  proof (cases "find live ?js")
    case None
    then have dead: "?dead = ?js" by (rule find_None_all)
    have "claim_effect ?js w ?e k = (if claimable now k then kill k else k)" if "k \<in> set (jobs q)" for k
      using ids [OF that] that None srt(2) unfolding claim_effect_def dead by simp
    then have m: "map (claim_effect ?js w ?e) (jobs q) = map (\<lambda>k. if claimable now k then kill k else k) (jobs q)"
      by simp
    have "\<forall>j \<in> set (jobs q). claimable now j \<longrightarrow> \<not> live j"
      using None srt(2) by (auto simp: find_None_iff)
    then show ?thesis unfolding cl None m by simp
  next
    case (Some j)
    then obtain ys where ys: "?js = ?dead @ j # ys" "live j" using find_split by metis
    have j: "j \<in> set (jobs q)" "claimable now j" using srt(2) ys(1) by (metis (no_types, lifting) in_set_conv_decomp mem_Collect_eq)+
    have w: "sorted_wrt (\<lambda>j k. rank j < rank k) (?dead @ j # ys)" using srt(1) ys(1) by simp
    have dead: "k \<in> set ?dead \<longleftrightarrow> claimable now k \<and> rank k < rank j" if "k \<in> set (jobs q)" for k
    proof
      assume "k \<in> set ?dead"
      then show "claimable now k \<and> rank k < rank j"
        using w srt(2) set_takeWhileD by (fastforce simp: sorted_wrt_append)
    next
      assume a: "claimable now k \<and> rank k < rank j"
      then have "k \<in> set (?dead @ j # ys)" using that srt(2) ys(1) by simp
      then show "k \<in> set ?dead" using w a by (auto simp: sorted_wrt_append)
    qed
    have "claim_effect ?js w ?e k = (if k = j then lease w ?e j
        else if claimable now k \<and> rank k < rank j then kill k else k)" if "k \<in> set (jobs q)" for k
      using ids [OF that] dead [OF that] inj [OF that j(1)] unfolding claim_effect_def Some by auto
    then have m: "map (claim_effect ?js w ?e) (jobs q) = map (\<lambda>k. if k = j then lease w ?e j
            else if claimable now k \<and> rank k < rank j then kill k else k) (jobs q)" by simp
    have "rank j \<le> rank k" if "k \<in> set (jobs q)" "claimable now k" "live k" for k
    proof (rule ccontr)
      assume "\<not> rank j \<le> rank k"
      then have "k \<in> set ?dead" using dead that by simp
      then show False using set_takeWhileD that(3) by fastforce
    qed
    then show ?thesis unfolding cl Some m using j ys(2) by auto
  qed
qed

end
