(* ===== verification/JobRecord.thy ===== *)
theory JobRecord
  imports QueueFacts
begin

text \<open>
  What the record-returning jobs runtimes share: writing optional fields of a
  returned dict, and the contract of a sealed record, one that the caller carries from call to call and that is trusted only if its shape, its invariants and its digest recompute.
\<close>

text \<open>\<open>type(v) is dict\<close>, and the items of such a value.\<close>

definition is_dict :: "pyval \<Rightarrow> bool" where
  "is_dict v = (case v of PDict _ _ \<Rightarrow> True | _ \<Rightarrow> False)"

fun items :: "pyval \<Rightarrow> pydict" where
  "items (PDict _ d) = d"
| "items _ = []"

definition opt_py :: "('a \<Rightarrow> pyval) \<Rightarrow> 'a option \<Rightarrow> pyval" where
  "opt_py f x = (case x of None \<Rightarrow> PNone | Some a \<Rightarrow> f a)"

lemma opt_py_simps [simp]: "opt_py f None = PNone" "opt_py f (Some a) = f a"
  by (simp_all add: opt_py_def)

lemma opt_py_read [simp]: "opt_int (opt_py PInt x) = x" "opt_str (opt_py PStr y) = y"
  by (simp_all add: opt_py_def split: option.split)

declare fld_simps [simp]

lemma is_dict_PDict [simp]: "is_dict (PDict n d)"
  by (simp add: is_dict_def)

locale sealed_record =
  fixes trusted :: "pydict \<Rightarrow> bool"
    and read_rec :: "pydict \<Rightarrow> 'r"
    and dict :: "'r \<Rightarrow> string \<Rightarrow> pydict"
    and rid :: "'r \<Rightarrow> string"
    and ok :: "'r \<Rightarrow> bool"
  assumes trusted_ok: "trusted p \<Longrightarrow> ok (read_rec p)"
    and dict_trusted: "ok r \<Longrightarrow> trusted (dict r (rid r))"
    and read_dict: "read_rec (dict r i) = r"
begin

text \<open>The value of a request's \<open>previous\<close> field for a record, and the record such a field holds.\<close>

definition previous_value :: "'r option \<Rightarrow> pyval" where
  "previous_value prev = opt_py (\<lambda>r. PDict 2 (dict r (rid r))) prev"

definition previous_rec :: "pyval \<Rightarrow> 'r option" where
  "previous_rec v = (if v = PNone then None else Some (read_rec (items v)))"

lemma previous_shape: "previous_value prev = PNone \<or> is_dict (previous_value prev)"
  by (cases prev) (simp_all add: previous_value_def)

lemma previous_trusted:
  "(case prev of None \<Rightarrow> True | Some r \<Rightarrow> ok r) \<Longrightarrow> previous_value prev \<noteq> PNone
     \<Longrightarrow> trusted (items (previous_value prev))"
  by (cases prev) (simp_all add: previous_value_def dict_trusted)

lemma previous_read: "previous_rec (previous_value prev) = prev"
  by (cases prev) (simp_all add: previous_value_def previous_rec_def read_dict)

lemma ok_iff: "ok r \<longleftrightarrow> (\<exists>p. trusted p \<and> read_rec p = r)"
  using trusted_ok dict_trusted read_dict by metis

end

end
