(* ===== verification/QueueProps.thy ===== *)
theory QueueProps
  imports JobRecord
begin

text \<open>
  The queue as a guarded machine over arbitrary request values, and what the contract promises of
  it: validity of every committed state (also to the next call's own check), the life cycle of
  jobs, idempotent enqueue, the choice made by claim, exclusive leases, and delivery.
\<close>

subsection \<open>The machine\<close>

text \<open>The state change of \<open>apply\<close> on a valid state.\<close>

definition queue_cmd :: "queue \<Rightarrow> pyval \<Rightarrow> (queue_error, queue) result" where
  "queue_cmd q v = and_then (check_request v CLOCK_LIMIT) (\<lambda>r.
     and_then (queue_step q r) (\<lambda>(j, q'). Inr q'))"

lemma queue_apply_cmd:
  "queue_apply st v = Inr (rc, q') \<Longrightarrow> \<exists>q. check_state st = Inr q \<and> queue_cmd q v = Inr q'"
  by (auto simp: queue_apply_def queue_cmd_def)

lemma claim_moves:
  assumes ok: "queue_ok q" and r: "worker_ok w" "1 \<le> now + ms" "now + ms \<le> MAX_NOW"
    and c: "claim q w now ms = (j, q')"
  shows "queue_ok q' \<and> queue_moves q q'"
proof -
  have bury: "job_move k (kill k)" if "claimable now k" "\<not> live k" for k
    using that by (intro job_move.bury) (auto simp: claimable_def live_def)
  show ?thesis
  proof (cases j)
    case None
    then have *: "\<forall>j \<in> set (jobs q). claimable now j \<longrightarrow> \<not> live j"
      "q' = q\<lparr>jobs := map (\<lambda>k. if claimable now k then kill k else k) (jobs q)\<rparr>"
      using claim_spec [OF ok, where w = w and now = now and ms = ms] c by simp_all
    show ?thesis unfolding *(2) by (intro map_moves ok) (use *(1) in \<open>auto intro: bury stay\<close>)
  next
    case (Some j')
    then obtain i where *: "claimable now i" "live i" "j' = lease w (now + ms) i"
      "\<forall>k \<in> set (jobs q). claimable now k \<and> live k \<longrightarrow> rank i \<le> rank k"
      "q' = q\<lparr>jobs := map (\<lambda>k. if k = i then j'
            else if claimable now k \<and> rank k < rank i then kill k else k) (jobs q)\<rparr>"
      using claim_spec [OF ok, where w = w and now = now and ms = ms] c by auto
    have "job_move i j'" unfolding *(3)
      using *(1,2) r by (intro deliver) (auto simp: claimable_def live_def)
    then show ?thesis unfolding *(5)
      by (intro map_moves ok) (use *(4) in \<open>auto intro!: bury stay simp: not_less [symmetric]\<close>)
  qed
qed

lemma queue_step_moves:
  assumes ok: "queue_ok q" and r: "request_ok r" and s: "queue_step q r = Inr (j, q')"
  shows "queue_ok q' \<and> queue_moves q q'"
proof (cases r)
  case (Enqueue key pr body)
  then show ?thesis using enqueue_moves [OF ok] r s by (auto simp: some_job_def)
next
  case (Claim w now ms)
  then show ?thesis using claim_moves [OF ok, of w now ms j q'] r s by (simp add: CLOCK_LIMIT_def)
next
  case (Ack jid w now)
  then show ?thesis using settle_moves [OF ok] s by (auto simp: some_job_def)
next
  case (Nack jid w now)
  then show ?thesis using settle_moves [OF ok] s by (auto simp: some_job_def)
qed

interpretation qm: guarded_machine queue_cmd queue_ok queue_moves
proof
  fix q v q' assume "queue_ok q" "queue_cmd q v = Inr q'"
  then obtain r j where "request_ok r" "queue_step q r = Inr (j, q')"
    using check_request_ok by (auto simp: queue_cmd_def)
  then show "queue_ok q'" "queue_moves q q'"
    using queue_step_moves [OF \<open>queue_ok q\<close>] by blast+
qed (blast intro: queue_moves_refl queue_moves_trans)+

subsection \<open>Reloading a committed state\<close>

text \<open>\<open>json.loads\<close>: a fresh container object for every container of the value.\<close>

fun loads :: "json \<Rightarrow> nat \<Rightarrow> pyval \<times> nat"
  and loads_list :: "json list \<Rightarrow> nat \<Rightarrow> pyval list \<times> nat"
  and loads_dict :: "(string \<times> json) list \<Rightarrow> nat \<Rightarrow> pydict \<times> nat" where
  "loads JNull n = (PNone, n)"
| "loads (JBool b) n = (PBool b, n)"
| "loads (JInt i) n = (PInt i, n)"
| "loads (JFloat r) n = (PFloat r, n)"
| "loads (JStr s) n = (PStr s, n)"
| "loads (JArr vs) n = (let (ps, m) = loads_list vs (Suc n) in (PList n ps, m))"
| "loads (JObj d) n = (let (ps, m) = loads_dict d (Suc n) in (PDict n ps, m))"
| "loads_list [] n = ([], n)"
| "loads_list (v # vs) n = (let (p, m) = loads v n; (ps, k) = loads_list vs m in (p # ps, k))"
| "loads_dict [] n = ([], n)"
| "loads_dict ((key, v) # d) n =
     (let (p, m) = loads v n; (ps, k) = loads_dict d m in ((PStr key, p) # ps, k))"

text \<open>Identities are fresh and increasing, the tree is admissible, and detaching gives the value
  back.\<close>

lemma loads_facts:
  shows "loads v n = (p, m) \<Longrightarrow> json_ok d v \<Longrightarrow> n \<le> m \<and> set (containers p) \<subseteq> {n..<m}
      \<and> distinct (containers p) \<and> tree_ok d p \<and> detach p = v"
    and "loads_list vs n = (ps, m) \<Longrightarrow> list_all (json_ok d) vs \<Longrightarrow> n \<le> m
      \<and> set (concat (map containers ps)) \<subseteq> {n..<m} \<and> distinct (concat (map containers ps))
      \<and> list_all (tree_ok d) ps \<and> map detach ps = vs"
    and "loads_dict kvs n = (qs, m) \<Longrightarrow> list_all (\<lambda>(k, v). json_ok d v) kvs \<Longrightarrow> n \<le> m
      \<and> set (concat (map (\<lambda>(k, v). containers v) qs)) \<subseteq> {n..<m}
      \<and> distinct (concat (map (\<lambda>(k, v). containers v) qs))
      \<and> list_all (\<lambda>(k, v). key_ok k \<and> tree_ok d v) qs
      \<and> map (\<lambda>(k, v). (key_bytes k, detach v)) qs = kvs"
proof (induction v n and vs n and kvs n arbitrary: p m d and ps m d and qs m d
    rule: loads_loads_list_loads_dict.induct)
  case (6 vs n)
  obtain ps k where l: "loads_list vs (Suc n) = (ps, k)" by fastforce
  then have p: "p = PList n ps" "m = k" using "6.prems"(1) by simp_all
  have "json_ok d (JArr vs)" by (rule "6.prems")
  then have d: "d \<le> MAX_DEPTH" "list_all (json_ok (d + 1)) vs" by simp_all
  from "6.IH" [OF l d(2)] show ?case unfolding p using d(1) by (auto simp: Suc_le_eq)
next
  case (7 kvs n)
  obtain qs k where l: "loads_dict kvs (Suc n) = (qs, k)" by fastforce
  then have p: "p = PDict n qs" "m = k" using "7.prems"(1) by simp_all
  have "json_ok d (JObj kvs)" by (rule "7.prems")
  then have d: "d \<le> MAX_DEPTH" "list_all (\<lambda>(k, v). json_ok (d + 1) v) kvs" "sorted (map fst kvs)"
    by simp_all
  define ids where "ids = concat (map (\<lambda>(k, v). containers v) qs)"
  have c: "containers p = n # ids" by (simp add: p(1) ids_def)
  from "7.IH" [OF l d(2)] have i: "Suc n \<le> k" "set ids \<subseteq> {Suc n..<k}" "distinct ids"
    and t: "list_all (\<lambda>(k, v). key_ok k \<and> tree_ok (d + 1) v) qs"
      "map (\<lambda>(k, v). (key_bytes k, detach v)) qs = kvs"
    unfolding ids_def by blast+
  have "detach p = JObj kvs" using t(2) d(3) by (simp add: p(1) sort_key_id_if_sorted)
  moreover have "tree_ok d p" using t(1) d(1) by (simp add: p(1))
  moreover have "set (n # ids) \<subseteq> {n..<k} \<and> distinct (n # ids)" using i by auto
  ultimately show ?case using i(1) unfolding c p(2) by simp
next
  case (9 v vs n)
  obtain p k where l: "loads v n = (p, k)" by fastforce
  obtain qs j where l2: "loads_list vs k = (qs, j)" by fastforce
  have ps: "ps = p # qs" "m = j" using "9.prems"(1) l l2 by simp_all
  from "9.IH"(1) [OF l] "9.IH"(2) [OF l [symmetric] refl l2] "9.prems"(2)
  show ?case unfolding ps by fastforce
next
  case (11 key v kvs n)
  obtain p k where l: "loads v n = (p, k)" by fastforce
  obtain rs j where l2: "loads_dict kvs k = (rs, j)" by fastforce
  have ps: "qs = (PStr key, p) # rs" "m = j" using "11.prems"(1) l l2 by simp_all
  from "11.IH"(1) [OF l] "11.IH"(2) [OF l [symmetric] refl l2] "11.prems"(2)
  show ?case unfolding ps by (fastforce simp: key_ok_def)
qed (auto simp: payload_int_ok simp del: scalar_ok.simps(3))

lemma loads_opt:
  "loads (opt_json JInt x) n = (case x of None \<Rightarrow> PNone | Some i \<Rightarrow> PInt i, n)"
  "loads (opt_json JStr y) n = (case y of None \<Rightarrow> PNone | Some s \<Rightarrow> PStr s, n)"
  by (simp_all add: opt_json_def split: option.split)

definition job_dict :: "job \<Rightarrow> pyval \<Rightarrow> pydict" where
  "job_dict j body = [(PStr ''attempts'', PInt (attempts j)), (PStr ''job_id'', PStr (job_id j)),
     (PStr ''lease_expires_at'', case lease_expires_at j of None \<Rightarrow> PNone | Some i \<Rightarrow> PInt i),
     (PStr ''lease_owner'', case lease_owner j of None \<Rightarrow> PNone | Some s \<Rightarrow> PStr s),
     (PStr ''payload'', body), (PStr ''priority'', PInt (priority j)), (PStr ''seq'', PInt (seq j)),
     (PStr ''status'', PStr (status_text (status j)))]"

lemma job_dict_keys: "keys_are (job_dict j body) JOB_FIELDS"
  by (auto simp: keys_are_def job_dict_def JOB_FIELDS_def)

lemma loads_job:
  "loads (job_json j) n = (let (body, m) = loads (payload j) (Suc n) in (PDict n (job_dict j body), m))"
  by (simp add: job_json_def job_dict_def loads_opt split: prod.split)

lemma job_ok_loads:
  assumes i: "job_inv nxt j" "lowest \<le> seq j" and v: "set visited \<subseteq> {..<n}"
    and l: "loads (payload j) (Suc n) = (body, m)"
  shows "\<exists>vis. job_ok (job_dict j body) lowest nxt visited = Some (j, vis) \<and> set vis \<subseteq> {..<m} \<and> n < m"
proof -
  have "json_ok 1 (payload j)" using i by (simp add: job_inv_def)
  from loads_facts(1) [OF l this] have b: "Suc n \<le> m" "set (containers body) \<subseteq> {Suc n..<m}"
    "distinct (containers body)" "tree_ok 1 body" "detach body = payload j" by auto
  have "set (containers body) \<inter> set visited = {}" using b(2) v by fastforce
  then obtain vis where vis: "payload_ok body visited = Some vis"
    using payload_ok_iff [of body visited] b(3,4) by blast
  have "set vis \<subseteq> {..<m}" using payload_ok_ids [OF vis] b(1,2) v by auto
  moreover have "lease_ok (status j) (fld (job_dict j body) ''lease_owner'')
      (fld (job_dict j body) ''lease_expires_at'') (attempts j)"
    using i(1) by (auto simp: lease_ok_def job_inv_def job_dict_def split: if_splits option.splits)
  then have "job_ok (job_dict j body) lowest nxt visited = Some (j, vis)"
    unfolding job_ok_Some using i vis b(5)
    by (intro conjI exI [of _ "status j"])
      (auto simp: job_dict_def job_inv_def split: option.splits if_splits)
  ultimately show ?thesis using b(1) by auto
qed

lemma check_jobs_loads:
  "list_all (job_inv nxt) js \<Longrightarrow> sorted_wrt (<) (map seq js) \<Longrightarrow> \<forall>j \<in> set js. lowest \<le> seq j \<Longrightarrow>
   distinct (map job_id js) \<Longrightarrow> set (map job_id js) \<inter> set ids = {} \<Longrightarrow> set visited \<subseteq> {..<n} \<Longrightarrow>
   check_jobs (fst (loads_list (map job_json js) n)) ids visited lowest nxt = Inr js"
proof (induction js arbitrary: ids visited lowest n)
  case (Cons j js)
  obtain body m where l: "loads (payload j) (Suc n) = (body, m)" by fastforce
  obtain vis where vis: "job_ok (job_dict j body) lowest nxt visited = Some (j, vis)" "set vis \<subseteq> {..<m}"
    using job_ok_loads [OF _ _ Cons.prems(6) l, of nxt lowest] Cons.prems(1,3) by auto
  have "job_id_ok (job_id j)" using Cons.prems(1) by (simp add: job_inv_def)
  moreover have "fld (job_dict j body) ''job_id'' = PStr (job_id j)" by (simp add: job_dict_def)
  moreover have "check_jobs (fst (loads_list (map job_json js) m)) (job_id j # ids) vis (seq j + 1) nxt = Inr js"
    using Cons.prems vis(2) by (intro Cons.IH) auto
  ultimately show ?case
    using Cons.prems(5) vis(1)
    by (simp add: loads_job l job_dict_keys split_beta)
qed simp

theorem reload_committed:
  assumes "queue_ok q"
  shows "check_state (fst (loads (queue_json q) 0)) = Inr q"
proof -
  obtain ps m where l: "loads_list (map job_json (jobs q)) (Suc (Suc 0)) = (ps, m)" by fastforce
  have len: "length (fst (loads_list (map f js) n)) = length js" for f :: "job \<Rightarrow> json" and js n
    by (induction js arbitrary: n) (simp_all add: split_beta)
  have "check_jobs ps [] [] 0 (next_seq q) = Inr (jobs q)"
    using check_jobs_loads [of "next_seq q" "jobs q" 0 "[]" "[]" "Suc (Suc 0)"] l assms
    by (auto simp: queue_ok_def job_inv_def list_all_iff)
  moreover have "length ps \<le> MAX_JOBS"
    using len [of job_json "jobs q" "Suc (Suc 0)"] l assms by (simp add: queue_ok_def)
  ultimately show ?thesis
    using assms l
    by (simp add: queue_json_def check_state_def keys_are_def STATE_FIELDS_def queue_ok_def insert_commute)
qed

definition reload :: "queue \<Rightarrow> pyval" where
  "reload q = fst (loads (queue_json q) 0)"

subsection \<open>A sample state\<close>

definition sample_job :: "char \<Rightarrow> int \<Rightarrow> int \<Rightarrow> status \<Rightarrow> int \<Rightarrow> (string \<times> int) option \<Rightarrow> job" where
  "sample_job c s p st n l = \<lparr>job_id = ''job1:'' @ replicate 64 c, seq = s, priority = p,
     payload = JStr ''x'', status = st, attempts = n, lease_owner = map_option fst l,
     lease_expires_at = map_option snd l\<rparr>"

definition sample_queue :: queue where
  "sample_queue = \<lparr>jobs = [sample_job CHR ''a'' 0 1 Ready 5 None,
     sample_job CHR ''b'' 1 5 Leased 1 (Some (''w'', 100)), sample_job CHR ''c'' 2 3 Ready 0 None],
     next_seq = 3\<rparr>"

definition sample_claim :: pyval where
  "sample_claim = PDict 0 [(PStr ''op'', PStr ''claim''), (PStr ''worker'', PStr ''v''),
     (PStr ''now'', PInt 50), (PStr ''lease_ms'', PInt 10)]"

lemma sample_ok: "queue_ok sample_queue"
  by code_simp

lemma sample_state: "check_state (reload sample_queue) = Inr sample_queue"
  unfolding reload_def by (rule reload_committed [OF sample_ok])

lemma sample_claim_request: "check_request sample_claim CLOCK_LIMIT = Inr (Claim ''v'' 50 10)"
  by code_simp

subsection \<open>Properties\<close>

text \<open>C31. Every committed state satisfies the queue's invariant, the receipt carries its id, and
  the next call's own check accepts it (as the fresh object tree that is committed) and reads back
  exactly that state.\<close>

theorem queue_commit_valid:
  assumes "queue_apply st v = Inr (rc, q')"
  shows "queue_ok q' \<and> check_state (reload q') = Inr q' \<and> r_state_id rc = state_id_for q'"
proof -
  obtain q where "check_state st = Inr q" "queue_cmd q v = Inr q'" using queue_apply_cmd [OF assms] by blast
  then have "queue_ok q'" using check_state_ok qm.step_inv by blast
  then show ?thesis
    using assms by (auto simp: reload_def reload_committed queue_apply_def receipt_of_def)
qed

theorem queue_commit_valid_witness:
  "\<exists>rc q'. queue_apply (reload sample_queue) sample_claim = Inr (rc, q') \<and> check_state (reload q') = Inr q'
     \<and> r_job_id rc = Some (''job1:'' @ replicate 64 CHR ''c'')"
proof -
  have c: "fst (claim sample_queue ''v'' 50 10) = Some (lease ''v'' 60 (sample_job CHR ''c'' 2 3 Ready 0 None))"
    by code_simp
  obtain j q' where q': "claim sample_queue ''v'' 50 10 = (j, q')" by fastforce
  then have a: "queue_apply (reload sample_queue) sample_claim = Inr (receipt_of (Claim ''v'' 50 10) j q', q')"
    by (simp add: queue_apply_def sample_state sample_claim_request)
  show ?thesis
    using a queue_commit_valid [OF a] c q'
    by (auto simp: receipt_of_def lease_def sample_job_def)
qed

text \<open>C2. Over any sequence of requests (accepted or rejected) a job of a valid state stays where
  it is and moves only along its life cycle: id, sequence number, priority and payload are fixed,
  attempts never decrease and never pass the maximum, and a done or dead job never changes
  again.\<close>

theorem queue_job_lifecycle:
  assumes "check_state st = Inr q" and "i < length (jobs q)" and "q' = run queue_cmd q vs"
  shows "i < length (jobs q') \<and> job_move\<^sup>*\<^sup>* (jobs q ! i) (jobs q' ! i)
    \<and> job_id (jobs q' ! i) = job_id (jobs q ! i) \<and> payload (jobs q' ! i) = payload (jobs q ! i)
    \<and> attempts (jobs q ! i) \<le> attempts (jobs q' ! i) \<and> attempts (jobs q' ! i) \<le> MAX_ATTEMPTS
    \<and> (status (jobs q ! i) \<in> {Done, Dead} \<longrightarrow> jobs q' ! i = jobs q ! i)"
proof -
  have ok: "queue_ok q" by (rule check_state_ok [OF assms(1)])
  obtain js new where js: "jobs q' = js @ new" "list_all2 job_move\<^sup>*\<^sup>* (jobs q) js"
    using qm.run_le [OF ok, of vs] assms(3) unfolding queue_moves_def by blast
  then have i: "i < length js" "jobs q' ! i = js ! i" "job_move\<^sup>*\<^sup>* (jobs q ! i) (js ! i)"
    using assms(2) by (auto simp: list_all2_conv_all_nth nth_append)
  have "queue_ok q'" using qm.run_inv [OF ok, of vs] assms(3) by simp
  then have "attempts (jobs q' ! i) \<le> MAX_ATTEMPTS"
    using i(1) js(1) by (auto simp: queue_ok_def list_all_length job_inv_def)
  then show ?thesis using i js(1) job_moves_fixed [OF i(3)] by auto
qed

theorem queue_job_lifecycle_witness:
  "jobs (run queue_cmd sample_queue [sample_claim, sample_claim]) ! 0 = kill (jobs sample_queue ! 0)
   \<and> attempts (jobs (run queue_cmd sample_queue [sample_claim, sample_claim]) ! 0) \<le> MAX_ATTEMPTS"
proof
  have first: "0 < length (jobs sample_queue)" by (simp add: sample_queue_def)
  show "jobs (run queue_cmd sample_queue [sample_claim, sample_claim]) ! 0 = kill (jobs sample_queue ! 0)"
    by code_simp
  show "attempts (jobs (run queue_cmd sample_queue [sample_claim, sample_claim]) ! 0) \<le> MAX_ATTEMPTS"
    using queue_job_lifecycle [OF sample_state first refl, of "[sample_claim, sample_claim]"] by simp
qed

text \<open>C4. What claim does: with no claimable job below the attempt limit it leases nothing and
  buries every claimable job; otherwise it leases the one of least (priority, seq), buries the
  claimable jobs before it, and leaves every other job as it is.\<close>

theorem claim_choice:
  assumes "check_state st = Inr q"
  shows "case claim q w now ms of
      (None, q') \<Rightarrow> (\<forall>j \<in> set (jobs q). claimable now j \<longrightarrow> attempts j \<ge> MAX_ATTEMPTS)
        \<and> q' = q\<lparr>jobs := map (\<lambda>k. if claimable now k then kill k else k) (jobs q)\<rparr>
    | (Some j', q') \<Rightarrow> \<exists>j \<in> set (jobs q). claimable now j \<and> attempts j < MAX_ATTEMPTS
        \<and> j' = lease w (now + ms) j
        \<and> (\<forall>k \<in> set (jobs q). claimable now k \<and> attempts k < MAX_ATTEMPTS \<longrightarrow>
             (priority j, seq j) \<le> (priority k, seq k))
        \<and> q' = q\<lparr>jobs := map (\<lambda>k. if k = j then j' else if claimable now k
             \<and> (priority k, seq k) < (priority j, seq j) then kill k else k) (jobs q)\<rparr>"
  using claim_spec [OF check_state_ok [OF assms], where w = w and now = now and ms = ms]
  unfolding live_def rank_def not_less .

theorem claim_choice_witness:
  "\<exists>q'. claim sample_queue ''v'' 50 10 = (Some (lease ''v'' 60 (sample_job CHR ''c'' 2 3 Ready 0 None)), q')
    \<and> list_all (\<lambda>k. (3, 2) \<le> (priority k, seq k))
        (filter (\<lambda>k. claimable 50 k \<and> attempts k < MAX_ATTEMPTS) (jobs sample_queue))"
proof -
  let ?c = "sample_job CHR ''c'' 2 3 Ready 0 None"
  have "fst (claim sample_queue ''v'' 50 10) = Some (lease ''v'' 60 ?c)" by code_simp
  then obtain q' where q': "claim sample_queue ''v'' 50 10 = (Some (lease ''v'' 60 ?c), q')"
    by (cases "claim sample_queue ''v'' 50 10") simp
  from claim_choice [OF sample_state, where w = "''v''" and now = 50 and ms = 10, unfolded q']
  obtain j where j: "lease ''v'' 60 ?c = lease ''v'' (50 + 10) j"
    "\<forall>k \<in> set (jobs sample_queue). claimable 50 k \<and> attempts k < MAX_ATTEMPTS \<longrightarrow>
             (priority j, seq j) \<le> (priority k, seq k)"
    by auto
  have "priority j = 3" "seq j = 2"
    using arg_cong [OF j(1), of priority] arg_cong [OF j(1), of seq]
    by (simp_all add: lease_def sample_job_def)
  then show ?thesis using q' j(2) by (simp add: list_all_iff)
qed

subsection \<open>Enqueue and its key\<close>

lemma by_id_moves:
  assumes ok: "queue_ok q" "queue_ok q'" and m: "queue_moves q q'" and b: "by_id (jobs q) jid = Some j"
  shows "\<exists>j'. by_id (jobs q') jid = Some j' \<and> job_move\<^sup>*\<^sup>* j j'"
proof -
  note j = by_id_Some [OF b]
  then obtain i where i: "i < length (jobs q)" "jobs q ! i = j" by (auto simp: in_set_conv_nth)
  obtain js new where js: "jobs q' = js @ new" "list_all2 job_move\<^sup>*\<^sup>* (jobs q) js"
    using m unfolding queue_moves_def by blast
  have mv: "job_move\<^sup>*\<^sup>* j (js ! i)" "js ! i \<in> set (jobs q')"
    using i js by (auto simp: list_all2_conv_all_nth)
  then have "job_id (js ! i) = jid" using job_moves_fixed j by metis
  then have "by_id (jobs q') jid \<noteq> None" using mv(2) by (auto simp: by_id_None)
  then obtain j' where j': "by_id (jobs q') jid = Some j'" by blast
  then have "j' = js ! i"
    using by_id_Some [OF j'] queue_ok_inj(1) [OF ok(2)] mv(2) \<open>job_id (js ! i) = jid\<close> by metis
  then show ?thesis using j' mv(1) by blast
qed

lemma enqueue_stored:
  assumes "enqueue q key pr body = Inr (j, q')" "queue_ok q"
  shows "by_id (jobs q') (job_id_for key) = Some j \<and> priority j = pr
    \<and> canon False (payload j) = canon False body"
proof (cases "by_id (jobs q) (job_id_for key)")
  case None
  then have q': "jobs q' = jobs q @ [j]" "job_id j = job_id_for key" "priority j = pr" "payload j = body"
    using assms(1) by (auto simp: enqueue_def Let_def)
  have "find (\<lambda>k. job_id k = job_id_for key) (xs @ [j]) = Some j"
    if "find (\<lambda>k. job_id k = job_id_for key) xs = None" for xs
    using that q'(2) by (induction xs) (auto split: if_splits)
  then show ?thesis using q' None by (simp add: by_id_def)
next
  case (Some k)
  then show ?thesis using assms by (auto simp: enqueue_def)
qed

definition sample_enqueue :: pyval where
  "sample_enqueue = PDict 0 [(PStr ''op'', PStr ''enqueue''), (PStr ''dedupe_key'', PStr ''k''),
     (PStr ''priority'', PInt 2), (PStr ''payload'', PNone)]"

definition empty_queue :: queue where
  "empty_queue = \<lparr>jobs = [], next_seq = 0\<rparr>"

lemma sample_enqueue_request: "check_request sample_enqueue CLOCK_LIMIT = Inr (Enqueue ''k'' 2 JNull)"
  by code_simp

text \<open>Enqueue is idempotent by its key, for ever: once accepted, and whatever requests follow,
  the same enqueue is accepted again, returns the same job and changes nothing; with another
  priority or another canonical payload it is a dedupe conflict.\<close>

theorem enqueue_idempotent:
  assumes "check_state st = Inr q" and "check_request v CLOCK_LIMIT = Inr (Enqueue key pr body)"
    and "queue_step q (Enqueue key pr body) = Inr (j, q1)" and "q2 = run queue_cmd q1 vs"
  shows "(\<exists>j2. queue_step q2 (Enqueue key pr body) = Inr (Some j2, q2) \<and> job_id j2 = job_id_for key)
    \<and> (\<forall>pr' body'. pr' \<noteq> pr \<or> canon False body' \<noteq> canon False body \<longrightarrow>
        queue_step q2 (Enqueue key pr' body') = Inl Dedupe_conflict)"
proof -
  have ok: "queue_ok q" by (rule check_state_ok [OF assms(1)])
  obtain i where e: "enqueue q key pr body = Inr (i, q1)"
    using assms(3) by (auto simp: some_job_def)
  have ok1: "queue_ok q1"
    using enqueue_moves [OF ok e] check_request_ok [OF assms(2)] by simp
  have ok2: "queue_ok q2" "queue_moves q1 q2"
    unfolding assms(4) using ok1 qm.run_inv qm.run_le by blast+
  note s = enqueue_stored [OF e ok]
  then obtain i2 where i2: "by_id (jobs q2) (job_id_for key) = Some i2" "job_move\<^sup>*\<^sup>* i i2"
    using by_id_moves [OF ok1 ok2] by blast
  then show ?thesis
    using job_moves_fixed [OF i2(2)] s by_id_Some [OF i2(1)]
    by (auto simp: some_job_def enqueue_def require_def)
qed

theorem enqueue_idempotent_witness:
  "\<exists>j q1. queue_step empty_queue (Enqueue ''k'' 2 JNull) = Inr (j, q1) \<and>
     queue_step (run queue_cmd q1 [sample_claim]) (Enqueue ''k'' 3 JNull) = Inl Dedupe_conflict"
proof -
  have ok: "queue_ok empty_queue" by code_simp
  obtain j q1 where a: "queue_step empty_queue (Enqueue ''k'' 2 JNull) = Inr (j, q1)"
    by (simp add: some_job_def enqueue_def Let_def empty_queue_def MAX_JOBS_def SEQ_LIMIT_def MAX_NOW_def
        by_id_def)
  then show ?thesis
    using enqueue_idempotent [OF reload_committed [OF ok] sample_enqueue_request a refl, of "[sample_claim]"]
    by (intro exI [of _ j] exI [of _ q1]) simp
qed

subsection \<open>Leases\<close>

text \<open>What becomes of a claimable job when enough claims come at one time.\<close>

definition fate :: "string \<Rightarrow> int \<Rightarrow> int \<Rightarrow> job \<Rightarrow> job" where
  "fate w now ms j = (if \<not> claimable now j then j
     else if live j then lease w (now + ms) j else kill j)"

lemma fate_settled [simp]: "1 \<le> ms \<Longrightarrow> \<not> claimable now (fate w now ms j)"
  by (simp add: fate_def claimable_def lease_def kill_def)

text \<open>One claim gives some claimable jobs their fate, at least one if there is any.\<close>

lemma claim_fates:
  assumes ok: "queue_ok q"
  shows "\<exists>f. snd (claim q w now ms) = q\<lparr>jobs := map f (jobs q)\<rparr>
    \<and> (\<forall>k \<in> set (jobs q). f k = k \<or> f k = fate w now ms k)
    \<and> ((\<exists>k \<in> set (jobs q). claimable now k) \<longrightarrow> (\<exists>k \<in> set (jobs q). claimable now k \<and> f k = fate w now ms k))"
proof (cases "claim q w now ms")
  case (Pair i q')
  show ?thesis
  proof (cases i)
    case None
    then have "\<forall>j \<in> set (jobs q). claimable now j \<longrightarrow> \<not> live j"
      "q' = q\<lparr>jobs := map (\<lambda>k. if claimable now k then kill k else k) (jobs q)\<rparr>"
      using claim_spec [OF ok, where w = w and now = now and ms = ms] Pair by simp_all
    then show ?thesis unfolding Pair
      by (intro exI [of _ "\<lambda>k. if claimable now k then kill k else k"]) (auto simp: fate_def)
  next
    case (Some j')
    then obtain j where j: "j \<in> set (jobs q)" "claimable now j" "live j" "j' = lease w (now + ms) j"
      "\<forall>k \<in> set (jobs q). claimable now k \<and> live k \<longrightarrow> rank j \<le> rank k"
      "q' = q\<lparr>jobs := map (\<lambda>k. if k = j then j'
            else if claimable now k \<and> rank k < rank j then kill k else k) (jobs q)\<rparr>"
      using claim_spec [OF ok, where w = w and now = now and ms = ms] Pair by auto
    then show ?thesis unfolding Pair
      by (intro exI [of _ "\<lambda>k. if k = j then j'
            else if claimable now k \<and> rank k < rank j then kill k else k"])
        (auto simp: fate_def not_less [symmetric])
  qed
qed

text \<open>A request that does not concern a lease of a worker on a job up to its expiry: it comes
  before the expiry, and is not the holder settling it.\<close>

fun bystander :: "string \<Rightarrow> string \<Rightarrow> int \<Rightarrow> request \<Rightarrow> bool" where
  "bystander jid w e (Enqueue _ _ _) \<longleftrightarrow> True"
| "bystander jid w e (Claim _ now _) \<longleftrightarrow> now < e"
| "bystander jid w e (Ack j v _) \<longleftrightarrow> j \<noteq> jid \<or> v \<noteq> w"
| "bystander jid w e (Nack j v _) \<longleftrightarrow> j \<noteq> jid \<or> v \<noteq> w"

definition leased_to :: "job \<Rightarrow> string \<Rightarrow> int \<Rightarrow> bool" where
  "leased_to j w e \<longleftrightarrow> status j = Leased \<and> lease_owner j = Some w \<and> lease_expires_at j = Some e"

lemma by_id_self:
  assumes "queue_ok q" "j \<in> set (jobs q)"
  shows "by_id (jobs q) (job_id j) = Some j"
proof (cases "by_id (jobs q) (job_id j)")
  case None
  then show ?thesis using assms(2) by (auto simp: by_id_None)
next
  case (Some k)
  then show ?thesis using by_id_Some [OF Some] queue_ok_inj(1) [OF assms(1) _ assms(2), of k] by simp
qed

lemma settle_keeps:
  assumes "settle q jid v now st = Inr (i, q')" "j \<in> set (jobs q)" "queue_ok q" "leased_to j w e"
    "jid \<noteq> job_id j \<or> v \<noteq> w"
  shows "j \<in> set (jobs q')"
proof -
  obtain k where k: "by_id (jobs q) jid = Some k" "held_by k v now" "q' = update_job q jid (release st)"
    using assms(1) by (auto simp: settle_def split: option.splits)
  have "job_id j \<noteq> jid"
  proof
    assume "job_id j = jid"
    then have "k = j" using by_id_Some [OF k(1)] queue_ok_inj(1) [OF assms(3), of k j] assms(2) by simp
    then show False using k(2) assms(4,5) \<open>job_id j = jid\<close> by (simp add: held_by_def leased_to_def)
  qed
  then show ?thesis using assms(2) by (force simp: k(3) update_job_def)
qed

lemma bystander_keeps:
  assumes ok: "queue_ok q" and j: "j \<in> set (jobs q)" "leased_to j w e"
    and r: "bystander (job_id j) w e r" "queue_step q r = Inr (i, q')"
  shows "j \<in> set (jobs q')"
proof (cases r)
  case (Enqueue key pr body)
  then show ?thesis using r(2) j(1)
    by (auto simp: some_job_def enqueue_def Let_def split: option.splits)
next
  case (Claim v now ms)
  have c: "claim q v now ms = (i, q')" using r(2) Claim by simp
  have nc: "\<not> claimable now j" using j(2) r(1) Claim by (simp add: claimable_def leased_to_def)
  obtain f where "q' = q\<lparr>jobs := map f (jobs q)\<rparr>" "f j = j \<or> f j = fate v now ms j"
    using claim_fates [OF ok, of v now ms] j(1) by (auto simp: c)
  then show ?thesis using j(1) nc by (force simp: fate_def)
next
  case (Ack jid v now)
  then show ?thesis using r settle_keeps [OF _ j(1) ok j(2)] by (auto simp: some_job_def)
next
  case (Nack jid v now)
  then show ?thesis using r settle_keeps [OF _ j(1) ok j(2)] by (auto simp: some_job_def)
qed

text \<open>C32. A lease is exclusive until it ends: whatever requests come before its expiry, from
  whomever except the holder settling it, the leased job is unchanged, and it can then be settled
  by its holder before the expiry and by nobody else.\<close>

theorem lease_exclusive:
  assumes "check_state st = Inr q" and "j \<in> set (jobs q)" and "leased_to j w e"
    and "list_all (\<lambda>v. case check_request v CLOCK_LIMIT of
          Inr r \<Rightarrow> bystander (job_id j) w e r | Inl _ \<Rightarrow> True) vs"
  shows "j \<in> set (jobs (run queue_cmd q vs))
    \<and> (accepts (settle (run queue_cmd q vs) (job_id j) v now stt) \<longleftrightarrow> v = w \<and> now < e)"
proof -
  have "queue_ok q \<Longrightarrow> j \<in> set (jobs q) \<Longrightarrow> j \<in> set (jobs (run queue_cmd q vs))"
    using assms(4)
  proof (induction vs arbitrary: q)
    case (Cons u us)
    have "j \<in> set (jobs (step_or_stay queue_cmd q u))"
    proof (cases "queue_cmd q u")
      case (Inr q')
      then show ?thesis using Cons.prems bystander_keeps [OF Cons.prems(1,2) assms(3)]
        by (auto simp: step_or_stay_def queue_cmd_def)
    qed (use Cons.prems in \<open>simp add: step_or_stay_def\<close>)
    then show ?case using Cons qm.stay_inv by simp
  qed simp
  then have j: "j \<in> set (jobs (run queue_cmd q vs))" using check_state_ok [OF assms(1)] assms(2) by blast
  have ok: "queue_ok (run queue_cmd q vs)" by (rule qm.run_inv [OF check_state_ok [OF assms(1)]])
  have "by_id (jobs (run queue_cmd q vs)) (job_id j) = Some j"
    by (rule by_id_self [OF ok j])
  then show ?thesis using j assms(3)
    by (auto simp: settle_def held_by_def leased_to_def)
qed

theorem lease_exclusive_witness:
  "sample_job CHR ''b'' 1 5 Leased 1 (Some (''w'', 100))
     \<in> set (jobs (run queue_cmd sample_queue [sample_claim, sample_claim]))"
proof -
  let ?j = "sample_job CHR ''b'' 1 5 Leased 1 (Some (''w'', 100))"
  have "?j \<in> set (jobs sample_queue)" "leased_to ?j ''w'' 100"
    by (simp_all add: sample_queue_def leased_to_def sample_job_def)
  from lease_exclusive [OF sample_state this, of "[sample_claim, sample_claim]"]
  show ?thesis by (simp add: sample_claim_request)
qed

subsection \<open>Delivery\<close>

lemma count_fewer:
  assumes "\<forall>k \<in> set ks. P (f k) \<longrightarrow> P k" "k \<in> set ks" "P k" "\<not> P (f k)"
  shows "length (filter P (map f ks)) < length (filter P ks)"
proof -
  have le: "length (filter P (map f xs)) \<le> length (filter P xs)" if "\<forall>k \<in> set xs. P (f k) \<longrightarrow> P k" for xs
    using that by (induction xs) auto
  show ?thesis using assms
  proof (induction ks)
    case (Cons x xs)
    then show ?case using le [of xs] by (auto simp: le_imp_less_Suc)
  qed simp
qed

lemma claims_fate:
  assumes "1 \<le> ms" "queue_ok q" "length (filter (claimable now) (jobs q)) \<le> n"
    and r: "check_request v CLOCK_LIMIT = Inr (Claim w now ms)"
  shows "jobs (run queue_cmd q (replicate n v)) = map (fate w now ms) (jobs q)"
  using assms(2,3)
proof (induction n arbitrary: q)
  case 0
  then have "fate w now ms k = k" if "k \<in> set (jobs q)" for k
    using that by (auto simp: fate_def filter_empty_conv)
  then show ?case by (simp add: map_idI)
next
  case (Suc n)
  obtain f where f: "snd (claim q w now ms) = q\<lparr>jobs := map f (jobs q)\<rparr>"
    "\<forall>k \<in> set (jobs q). f k = k \<or> f k = fate w now ms k"
    "(\<exists>k \<in> set (jobs q). claimable now k) \<longrightarrow> (\<exists>k \<in> set (jobs q). claimable now k \<and> f k = fate w now ms k)"
    using claim_fates [OF Suc.prems(1)] by blast
  let ?q = "q\<lparr>jobs := map f (jobs q)\<rparr>"
  have s: "step_or_stay queue_cmd q v = ?q"
    using f(1) by (simp add: step_or_stay_def queue_cmd_def r split_beta)
  have ok: "queue_ok ?q" using qm.stay_inv [OF Suc.prems(1), of v] s by simp
  have "length (filter (claimable now) (map f (jobs q))) \<le> n"
  proof (cases "\<exists>k \<in> set (jobs q). claimable now k")
    case True
    then obtain k where k: "k \<in> set (jobs q)" "claimable now k" "\<not> claimable now (f k)"
      using f(3) assms(1) by auto
    have "\<forall>k \<in> set (jobs q). claimable now (f k) \<longrightarrow> claimable now k"
      using f(2) assms(1) by (metis fate_settled)
    then show ?thesis using count_fewer [of "jobs q" "claimable now" f k] k Suc.prems(2) by simp
  next
    case False
    then have "\<forall>k \<in> set (jobs q). f k = k" using f(2) by (auto simp: fate_def)
    then show ?thesis using False by (simp add: map_idI filter_empty_conv)
  qed
  then have "jobs (run queue_cmd ?q (replicate n v)) = map (fate w now ms) (map f (jobs q))"
    using Suc.IH [OF ok] by simp
  moreover have "fate w now ms (f k) = fate w now ms k" if "k \<in> set (jobs q)" for k
    using f(2) that assms(1) fate_settled [OF assms(1), of now w k] by (auto simp: fate_def)
  ultimately show ?case using s by simp
qed

text \<open>C33. At-least-once delivery: as many claims at one time as there are claimable jobs give every
  job that was ready, or whose lease had run out, to a worker with one more attempt, or bury it
  when its attempts were used up; every other job is untouched.\<close>

theorem claims_deliver:
  assumes "check_state st = Inr q" and "check_request v CLOCK_LIMIT = Inr (Claim w now ms)"
    and "n \<ge> length (filter (claimable now) (jobs q))"
  shows "jobs (run queue_cmd q (replicate n v)) =
    map (\<lambda>j. if \<not> claimable now j then j
             else if attempts j < MAX_ATTEMPTS then lease w (now + ms) j else kill j) (jobs q)"
proof -
  have "1 \<le> ms" using check_request_ok [OF assms(2)] by simp
  then show ?thesis using claims_fate [OF _ check_state_ok [OF assms(1)] assms(3,2)]
    by (simp add: fate_def live_def)
qed

theorem claims_deliver_witness:
  "jobs (run queue_cmd sample_queue (replicate 2 sample_claim)) =
    [kill (sample_job CHR ''a'' 0 1 Ready 5 None), sample_job CHR ''b'' 1 5 Leased 1 (Some (''w'', 100)),
     lease ''v'' 60 (sample_job CHR ''c'' 2 3 Ready 0 None)]"
proof -
  have "length (filter (claimable 50) (jobs sample_queue)) \<le> 2" by code_simp
  from claims_deliver [OF sample_state sample_claim_request this]
  show ?thesis
    by (simp add: sample_queue_def sample_job_def claimable_def MAX_ATTEMPTS_def)
qed

end
