(* ===== verification/Retry.thy ===== *)
theory Retry
  imports JobRecord
begin

text \<open>
  The retry decision, \<open>src/server/jobs_retry.py\<close> over \<open>src/data/contracts/retry.yaml\<close>: one
  failed attempt is retried after an exponential, bounded delay, or the job is dead. The error of
  a rejected request is its failure class.
\<close>

datatype retry_error = Malformed_retry_request | Invalid_retry_policy | Clock_overflow

fun retry_code :: "retry_error \<Rightarrow> string" where
  "retry_code Malformed_retry_request = ''malformed_request''"
| "retry_code Invalid_retry_policy = ''invalid_policy''"
| "retry_code Clock_overflow = ''clock_overflow''"

definition RETRY_FIELDS :: "string list" where
  "RETRY_FIELDS = [''op'', ''job_id'', ''attempts'', ''failure'', ''now'', ''policy'']"

definition RETRY_POLICY_FIELDS :: "string list" where
  "RETRY_POLICY_FIELDS = [''base_delay_ms'', ''multiplier'', ''max_delay_ms'']"

definition MAX_BASE_DELAY_MS :: int where "MAX_BASE_DELAY_MS = 3600000"
definition MAX_MULTIPLIER :: int where "MAX_MULTIPLIER = 10"
definition MAX_DELAY_MS :: int where "MAX_DELAY_MS = 86400000"

datatype failure = Transient | Timeout | Permanent

definition read_failure :: "pyval \<Rightarrow> failure option" where
  "read_failure v = (case v of PStr s \<Rightarrow>
     map_of [(''transient'', Transient), (''timeout'', Timeout), (''permanent'', Permanent)] s
   | _ \<Rightarrow> None)"

definition retry_request_ok :: "pydict \<Rightarrow> bool" where
  "retry_request_ok d \<longleftrightarrow> keys_are d RETRY_FIELDS \<and> fld d ''op'' = PStr ''decide''
     \<and> matches job_id_ok (fld d ''job_id'') \<and> int_in (fld d ''attempts'') 1 MAX_ATTEMPTS
     \<and> read_failure (fld d ''failure'') \<noteq> None \<and> int_in (fld d ''now'') 0 MAX_NOW
     \<and> is_dict (fld d ''policy'')"

definition retry_policy_ok :: "pydict \<Rightarrow> bool" where
  "retry_policy_ok p \<longleftrightarrow> keys_are p RETRY_POLICY_FIELDS
     \<and> int_in (fld p ''base_delay_ms'') 1 MAX_BASE_DELAY_MS
     \<and> int_in (fld p ''multiplier'') 1 MAX_MULTIPLIER
     \<and> int_in (fld p ''max_delay_ms'') (int_of (fld p ''base_delay_ms'')) MAX_DELAY_MS"

record backoff =
  base_delay :: int
  multiplier :: int
  max_delay :: int

definition read_backoff :: "pydict \<Rightarrow> backoff" where
  "read_backoff p = \<lparr>base_delay = int_of (fld p ''base_delay_ms''),
     multiplier = int_of (fld p ''multiplier''), max_delay = int_of (fld p ''max_delay_ms'')\<rparr>"

record decision =
  d_job :: string
  d_dead :: bool
  d_attempts :: int
  d_delay :: "int option"
  d_retry_at :: "int option"

definition decision_json :: "decision \<Rightarrow> json" where
  "decision_json r = JObj [(''attempts'', JInt (d_attempts r)),
     (''decision'', JStr (if d_dead r then ''dead'' else ''retry'')),
     (''delay_ms'', opt_json JInt (d_delay r)), (''job_id'', JStr (d_job r)),
     (''op'', JStr ''decide''), (''retry_at'', opt_json JInt (d_retry_at r))]"

definition decision_id :: "json \<Rightarrow> decision \<Rightarrow> string" where
  "decision_id req r =
     sealed ''rd1'' (canon True (JObj [(''record'', decision_json r), (''request'', req)]))"

definition retry_delay :: "backoff \<Rightarrow> int \<Rightarrow> int" where
  "retry_delay p n = min (max_delay p) (base_delay p * multiplier p ^ nat (n - 1))"

definition retry_dead :: "failure option \<Rightarrow> int \<Rightarrow> bool" where
  "retry_dead f n \<longleftrightarrow> f = Some Permanent \<or> n \<ge> MAX_ATTEMPTS"

definition decide_fields :: "pydict \<Rightarrow> (retry_error, decision) result" where
  "decide_fields d = (let jid = key_bytes (fld d ''job_id''); n = int_of (fld d ''attempts'');
       now = int_of (fld d ''now'') in
     if retry_dead (read_failure (fld d ''failure'')) n then
       Inr \<lparr>d_job = jid, d_dead = True, d_attempts = n, d_delay = None, d_retry_at = None\<rparr>
     else let delay = retry_delay (read_backoff (items (fld d ''policy''))) n in
       require (\<not> now + delay > MAX_NOW) Clock_overflow
         (Inr \<lparr>d_job = jid, d_dead = False, d_attempts = n, d_delay = Some delay,
            d_retry_at = Some (now + delay)\<rparr>))"

definition decide :: "pyval \<Rightarrow> (retry_error, decision \<times> string) result" where
  "decide v = (case v of PDict _ d \<Rightarrow>
     require (retry_request_ok d) Malformed_retry_request
     (require (retry_policy_ok (items (fld d ''policy''))) Invalid_retry_policy
     (and_then (decide_fields d) (\<lambda>r. Inr (r, decision_id (detach v) r))))
   | _ \<Rightarrow> Inl Malformed_retry_request)"

subsection \<open>The schedule\<close>

definition backoff_ok :: "backoff \<Rightarrow> bool" where
  "backoff_ok p \<longleftrightarrow> 1 \<le> base_delay p \<and> base_delay p \<le> max_delay p \<and> max_delay p \<le> MAX_DELAY_MS
     \<and> 1 \<le> multiplier p"

lemma retry_policy_ok_backoff: "retry_policy_ok p \<Longrightarrow> backoff_ok (read_backoff p)"
  by (auto simp: retry_policy_ok_def read_backoff_def backoff_ok_def int_in_iff)

lemma retry_delay_bounds:
  assumes "backoff_ok p"
  shows "base_delay p \<le> retry_delay p n" "retry_delay p n \<le> max_delay p"
proof -
  have "1 \<le> multiplier p ^ nat (n - 1)" using assms by (simp add: backoff_ok_def)
  then have "base_delay p * 1 \<le> base_delay p * multiplier p ^ nat (n - 1)"
    using assms by (intro mult_left_mono) (simp_all add: backoff_ok_def)
  then show "base_delay p \<le> retry_delay p n" using assms by (simp add: retry_delay_def backoff_ok_def)
qed (simp add: retry_delay_def)

lemma retry_delay_mono:
  assumes "backoff_ok p" "n \<le> m"
  shows "retry_delay p n \<le> retry_delay p m"
proof -
  have "multiplier p ^ nat (n - 1) \<le> multiplier p ^ nat (m - 1)"
    using assms by (intro power_increasing) (simp_all add: backoff_ok_def nat_mono)
  then have "base_delay p * multiplier p ^ nat (n - 1) \<le> base_delay p * multiplier p ^ nat (m - 1)"
    using assms by (intro mult_left_mono) (simp_all add: backoff_ok_def)
  then show ?thesis by (simp add: retry_delay_def min_le_iff_disj)
qed

lemma decide_accepted:
  "decide v = Inr (r, i) \<longleftrightarrow> (\<exists>o' d. v = PDict o' d \<and> retry_request_ok d
     \<and> retry_policy_ok (items (fld d ''policy'')) \<and> decide_fields d = Inr r \<and> i = decision_id (detach v) r)"
  by (auto simp: decide_def split: pyval.split)

text \<open>What an accepted decision says: a permanent failure and the last attempt are dead, with
  no time; anything else is retried at now plus a delay between the base and the maximum of the
  policy, never past the clock's limit, and under one policy a later attempt never waits less than
  an earlier one.\<close>

theorem retry_schedule:
  assumes "decide (PDict o1 d) = Inr (r, i)" and "decide (PDict o2 e) = Inr (s, k)"
    and "fld d ''policy'' = fld e ''policy''" and "d_attempts r \<le> d_attempts s"
  shows "(d_dead r \<longleftrightarrow> fld d ''failure'' = PStr ''permanent'' \<or> d_attempts r = MAX_ATTEMPTS)
    \<and> (if d_dead r then d_delay r = None \<and> d_retry_at r = None
       else \<exists>w. d_delay r = Some w \<and> 1 \<le> w
         \<and> base_delay (read_backoff (items (fld d ''policy''))) \<le> w
         \<and> w \<le> max_delay (read_backoff (items (fld d ''policy''))) \<and> w \<le> MAX_DELAY_MS
         \<and> fld d ''now'' = PInt (the (d_retry_at r) - w) \<and> the (d_retry_at r) \<le> MAX_NOW
         \<and> (\<not> d_dead s \<longrightarrow> w \<le> the (d_delay s)))
    \<and> tag_grammar ''rd1'' i"
proof -
  let ?p = "read_backoff (items (fld d ''policy''))"
  have r: "retry_request_ok d" "decide_fields d = Inr r" "decide_fields e = Inr s" "backoff_ok ?p"
      "i = decision_id (detach (PDict o1 d)) r"
    using assms(1,2) retry_policy_ok_backoff unfolding decide_accepted by auto
  have n: "d_attempts r = int_of (fld d ''attempts'')" "d_attempts s = int_of (fld e ''attempts'')"
    using r(2,3) by (auto simp: decide_fields_def Let_def split: if_splits)
  have dead: "d_dead r \<longleftrightarrow> retry_dead (read_failure (fld d ''failure'')) (d_attempts r)"
    using r(2) by (auto simp: decide_fields_def Let_def split: if_splits)
  have att: "d_attempts r \<le> MAX_ATTEMPTS" using r(1) n by (auto simp: retry_request_ok_def int_in_iff)
  have f: "read_failure (fld d ''failure'') = Some Permanent \<longleftrightarrow> fld d ''failure'' = PStr ''permanent''"
    by (auto simp: read_failure_def split: pyval.split if_splits)
  have "d_delay r = None \<and> d_retry_at r = None" if "d_dead r"
    using that r(2) dead n by (auto simp: decide_fields_def Let_def split: if_splits)
  moreover have "d_delay r = Some (retry_delay ?p (d_attempts r))"
      "fld d ''now'' = PInt (the (d_retry_at r) - retry_delay ?p (d_attempts r))"
      "the (d_retry_at r) \<le> MAX_NOW" if "\<not> d_dead r"
    using that r(1,2) dead n by (auto simp: decide_fields_def retry_request_ok_def int_in_iff Let_def split: if_splits)
  moreover have "d_delay s = Some (retry_delay ?p (d_attempts s))" if "\<not> d_dead s"
    using that r(3) n assms(3) by (auto simp: decide_fields_def Let_def split: if_splits)
  moreover have "d_dead r \<longleftrightarrow> fld d ''failure'' = PStr ''permanent'' \<or> d_attempts r = MAX_ATTEMPTS"
    using dead att f by (auto simp: retry_dead_def)
  moreover have "tag_grammar ''rd1'' i" unfolding r(5) decision_id_def by simp
  ultimately show ?thesis
    using retry_delay_bounds [OF r(4), of "d_attempts r"] retry_delay_mono [OF r(4) assms(4)] r(4)
    by (auto simp: backoff_ok_def)
qed

definition sample_retry :: "int \<Rightarrow> pydict" where
  "sample_retry n = [(PStr ''op'', PStr ''decide''), (PStr ''job_id'', PStr (''job1:'' @ replicate 64 CHR ''a'')),
     (PStr ''attempts'', PInt n), (PStr ''failure'', PStr ''timeout''), (PStr ''now'', PInt 1000),
     (PStr ''policy'', PDict 1 [(PStr ''base_delay_ms'', PInt 100), (PStr ''multiplier'', PInt 3),
        (PStr ''max_delay_ms'', PInt 500)])]"

lemma sample_retry_decide:
  "\<exists>i. decide (PDict 0 (sample_retry 2)) = Inr (\<lparr>d_job = ''job1:'' @ replicate 64 CHR ''a'',
     d_dead = False, d_attempts = 2, d_delay = Some 300, d_retry_at = Some 1300\<rparr>, i)"
  "\<exists>i. decide (PDict 0 (sample_retry 3)) = Inr (\<lparr>d_job = ''job1:'' @ replicate 64 CHR ''a'',
     d_dead = False, d_attempts = 3, d_delay = Some 500, d_retry_at = Some 1500\<rparr>, i)"
  by (simp_all add: decide_def sample_retry_def retry_request_ok_def retry_policy_ok_def keys_are_def
      RETRY_FIELDS_def RETRY_POLICY_FIELDS_def fld_def read_failure_def is_dict_def MAX_NOW_def MAX_ATTEMPTS_def
      MAX_BASE_DELAY_MS_def MAX_MULTIPLIER_def MAX_DELAY_MS_def job_id_ok_def tag_grammar_def is_hex_def
      decide_fields_def retry_dead_def read_backoff_def retry_delay_def insert_commute list_all_iff)

theorem retry_schedule_witness:
  "\<exists>r i w. decide (PDict 0 (sample_retry 2)) = Inr (r, i) \<and> d_delay r = Some w \<and> w \<le> 500"
proof -
  obtain i k where
    1: "decide (PDict 0 (sample_retry 2)) = Inr (\<lparr>d_job = ''job1:'' @ replicate 64 CHR ''a'',
     d_dead = False, d_attempts = 2, d_delay = Some 300, d_retry_at = Some 1300\<rparr>, i)" and
    2: "decide (PDict 0 (sample_retry 3)) = Inr (\<lparr>d_job = ''job1:'' @ replicate 64 CHR ''a'',
     d_dead = False, d_attempts = 3, d_delay = Some 500, d_retry_at = Some 1500\<rparr>, k)"
    using sample_retry_decide by blast
  show ?thesis using retry_schedule [OF 1 2] 1 by (simp add: sample_retry_def fld_def read_backoff_def)
qed

end
