(* ===== verification/Limit.thy ===== *)
theory Limit
  imports JobRecord
begin

text \<open>
  The rate limit, \<open>src/server/jobs_limit.py\<close> over \<open>src/data/contracts/limit.yaml\<close>: a keyed token
  bucket whose state is the record of the previous decision, carried by the caller and verified by
  its digest. A bucket gains one token per \<open>refill_ms\<close>, up to its capacity.
\<close>

datatype limit_error = Malformed_limit_request | Invalid_limit_policy | Corrupt_previous_bucket
  | Limit_conflict | Limit_clock_overflow

fun limit_code :: "limit_error \<Rightarrow> string" where
  "limit_code Malformed_limit_request = ''malformed_request''"
| "limit_code Invalid_limit_policy = ''invalid_policy''"
| "limit_code Corrupt_previous_bucket = ''corrupt_record''"
| "limit_code Limit_conflict = ''limit_conflict''"
| "limit_code Limit_clock_overflow = ''clock_overflow''"

definition LIMIT_FIELDS :: "string list" where
  "LIMIT_FIELDS = [''op'', ''key'', ''cost'', ''now'', ''policy'', ''previous'']"

definition LIMIT_POLICY_FIELDS :: "string list" where
  "LIMIT_POLICY_FIELDS = [''capacity'', ''refill_ms'']"

definition BUCKET_FIELDS :: "string list" where
  "BUCKET_FIELDS = [''op'', ''key'', ''capacity'', ''refill_ms'', ''cost'', ''decision'', ''tokens'',
     ''updated_at'', ''retry_after_ms'', ''previous_id'', ''limit_id'']"

definition MAX_CAPACITY :: int where "MAX_CAPACITY = 1000000"
definition MAX_REFILL :: int where "MAX_REFILL = 86400000"

definition limit_id_ok :: "string \<Rightarrow> bool" where
  "limit_id_ok = tag_grammar ''lm1''"

definition limit_request_ok :: "pydict \<Rightarrow> bool" where
  "limit_request_ok d \<longleftrightarrow> keys_are d LIMIT_FIELDS \<and> fld d ''op'' = PStr ''admit''
     \<and> matches worker_ok (fld d ''key'') \<and> int_in (fld d ''cost'') 1 MAX_CAPACITY
     \<and> int_in (fld d ''now'') 0 MAX_NOW \<and> is_dict (fld d ''policy'')
     \<and> (fld d ''previous'' = PNone \<or> is_dict (fld d ''previous''))"

definition limit_policy_ok :: "pydict \<Rightarrow> bool" where
  "limit_policy_ok p \<longleftrightarrow> keys_are p LIMIT_POLICY_FIELDS
     \<and> int_in (fld p ''capacity'') 1 MAX_CAPACITY \<and> int_in (fld p ''refill_ms'') 1 MAX_REFILL"

record bucket =
  b_key :: string
  b_capacity :: int
  b_refill :: int
  b_cost :: int
  b_admit :: bool
  b_tokens :: int
  b_updated :: int
  b_retry :: "int option"
  b_previous :: "string option"

definition bucket_json :: "bucket \<Rightarrow> json" where
  "bucket_json b = JObj [(''capacity'', JInt (b_capacity b)), (''cost'', JInt (b_cost b)),
     (''decision'', JStr (if b_admit b then ''admit'' else ''deny'')), (''key'', JStr (b_key b)),
     (''op'', JStr ''admit''), (''previous_id'', opt_json JStr (b_previous b)),
     (''refill_ms'', JInt (b_refill b)), (''retry_after_ms'', opt_json JInt (b_retry b)),
     (''tokens'', JInt (b_tokens b)), (''updated_at'', JInt (b_updated b))]"

definition limit_id :: "bucket \<Rightarrow> string" where
  "limit_id b = sealed ''lm1'' (canon True (bucket_json b))"

text \<open>The typed content of a record whose shape has been checked.\<close>

definition read_bucket :: "pydict \<Rightarrow> bucket" where
  "read_bucket p = \<lparr>b_key = key_bytes (fld p ''key''), b_capacity = int_of (fld p ''capacity''),
     b_refill = int_of (fld p ''refill_ms''), b_cost = int_of (fld p ''cost''),
     b_admit = (fld p ''decision'' = PStr ''admit''), b_tokens = int_of (fld p ''tokens''),
     b_updated = int_of (fld p ''updated_at''), b_retry = opt_int (fld p ''retry_after_ms''),
     b_previous = opt_str (fld p ''previous_id'')\<rparr>"

definition bucket_shape :: "pydict \<Rightarrow> bool" where
  "bucket_shape p \<longleftrightarrow> fld p ''op'' = PStr ''admit'' \<and> matches worker_ok (fld p ''key'')
     \<and> int_in (fld p ''capacity'') 1 MAX_CAPACITY \<and> int_in (fld p ''refill_ms'') 1 MAX_REFILL
     \<and> int_in (fld p ''cost'') 1 (int_of (fld p ''capacity''))
     \<and> fld p ''decision'' \<in> {PStr ''admit'', PStr ''deny''}
     \<and> int_in (fld p ''tokens'') 0 (int_of (fld p ''capacity''))
     \<and> int_in (fld p ''updated_at'') 0 MAX_NOW
     \<and> (fld p ''previous_id'' = PNone \<or> matches limit_id_ok (fld p ''previous_id''))
     \<and> matches limit_id_ok (fld p ''limit_id'')"

definition bucket_decision_ok :: "pydict \<Rightarrow> bool" where
  "bucket_decision_ok p = (let b = read_bucket p; retry = int_of (fld p ''retry_after_ms'') in
     if b_admit b then
       \<not> (fld p ''retry_after_ms'' \<noteq> PNone \<or> b_tokens b > b_capacity b - b_cost b)
     else int_in (fld p ''retry_after_ms'') 1 MAX_NOW \<and> b_tokens b < b_cost b
       \<and> (b_cost b - b_tokens b - 1) * b_refill b < retry
       \<and> retry \<le> (b_cost b - b_tokens b) * b_refill b
       \<and> b_updated b + retry \<le> MAX_NOW)"

definition previous_bucket_ok :: "pydict \<Rightarrow> bool" where
  "previous_bucket_ok p \<longleftrightarrow> keys_are p BUCKET_FIELDS \<and> bucket_shape p \<and> bucket_decision_ok p
     \<and> fld p ''limit_id'' = PStr (limit_id (read_bucket p))"

definition limit_chain_ok :: "pydict \<Rightarrow> bool" where
  "limit_chain_ok d = (let prev = items (fld d ''previous''); policy = items (fld d ''policy'') in
     fld d ''key'' = fld prev ''key'' \<and> fld policy ''capacity'' = fld prev ''capacity''
     \<and> fld policy ''refill_ms'' = fld prev ''refill_ms''
     \<and> int_of (fld d ''now'') \<ge> int_of (fld prev ''updated_at''))"

text \<open>The refilled tokens and the time from which the next token is counted.\<close>

definition refill :: "int \<Rightarrow> int \<Rightarrow> int \<Rightarrow> bucket option \<Rightarrow> int \<times> int" where
  "refill capacity refill_ms now prev = (case prev of None \<Rightarrow> (capacity, now)
     | Some b \<Rightarrow> let gained = (now - b_updated b) div refill_ms in
         if b_tokens b + gained \<ge> capacity then (capacity, now)
         else (b_tokens b + gained, b_updated b + gained * refill_ms))"

definition admit_bucket :: "string \<Rightarrow> int \<Rightarrow> int \<Rightarrow> int \<Rightarrow> int \<Rightarrow> bucket option
    \<Rightarrow> (limit_error, bucket) result" where
  "admit_bucket key capacity refill_ms cost now prev =
     (let (refilled, base) = refill capacity refill_ms now prev;
          out = (\<lambda>adm tokens retry. \<lparr>b_key = key, b_capacity = capacity, b_refill = refill_ms,
            b_cost = cost, b_admit = adm, b_tokens = tokens, b_updated = base, b_retry = retry,
            b_previous = map_option limit_id prev\<rparr>) in
      if refilled \<ge> cost then Inr (out True (refilled - cost) None)
      else let retry = (cost - refilled) * refill_ms - (now - base) in
        require (\<not> now + retry > MAX_NOW) Limit_clock_overflow (Inr (out False refilled (Some retry))))"

definition previous_of :: "pydict \<Rightarrow> bucket option" where
  "previous_of d = (if fld d ''previous'' = PNone then None
     else Some (read_bucket (items (fld d ''previous''))))"

definition admit :: "pyval \<Rightarrow> (limit_error, bucket \<times> string) result" where
  "admit v = (case v of PDict _ d \<Rightarrow>
     (let policy = items (fld d ''policy''); prev = items (fld d ''previous'') in
     require (limit_request_ok d) Malformed_limit_request
     (require (limit_policy_ok policy) Invalid_limit_policy
     (require (\<not> int_of (fld d ''cost'') > int_of (fld policy ''capacity'')) Malformed_limit_request
     (require (\<not> (fld d ''previous'' \<noteq> PNone \<and> \<not> previous_bucket_ok prev)) Corrupt_previous_bucket
     (require (\<not> (fld d ''previous'' \<noteq> PNone \<and> \<not> limit_chain_ok d)) Limit_conflict
     (and_then (admit_bucket (key_bytes (fld d ''key'')) (int_of (fld policy ''capacity''))
        (int_of (fld policy ''refill_ms'')) (int_of (fld d ''cost'')) (int_of (fld d ''now''))
        (previous_of d)) (\<lambda>b. Inr (b, limit_id b))))))))
   | _ \<Rightarrow> Inl Malformed_limit_request)"

end
