(* ===== verification/LimitProps.thy ===== *)
theory LimitProps
  imports Limit
begin

text \<open>
  The token bucket: every record it returns is trusted by the next call, what a chain of calls can
  spend, and the exactness of \<open>retry_after_ms\<close>.
\<close>

definition bucket_ok :: "bucket \<Rightarrow> bool" where
  "bucket_ok b \<longleftrightarrow> worker_ok (b_key b) \<and> 1 \<le> b_capacity b \<and> b_capacity b \<le> MAX_CAPACITY
     \<and> 1 \<le> b_refill b \<and> b_refill b \<le> MAX_REFILL \<and> 1 \<le> b_cost b \<and> b_cost b \<le> b_capacity b
     \<and> 0 \<le> b_tokens b \<and> b_tokens b \<le> b_capacity b \<and> 0 \<le> b_updated b \<and> b_updated b \<le> MAX_NOW
     \<and> (case b_previous b of None \<Rightarrow> True | Some i \<Rightarrow> limit_id_ok i)
     \<and> (if b_admit b then b_retry b = None \<and> b_tokens b \<le> b_capacity b - b_cost b
        else (case b_retry b of None \<Rightarrow> False | Some r \<Rightarrow> 1 \<le> r \<and> r \<le> MAX_NOW \<and> b_tokens b < b_cost b
          \<and> (b_cost b - b_tokens b - 1) * b_refill b < r \<and> r \<le> (b_cost b - b_tokens b) * b_refill b
          \<and> b_updated b + r \<le> MAX_NOW))"

lemma limit_id_grammar [simp]: "limit_id_ok (limit_id b)"
  by (simp add: limit_id_ok_def limit_id_def)

lemma previous_bucket_ok_bucket:
  assumes "previous_bucket_ok p"
  shows "bucket_ok (read_bucket p)"
proof -
  have s: "bucket_shape p" "bucket_decision_ok p" using assms by (simp_all add: previous_bucket_ok_def)
  obtain k cap ms c t u where f: "fld p ''key'' = PStr k" "fld p ''capacity'' = PInt cap"
      "fld p ''refill_ms'' = PInt ms" "fld p ''cost'' = PInt c" "fld p ''tokens'' = PInt t"
      "fld p ''updated_at'' = PInt u"
    using s(1) unfolding bucket_shape_def int_in_iff matches_iff by blast
  have i: "case opt_str (fld p ''previous_id'') of None \<Rightarrow> True | Some i \<Rightarrow> limit_id_ok i"
    using s(1) by (cases "fld p ''previous_id''") (simp_all add: bucket_shape_def)
  show ?thesis using s(1) s(2) i
    by (cases "fld p ''retry_after_ms''"; cases "fld p ''decision'' = PStr ''admit''")
      (simp_all add: bucket_ok_def read_bucket_def bucket_shape_def bucket_decision_ok_def f Let_def)
qed

text \<open>The dict that \<open>admit\<close> returns.\<close>

definition bucket_dict :: "bucket \<Rightarrow> string \<Rightarrow> pydict" where
  "bucket_dict b i = [(PStr ''op'', PStr ''admit''), (PStr ''key'', PStr (b_key b)),
     (PStr ''capacity'', PInt (b_capacity b)), (PStr ''refill_ms'', PInt (b_refill b)),
     (PStr ''cost'', PInt (b_cost b)), (PStr ''decision'', PStr (if b_admit b then ''admit'' else ''deny'')),
     (PStr ''tokens'', PInt (b_tokens b)), (PStr ''updated_at'', PInt (b_updated b)),
     (PStr ''retry_after_ms'', opt_py PInt (b_retry b)),
     (PStr ''previous_id'', opt_py PStr (b_previous b)), (PStr ''limit_id'', PStr i)]"

lemma read_bucket_dict [simp]: "read_bucket (bucket_dict b i) = b"
  by (cases b) (auto simp: read_bucket_def bucket_dict_def opt_py_def split: option.split)

lemma bucket_dict_ok:
  assumes "bucket_ok b"
  shows "previous_bucket_ok (bucket_dict b (limit_id b))"
proof -
  have "keys_are (bucket_dict b (limit_id b)) BUCKET_FIELDS"
    by (auto simp: keys_are_def bucket_dict_def BUCKET_FIELDS_def)
  moreover have "bucket_shape (bucket_dict b (limit_id b))"
    using assms by (auto simp: bucket_shape_def bucket_dict_def bucket_ok_def opt_py_def split: option.splits)
  moreover have "bucket_decision_ok (bucket_dict b (limit_id b))"
    using assms unfolding bucket_decision_ok_def read_bucket_dict
    by (auto simp: bucket_dict_def bucket_ok_def opt_py_def split: option.splits if_splits)
  moreover have "fld (bucket_dict b (limit_id b)) ''limit_id'' = PStr (limit_id b)"
    by (simp add: bucket_dict_def)
  ultimately show ?thesis by (simp add: previous_bucket_ok_def)
qed

interpretation lr: sealed_record previous_bucket_ok read_bucket bucket_dict limit_id bucket_ok
  by unfold_locales (simp_all add: previous_bucket_ok_bucket bucket_dict_ok)

subsection \<open>Refill and decision\<close>

lemma bucket_ok_bounds:
  "bucket_ok b \<Longrightarrow> 1 \<le> b_refill b \<and> 0 \<le> b_tokens b \<and> b_tokens b \<le> b_capacity b \<and> 0 \<le> b_updated b"
  by (simp add: bucket_ok_def)

lemma refill_facts:
  assumes "bucket_ok b" "b_updated b \<le> now" "b_capacity b = cap" "b_refill b = ms"
    and r: "refill cap ms now (Some b) = (r, base)"
  shows "b_tokens b \<le> r" "r \<le> cap" "b_updated b \<le> base" "base \<le> now" "now - base < ms"
    "(r - b_tokens b) * ms \<le> base - b_updated b"
    "c \<le> cap \<Longrightarrow> c \<le> r \<longleftrightarrow> (c - b_tokens b) * ms \<le> now - b_updated b"
proof -
  define g where "g = (now - b_updated b) div ms"
  have ms: "1 \<le> ms" and t: "0 \<le> b_tokens b" "b_tokens b \<le> cap"
    using assms(3,4) bucket_ok_bounds [OF assms(1)] by auto
  have g: "0 \<le> g" "g * ms \<le> now - b_updated b" "now - b_updated b < (g + 1) * ms"
    using assms(2) ms floor_step [of ms "now - b_updated b"]
    by (simp_all add: g_def pos_imp_zdiv_nonneg_iff distrib_right)
  note k = le_div_int [OF ms, of _ "now - b_updated b", folded g_def]
  have "refill cap ms now (Some b) = (if b_tokens b + g \<ge> cap then (cap, now)
     else (b_tokens b + g, b_updated b + g * ms))"
    by (simp add: refill_def g_def Let_def)
  then have *: "b_tokens b + g \<ge> cap \<and> r = cap \<and> base = now
    \<or> b_tokens b + g < cap \<and> r = b_tokens b + g \<and> base = b_updated b + g * ms"
    using r by (auto split: if_splits)
  show "b_tokens b \<le> r" "r \<le> cap" "b_updated b \<le> base" "base \<le> now" "now - base < ms"
    using * g t ms assms(2) mult_nonneg_nonneg [of g ms] by (auto simp: algebra_simps)
  show "(r - b_tokens b) * ms \<le> base - b_updated b"
    using * k [of "cap - b_tokens b"] by auto
  show "c \<le> cap \<Longrightarrow> c \<le> r \<longleftrightarrow> (c - b_tokens b) * ms \<le> now - b_updated b"
    using * k [of "c - b_tokens b"] by auto
qed

lemma refill_fresh: "refill cap ms now None = (cap, now)"
  by (simp add: refill_def)

text \<open>What the caller's request must be, apart from the bucket.\<close>

definition limit_args_ok :: "string \<Rightarrow> int \<Rightarrow> int \<Rightarrow> int \<Rightarrow> int \<Rightarrow> bool" where
  "limit_args_ok key cap ms cost now \<longleftrightarrow> worker_ok key \<and> 1 \<le> cap \<and> cap \<le> MAX_CAPACITY \<and> 1 \<le> ms
     \<and> ms \<le> MAX_REFILL \<and> 1 \<le> cost \<and> cost \<le> cap \<and> 0 \<le> now \<and> now \<le> MAX_NOW"

text \<open>The bucket before the decision belongs to the same key and policy.\<close>

definition bucket_of :: "string \<Rightarrow> int \<Rightarrow> int \<Rightarrow> bucket option \<Rightarrow> bool" where
  "bucket_of key cap ms prev \<longleftrightarrow> (case prev of None \<Rightarrow> True | Some b \<Rightarrow>
     bucket_ok b \<and> b_key b = key \<and> b_capacity b = cap \<and> b_refill b = ms)"

definition not_before :: "bucket option \<Rightarrow> int \<Rightarrow> bool" where
  "not_before prev now \<longleftrightarrow> (case prev of None \<Rightarrow> True | Some b \<Rightarrow> b_updated b \<le> now)"

lemma admit_bucket_cases:
  assumes a: "limit_args_ok key cap ms cost now" "bucket_of key cap ms prev" "not_before prev now"
    and r: "admit_bucket key cap ms cost now prev = Inr b"
  shows "bucket_of key cap ms (Some b)" "b_updated b \<le> now" "b_cost b = cost"
    "\<not> b_admit b \<Longrightarrow> \<exists>w. b_retry b = Some w \<and> now + w \<le> MAX_NOW
       \<and> w = (cost - b_tokens b) * ms - (now - b_updated b)"
    "case prev of None \<Rightarrow> b_admit b \<and> b_tokens b = cap - cost \<and> b_updated b = now
     | Some p \<Rightarrow> (b_tokens b + (if b_admit b then cost else 0) - b_tokens p) * ms \<le> b_updated b - b_updated p"
proof -
  obtain q base where q: "refill cap ms now prev = (q, base)" by fastforce
  have f: "q \<le> cap" "0 \<le> q" "0 \<le> base" "base \<le> now" "now - base < ms"
    "prev \<noteq> None \<Longrightarrow> (q - b_tokens (the prev)) * ms \<le> base - b_updated (the prev)"
    "prev = None \<Longrightarrow> q = cap \<and> base = now"
  proof -
    have "prev = None \<Longrightarrow> q = cap \<and> base = now" using q by (simp add: refill_fresh)
    moreover have "0 \<le> b_tokens p \<and> 0 \<le> b_updated p \<and> b_tokens p \<le> q \<and> q \<le> cap \<and> b_updated p \<le> base
        \<and> base \<le> now \<and> now - base < ms \<and> (q - b_tokens p) * ms \<le> base - b_updated p" if "prev = Some p" for p
      using a(2,3) that q refill_facts(1-6) [of p now cap ms q base] bucket_ok_bounds [of p]
      by (simp add: bucket_of_def not_before_def)
    ultimately show "q \<le> cap" "0 \<le> q" "0 \<le> base" "base \<le> now" "now - base < ms"
        "prev \<noteq> None \<Longrightarrow> (q - b_tokens (the prev)) * ms \<le> base - b_updated (the prev)"
        "prev = None \<Longrightarrow> q = cap \<and> base = now"
      using a(1) unfolding limit_args_ok_def by (cases prev; force)+
  qed
  have p: "case map_option limit_id prev of None \<Rightarrow> True | Some i \<Rightarrow> limit_id_ok i"
    by (cases prev) simp_all
  define w where "w = (cost - q) * ms - (now - base)"
  have w: "(cost - q - 1) * ms < w" "w \<le> (cost - q) * ms" using f(4,5) by (simp_all add: w_def algebra_simps)
  have w1: "1 \<le> w" if "q < cost"
  proof -
    have "0 \<le> (cost - q - 1) * ms" using that a(1) by (intro mult_nonneg_nonneg) (simp_all add: limit_args_ok_def)
    then show ?thesis using w(1) by simp
  qed
  have b: "q \<ge> cost \<and> b = \<lparr>b_key = key, b_capacity = cap, b_refill = ms, b_cost = cost, b_admit = True,
        b_tokens = q - cost, b_updated = base, b_retry = None, b_previous = map_option limit_id prev\<rparr>
    \<or> q < cost \<and> now + w \<le> MAX_NOW \<and> b = \<lparr>b_key = key, b_capacity = cap, b_refill = ms, b_cost = cost,
        b_admit = False, b_tokens = q, b_updated = base, b_retry = Some w, b_previous = map_option limit_id prev\<rparr>"
    using r by (auto simp: admit_bucket_def q w_def Let_def split: if_splits)
  show "bucket_of key cap ms (Some b)"
    using b a(1) f(1-4) p w w1 by (auto simp: bucket_of_def bucket_ok_def limit_args_ok_def)
  show "b_updated b \<le> now" "b_cost b = cost" using b f(4) by auto
  show "\<not> b_admit b \<Longrightarrow> \<exists>w. b_retry b = Some w \<and> now + w \<le> MAX_NOW
       \<and> w = (cost - b_tokens b) * ms - (now - b_updated b)"
    using b by (auto simp: w_def)
  show "case prev of None \<Rightarrow> b_admit b \<and> b_tokens b = cap - cost \<and> b_updated b = now
     | Some p \<Rightarrow> (b_tokens b + (if b_admit b then cost else 0) - b_tokens p) * ms \<le> b_updated b - b_updated p"
  proof (cases prev)
    case None
    then show ?thesis using b f(7) a(1) by (auto simp: limit_args_ok_def)
  next
    case (Some p)
    then show ?thesis using b f(6) by auto
  qed
qed

subsection \<open>The entry point\<close>

text \<open>A caller's request for a bucket it got from the previous call.\<close>

definition limit_dict :: "string \<Rightarrow> int \<Rightarrow> int \<Rightarrow> int \<Rightarrow> int \<Rightarrow> bucket option \<Rightarrow> pydict" where
  "limit_dict key cap ms cost now prev = [(PStr ''op'', PStr ''admit''), (PStr ''key'', PStr key),
     (PStr ''cost'', PInt cost), (PStr ''now'', PInt now),
     (PStr ''policy'', PDict 1 [(PStr ''capacity'', PInt cap), (PStr ''refill_ms'', PInt ms)]),
     (PStr ''previous'', lr.previous_value prev)]"

lemma limit_dict_fld:
  "fld (limit_dict key cap ms cost now prev) ''op'' = PStr ''admit''"
  "fld (limit_dict key cap ms cost now prev) ''key'' = PStr key"
  "fld (limit_dict key cap ms cost now prev) ''cost'' = PInt cost"
  "fld (limit_dict key cap ms cost now prev) ''now'' = PInt now"
  "items (fld (limit_dict key cap ms cost now prev) ''policy'')
     = [(PStr ''capacity'', PInt cap), (PStr ''refill_ms'', PInt ms)]"
  "is_dict (fld (limit_dict key cap ms cost now prev) ''policy'')"
  "fld (limit_dict key cap ms cost now prev) ''previous'' = lr.previous_value prev"
  by (simp_all add: limit_dict_def is_dict_def)

lemma bucket_dict_fld:
  "fld (bucket_dict b i) ''key'' = PStr (b_key b)" "fld (bucket_dict b i) ''capacity'' = PInt (b_capacity b)"
  "fld (bucket_dict b i) ''refill_ms'' = PInt (b_refill b)" "fld (bucket_dict b i) ''updated_at'' = PInt (b_updated b)"
  by (simp_all add: bucket_dict_def)

lemma limit_dict_request:
  "limit_request_ok (limit_dict key cap ms cost now prev) \<longleftrightarrow>
     worker_ok key \<and> 1 \<le> cost \<and> cost \<le> MAX_CAPACITY \<and> 0 \<le> now \<and> now \<le> MAX_NOW"
proof -
  have "keys_are (limit_dict key cap ms cost now prev) LIMIT_FIELDS"
    by (auto simp: limit_dict_def keys_are_def LIMIT_FIELDS_def)
  then show ?thesis unfolding limit_request_ok_def limit_dict_fld
    using lr.previous_shape [of prev] by (simp add: limit_dict_fld(6))
qed

lemma limit_dict_policy:
  "limit_policy_ok [(PStr ''capacity'', PInt cap), (PStr ''refill_ms'', PInt ms)] \<longleftrightarrow>
     1 \<le> cap \<and> cap \<le> MAX_CAPACITY \<and> 1 \<le> ms \<and> ms \<le> MAX_REFILL"
  by (simp add: limit_policy_ok_def keys_are_def LIMIT_POLICY_FIELDS_def)

lemma admit_limit_dict:
  assumes "bucket_of key cap ms prev"
  shows "admit (PDict n (limit_dict key cap ms cost now prev)) =
    require (worker_ok key \<and> 1 \<le> cost \<and> cost \<le> MAX_CAPACITY \<and> 0 \<le> now \<and> now \<le> MAX_NOW) Malformed_limit_request
    (require (1 \<le> cap \<and> cap \<le> MAX_CAPACITY \<and> 1 \<le> ms \<and> ms \<le> MAX_REFILL) Invalid_limit_policy
    (require (cost \<le> cap) Malformed_limit_request
    (require (not_before prev now) Limit_conflict
    (and_then (admit_bucket key cap ms cost now prev) (\<lambda>b. Inr (b, limit_id b))))))"
proof -
  let ?d = "limit_dict key cap ms cost now prev"
  have "(lr.previous_value prev = PNone \<or> limit_chain_ok ?d) = not_before prev now"
    using assms by (cases prev) (auto simp: limit_chain_ok_def limit_dict_fld lr.previous_value_def
        bucket_dict_fld not_before_def bucket_of_def)
  moreover have "previous_of ?d = prev"
    unfolding previous_of_def limit_dict_fld
    using lr.previous_read [of prev] unfolding lr.previous_rec_def by blast
  moreover have "lr.previous_value prev = PNone \<or> previous_bucket_ok (items (lr.previous_value prev))"
    using lr.previous_trusted [of prev] assms by (auto simp: bucket_of_def split: option.splits)
  ultimately show ?thesis
    by (simp add: admit_def limit_dict_request limit_dict_policy limit_dict_fld not_less)
qed

lemma admit_limit_dict_Inr:
  assumes "bucket_of key cap ms prev"
  shows "admit (PDict n (limit_dict key cap ms cost now prev)) = Inr (b, i) \<longleftrightarrow>
    limit_args_ok key cap ms cost now \<and> not_before prev now
    \<and> admit_bucket key cap ms cost now prev = Inr b \<and> i = limit_id b"
  unfolding admit_limit_dict [OF assms] limit_args_ok_def by auto

text \<open>The same for an arbitrary request.\<close>

lemma admit_accepted:
  assumes "admit v = Inr (b, i)"
  shows "\<exists>key cap ms cost now prev. limit_args_ok key cap ms cost now \<and> bucket_of key cap ms prev
    \<and> not_before prev now \<and> admit_bucket key cap ms cost now prev = Inr b \<and> i = limit_id b"
proof -
  obtain n d where d: "v = PDict n d" using assms by (auto simp: admit_def split: pyval.splits)
  have *: "limit_request_ok d" "limit_policy_ok (items (fld d ''policy''))"
    "int_of (fld d ''cost'') \<le> int_of (fld (items (fld d ''policy'')) ''capacity'')"
    "fld d ''previous'' \<noteq> PNone \<Longrightarrow> previous_bucket_ok (items (fld d ''previous'')) \<and> limit_chain_ok d"
    "admit_bucket (key_bytes (fld d ''key'')) (int_of (fld (items (fld d ''policy'')) ''capacity''))
        (int_of (fld (items (fld d ''policy'')) ''refill_ms'')) (int_of (fld d ''cost'')) (int_of (fld d ''now''))
        (previous_of d) = Inr b" "i = limit_id b"
    using assms unfolding d admit_def by (auto simp: Let_def not_less)
  let ?p = "items (fld d ''policy'')"
  have "limit_args_ok (key_bytes (fld d ''key'')) (int_of (fld ?p ''capacity'')) (int_of (fld ?p ''refill_ms''))
      (int_of (fld d ''cost'')) (int_of (fld d ''now''))"
    using *(1-3) by (auto simp: limit_args_ok_def limit_request_ok_def limit_policy_ok_def int_in_iff matches_iff)
  moreover have "bucket_of (key_bytes (fld d ''key'')) (int_of (fld ?p ''capacity'')) (int_of (fld ?p ''refill_ms''))
      (previous_of d)"
    using *(4) previous_bucket_ok_bucket
    by (auto simp: bucket_of_def previous_of_def limit_chain_ok_def Let_def read_bucket_def)
  moreover have "not_before (previous_of d) (int_of (fld d ''now''))"
    using *(4) by (auto simp: not_before_def previous_of_def limit_chain_ok_def Let_def read_bucket_def)
  ultimately show ?thesis using *(5,6) by blast
qed

subsection \<open>A chain of calls\<close>

text \<open>The machine of one key under one policy: a command is a cost and a time, the state the record
  of the previous call (none before the first).\<close>

definition limit_cmd :: "string \<Rightarrow> int \<Rightarrow> int \<Rightarrow> bucket option \<Rightarrow> int \<times> int
    \<Rightarrow> (limit_error, bucket option) result" where
  "limit_cmd key cap ms prev c = and_then (admit (PDict 0 (limit_dict key cap ms (fst c) (snd c) prev)))
     (\<lambda>(b, _). Inr (Some b))"

definition later :: "bucket option \<Rightarrow> bucket option \<Rightarrow> bool" where
  "later s t \<longleftrightarrow> (case s of None \<Rightarrow> True | Some b \<Rightarrow>
     (case t of None \<Rightarrow> False | Some b' \<Rightarrow> b_updated b \<le> b_updated b'))"

lemma limit_cmd_Inr:
  assumes "bucket_of key cap ms s" "limit_cmd key cap ms s c = Inr t"
  shows "\<exists>b. t = Some b \<and> limit_args_ok key cap ms (fst c) (snd c) \<and> not_before s (snd c)
    \<and> admit_bucket key cap ms (fst c) (snd c) s = Inr b"
  using assms(2) by (auto simp: limit_cmd_def admit_limit_dict_Inr [OF assms(1)])

lemma admit_bucket_later:
  assumes "limit_args_ok key cap ms c now" "bucket_of key cap ms s" "not_before s now"
    "admit_bucket key cap ms c now s = Inr b"
  shows "later s (Some b)"
proof (cases s)
  case (Some p)
  obtain q base where q: "refill cap ms now (Some p) = (q, base)" by fastforce
  have "b_updated b = base" using assms(4) by (auto simp: admit_bucket_def Some q Let_def split: if_splits)
  then show ?thesis using refill_facts(3) [OF _ _ _ _ q] assms(2,3)
    by (auto simp: Some later_def bucket_of_def not_before_def)
qed (simp add: later_def)

interpretation bm: guarded_machine "limit_cmd key cap ms" "bucket_of key cap ms" later for key cap ms
proof
  fix s c t assume *: "bucket_of key cap ms s" "limit_cmd key cap ms s c = Inr t"
  obtain b where b: "t = Some b" "limit_args_ok key cap ms (fst c) (snd c)" "not_before s (snd c)"
    "admit_bucket key cap ms (fst c) (snd c) s = Inr b"
    using limit_cmd_Inr [OF *] by blast
  show "bucket_of key cap ms t" unfolding b(1) by (rule admit_bucket_cases(1) [OF b(2) *(1) b(3,4)])
  show "later s t" unfolding b(1) by (rule admit_bucket_later [OF b(2) *(1) b(3,4)])
qed (auto simp: later_def split: option.splits)

text \<open>The cost admitted along a chain.\<close>

fun admitted :: "string \<Rightarrow> int \<Rightarrow> int \<Rightarrow> bucket option \<Rightarrow> (int \<times> int) list \<Rightarrow> int" where
  "admitted key cap ms s [] = 0"
| "admitted key cap ms s (c # cs) = (case limit_cmd key cap ms s c of
       Inr (Some b) \<Rightarrow> (if b_admit b then fst c else 0) + admitted key cap ms (Some b) cs
     | _ \<Rightarrow> admitted key cap ms s cs)"

lemma admitted_from:
  assumes "bucket_of key cap ms (Some p)" "b_updated p \<le> t1" "\<forall>c \<in> set cs. snd c \<le> t1" "1 \<le> ms"
  shows "(admitted key cap ms (Some p) cs - b_tokens p) * ms \<le> t1 - b_updated p"
  using assms(1-3)
proof (induction cs arbitrary: p)
  case Nil
  have "- b_tokens p * ms \<le> 0"
    using Nil(1) assms(4) by (simp add: bucket_of_def bucket_ok_def mult_nonneg_nonneg)
  then show ?case using Nil(2) by simp
next
  case (Cons c cs)
  show ?case
  proof (cases "limit_cmd key cap ms (Some p) c")
    case (Inl e)
    then show ?thesis using Cons by simp
  next
    case (Inr t)
    obtain b where b: "t = Some b" "limit_args_ok key cap ms (fst c) (snd c)" "not_before (Some p) (snd c)"
      "admit_bucket key cap ms (fst c) (snd c) (Some p) = Inr b"
      using limit_cmd_Inr [OF Cons.prems(1) Inr] by blast
    note f = admit_bucket_cases [OF b(2) Cons.prems(1) b(3,4)]
    have "(admitted key cap ms (Some b) cs - b_tokens b) * ms \<le> t1 - b_updated b"
      using Cons.prems(3) f(1,2) by (intro Cons.IH) auto
    moreover have "(b_tokens b + (if b_admit b then fst c else 0) - b_tokens p) * ms \<le> b_updated b - b_updated p"
      using f(5) by simp
    ultimately show ?thesis using Inr b(1) by (simp add: algebra_simps split: if_splits)
  qed
qed

lemma admitted_fresh:
  assumes "\<forall>c \<in> set cs. t0 \<le> snd c \<and> snd c \<le> t1" "1 \<le> ms" "0 \<le> cap" "t0 \<le> t1"
  shows "(admitted key cap ms None cs - cap) * ms \<le> t1 - t0"
  using assms(1)
proof (induction cs)
  case Nil
  have "- cap * ms \<le> 0" using assms(2,3) by (simp add: mult_nonneg_nonneg)
  then show ?case using assms(4) by simp
next
  case (Cons c cs)
  have none: "bucket_of key cap ms None" by (simp add: bucket_of_def)
  show ?case
  proof (cases "limit_cmd key cap ms None c")
    case (Inl e)
    then show ?thesis using Cons by simp
  next
    case (Inr t)
    obtain b where b: "t = Some b" "limit_args_ok key cap ms (fst c) (snd c)"
      "admit_bucket key cap ms (fst c) (snd c) None = Inr b"
      using limit_cmd_Inr [OF none Inr] by blast
    have nb: "not_before None (snd c)" by (simp add: not_before_def)
    note f = admit_bucket_cases [OF b(2) none nb b(3)]
    have "(admitted key cap ms (Some b) cs - b_tokens b) * ms \<le> t1 - b_updated b"
      using Cons.prems f(1,2) assms(2) by (intro admitted_from) auto
    moreover have "b_admit b" "b_tokens b = cap - fst c" "t0 \<le> b_updated b" using f(5) Cons.prems by auto
    ultimately show ?thesis using Inr b(1) by (simp add: algebra_simps)
  qed
qed

text \<open>C38. Conservation: whatever sequence of requests is made on a fresh bucket between two times,
  the cost it admits is at most the capacity plus the tokens that the time in between is worth.\<close>

theorem limit_conserving:
  assumes "list_all (\<lambda>c. t0 \<le> snd c \<and> snd c \<le> t1) cs" and "1 \<le> ms" and "1 \<le> cap" and "t0 \<le> t1"
  shows "admitted key cap ms None cs \<le> cap + (t1 - t0) div ms"
proof -
  have "(admitted key cap ms None cs - cap) * ms \<le> t1 - t0"
    using assms by (intro admitted_fresh) (auto simp: list_all_iff)
  then have "(admitted key cap ms None cs - cap) * ms div ms \<le> (t1 - t0) div ms"
    using assms(2) by (intro zdiv_mono1) auto
  then show ?thesis using assms(2) by simp
qed

theorem limit_conserving_witness:
  "admitted ''k'' 2 10 None [(2, 0), (1, 5), (1, 12), (1, 13)] \<le> 3"
  using limit_conserving [of 0 13 "[(2, 0), (1, 5), (1, 12), (1, 13)]" 10 2 "''k''"] by simp

text \<open>Every record the limiter returns is trusted by the next call: it passes the integrity check
  and reads back as the same bucket.\<close>

theorem limit_record_trusted:
  assumes "admit v = Inr (b, i)"
  shows "previous_bucket_ok (bucket_dict b i) \<and> read_bucket (bucket_dict b i) = b \<and> i = limit_id b
    \<and> 0 \<le> b_tokens b \<and> b_tokens b \<le> b_capacity b"
proof -
  have "bucket_ok b" "i = limit_id b"
    using admit_accepted [OF assms] admit_bucket_cases(1) by (auto simp: bucket_of_def)
  then show ?thesis using bucket_dict_ok bucket_ok_bounds by simp
qed

text \<open>A bucket of two tokens, spent at time 0; a request for one at time 4 is denied for six more.\<close>

definition sample_bucket :: bucket where
  "sample_bucket = \<lparr>b_key = ''k'', b_capacity = 2, b_refill = 10, b_cost = 2, b_admit = True,
     b_tokens = 0, b_updated = 0, b_retry = None, b_previous = None\<rparr>"

definition sample_denied :: bucket where
  "sample_denied = \<lparr>b_key = ''k'', b_capacity = 2, b_refill = 10, b_cost = 1, b_admit = False,
     b_tokens = 0, b_updated = 0, b_retry = Some 6, b_previous = Some (limit_id sample_bucket)\<rparr>"

lemmas limit_sample_defs = limit_args_ok_def worker_ok_def name_char_def MAX_CAPACITY_def MAX_REFILL_def
  MAX_NOW_def not_before_def

lemma sample_bucket_of: "bucket_of ''k'' 2 10 (Some sample_bucket)"
  by (simp add: bucket_of_def bucket_ok_def sample_bucket_def limit_sample_defs)

lemma sample_admit:
  "admit (PDict 0 (limit_dict ''k'' 2 10 2 0 None)) = Inr (sample_bucket, limit_id sample_bucket)"
  "admit (PDict 0 (limit_dict ''k'' 2 10 1 4 (Some sample_bucket))) = Inr (sample_denied, limit_id sample_denied)"
proof -
  have none: "bucket_of ''k'' 2 10 None" by (simp add: bucket_of_def)
  show "admit (PDict 0 (limit_dict ''k'' 2 10 2 0 None)) = Inr (sample_bucket, limit_id sample_bucket)"
    unfolding admit_limit_dict_Inr [OF none]
    by (simp add: limit_sample_defs sample_bucket_def admit_bucket_def refill_def)
  show "admit (PDict 0 (limit_dict ''k'' 2 10 1 4 (Some sample_bucket))) = Inr (sample_denied, limit_id sample_denied)"
    unfolding admit_limit_dict_Inr [OF sample_bucket_of]
    by (simp add: limit_sample_defs sample_bucket_def sample_denied_def admit_bucket_def refill_def)
qed

theorem limit_record_trusted_witness:
  "previous_bucket_ok (bucket_dict sample_denied (limit_id sample_denied)) \<and> b_tokens sample_denied \<le> 2"
  using limit_record_trusted [OF sample_admit(2)] by (simp add: sample_denied_def)

text \<open>A denial tells exactly how long to wait: the same request made with the record of the
  denial at a later time is admitted exactly if \<open>retry_after_ms\<close> has passed.\<close>

theorem limit_retry_exact:
  assumes "admit (PDict n (limit_dict key cap ms cost now prev)) = Inr (b, i)"
    and "bucket_of key cap ms prev" and "\<not> b_admit b" and "now \<le> t" and "t \<le> MAX_NOW"
  shows "(\<exists>b' j. admit (PDict m (limit_dict key cap ms cost t (Some b))) = Inr (b', j) \<and> b_admit b')
    \<longleftrightarrow> now + the (b_retry b) \<le> t"
proof -
  have a: "limit_args_ok key cap ms cost now" "not_before prev now" "admit_bucket key cap ms cost now prev = Inr b"
    using assms(1) unfolding admit_limit_dict_Inr [OF assms(2)] by auto
  note f = admit_bucket_cases [OF a(1) assms(2) a(2,3)]
  obtain w where w: "b_retry b = Some w" "w = (cost - b_tokens b) * ms - (now - b_updated b)"
    using f(4) assms(3) by blast
  obtain q base where q: "refill cap ms t (Some b) = (q, base)" by fastforce
  have "cost \<le> cap" "0 \<le> t" using a(1) assms(4) by (auto simp: limit_args_ok_def)
  then have "cost \<le> q \<longleftrightarrow> (cost - b_tokens b) * ms \<le> t - b_updated b"
    using f(1,2) assms(4) refill_facts(7) [OF _ _ _ _ q, of cost] by (auto simp: bucket_of_def)
  moreover have "limit_args_ok key cap ms cost t" "not_before (Some b) t"
    using a(1) assms(4,5) f(2) by (simp_all add: limit_args_ok_def not_before_def)
  moreover have "(\<exists>b'. admit_bucket key cap ms cost t (Some b) = Inr b' \<and> b_admit b') \<longleftrightarrow> cost \<le> q"
    by (auto simp: admit_bucket_def q Let_def)
  ultimately have "(\<exists>b' j. admit (PDict m (limit_dict key cap ms cost t (Some b))) = Inr (b', j) \<and> b_admit b')
      \<longleftrightarrow> (cost - b_tokens b) * ms \<le> t - b_updated b"
    unfolding admit_limit_dict_Inr [OF f(1)] by auto
  then show ?thesis using w by auto
qed

theorem limit_retry_exact_witness:
  "\<exists>b' j. admit (PDict 0 (limit_dict ''k'' 2 10 1 10 (Some sample_denied))) = Inr (b', j) \<and> b_admit b'"
  using limit_retry_exact [OF sample_admit(2) sample_bucket_of, of 10 0]
  by (simp add: sample_denied_def MAX_NOW_def)

end
