(* ===== verification/Progress.thy ===== *)
theory Progress
  imports JobRecord
begin

text \<open>
  Progress reports, \<open>src/server/jobs_progress.py\<close> over \<open>src/data/contracts/progress.yaml\<close>: a
  chain of sealed records, each verified by the next call, and what holds along a chain.
\<close>

datatype progress_error = Malformed_progress_request | Corrupt_previous_record | Progress_conflict

fun progress_code :: "progress_error \<Rightarrow> string" where
  "progress_code Malformed_progress_request = ''malformed_request''"
| "progress_code Corrupt_previous_record = ''corrupt_record''"
| "progress_code Progress_conflict = ''progress_conflict''"

definition REPORT_FIELDS :: "string list" where
  "REPORT_FIELDS = [''op'', ''job_id'', ''worker'', ''done'', ''total'', ''now'', ''previous'']"

definition PROGRESS_FIELDS :: "string list" where
  "PROGRESS_FIELDS = [''op'', ''job_id'', ''worker'', ''done'', ''total'', ''percent_bp'',
     ''reported_at'', ''previous_id'', ''progress_id'']"

definition MAX_TOTAL :: int where "MAX_TOTAL = 2 ^ 53 - 1"
definition BP :: int where "BP = 10000"

definition progress_id_ok :: "string \<Rightarrow> bool" where
  "progress_id_ok = tag_grammar ''pg1''"

definition report_request_ok :: "pydict \<Rightarrow> bool" where
  "report_request_ok d \<longleftrightarrow> keys_are d REPORT_FIELDS \<and> fld d ''op'' = PStr ''report''
     \<and> matches job_id_ok (fld d ''job_id'') \<and> matches worker_ok (fld d ''worker'')
     \<and> int_in (fld d ''total'') 1 MAX_TOTAL \<and> int_in (fld d ''done'') 0 (int_of (fld d ''total''))
     \<and> int_in (fld d ''now'') 0 MAX_NOW
     \<and> (fld d ''previous'' = PNone \<or> is_dict (fld d ''previous''))"

record progress =
  g_job :: string
  g_worker :: string
  g_done :: int
  g_total :: int
  g_percent :: int
  g_reported :: int
  g_previous :: "string option"

definition progress_json :: "progress \<Rightarrow> json" where
  "progress_json g = JObj [(''done'', JInt (g_done g)), (''job_id'', JStr (g_job g)),
     (''op'', JStr ''report''), (''percent_bp'', JInt (g_percent g)),
     (''previous_id'', opt_json JStr (g_previous g)), (''reported_at'', JInt (g_reported g)),
     (''total'', JInt (g_total g)), (''worker'', JStr (g_worker g))]"

definition progress_id :: "progress \<Rightarrow> string" where
  "progress_id g = sealed ''pg1'' (canon True (progress_json g))"

definition read_progress :: "pydict \<Rightarrow> progress" where
  "read_progress p = \<lparr>g_job = key_bytes (fld p ''job_id''), g_worker = key_bytes (fld p ''worker''),
     g_done = int_of (fld p ''done''), g_total = int_of (fld p ''total''),
     g_percent = int_of (fld p ''percent_bp''), g_reported = int_of (fld p ''reported_at''),
     g_previous = opt_str (fld p ''previous_id'')\<rparr>"

definition previous_progress_ok :: "pydict \<Rightarrow> bool" where
  "previous_progress_ok p \<longleftrightarrow> keys_are p PROGRESS_FIELDS \<and> fld p ''op'' = PStr ''report''
     \<and> matches job_id_ok (fld p ''job_id'') \<and> matches worker_ok (fld p ''worker'')
     \<and> int_in (fld p ''total'') 1 MAX_TOTAL \<and> int_in (fld p ''done'') 0 (int_of (fld p ''total''))
     \<and> int_in (fld p ''reported_at'') 0 MAX_NOW
     \<and> fld p ''percent_bp'' = PInt (int_of (fld p ''done'') * BP div int_of (fld p ''total''))
     \<and> (fld p ''previous_id'' = PNone \<or> matches progress_id_ok (fld p ''previous_id''))
     \<and> matches progress_id_ok (fld p ''progress_id'')
     \<and> fld p ''progress_id'' = PStr (progress_id (read_progress p))"

definition report_chain_ok :: "pydict \<Rightarrow> bool" where
  "report_chain_ok d = (let prev = items (fld d ''previous'') in
     fld d ''job_id'' = fld prev ''job_id'' \<and> fld d ''worker'' = fld prev ''worker''
     \<and> fld d ''total'' = fld prev ''total'' \<and> int_of (fld prev ''done'') < int_of (fld prev ''total'')
     \<and> int_of (fld d ''done'') \<ge> int_of (fld prev ''done'')
     \<and> int_of (fld d ''now'') \<ge> int_of (fld prev ''reported_at''))"

definition report :: "pyval \<Rightarrow> (progress_error, progress \<times> string) result" where
  "report v = (case v of PDict _ d \<Rightarrow>
     require (report_request_ok d) Malformed_progress_request
     (require (\<not> (fld d ''previous'' \<noteq> PNone \<and> \<not> previous_progress_ok (items (fld d ''previous''))))
       Corrupt_previous_record
     (require (\<not> (fld d ''previous'' \<noteq> PNone \<and> \<not> report_chain_ok d)) Progress_conflict
     (let done = int_of (fld d ''done''); total = int_of (fld d ''total'');
          g = \<lparr>g_job = key_bytes (fld d ''job_id''), g_worker = key_bytes (fld d ''worker''),
            g_done = done, g_total = total, g_percent = done * BP div total,
            g_reported = int_of (fld d ''now''),
            g_previous = (if fld d ''previous'' = PNone then None
              else Some (progress_id (read_progress (items (fld d ''previous'')))))\<rparr>
      in Inr (g, progress_id g))))
   | _ \<Rightarrow> Inl Malformed_progress_request)"

subsection \<open>Sealed records\<close>

definition progress_ok :: "progress \<Rightarrow> bool" where
  "progress_ok g \<longleftrightarrow> job_id_ok (g_job g) \<and> worker_ok (g_worker g) \<and> 1 \<le> g_total g \<and> g_total g \<le> MAX_TOTAL
     \<and> 0 \<le> g_done g \<and> g_done g \<le> g_total g \<and> g_percent g = g_done g * BP div g_total g
     \<and> 0 \<le> g_reported g \<and> g_reported g \<le> MAX_NOW
     \<and> (case g_previous g of None \<Rightarrow> True | Some i \<Rightarrow> progress_id_ok i)"

definition progress_dict :: "progress \<Rightarrow> string \<Rightarrow> pydict" where
  "progress_dict g i = [(PStr ''op'', PStr ''report''), (PStr ''job_id'', PStr (g_job g)),
     (PStr ''worker'', PStr (g_worker g)), (PStr ''done'', PInt (g_done g)), (PStr ''total'', PInt (g_total g)),
     (PStr ''percent_bp'', PInt (g_percent g)), (PStr ''reported_at'', PInt (g_reported g)),
     (PStr ''previous_id'', opt_py PStr (g_previous g)), (PStr ''progress_id'', PStr i)]"

lemma progress_id_grammar [simp]: "progress_id_ok (progress_id g)"
  by (simp add: progress_id_ok_def progress_id_def)

lemma read_progress_dict: "read_progress (progress_dict g i) = g"
  by (cases g) (simp add: read_progress_def progress_dict_def)

lemma previous_progress_ok_progress:
  assumes "previous_progress_ok p"
  shows "progress_ok (read_progress p)"
proof -
  obtain k w t c u where f: "fld p ''job_id'' = PStr k" "fld p ''worker'' = PStr w"
      "fld p ''total'' = PInt t" "fld p ''done'' = PInt c" "fld p ''reported_at'' = PInt u"
    using assms unfolding previous_progress_ok_def int_in_iff matches_iff by blast
  then show ?thesis using assms
    by (cases "fld p ''previous_id''") (simp_all add: progress_ok_def read_progress_def previous_progress_ok_def f)
qed

lemma progress_dict_ok:
  assumes "progress_ok g"
  shows "previous_progress_ok (progress_dict g (progress_id g))"
proof -
  have "keys_are (progress_dict g (progress_id g)) PROGRESS_FIELDS"
    by (auto simp: keys_are_def progress_dict_def PROGRESS_FIELDS_def)
  then show ?thesis using assms unfolding previous_progress_ok_def read_progress_dict
    by (cases "g_previous g") (simp_all add: progress_dict_def progress_ok_def)
qed

interpretation gr: sealed_record previous_progress_ok read_progress progress_dict progress_id progress_ok
  by unfold_locales (simp_all add: previous_progress_ok_progress progress_dict_ok read_progress_dict)

subsection \<open>A chain of reports\<close>

record progress_update =
  u_job :: string
  u_worker :: string
  u_done :: int
  u_total :: int
  u_now :: int

text \<open>The caller's request for an update, with the record of the previous report.\<close>

definition report_dict :: "progress_update \<Rightarrow> progress option \<Rightarrow> pydict" where
  "report_dict u prev = [(PStr ''op'', PStr ''report''), (PStr ''job_id'', PStr (u_job u)),
     (PStr ''worker'', PStr (u_worker u)), (PStr ''done'', PInt (u_done u)), (PStr ''total'', PInt (u_total u)),
     (PStr ''now'', PInt (u_now u)), (PStr ''previous'', gr.previous_value prev)]"

definition report_cmd :: "progress option \<Rightarrow> progress_update \<Rightarrow> (progress_error, progress option) result" where
  "report_cmd prev u = and_then (report (PDict 0 (report_dict u prev))) (\<lambda>(g, _). Inr (Some g))"

definition update_ok :: "progress_update \<Rightarrow> bool" where
  "update_ok u \<longleftrightarrow> job_id_ok (u_job u) \<and> worker_ok (u_worker u) \<and> 1 \<le> u_total u \<and> u_total u \<le> MAX_TOTAL
     \<and> 0 \<le> u_done u \<and> u_done u \<le> u_total u \<and> 0 \<le> u_now u \<and> u_now u \<le> MAX_NOW"

definition progress_state_ok :: "progress option \<Rightarrow> bool" where
  "progress_state_ok s \<longleftrightarrow> (case s of None \<Rightarrow> True | Some g \<Rightarrow> progress_ok g)"

text \<open>How the record of a chain may change: towards completion, and then no more.\<close>

definition advances :: "progress option \<Rightarrow> progress option \<Rightarrow> bool" where
  "advances s t \<longleftrightarrow> (case s of None \<Rightarrow> True | Some p \<Rightarrow> (case t of None \<Rightarrow> False | Some g \<Rightarrow>
     g_job g = g_job p \<and> g_worker g = g_worker p \<and> g_total g = g_total p \<and> g_done p \<le> g_done g
     \<and> g_percent p \<le> g_percent g \<and> g_reported p \<le> g_reported g
     \<and> (g_done p = g_total p \<longrightarrow> g = p)))"

lemma report_accepted:
  assumes "report (PDict n d) = Inr (g, i)"
  shows "progress_ok g \<and> i = progress_id g
    \<and> (fld d ''previous'' \<noteq> PNone \<longrightarrow> advances (Some (read_progress (items (fld d ''previous'')))) (Some g))"
proof -
  have r: "report_request_ok d" "fld d ''previous'' \<noteq> PNone \<Longrightarrow>
      previous_progress_ok (items (fld d ''previous'')) \<and> report_chain_ok d" "i = progress_id g"
    and g: "g = \<lparr>g_job = key_bytes (fld d ''job_id''), g_worker = key_bytes (fld d ''worker''),
      g_done = int_of (fld d ''done''), g_total = int_of (fld d ''total''),
      g_percent = int_of (fld d ''done'') * BP div int_of (fld d ''total''), g_reported = int_of (fld d ''now''),
      g_previous = (if fld d ''previous'' = PNone then None
        else Some (progress_id (read_progress (items (fld d ''previous'')))))\<rparr>"
    using assms by (auto simp: report_def Let_def)
  obtain k w t c u where f: "fld d ''job_id'' = PStr k" "fld d ''worker'' = PStr w"
      "fld d ''total'' = PInt t" "fld d ''done'' = PInt c" "fld d ''now'' = PInt u"
    using r(1) unfolding report_request_ok_def int_in_iff matches_iff by blast
  have ok: "progress_ok g" using r(1) by (simp add: progress_ok_def g f report_request_ok_def)
  let ?p = "items (fld d ''previous'')"
  have "advances (Some (read_progress ?p)) (Some g)" if "fld d ''previous'' \<noteq> PNone"
  proof -
    have p: "previous_progress_ok ?p" "report_chain_ok d" using r(2) that by auto
    obtain c0 u0 where q: "fld ?p ''done'' = PInt c0" "fld ?p ''reported_at'' = PInt u0"
      using p(1) unfolding previous_progress_ok_def int_in_iff by blast
    have e: "fld ?p ''job_id'' = PStr k" "fld ?p ''worker'' = PStr w" "fld ?p ''total'' = PInt t"
      using p(2) by (simp_all add: report_chain_ok_def Let_def flip: f(1-3))
    have "fld ?p ''percent_bp'' = PInt (c0 * BP div t)" using p(1) by (simp add: previous_progress_ok_def q e)
    moreover have "c0 < t" "c0 \<le> c" "u0 \<le> u"
      using p(2) by (simp_all add: report_chain_ok_def Let_def q e f)
    moreover have "c0 * BP div t \<le> c * BP div t"
      using calculation ok by (intro zdiv_mono1) (simp_all add: BP_def progress_ok_def g f)
    ultimately show ?thesis by (simp add: advances_def read_progress_def g f q e)
  qed
  then show ?thesis using ok r(3) by blast
qed

interpretation gm: guarded_machine report_cmd progress_state_ok advances
proof
  fix s u t assume s: "progress_state_ok s" and r: "report_cmd s u = Inr t"
  obtain g i where g: "t = Some g" "report (PDict 0 (report_dict u s)) = Inr (g, i)"
    using r by (auto simp: report_cmd_def)
  note a = report_accepted [OF g(2)]
  show "progress_state_ok t" using a by (simp add: g(1) progress_state_ok_def)
  show "advances s t"
    using a by (cases s)
      (simp_all add: g(1) report_dict_def gr.previous_value_def read_progress_dict advances_def)
qed (auto simp: advances_def split: option.splits)

definition sample_update :: progress_update where
  "sample_update = \<lparr>u_job = ''job1:'' @ replicate 64 CHR ''a'', u_worker = ''w'', u_done = 2, u_total = 3,
     u_now = 50\<rparr>"

definition sample_progress :: progress where
  "sample_progress = \<lparr>g_job = ''job1:'' @ replicate 64 CHR ''a'', g_worker = ''w'', g_done = 2, g_total = 3,
     g_percent = 6666, g_reported = 50, g_previous = None\<rparr>"

lemma sample_report:
  "report (PDict 0 (report_dict sample_update None)) = Inr (sample_progress, progress_id sample_progress)"
  by (simp add: report_def report_dict_def sample_update_def sample_progress_def report_request_ok_def
      gr.previous_value_def keys_are_def REPORT_FIELDS_def job_id_ok_def tag_grammar_def is_hex_def list_all_iff
      worker_ok_def name_char_def MAX_TOTAL_def MAX_NOW_def BP_def insert_commute Let_def)

text \<open>Along any sequence of reports that follows a record, whatever is asked, done, percent and
  time never decrease, job, worker and total stay, and a completed record is never replaced.\<close>

theorem progress_monotone:
  assumes "report v = Inr (p, i)"
  shows "\<exists>g. run report_cmd (Some p) us = Some g \<and> g_job g = g_job p \<and> g_worker g = g_worker p
    \<and> g_total g = g_total p \<and> g_done p \<le> g_done g \<and> g_percent p \<le> g_percent g
    \<and> g_reported p \<le> g_reported g \<and> (g_done p < g_total p \<or> g = p)"
proof -
  obtain n d where "v = PDict n d" using assms by (auto simp: report_def split: pyval.splits)
  then have ok: "progress_ok p" using report_accepted assms by blast
  then have "advances (Some p) (run report_cmd (Some p) us)"
    by (intro gm.run_le) (simp add: progress_state_ok_def)
  then show ?thesis using ok by (auto simp: advances_def progress_ok_def split: option.splits)
qed

theorem progress_monotone_witness:
  "\<exists>g. run report_cmd (Some sample_progress) [sample_update\<lparr>u_done := 1\<rparr>] = Some g \<and> 2 \<le> g_done g"
  using progress_monotone [OF sample_report, of "[sample_update\<lparr>u_done := 1\<rparr>]"]
  by (auto simp: sample_progress_def)

text \<open>The percentage of a returned record is within 0 and 10000 basis points, is 10000 exactly
  on completion, and the record is trusted by the next call and reads back the same.\<close>

theorem progress_percent:
  assumes "report v = Inr (g, i)"
  shows "0 \<le> g_percent g \<and> g_percent g \<le> BP \<and> (g_percent g = BP \<longleftrightarrow> g_done g = g_total g)
    \<and> previous_progress_ok (progress_dict g i) \<and> read_progress (progress_dict g i) = g"
proof -
  obtain n d where "v = PDict n d" using assms by (auto simp: report_def split: pyval.splits)
  then have ok: "progress_ok g" "i = progress_id g" using report_accepted assms by auto
  have t: "0 < g_total g" "0 \<le> g_done g" "g_done g \<le> g_total g" "g_percent g = g_done g * BP div g_total g"
    using ok(1) by (simp_all add: progress_ok_def)
  have "g_percent g \<le> g_total g * BP div g_total g" unfolding t(4)
    using t by (intro zdiv_mono1 mult_right_mono) (simp_all add: BP_def)
  moreover have "0 \<le> g_percent g" using t by (simp add: BP_def pos_imp_zdiv_nonneg_iff)
  moreover have "BP \<le> g_percent g \<longleftrightarrow> g_total g \<le> g_done g"
  proof -
    have "BP \<le> g_done g * BP div g_total g \<longleftrightarrow> BP * g_total g \<le> g_done g * BP"
      using t(1) by (intro le_div_int) simp
    then show ?thesis by (simp add: t(4) BP_def)
  qed
  moreover have "g_total g * BP div g_total g = BP" using t(1) by simp
  ultimately have "0 \<le> g_percent g \<and> g_percent g \<le> BP \<and> (g_percent g = BP \<longleftrightarrow> g_done g = g_total g)"
    using t(3) by linarith
  then show ?thesis using progress_dict_ok [OF ok(1)] by (simp add: ok(2) read_progress_dict)
qed

theorem progress_percent_witness:
  "0 \<le> g_percent sample_progress \<and> g_percent sample_progress < BP"
  using progress_percent [OF sample_report] by (simp add: sample_progress_def BP_def)

end
