(* ===== verification/Cancel.thy ===== *)
theory Cancel
  imports QueueProps
begin

text \<open>
  Cancellation decisions, \<open>src/server/jobs_cancel.py\<close> over \<open>src/data/contracts/cancel.yaml\<close>. The
  runtime has its own copy of the queue's job validation, for one job on its own;
  \<open>cancel_admits_queue_jobs\<close> shows that it admits exactly the jobs the queue would.
\<close>

datatype cancel_error = Malformed_cancel_request | Corrupt_job | Job_not_cancellable

fun cancel_code :: "cancel_error \<Rightarrow> string" where
  "cancel_code Malformed_cancel_request = ''malformed_request''"
| "cancel_code Corrupt_job = ''corrupt_job''"
| "cancel_code Job_not_cancellable = ''job_not_cancellable''"

definition CANCEL_FIELDS :: "string list" where
  "CANCEL_FIELDS = [''op'', ''job'', ''requester'', ''now'']"

definition CANCELLABLE :: "string list" where
  "CANCELLABLE = [''ready'', ''leased'']"

definition MAX_SEQ :: int where "MAX_SEQ = 2 ^ 53 - 2"

text \<open>The walk starts with no container met.\<close>

definition lone_payload_ok :: "pyval \<Rightarrow> bool" where
  "lone_payload_ok v \<longleftrightarrow> payload_ok v [] \<noteq> None"

definition lone_job_ok :: "pydict \<Rightarrow> bool" where
  "lone_job_ok job = (let status = fld job ''status''; attempts = fld job ''attempts'';
       owner = fld job ''lease_owner''; expires = fld job ''lease_expires_at'' in
     if \<not> keys_are job JOB_FIELDS then False
     else if \<not> (matches job_id_ok (fld job ''job_id'') \<and> int_in (fld job ''seq'') 0 MAX_SEQ
         \<and> int_in (fld job ''priority'') 0 MAX_PRIORITY \<and> read_status status \<noteq> None
         \<and> int_in attempts 0 MAX_ATTEMPTS) then False
     else if status = PStr ''leased''
         \<and> \<not> (matches worker_ok owner \<and> int_in expires 1 MAX_NOW \<and> int_of attempts \<ge> 1) then False
     else if status \<noteq> PStr ''leased'' \<and> (owner \<noteq> PNone \<or> expires \<noteq> PNone) then False
     else if status = PStr ''dead'' \<and> int_of attempts \<noteq> MAX_ATTEMPTS then False
     else if status = PStr ''done'' \<and> int_of attempts < 1 then False
     else lone_payload_ok (fld job ''payload''))"

definition cancel_request_ok :: "pydict \<Rightarrow> bool" where
  "cancel_request_ok d \<longleftrightarrow> keys_are d CANCEL_FIELDS \<and> fld d ''op'' = PStr ''cancel''
     \<and> is_dict (fld d ''job'') \<and> matches worker_ok (fld d ''requester'') \<and> int_in (fld d ''now'') 0 MAX_NOW"

record cancellation =
  c_job_id :: string
  c_seq :: int
  c_priority :: int
  c_payload_digest :: string
  c_status_before :: string
  c_attempts :: int
  c_requester :: string
  c_cancelled_at :: int

definition cancellation_json :: "cancellation \<Rightarrow> json" where
  "cancellation_json c = JObj [(''attempts'', JInt (c_attempts c)), (''cancelled_at'', JInt (c_cancelled_at c)),
     (''job_id'', JStr (c_job_id c)), (''op'', JStr ''cancel''), (''payload_digest'', JStr (c_payload_digest c)),
     (''priority'', JInt (c_priority c)), (''requester'', JStr (c_requester c)), (''seq'', JInt (c_seq c)),
     (''status_before'', JStr (c_status_before c))]"

definition payload_digest :: "json \<Rightarrow> string" where
  "payload_digest body = sealed ''pd1'' (canon True body)"

definition cancel :: "pyval \<Rightarrow> (cancel_error, cancellation \<times> string) result" where
  "cancel v = (case v of PDict _ d \<Rightarrow> (let job = items (fld d ''job'') in
     require (cancel_request_ok d) Malformed_cancel_request
     (require (lone_job_ok job) Corrupt_job
     (require (\<not> key_bytes (fld job ''status'') \<notin> set CANCELLABLE) Job_not_cancellable
     (let c = \<lparr>c_job_id = key_bytes (fld job ''job_id''), c_seq = int_of (fld job ''seq''),
          c_priority = int_of (fld job ''priority''), c_payload_digest = payload_digest (detach (fld job ''payload'')),
          c_status_before = key_bytes (fld job ''status''), c_attempts = int_of (fld job ''attempts''),
          c_requester = key_bytes (fld d ''requester''), c_cancelled_at = int_of (fld d ''now'')\<rparr>
      in Inr (c, sealed ''cd1'' (canon True (cancellation_json c)))))))
   | _ \<Rightarrow> Inl Malformed_cancel_request)"

subsection \<open>One job on its own\<close>

lemma read_status_leased: "read_status v = Some st \<Longrightarrow>
    (v = PStr ''leased'' \<longleftrightarrow> st = Leased) \<and> (v = PStr ''dead'' \<longleftrightarrow> st = Dead) \<and> (v = PStr ''done'' \<longleftrightarrow> st = Done)
    \<and> v = PStr (status_text st)"
  by (auto simp: read_status_def split: pyval.splits if_splits)

lemma lone_job_ok_iff:
  "lone_job_ok d \<longleftrightarrow> keys_are d JOB_FIELDS \<and> matches job_id_ok (fld d ''job_id'')
     \<and> (\<exists>j v. job_ok d 0 MAX_NOW [] = Some (j, v))"
proof (cases "read_status (fld d ''status'')")
  case None
  then show ?thesis by (simp add: lone_job_ok_def job_ok_Some Let_def)
next
  case (Some st)
  note st = read_status_leased [OF Some]
  have bound: "MAX_NOW - 1 = MAX_SEQ" by (simp add: MAX_NOW_def MAX_SEQ_def)
  have "(\<exists>j v. job_ok d 0 MAX_NOW [] = Some (j, v)) \<longleftrightarrow>
      int_in (fld d ''seq'') 0 MAX_SEQ \<and> int_in (fld d ''priority'') 0 MAX_PRIORITY
      \<and> int_in (fld d ''attempts'') 0 MAX_ATTEMPTS \<and> payload_ok (fld d ''payload'') [] \<noteq> None
      \<and> lease_ok st (fld d ''lease_owner'') (fld d ''lease_expires_at'') (int_of (fld d ''attempts''))
      \<and> (st = Dead \<longrightarrow> int_of (fld d ''attempts'') = MAX_ATTEMPTS)
      \<and> (st = Done \<longrightarrow> 1 \<le> int_of (fld d ''attempts''))"
    unfolding job_ok_Some bound by (simp add: Some)
  then show ?thesis
    using Some st unfolding lone_job_ok_def lease_ok_def lone_payload_ok_def Let_def
    by (cases st; simp add: not_less; blast)
qed

text \<open>The validation of a job on its own agrees with the queue's: it admits a job exactly if the
  queue admits the state that has this job only.\<close>

theorem lone_job_agrees:
  "lone_job_ok d \<longleftrightarrow> accepts (check_state (PDict n [(PStr ''jobs'', PList m [PDict k d]),
     (PStr ''next_seq'', PInt (int_of (fld d ''seq'') + 1))]))"
proof -
  let ?s = "int_of (fld d ''seq'')"
  have b: "(\<exists>j v. job_ok d 0 MAX_NOW [] = Some (j, v)) \<longleftrightarrow>
      (\<exists>j v. job_ok d 0 (?s + 1) [] = Some (j, v)) \<and> ?s + 1 \<le> MAX_NOW"
    unfolding job_ok_Some by (auto simp: int_in_iff)
  have s: "0 \<le> ?s + 1" if "job_ok d 0 (?s + 1) [] = Some (j, v)" for j v
    using that unfolding job_ok_Some by (auto simp: int_in_iff)
  have "accepts (check_jobs [PDict k d] [] [] 0 (?s + 1)) \<longleftrightarrow> keys_are d JOB_FIELDS
      \<and> matches job_id_ok (fld d ''job_id'') \<and> (\<exists>j v. job_ok d 0 (?s + 1) [] = Some (j, v))"
    by (auto simp: accepts_iff split: option.splits)
  then show ?thesis unfolding lone_job_ok_iff b using s
    by (auto simp: check_state_def keys_are_def STATE_FIELDS_def accepts_iff MAX_JOBS_def insert_commute)
qed

text \<open>A job of a valid state, as a caller reads it from the queue.\<close>

definition job_value :: "job \<Rightarrow> pyval" where
  "job_value j = fst (loads (job_json j) 1)"

lemma job_value_facts:
  assumes "queue_ok q" "j \<in> set (jobs q)"
  obtains m d where "job_value j = PDict m d" "lone_job_ok d" "fld d ''job_id'' = PStr (job_id j)"
    "fld d ''seq'' = PInt (seq j)" "fld d ''priority'' = PInt (priority j)" "fld d ''attempts'' = PInt (attempts j)"
    "fld d ''status'' = PStr (status_text (status j))" "detach (fld d ''payload'') = payload j"
proof -
  obtain body m where l: "loads (payload j) (Suc 1) = (body, m)" by fastforce
  have inv: "job_inv (next_seq q) j" "next_seq q \<le> MAX_NOW"
    using assms by (auto simp: queue_ok_def list_all_iff)
  then have i: "job_inv MAX_NOW j" "0 \<le> seq j" by (auto simp: job_inv_def)
  obtain vis where "job_ok (job_dict j body) 0 MAX_NOW [] = Some (j, vis)"
    using job_ok_loads [OF i, of "[]" 1 body m] l by auto
  then have "lone_job_ok (job_dict j body)"
    unfolding lone_job_ok_iff using job_dict_keys i(1) by (auto simp: job_dict_def job_inv_def)
  moreover have "detach body = payload j"
    using loads_facts(1) [OF l, of 1] i(1) by (simp add: job_inv_def)
  ultimately show ?thesis
    using that [of 1 "job_dict j body"] l by (simp add: job_value_def loads_job job_dict_def)
qed

definition cancel_dict :: "string \<Rightarrow> int \<Rightarrow> pyval \<Rightarrow> pydict" where
  "cancel_dict w now job = [(PStr ''op'', PStr ''cancel''), (PStr ''job'', job), (PStr ''requester'', PStr w),
     (PStr ''now'', PInt now)]"

lemma cancel_dict_request:
  "cancel_request_ok (cancel_dict w now (PDict m d)) \<longleftrightarrow> worker_ok w \<and> 0 \<le> now \<and> now \<le> MAX_NOW"
  by (auto simp: cancel_request_ok_def cancel_dict_def keys_are_def CANCEL_FIELDS_def)

lemma cancel_of_job:
  assumes "queue_ok q" and "j \<in> set (jobs q)"
  shows "map_sum id fst (cancel (PDict 0 (cancel_dict w now (job_value j)))) =
    require (worker_ok w \<and> 0 \<le> now \<and> now \<le> MAX_NOW) Malformed_cancel_request
    (require (status j = Ready \<or> status j = Leased) Job_not_cancellable
    (Inr \<lparr>c_job_id = job_id j, c_seq = seq j, c_priority = priority j,
       c_payload_digest = payload_digest (payload j), c_status_before = status_text (status j),
       c_attempts = attempts j, c_requester = w, c_cancelled_at = now\<rparr>))"
proof -
  obtain m d where d: "job_value j = PDict m d" "lone_job_ok d" "fld d ''job_id'' = PStr (job_id j)"
    "fld d ''seq'' = PInt (seq j)" "fld d ''priority'' = PInt (priority j)" "fld d ''attempts'' = PInt (attempts j)"
    "fld d ''status'' = PStr (status_text (status j))" "detach (fld d ''payload'') = payload j"
    using job_value_facts [OF assms] by metis
  have f: "fld (cancel_dict w now (PDict m d)) ''job'' = PDict m d"
    "fld (cancel_dict w now (PDict m d)) ''requester'' = PStr w"
    "fld (cancel_dict w now (PDict m d)) ''now'' = PInt now"
    by (simp_all add: cancel_dict_def)
  have c: "status_text s \<in> set CANCELLABLE \<longleftrightarrow> s = Ready \<or> s = Leased" for s
    by (cases s) (simp_all add: CANCELLABLE_def)
  show ?thesis unfolding d(1)
    by (simp add: cancel_def cancel_dict_request f d(2-8) c Let_def require_def)
qed

text \<open>The outcome of a cancellation request for a job of a valid queue state: it is recorded
  exactly if the job is ready or leased, with the job's content and a digest of its payload; a done
  or dead job is refused as such.\<close>

theorem cancel_outcome:
  assumes "check_state st = Inr q" and "j \<in> set (jobs q)"
  shows "map_sum id fst (cancel (PDict 0 (cancel_dict w now (job_value j)))) =
    require (worker_ok w \<and> 0 \<le> now \<and> now \<le> MAX_NOW) Malformed_cancel_request
    (require (status j = Ready \<or> status j = Leased) Job_not_cancellable
    (Inr \<lparr>c_job_id = job_id j, c_seq = seq j, c_priority = priority j,
       c_payload_digest = payload_digest (payload j), c_status_before = status_text (status j),
       c_attempts = attempts j, c_requester = w, c_cancelled_at = now\<rparr>))"
  by (rule cancel_of_job [OF check_state_ok [OF assms(1)] assms(2)])

theorem cancel_outcome_witness:
  "accepts (map_sum id fst (cancel (PDict 0 (cancel_dict ''w'' 7
     (job_value (sample_job CHR ''b'' 1 5 Leased 1 (Some (''w'', 100)))))))) = True"
  using cancel_outcome [OF sample_state, of "sample_job CHR ''b'' 1 5 Leased 1 (Some (''w'', 100))" "''w''" 7]
  by (simp add: sample_queue_def sample_job_def worker_ok_def name_char_def MAX_NOW_def)

end
