(* ===== verification/DeadLetter.thy ===== *)
theory DeadLetter
  imports Cancel
begin

text \<open>
  Burial of dead jobs, \<open>src/server/jobs_dead_letter.py\<close> over
  \<open>src/data/contracts/dead_letter.yaml\<close>; its validation of a job is the same text as the
  cancellation's.
\<close>

datatype bury_error = Malformed_bury_request | Corrupt_dead_job | Job_not_dead

fun bury_code :: "bury_error \<Rightarrow> string" where
  "bury_code Malformed_bury_request = ''malformed_request''"
| "bury_code Corrupt_dead_job = ''corrupt_job''"
| "bury_code Job_not_dead = ''job_not_dead''"

definition BURY_FIELDS :: "string list" where
  "BURY_FIELDS = [''op'', ''job'', ''reason'', ''now'']"

definition REASONS :: "string list" where
  "REASONS = [''exhausted'', ''permanent'']"

definition bury_payload_ok :: "pyval \<Rightarrow> bool" where
  "bury_payload_ok v \<longleftrightarrow> payload_walk [(v, 1)] [] \<noteq> None"

definition bury_job_ok :: "pydict \<Rightarrow> bool" where
  "bury_job_ok job = (let status = fld job ''status''; attempts = fld job ''attempts'' in
     keys_are job JOB_FIELDS
     \<and> matches job_id_ok (fld job ''job_id'') \<and> int_in (fld job ''seq'') 0 MAX_SEQ
     \<and> int_in (fld job ''priority'') 0 MAX_PRIORITY \<and> read_status status \<noteq> None
     \<and> int_in attempts 0 MAX_ATTEMPTS
     \<and> (if status = PStr ''leased'' then matches worker_ok (fld job ''lease_owner'')
          \<and> int_in (fld job ''lease_expires_at'') 1 MAX_NOW \<and> int_of attempts \<ge> 1
        else fld job ''lease_owner'' = PNone \<and> fld job ''lease_expires_at'' = PNone)
     \<and> \<not> (status = PStr ''dead'' \<and> int_of attempts \<noteq> MAX_ATTEMPTS)
     \<and> \<not> (status = PStr ''done'' \<and> int_of attempts < 1)
     \<and> bury_payload_ok (fld job ''payload''))"

definition bury_request_ok :: "pydict \<Rightarrow> bool" where
  "bury_request_ok d \<longleftrightarrow> keys_are d BURY_FIELDS \<and> fld d ''op'' = PStr ''bury''
     \<and> is_dict (fld d ''job'') \<and> matches (\<lambda>s. s \<in> set REASONS) (fld d ''reason'')
     \<and> int_in (fld d ''now'') 0 MAX_NOW"

record burial =
  e_job_id :: string
  e_seq :: int
  e_priority :: int
  e_payload_digest :: string
  e_attempts :: int
  e_reason :: string
  e_buried_at :: int

definition burial_json :: "burial \<Rightarrow> json" where
  "burial_json e = JObj [(''attempts'', JInt (e_attempts e)), (''buried_at'', JInt (e_buried_at e)),
     (''job_id'', JStr (e_job_id e)), (''op'', JStr ''bury''), (''payload_digest'', JStr (e_payload_digest e)),
     (''priority'', JInt (e_priority e)), (''reason'', JStr (e_reason e)), (''seq'', JInt (e_seq e))]"

definition bury_digest :: "string \<Rightarrow> json \<Rightarrow> string" where
  "bury_digest prefix value = sealed prefix (canon True value)"

definition bury :: "pyval \<Rightarrow> (bury_error, burial \<times> string) result" where
  "bury v = (case v of PDict _ d \<Rightarrow> (let job = items (fld d ''job'') in
     require (bury_request_ok d) Malformed_bury_request
     (require (bury_job_ok job) Corrupt_dead_job
     (require (fld job ''status'' = PStr ''dead'') Job_not_dead
     (let e = \<lparr>e_job_id = key_bytes (fld job ''job_id''), e_seq = int_of (fld job ''seq''),
          e_priority = int_of (fld job ''priority''),
          e_payload_digest = bury_digest ''pd1'' (detach (fld job ''payload'')),
          e_attempts = int_of (fld job ''attempts''), e_reason = key_bytes (fld d ''reason''),
          e_buried_at = int_of (fld d ''now'')\<rparr>
      in Inr (e, bury_digest ''dl1'' (burial_json e))))))
   | _ \<Rightarrow> Inl Malformed_bury_request)"

lemma bury_job_ok_lone: "bury_job_ok d = lone_job_ok d"
  unfolding bury_job_ok_def lone_job_ok_def lone_payload_ok_def bury_payload_ok_def payload_ok_def Let_def
  by (auto simp: not_less)

definition bury_dict :: "string \<Rightarrow> int \<Rightarrow> pyval \<Rightarrow> pydict" where
  "bury_dict why now job = [(PStr ''op'', PStr ''bury''), (PStr ''job'', job), (PStr ''reason'', PStr why),
     (PStr ''now'', PInt now)]"

lemma bury_dict_request:
  "bury_request_ok (bury_dict why now (PDict m d)) \<longleftrightarrow> why \<in> set REASONS \<and> 0 \<le> now \<and> now \<le> MAX_NOW"
  by (auto simp: bury_request_ok_def bury_dict_def keys_are_def BURY_FIELDS_def)

text \<open>What a job of a valid state gives.\<close>

lemma bury_outcome:
  assumes "queue_ok q" and "j \<in> set (jobs q)"
  shows "map_sum id fst (bury (PDict 0 (bury_dict why now (job_value j)))) =
    require (why \<in> set REASONS \<and> 0 \<le> now \<and> now \<le> MAX_NOW) Malformed_bury_request
    (require (status j = Dead) Job_not_dead
    (Inr \<lparr>e_job_id = job_id j, e_seq = seq j, e_priority = priority j,
       e_payload_digest = payload_digest (payload j), e_attempts = attempts j, e_reason = why, e_buried_at = now\<rparr>))"
proof -
  obtain m d where d: "job_value j = PDict m d" "lone_job_ok d" "fld d ''job_id'' = PStr (job_id j)"
    "fld d ''seq'' = PInt (seq j)" "fld d ''priority'' = PInt (priority j)" "fld d ''attempts'' = PInt (attempts j)"
    "fld d ''status'' = PStr (status_text (status j))" "detach (fld d ''payload'') = payload j"
    using job_value_facts [OF assms] by metis
  have f: "fld (bury_dict why now (PDict m d)) ''job'' = PDict m d"
    "fld (bury_dict why now (PDict m d)) ''reason'' = PStr why"
    "fld (bury_dict why now (PDict m d)) ''now'' = PInt now"
    by (simp_all add: bury_dict_def)
  have c: "status_text s = ''dead'' \<longleftrightarrow> s = Dead" for s by (cases s) simp_all
  show ?thesis unfolding d(1)
    by (simp add: bury_def bury_dict_request f bury_job_ok_lone d(2-8) c Let_def require_def bury_digest_def
        payload_digest_def)
qed

text \<open>After any sequence of requests a job of the queue is either cancellable, buriable, or done,
  never two of these, the dead ones at the last attempt; and the two records of one payload carry
  the same digest.\<close>

theorem cancel_bury_partition:
  assumes "check_state st = Inr q" and "j \<in> set (jobs (run queue_cmd q vs))"
    and "worker_ok w" and "why \<in> set REASONS" and "0 \<le> now" and "now \<le> MAX_NOW"
  shows "(case status j of Done \<Rightarrow> cancel (PDict 0 (cancel_dict w now (job_value j))) = Inl Job_not_cancellable
         \<and> bury (PDict 0 (bury_dict why now (job_value j))) = Inl Job_not_dead
     | Dead \<Rightarrow> cancel (PDict 0 (cancel_dict w now (job_value j))) = Inl Job_not_cancellable
         \<and> (\<exists>e i. bury (PDict 0 (bury_dict why now (job_value j))) = Inr (e, i) \<and> e_attempts e = MAX_ATTEMPTS
           \<and> e_payload_digest e = payload_digest (payload j))
     | _ \<Rightarrow> bury (PDict 0 (bury_dict why now (job_value j))) = Inl Job_not_dead
         \<and> (\<exists>c i. cancel (PDict 0 (cancel_dict w now (job_value j))) = Inr (c, i)
           \<and> c_payload_digest c = payload_digest (payload j)))"
proof -
  let ?c = "cancel (PDict 0 (cancel_dict w now (job_value j)))"
  let ?b = "bury (PDict 0 (bury_dict why now (job_value j)))"
  have ok: "queue_ok (run queue_cmd q vs)" by (rule qm.run_inv [OF check_state_ok [OF assms(1)]])
  have c: "map_sum id fst ?c = require (status j = Ready \<or> status j = Leased) Job_not_cancellable
    (Inr \<lparr>c_job_id = job_id j, c_seq = seq j, c_priority = priority j,
       c_payload_digest = payload_digest (payload j), c_status_before = status_text (status j),
       c_attempts = attempts j, c_requester = w, c_cancelled_at = now\<rparr>)"
    using cancel_of_job [OF ok assms(2), of w now] assms by simp
  have b: "map_sum id fst ?b = require (status j = Dead) Job_not_dead
    (Inr \<lparr>e_job_id = job_id j, e_seq = seq j, e_priority = priority j,
       e_payload_digest = payload_digest (payload j), e_attempts = attempts j, e_reason = why, e_buried_at = now\<rparr>)"
    using bury_outcome [OF ok assms(2), of why now] assms by simp
  have "status j = Dead \<Longrightarrow> attempts j = MAX_ATTEMPTS"
    using ok assms(2) by (auto simp: queue_ok_def list_all_iff job_inv_def)
  then show ?thesis using b c by (cases "status j"; cases ?c; cases ?b) auto
qed

theorem cancel_bury_partition_witness:
  "bury (PDict 0 (bury_dict ''permanent'' 7 (job_value (sample_job CHR ''c'' 2 3 Ready 0 None)))) = Inl Job_not_dead"
  using cancel_bury_partition [OF sample_state, of "sample_job CHR ''c'' 2 3 Ready 0 None" "[]" "''w''" "''permanent''" 7]
  by (simp add: sample_queue_def sample_job_def worker_ok_def name_char_def MAX_NOW_def REASONS_def)

end
