(* ===== verification/Restart.thy ===== *)
theory Restart
  imports QueueProps
begin

text \<open>
  Restart of a worker, \<open>src/server/jobs_restart.py\<close> over \<open>src/data/contracts/restart.yaml\<close>: the
  live leases of one worker are released. The runtime validates the queue state with code of its
  own (a boolean check, then a copy); \<open>restart_state_agrees\<close> shows that it admits the states the
  queue admits and copies them as the queue does.
\<close>

datatype restart_error = Malformed_restart_request | Corrupt_restart_queue

fun restart_code :: "restart_error \<Rightarrow> string" where
  "restart_code Malformed_restart_request = ''malformed_request''"
| "restart_code Corrupt_restart_queue = ''corrupt_queue''"

definition RESTART_FIELDS :: "string list" where
  "RESTART_FIELDS = [''op'', ''worker'', ''now'']"

definition restart_request_ok :: "pydict \<Rightarrow> bool" where
  "restart_request_ok d \<longleftrightarrow> keys_are d RESTART_FIELDS \<and> fld d ''op'' = PStr ''restart''
     \<and> matches worker_ok (fld d ''worker'') \<and> int_in (fld d ''now'') 0 MAX_NOW"

definition restart_payload_ok :: "pyval \<Rightarrow> nat list \<Rightarrow> nat list option" where
  "restart_payload_ok root met = payload_walk [(root, 1)] met"

text \<open>\<open>_job_ok\<close>: the set of containers is shared by the jobs of a state; None is a rejection.\<close>

definition restart_job_ok :: "pyval \<Rightarrow> int \<Rightarrow> int \<Rightarrow> nat list \<Rightarrow> nat list option" where
  "restart_job_ok v prior_seq nxt met = (let job = items v;
       status = fld job ''status''; attempts = fld job ''attempts'' in
     if \<not> (is_dict v \<and> keys_are job JOB_FIELDS) then None
     else if \<not> (matches job_id_ok (fld job ''job_id'')
         \<and> int_in (fld job ''seq'') (prior_seq + 1) (nxt - 1)
         \<and> int_in (fld job ''priority'') 0 MAX_PRIORITY \<and> read_status status \<noteq> None
         \<and> int_in attempts 0 MAX_ATTEMPTS) then None
     else if status = PStr ''leased'' \<and> \<not> (matches worker_ok (fld job ''lease_owner'')
         \<and> int_in (fld job ''lease_expires_at'') 1 MAX_NOW \<and> int_of attempts \<ge> 1) then None
     else if status \<noteq> PStr ''leased''
         \<and> (fld job ''lease_owner'' \<noteq> PNone \<or> fld job ''lease_expires_at'' \<noteq> PNone) then None
     else if status = PStr ''dead'' \<and> int_of attempts \<noteq> MAX_ATTEMPTS then None
     else if status = PStr ''done'' \<and> int_of attempts < 1 then None
     else restart_payload_ok (fld job ''payload'') met)"

fun restart_jobs_ok :: "pyval list \<Rightarrow> string list \<Rightarrow> int \<Rightarrow> nat list \<Rightarrow> int \<Rightarrow> bool" where
  "restart_jobs_ok [] seen_ids prior_seq met nxt = True"
| "restart_jobs_ok (v # vs) seen_ids prior_seq met nxt =
     (case restart_job_ok v prior_seq nxt met of
        None \<Rightarrow> False
      | Some met' \<Rightarrow> let jid = key_bytes (fld (items v) ''job_id'') in
          jid \<notin> set seen_ids
          \<and> restart_jobs_ok vs (jid # seen_ids) (int_of (fld (items v) ''seq'')) met' nxt)"

definition restart_state_ok :: "pyval \<Rightarrow> bool" where
  "restart_state_ok v = (let d = items v in is_dict v \<and> keys_are d STATE_FIELDS
     \<and> (case fld d ''jobs'' of PList _ vs \<Rightarrow> int_in (fld d ''next_seq'') 0 MAX_NOW
          \<and> \<not> length vs > MAX_JOBS
          \<and> restart_jobs_ok vs [] (- 1) [] (int_of (fld d ''next_seq''))
        | _ \<Rightarrow> False))"

text \<open>The detached copy of a valid state.\<close>

definition read_job :: "pydict \<Rightarrow> job" where
  "read_job d = \<lparr>job_id = key_bytes (fld d ''job_id''), seq = int_of (fld d ''seq''),
     priority = int_of (fld d ''priority''), payload = detach (fld d ''payload''),
     status = (case read_status (fld d ''status'') of Some st \<Rightarrow> st | None \<Rightarrow> Ready),
     attempts = int_of (fld d ''attempts''), lease_owner = opt_str (fld d ''lease_owner''),
     lease_expires_at = opt_int (fld d ''lease_expires_at'')\<rparr>"

fun elements :: "pyval \<Rightarrow> pyval list" where
  "elements (PList _ vs) = vs"
| "elements _ = []"

definition read_queue :: "pyval \<Rightarrow> queue" where
  "read_queue v = \<lparr>jobs = map (\<lambda>j. read_job (items j)) (elements (fld (items v) ''jobs'')),
     next_seq = int_of (fld (items v) ''next_seq'')\<rparr>"

definition live_lease :: "string \<Rightarrow> int \<Rightarrow> job \<Rightarrow> bool" where
  "live_lease worker now j \<longleftrightarrow> status j = Leased \<and> lease_owner j = Some worker
     \<and> (case lease_expires_at j of Some e \<Rightarrow> now < e | None \<Rightarrow> False)"

definition release_leases :: "string \<Rightarrow> int \<Rightarrow> queue \<Rightarrow> string list \<times> queue" where
  "release_leases worker now q = (map job_id (filter (live_lease worker now) (jobs q)),
     q\<lparr>jobs := map (\<lambda>j. if live_lease worker now j
       then j\<lparr>status := Ready, lease_owner := None, lease_expires_at := None\<rparr> else j) (jobs q)\<rparr>)"

record restart_record =
  t_worker :: string
  t_restarted_at :: int
  t_released :: "string list"
  t_prior_state_id :: string
  t_state_id :: string

definition restart_json :: "restart_record \<Rightarrow> json" where
  "restart_json r = JObj [(''op'', JStr ''restart''), (''prior_state_id'', JStr (t_prior_state_id r)),
     (''released'', JArr (map JStr (t_released r))), (''restarted_at'', JInt (t_restarted_at r)),
     (''state_id'', JStr (t_state_id r)), (''worker'', JStr (t_worker r))]"

definition restart_id :: "restart_record \<Rightarrow> string" where
  "restart_id r = sealed ''rst1'' (canon True (restart_json r))"

definition restart_state_id :: "queue \<Rightarrow> string" where
  "restart_state_id q = tagged ''qs1'' (canon False (queue_json q))"

definition restart :: "pyval \<Rightarrow> pyval \<Rightarrow> (restart_error, (restart_record \<times> string) \<times> queue) result" where
  "restart state v = (case v of PDict _ d \<Rightarrow>
     require (restart_request_ok d) Malformed_restart_request
     (require (restart_state_ok state) Corrupt_restart_queue
     (let worker = key_bytes (fld d ''worker''); now = int_of (fld d ''now''); q = read_queue state;
          (released, q') = release_leases worker now q;
          r = \<lparr>t_worker = worker, t_restarted_at = now, t_released = released,
             t_prior_state_id = restart_state_id q, t_state_id = restart_state_id q'\<rparr>
      in Inr ((r, restart_id r), q')))
   | _ \<Rightarrow> Inl Malformed_restart_request)"

subsection \<open>Agreement with the queue's own check\<close>

lemma restart_job_ok_iff:
  "restart_job_ok v (lo - 1) nxt visited = Some vis \<longleftrightarrow> (\<exists>i d. v = PDict i d \<and> keys_are d JOB_FIELDS
     \<and> matches job_id_ok (fld d ''job_id'') \<and> job_ok d lo nxt visited = Some (read_job d, vis))"
proof (cases v)
  case (PDict i d)
  show ?thesis
  proof (cases "read_status (fld d ''status'')")
    case None
    then show ?thesis by (simp add: PDict restart_job_ok_def job_ok_Some Let_def)
  next
    case (Some st)
    have s: "(fld d ''status'' = PStr ''leased'' \<longleftrightarrow> st = Leased) \<and> (fld d ''status'' = PStr ''dead'' \<longleftrightarrow> st = Dead)
        \<and> (fld d ''status'' = PStr ''done'' \<longleftrightarrow> st = Done)"
      using Some by (auto simp: read_status_def split: pyval.splits if_splits)
    have "job_ok d lo nxt visited = Some (read_job d, vis) \<longleftrightarrow>
        int_in (fld d ''seq'') lo (nxt - 1) \<and> int_in (fld d ''priority'') 0 MAX_PRIORITY
        \<and> int_in (fld d ''attempts'') 0 MAX_ATTEMPTS \<and> payload_ok (fld d ''payload'') visited = Some vis
        \<and> lease_ok st (fld d ''lease_owner'') (fld d ''lease_expires_at'') (int_of (fld d ''attempts''))
        \<and> (st = Dead \<longrightarrow> int_of (fld d ''attempts'') = MAX_ATTEMPTS)
        \<and> (st = Done \<longrightarrow> 1 \<le> int_of (fld d ''attempts''))"
      unfolding job_ok_Some by (simp add: Some read_job_def)
    then show ?thesis using Some s unfolding restart_job_ok_def restart_payload_ok_def payload_ok_def lease_ok_def Let_def
      by (cases st; simp add: PDict not_less; blast)
  qed
qed (simp_all add: restart_job_ok_def is_dict_def)

lemma job_ok_read: "job_ok d lo nxt visited = Some (j, vis) \<Longrightarrow> j = read_job d"
  unfolding job_ok_Some by (auto simp: read_job_def)

lemma restart_jobs_ok_iff:
  "restart_jobs_ok vs ids (lo - 1) visited nxt \<longleftrightarrow>
     check_jobs vs ids visited lo nxt = Inr (map (\<lambda>j. read_job (items j)) vs)"
proof (induction vs arbitrary: ids lo visited)
  case (Cons v vs)
  show ?case
  proof (cases "restart_job_ok v (lo - 1) nxt visited")
    case None
    have "check_jobs (v # vs) ids visited lo nxt \<noteq> Inr js" for js
    proof
      assume "check_jobs (v # vs) ids visited lo nxt = Inr js"
      then obtain i d j vis where d: "v = PDict i d" "keys_are d JOB_FIELDS" "matches job_id_ok (fld d ''job_id'')"
        "job_ok d lo nxt visited = Some (j, vis)"
        unfolding check_jobs_Cons by blast
      then have "restart_job_ok v (lo - 1) nxt visited = Some vis"
        unfolding restart_job_ok_iff using job_ok_read [OF d(4)] by blast
      then show False using None by simp
    qed
    then show ?thesis using None by (simp del: check_jobs.simps)
  next
    case (Some vis)
    then obtain i d where d: "v = PDict i d" "keys_are d JOB_FIELDS" "matches job_id_ok (fld d ''job_id'')"
      "job_ok d lo nxt visited = Some (read_job d, vis)"
      unfolding restart_job_ok_iff by blast
    have "restart_jobs_ok vs (key_bytes (fld d ''job_id'') # ids) (int_of (fld d ''seq'')) vis nxt \<longleftrightarrow>
        check_jobs vs (job_id (read_job d) # ids) vis (seq (read_job d) + 1) nxt
          = Inr (map (\<lambda>j. read_job (items j)) vs)"
      using Cons.IH [of "key_bytes (fld d ''job_id'') # ids" "int_of (fld d ''seq'') + 1" vis]
      by (simp add: read_job_def)
    then show ?thesis using Some d by (auto simp: Let_def)
  qed
qed simp

lemma check_jobs_read:
  "check_jobs vs ids visited lo nxt = Inr js \<Longrightarrow> js = map (\<lambda>j. read_job (items j)) vs"
proof (induction vs ids visited lo nxt arbitrary: js rule: check_jobs.induct)
  case (2 v vs ids visited lowest nxt)
  then obtain i d j v' js' where *: "v = PDict i d" "job_ok d lowest nxt visited = Some (j, v')"
    "check_jobs vs (job_id j # ids) v' (seq j + 1) nxt = Inr js'" "js = j # js'"
    unfolding check_jobs_Cons by blast
  show ?case using "2.IH" [OF *(1,2) refl *(3)] job_ok_read [OF *(2)] by (simp add: *(1,4))
qed simp

lemma restart_state_iff: "check_state v = Inr q \<longleftrightarrow> restart_state_ok v \<and> q = read_queue v"
proof (cases v)
  case (PDict i d)
  show ?thesis
  proof (cases "fld d ''jobs''")
    case (PList k vs)
    have "restart_jobs_ok vs [] (- 1) [] (int_of (fld d ''next_seq'')) \<longleftrightarrow>
        check_jobs vs [] [] 0 (int_of (fld d ''next_seq'')) = Inr (map (\<lambda>j. read_job (items j)) vs)"
      using restart_jobs_ok_iff [of vs "[]" 0 "[]"] by simp
    then show ?thesis
      by (auto simp: PDict PList restart_state_ok_def check_state_def read_queue_def dest: check_jobs_read)
  qed (auto simp: PDict restart_state_ok_def check_state_def)
qed (auto simp: restart_state_ok_def check_state_def is_dict_def)

text \<open>The restart's own validation of a queue state admits exactly the states the queue admits, and
  its copy of such a state is the one the queue works on.\<close>

theorem restart_state_agrees:
  "(restart_state_ok v \<longleftrightarrow> accepts (check_state v))
     \<and> (accepts (check_state v) \<longrightarrow> check_state v = Inr (read_queue v))"
  unfolding accepts_iff restart_state_iff by blast

theorem restart_state_agrees_witness:
  "restart_state_ok (reload sample_queue) \<and> read_queue (reload sample_queue) = sample_queue"
  using restart_state_agrees [of "reload sample_queue"] sample_state by simp

subsection \<open>The transition\<close>

lemma live_lease_held: "live_lease w now = (\<lambda>j. held_by j w now)"
  by (simp add: fun_eq_iff live_lease_def held_by_def)

lemma release_leases_eq:
  "release_leases w now q = (map job_id (filter (\<lambda>j. held_by j w now) (jobs q)),
     q\<lparr>jobs := map (\<lambda>j. if held_by j w now then release Ready j else j) (jobs q)\<rparr>)"
  by (simp add: release_leases_def live_lease_held release_def)

lemma not_held_release: "\<not> held_by (release st j) w now" if "st \<noteq> Leased"
  using that by (simp add: held_by_def release_def)

lemma release_moves:
  assumes "queue_ok q"
  shows "queue_ok (snd (release_leases w now q)) \<and> queue_moves q (snd (release_leases w now q))"
  unfolding release_leases_eq snd_conv
  by (intro map_moves assms) (auto simp: held_by_def intro: stay settled)

text \<open>One negative acknowledgement by the worker, for a job it holds.\<close>

definition nack_id :: "string \<Rightarrow> int \<Rightarrow> queue \<Rightarrow> string \<Rightarrow> (queue_error, queue) result" where
  "nack_id w now q jid = and_then (queue_step q (Nack jid w now)) (\<lambda>(_, q'). Inr q')"

lemma nack_id_held:
  assumes "queue_ok q" "k \<in> set (jobs q)" "held_by k w now"
  shows "nack_id w now q (job_id k) = Inr (update_job q (job_id k) (release Ready))"
    and "queue_ok (update_job q (job_id k) (release Ready))"
proof -
  show "nack_id w now q (job_id k) = Inr (update_job q (job_id k) (release Ready))"
    using by_id_self [OF assms(1,2)] assms(3) by (simp add: nack_id_def some_job_def settle_def)
  show "queue_ok (update_job q (job_id k) (release Ready))"
    using update_job_moves [OF assms(1,2)] assms(3) by (auto simp: held_by_def intro: settled)
qed

lemma nacks_release:
  assumes "queue_ok q" "set ks \<subseteq> set (jobs q)" "distinct ks" "\<forall>k \<in> set ks. held_by k w now"
  shows "run_all (nack_id w now) q (map job_id ks)
    = Inr (q\<lparr>jobs := map (\<lambda>j. if j \<in> set ks then release Ready j else j) (jobs q)\<rparr>)"
  using assms
proof (induction ks arbitrary: q)
  case (Cons k ks)
  let ?q = "update_job q (job_id k) (release Ready)"
  have k: "k \<in> set (jobs q)" "held_by k w now" using Cons.prems by simp_all
  have id: "job_id j = job_id k \<longleftrightarrow> j = k" if "j \<in> set (jobs q)" for j
    using queue_ok_inj(1) [OF Cons.prems(1) that k(1)] by blast
  have js: "jobs ?q = map (\<lambda>j. if j = k then release Ready k else j) (jobs q)"
    using id by (auto simp: update_job_def)
  have "set ks \<subseteq> set (jobs ?q)" using Cons.prems(2,3) unfolding js by force
  then have "run_all (nack_id w now) ?q (map job_id ks)
      = Inr (?q\<lparr>jobs := map (\<lambda>j. if j \<in> set ks then release Ready j else j) (jobs ?q)\<rparr>)"
    using Cons.prems nack_id_held(2) [OF Cons.prems(1) k] by (intro Cons.IH) simp_all
  moreover have "release Ready k \<notin> set ks"
    using Cons.prems(4) not_held_release [of Ready k w now] by auto
  then have "?q\<lparr>jobs := map (\<lambda>j. if j \<in> set ks then release Ready j else j) (jobs ?q)\<rparr>
      = q\<lparr>jobs := map (\<lambda>j. if j \<in> set (k # ks) then release Ready j else j) (jobs q)\<rparr>"
    using Cons.prems(3) unfolding js by (auto simp: update_job_def)
  ultimately show ?case using nack_id_held(1) [OF Cons.prems(1) k] by simp
qed simp

text \<open>C37. A restart refines the queue's own transitions: it releases exactly the jobs the worker holds
  at that time, in queue order, and leaves the queue that the worker's negative acknowledgements
  of those jobs, one after the other, would leave; that queue is a valid state.\<close>

theorem restart_is_nacks:
  assumes "restart st (PDict n d) = Inr ((r, i), q')"
  shows "\<exists>q. check_state st = Inr q \<and> queue_ok q' \<and> queue_moves q q'
    \<and> t_released r = map job_id (filter (\<lambda>j. held_by j (t_worker r) (t_restarted_at r)) (jobs q))
    \<and> run_all (nack_id (t_worker r) (t_restarted_at r)) q (t_released r) = Inr q'
    \<and> t_prior_state_id r = state_id_for q \<and> t_state_id r = state_id_for q'"
proof -
  let ?q = "read_queue st" and ?w = "key_bytes (fld d ''worker'')" and ?t = "int_of (fld d ''now'')"
  have *: "restart_state_ok st" "t_worker r = ?w" "t_restarted_at r = ?t"
    "t_released r = fst (release_leases ?w ?t ?q)" "q' = snd (release_leases ?w ?t ?q)"
    "t_prior_state_id r = state_id_for ?q" "t_state_id r = state_id_for q'"
    using assms by (auto simp: restart_def Let_def restart_state_id_def state_id_for_def split: prod.splits)
  have q: "check_state st = Inr ?q" "queue_ok ?q"
    using *(1) restart_state_iff check_state_ok by auto
  let ?ks = "filter (\<lambda>j. held_by j ?w ?t) (jobs ?q)"
  have "distinct (jobs ?q)" using q(2) by (auto simp: queue_ok_def distinct_map)
  then have "run_all (nack_id ?w ?t) ?q (map job_id ?ks)
      = Inr (?q\<lparr>jobs := map (\<lambda>j. if j \<in> set ?ks then release Ready j else j) (jobs ?q)\<rparr>)"
    by (intro nacks_release q(2)) auto
  moreover have "map (\<lambda>j. if j \<in> set ?ks then release Ready j else j) (jobs ?q)
      = map (\<lambda>j. if held_by j ?w ?t then release Ready j else j) (jobs ?q)" by simp
  ultimately have "run_all (nack_id ?w ?t) ?q (map job_id ?ks) = Inr q'"
    unfolding *(5) release_leases_eq snd_conv by simp
  then show ?thesis
    using q(1) release_moves [OF q(2), of ?w ?t] *(2-7) by (auto simp: release_leases_eq)
qed

definition sample_restart :: pydict where
  "sample_restart = [(PStr ''op'', PStr ''restart''), (PStr ''worker'', PStr ''w''), (PStr ''now'', PInt 50)]"

lemma sample_restart_accepted:
  "restart (reload sample_queue) (PDict 0 sample_restart) =
     (let (rel, q') = release_leases ''w'' 50 sample_queue;
        r = \<lparr>t_worker = ''w'', t_restarted_at = 50, t_released = rel,
             t_prior_state_id = restart_state_id sample_queue, t_state_id = restart_state_id q'\<rparr>
      in Inr ((r, restart_id r), q'))"
proof -
  have "restart_state_ok (reload sample_queue)" "read_queue (reload sample_queue) = sample_queue"
    using sample_state restart_state_iff by auto
  then show ?thesis
    by (simp add: restart_def sample_restart_def restart_request_ok_def keys_are_def RESTART_FIELDS_def
        worker_ok_def name_char_def MAX_NOW_def insert_commute split: prod.split)
qed

theorem restart_is_nacks_witness:
  "\<exists>r i q'. restart (reload sample_queue) (PDict 0 sample_restart) = Inr ((r, i), q')
     \<and> queue_ok q' \<and> length (t_released r) = 1"
proof -
  obtain r i q' where r: "restart (reload sample_queue) (PDict 0 sample_restart) = Inr ((r, i), q')"
    and l: "length (t_released r) = 1"
    unfolding sample_restart_accepted
    by (auto simp: Let_def release_leases_def live_lease_def sample_queue_def sample_job_def)
  show ?thesis using r l restart_is_nacks [OF r] by blast
qed

text \<open>Restart is idempotent: at the same or a later time, a second restart of the worker releases
  nothing and leaves the state as it is.\<close>

theorem restart_idempotent:
  assumes "now \<le> later"
  shows "release_leases w later (snd (release_leases w now q)) = ([], snd (release_leases w now q))"
proof -
  have "held_by j w later \<Longrightarrow> held_by j w now" for j
    using assms by (auto simp: held_by_def split: option.splits)
  then have "\<not> held_by (if held_by j w now then release Ready j else j) w later" for j
    using not_held_release [of Ready j w later] by auto
  then have "filter (\<lambda>j. held_by j w later) (map (\<lambda>j. if held_by j w now then release Ready j else j) (jobs q)) = []"
    by (simp only: filter_empty_conv set_map) blast
  moreover from this have "map (\<lambda>j. if held_by j w later then release Ready j else j)
      (map (\<lambda>j. if held_by j w now then release Ready j else j) (jobs q))
    = map (\<lambda>j. if held_by j w now then release Ready j else j) (jobs q)"
    by (intro map_idI) (simp only: filter_empty_conv if_False simp_thms)
  ultimately show ?thesis by (simp add: release_leases_eq del: map_map)
qed

theorem restart_idempotent_witness:
  "fst (release_leases ''w'' 60 (snd (release_leases ''w'' 50 sample_queue))) = []"
  using restart_idempotent [of 50 60 "''w''" sample_queue] by simp

end
