(* ===== verification/JobsIdempotency.thy ===== *)
theory JobsIdempotency
  imports QueueProps
begin

text \<open>
  Exactly-once application of queue transitions, \<open>src/server/jobs_idempotency.py\<close> over
  \<open>src/data/contracts/jobs_idempotency.yaml\<close>: requests carry a key, and a ledger of receipts bound
  to the queue state says which keys have been applied. The fingerprinter is the caller's code: a
  parameter that gives the value it returns, or None if it raises. Whatever it does to the live
  inputs is undone before the commit, so the model has no such effect.
\<close>

datatype ji_error = Malformed_idempotency_request | Corrupt_ji_queue | Corrupt_ledger | Key_conflict
  | Divergent_fingerprint | Queue_rejected queue_error

fun ji_code :: "ji_error \<Rightarrow> string" where
  "ji_code Malformed_idempotency_request = ''malformed_request''"
| "ji_code Corrupt_ji_queue = ''corrupt_queue''"
| "ji_code Corrupt_ledger = ''corrupt_ledger''"
| "ji_code Key_conflict = ''key_conflict''"
| "ji_code Divergent_fingerprint = ''divergent_fingerprint''"
| "ji_code (Queue_rejected e) = queue_code e"

definition JI_FIELDS :: "string list" where
  "JI_FIELDS = [''idempotency_key'', ''op'', ''payload'']"

definition RECEIPT_FIELDS :: "string list" where
  "RECEIPT_FIELDS = [''receipt_id'', ''idempotency_key'', ''request_fingerprint'', ''prior_state_id'',
     ''state_id'', ''sequence'']"

definition ji_key_ok :: "string \<Rightarrow> bool" where
  "ji_key_ok s \<longleftrightarrow> 1 \<le> length s \<and> length s \<le> 128 \<and> list_all name_char s
     \<and> hd s \<notin> set [CHR ''.'', CHR ''_'', CHR '':'', CHR ''-'']"

definition JI_OPS :: "string list" where
  "JI_OPS = [''enqueue'', ''claim'', ''ack'', ''nack'']"

text \<open>Lengths are in characters, the digest is of the bytes.\<close>

definition request_fingerprint :: "string \<Rightarrow> json \<Rightarrow> string" where
  "request_fingerprint op body = (let text = canon False body in
     tagged ''jif1'' (''jif1|'' @ dec (length (code_points op)) @ '':'' @ op @ ''|''
       @ dec (length (code_points text)) @ '':'' @ text))"

definition derive_receipt_id :: "string \<Rightarrow> string \<Rightarrow> string \<Rightarrow> string \<Rightarrow> int \<Rightarrow> string" where
  "derive_receipt_id key fingerprint prior_state_id state_id n =
     tagged ''jir1'' (key @ CHR 0x0A # fingerprint @ CHR 0x0A # prior_state_id @ CHR 0x0A # state_id
       @ CHR 0x0A # int_text n)"

subsection \<open>Validation\<close>

record frozen_request =
  fr_key :: string
  fr_op :: string
  fr_payload :: json
  fr_queue :: request

definition validate_request :: "pyval \<Rightarrow> (ji_error, frozen_request) result" where
  "validate_request v = (case v of PDict _ d \<Rightarrow>
     require (keys_are d JI_FIELDS) Malformed_idempotency_request
     (require (matches ji_key_ok (fld d ''idempotency_key'')) Malformed_idempotency_request
     (require (matches (\<lambda>s. s \<in> set JI_OPS) (fld d ''op'')) Malformed_idempotency_request
     (case fld d ''payload'' of PDict i p \<Rightarrow>
        require (list_all is_str (map fst p) \<and> PStr ''op'' \<notin> set (map fst p)) Malformed_idempotency_request
        (case check_request (PDict i (p @ [(PStr ''op'', fld d ''op'')])) MAX_NOW of
           Inl _ \<Rightarrow> Inl Malformed_idempotency_request
         | Inr r \<Rightarrow> Inr \<lparr>fr_key = key_bytes (fld d ''idempotency_key''), fr_op = key_bytes (fld d ''op''),
             fr_payload = detach (PDict i p), fr_queue = r\<rparr>)
      | _ \<Rightarrow> Inl Malformed_idempotency_request)))
   | _ \<Rightarrow> Inl Malformed_idempotency_request)"

record ji_receipt =
  ir_id :: string
  ir_key :: string
  ir_fingerprint :: string
  ir_prior :: string
  ir_state :: string
  ir_sequence :: int

definition read_receipt :: "pydict \<Rightarrow> ji_receipt" where
  "read_receipt d = \<lparr>ir_id = key_bytes (fld d ''receipt_id''), ir_key = key_bytes (fld d ''idempotency_key''),
     ir_fingerprint = key_bytes (fld d ''request_fingerprint''), ir_prior = key_bytes (fld d ''prior_state_id''),
     ir_state = key_bytes (fld d ''state_id''), ir_sequence = int_of (fld d ''sequence'')\<rparr>"

definition receipt_shape :: "pydict \<Rightarrow> nat \<Rightarrow> bool" where
  "receipt_shape d index \<longleftrightarrow> keys_are d RECEIPT_FIELDS
     \<and> matches ji_key_ok (fld d ''idempotency_key'')
     \<and> matches (tag_grammar ''jif1'') (fld d ''request_fingerprint'')
     \<and> matches (tag_grammar ''qs1'') (fld d ''prior_state_id'')
     \<and> matches (tag_grammar ''qs1'') (fld d ''state_id'')
     \<and> matches (tag_grammar ''jir1'') (fld d ''receipt_id'')
     \<and> fld d ''sequence'' = PInt (int index)"

text \<open>The loop of \<open>_validate_ledger\<close>: the receipts read and the last state id.\<close>

fun check_receipts :: "pyval list \<Rightarrow> nat \<Rightarrow> string list \<Rightarrow> string option
    \<Rightarrow> (ji_receipt list \<times> string option) option" where
  "check_receipts [] index seen_keys prev_state = Some ([], prev_state)"
| "check_receipts (v # vs) index seen_keys prev_state = (let r = read_receipt (items v) in
     if \<not> (is_dict v \<and> receipt_shape (items v) index) then None
     else if ir_key r \<in> set seen_keys then None
     else if prev_state \<noteq> None \<and> prev_state \<noteq> Some (ir_prior r) then None
     else if ir_id r \<noteq> derive_receipt_id (ir_key r) (ir_fingerprint r) (ir_prior r) (ir_state r) (ir_sequence r)
       then None
     else map_option (\<lambda>(rs, prev). (r # rs, prev))
       (check_receipts vs (index + 1) (ir_key r # seen_keys) (Some (ir_state r))))"

definition validate_ledger :: "pyval \<Rightarrow> string \<Rightarrow> (ji_error, ji_receipt list) result" where
  "validate_ledger ledger live_state_id = (case ledger of PList _ vs \<Rightarrow>
     (case check_receipts vs 0 [] None of None \<Rightarrow> Inl Corrupt_ledger
      | Some (rs, prev_state) \<Rightarrow>
          require (prev_state = None \<or> prev_state = Some live_state_id) Corrupt_ledger (Inr rs))
   | _ \<Rightarrow> Inl Corrupt_ledger)"

text \<open>The request shares no container with the state or the ledger.\<close>

definition disjoint_graphs :: "pyval \<Rightarrow> pyval \<Rightarrow> pyval \<Rightarrow> bool" where
  "disjoint_graphs v state ledger \<longleftrightarrow>
     list_all (\<lambda>i. i \<notin> set (containers state) \<and> i \<notin> set (containers ledger)) (containers v)"

subsection \<open>Apply\<close>

type_synonym fingerprinter = "string \<Rightarrow> json \<Rightarrow> pyval option"

definition fingerprint :: "fingerprinter \<Rightarrow> frozen_request \<Rightarrow> (ji_error, string) result" where
  "fingerprint fp f = (case fp (fr_op f) (fr_payload f) of
       Some (PStr out) \<Rightarrow>
         require (tag_grammar ''jif1'' out) Divergent_fingerprint
         (require (out = request_fingerprint (fr_op f) (fr_payload f)) Divergent_fingerprint (Inr out))
     | _ \<Rightarrow> Inl Divergent_fingerprint)"

datatype outcome = Applied | Replayed

definition stored_receipt :: "ji_receipt list \<Rightarrow> string \<Rightarrow> ji_receipt option" where
  "stored_receipt rs key = find (\<lambda>r. ir_key r = key) (rev rs)"

definition new_receipt :: "frozen_request \<Rightarrow> string \<Rightarrow> queue \<Rightarrow> queue \<Rightarrow> nat \<Rightarrow> ji_receipt" where
  "new_receipt f token q q' n =
     \<lparr>ir_id = derive_receipt_id (fr_key f) token (state_id_for q) (state_id_for q') (int n), ir_key = fr_key f,
      ir_fingerprint = token, ir_prior = state_id_for q, ir_state = state_id_for q', ir_sequence = int n\<rparr>"

text \<open>From the fingerprint on, over the validated values.\<close>

definition ji_commit :: "fingerprinter \<Rightarrow> queue \<Rightarrow> ji_receipt list \<Rightarrow> frozen_request
    \<Rightarrow> (ji_error, (outcome \<times> ji_receipt) \<times> queue \<times> ji_receipt list) result" where
  "ji_commit fp q rs f = and_then (fingerprint fp f) (\<lambda>token.
     case stored_receipt rs (fr_key f) of
       Some r \<Rightarrow> require (\<not> ir_fingerprint r \<noteq> token) Key_conflict (Inr ((Replayed, r), q, rs))
     | None \<Rightarrow> (case queue_step q (fr_queue f) of
           Inl e \<Rightarrow> Inl (Queue_rejected e)
         | Inr (_, q') \<Rightarrow> (let r = new_receipt f token q q' (length rs) in
             Inr ((Applied, r), q', rs @ [r]))))"

definition ji_apply :: "fingerprinter \<Rightarrow> pyval \<Rightarrow> pyval \<Rightarrow> pyval
    \<Rightarrow> (ji_error, (outcome \<times> ji_receipt) \<times> queue \<times> ji_receipt list) result" where
  "ji_apply fp state ledger v = and_then (validate_request v) (\<lambda>f.
     case check_state state of Inl _ \<Rightarrow> Inl Corrupt_ji_queue
     | Inr q \<Rightarrow> and_then (validate_ledger ledger (state_id_for q)) (\<lambda>rs.
         require (disjoint_graphs v state ledger) Malformed_idempotency_request
         (ji_commit fp q rs f)))"

end
