(* ===== verification/JobsIdempotencyProps.thy ===== *)
theory JobsIdempotencyProps
  imports JobsIdempotency
begin

text \<open>
  The idempotent queue as a guarded machine over a queue and its ledger: every commit is accepted by
  the next call's validation, a key is applied exactly once whatever comes in between, and the
  ledger accounts for every queue transition.
\<close>

subsection \<open>The ledger a commit leaves\<close>

definition receipt_dict :: "ji_receipt \<Rightarrow> pydict" where
  "receipt_dict r = [(PStr ''receipt_id'', PStr (ir_id r)), (PStr ''idempotency_key'', PStr (ir_key r)),
     (PStr ''request_fingerprint'', PStr (ir_fingerprint r)), (PStr ''prior_state_id'', PStr (ir_prior r)),
     (PStr ''state_id'', PStr (ir_state r)), (PStr ''sequence'', PInt (ir_sequence r))]"

definition ledger_value :: "ji_receipt list \<Rightarrow> pyval" where
  "ledger_value rs = PList 0 (map (\<lambda>r. PDict 1 (receipt_dict r)) rs)"

lemma read_receipt_dict [simp]: "read_receipt (receipt_dict r) = r"
  by (cases r) (simp add: read_receipt_def receipt_dict_def)

lemma receipt_shape_dict:
  "receipt_shape (receipt_dict r) n \<longleftrightarrow> ji_key_ok (ir_key r) \<and> tag_grammar ''jif1'' (ir_fingerprint r)
     \<and> tag_grammar ''qs1'' (ir_prior r) \<and> tag_grammar ''qs1'' (ir_state r) \<and> tag_grammar ''jir1'' (ir_id r)
     \<and> ir_sequence r = int n"
proof -
  have "keys_are (receipt_dict r) RECEIPT_FIELDS"
    by (auto simp: keys_are_def receipt_dict_def RECEIPT_FIELDS_def)
  then show ?thesis by (simp add: receipt_shape_def) (simp add: receipt_dict_def)
qed

lemma check_receipts_append:
  "check_receipts (vs @ ws) n seen prev = (case check_receipts vs n seen prev of None \<Rightarrow> None
     | Some (rs, sid) \<Rightarrow> map_option (\<lambda>(rs', l). (rs @ rs', l))
         (check_receipts ws (n + length vs) (rev (map ir_key rs) @ seen) sid))"
proof (induction vs arbitrary: n seen prev)
  case Nil
  have "map_option (\<lambda>(rs', l). ([] @ rs', l)) x = x" for x :: "(ji_receipt list \<times> string option) option"
    by (cases x) auto
  then show ?case by simp
next
  case (Cons v vs)
  then show ?case
    by (auto simp: One_nat_def Let_def option.map_comp comp_def split: option.split intro!: option.map_cong)
qed

lemma check_receipts_length: "check_receipts vs n seen prev = Some (rs, l) \<Longrightarrow> length rs = length vs"
  by (induction vs arbitrary: n seen prev rs l) (auto simp: Let_def split: if_splits)

lemma check_receipts_keys:
  "check_receipts vs n seen prev = Some (rs, l) \<Longrightarrow> distinct (map ir_key rs)
     \<and> set (map ir_key rs) \<inter> set seen = {}"
proof (induction vs arbitrary: n seen prev rs l)
  case (Cons v vs)
  let ?r = "read_receipt (items v)"
  obtain rs' where *: "rs = ?r # rs'" "ir_key ?r \<notin> set seen"
    "check_receipts vs (n + 1) (ir_key ?r # seen) (Some (ir_state ?r)) = Some (rs', l)"
    using Cons.prems by (auto simp: Let_def split: if_splits)
  from Cons.IH [OF *(3)] show ?case using *(1,2) by auto
qed simp

text \<open>What the next call's validation accepts.\<close>

definition ledger_ok :: "queue \<Rightarrow> ji_receipt list \<Rightarrow> bool" where
  "ledger_ok q rs \<longleftrightarrow> validate_ledger (ledger_value rs) (state_id_for q) = Inr rs"

lemma ledger_ok_iff:
  "ledger_ok q rs \<longleftrightarrow> (\<exists>l. check_receipts (map (\<lambda>r. PDict 1 (receipt_dict r)) rs) 0 [] None = Some (rs, l)
     \<and> (l = None \<or> l = Some (state_id_for q)))"
  by (auto simp: ledger_ok_def validate_ledger_def ledger_value_def require_def split: option.splits)

lemma ledger_ok_keys: "ledger_ok q rs \<Longrightarrow> distinct (map ir_key rs)"
  unfolding ledger_ok_iff using check_receipts_keys by blast

lemma state_id_grammar [simp]: "tag_grammar ''qs1'' (state_id_for q)"
  by (simp add: state_id_for_def)

lemma ledger_ok_snoc:
  assumes "ledger_ok q rs" "ji_key_ok (fr_key f)" "tag_grammar ''jif1'' token" "fr_key f \<notin> ir_key ` set rs"
  shows "ledger_ok q' (rs @ [new_receipt f token q q' (length rs)])"
proof -
  let ?r = "new_receipt f token q q' (length rs)"
  obtain l where l: "check_receipts (map (\<lambda>r. PDict 1 (receipt_dict r)) rs) 0 [] None = Some (rs, l)"
    "l = None \<or> l = Some (state_id_for q)"
    using assms(1) unfolding ledger_ok_iff by blast
  have r: "ir_key ?r = fr_key f" "ir_prior ?r = state_id_for q" "ir_state ?r = state_id_for q'"
    "ir_fingerprint ?r = token" "ir_sequence ?r = int (length rs)"
    "ir_id ?r = derive_receipt_id (fr_key f) token (state_id_for q) (state_id_for q') (int (length rs))"
    by (simp_all add: new_receipt_def)
  have "receipt_shape (receipt_dict ?r) (length rs)"
    unfolding receipt_shape_dict r using assms(2,3) by (simp add: derive_receipt_id_def)
  then have "check_receipts [PDict 1 (receipt_dict ?r)] (length rs) (rev (map ir_key rs)) l
      = Some ([?r], Some (state_id_for q'))"
    using l(2) assms(4) by (auto simp: r)
  then show ?thesis unfolding ledger_ok_iff
    by (simp add: check_receipts_append l(1))
qed

lemma stored_receipt_None: "stored_receipt rs key = None \<longleftrightarrow> key \<notin> ir_key ` set rs"
  by (auto simp: stored_receipt_def find_None_iff)

lemma stored_receipt_Some:
  "distinct (map ir_key rs) \<Longrightarrow> stored_receipt rs key = Some r \<longleftrightarrow> r \<in> set rs \<and> ir_key r = key"
proof
  show "stored_receipt rs key = Some r \<Longrightarrow> r \<in> set rs \<and> ir_key r = key"
    unfolding stored_receipt_def find_Some_iff by (metis length_rev nth_mem set_rev)
next
  assume d: "distinct (map ir_key rs)" and r: "r \<in> set rs \<and> ir_key r = key"
  then obtain s where s: "stored_receipt rs key = Some s" using stored_receipt_None [of rs key] by force
  then have "s \<in> set rs \<and> ir_key s = key"
    unfolding stored_receipt_def find_Some_iff by (metis length_rev nth_mem set_rev)
  then show "stored_receipt rs key = Some r" using s r d by (metis distinct_map inj_on_def)
qed

subsection \<open>The machine\<close>

text \<open>A command is a request value and the fingerprinter that call gets.\<close>

definition ji_cmd :: "queue \<times> ji_receipt list \<Rightarrow> fingerprinter \<times> pyval
    \<Rightarrow> (ji_error, queue \<times> ji_receipt list) result" where
  "ji_cmd s c = and_then (validate_request (snd c)) (\<lambda>f.
     and_then (ji_commit (fst c) (fst s) (snd s) f) (\<lambda>(_, s'). Inr s'))"

definition ji_ok :: "queue \<times> ji_receipt list \<Rightarrow> bool" where
  "ji_ok s \<longleftrightarrow> queue_ok (fst s) \<and> ledger_ok (fst s) (snd s)"

definition ji_extends :: "queue \<times> ji_receipt list \<Rightarrow> queue \<times> ji_receipt list \<Rightarrow> bool" where
  "ji_extends s t \<longleftrightarrow> queue_moves (fst s) (fst t) \<and> (\<exists>more. snd t = snd s @ more)"

lemma validate_request_ok:
  "validate_request v = Inr f \<Longrightarrow> ji_key_ok (fr_key f) \<and> request_ok (fr_queue f)"
  by (auto simp: validate_request_def matches_iff CLOCK_LIMIT_def
      dest!: check_request_ok [unfolded CLOCK_LIMIT_def] split: pyval.splits sum.splits)

lemma fingerprint_Inr:
  "fingerprint fp f = Inr t \<Longrightarrow> t = request_fingerprint (fr_op f) (fr_payload f) \<and> tag_grammar ''jif1'' t"
  by (auto simp: fingerprint_def split: option.splits pyval.splits)

text \<open>The two ways a commit is accepted.\<close>

lemma ji_commit_cases:
  assumes "ji_commit fp q rs f = Inr ((out, r), q', rs')"
  obtains (replayed) "out = Replayed" "stored_receipt rs (fr_key f) = Some r" "q' = q" "rs' = rs"
      "ir_fingerprint r = request_fingerprint (fr_op f) (fr_payload f)"
  | (applied) j where "out = Applied" "stored_receipt rs (fr_key f) = None"
      "queue_step q (fr_queue f) = Inr (j, q')" "rs' = rs @ [r]"
      "r = new_receipt f (request_fingerprint (fr_op f) (fr_payload f)) q q' (length rs)"
      "tag_grammar ''jif1'' (request_fingerprint (fr_op f) (fr_payload f))"
proof -
  obtain t where t: "fingerprint fp f = Inr t" using assms by (auto simp: ji_commit_def)
  note ft = fingerprint_Inr [OF t]
  show ?thesis
  proof (cases "stored_receipt rs (fr_key f)")
    case None
    then obtain j where "out = Applied" "queue_step q (fr_queue f) = Inr (j, q')" "rs' = rs @ [r]"
      "r = new_receipt f t q q' (length rs)"
      using assms t by (auto simp: ji_commit_def Let_def split: sum.splits)
    then show ?thesis using applied [OF _ None] ft by blast
  next
    case (Some s)
    then have "out = Replayed" "s = r" "q' = q" "rs' = rs" "ir_fingerprint r = t"
      using assms t by (auto simp: ji_commit_def)
    then show ?thesis using replayed Some ft by blast
  qed
qed

lemma ji_commit_step:
  assumes "ji_ok (q, rs)" "validate_request v = Inr f" "ji_commit fp q rs f = Inr ((out, r), q', rs')"
  shows "ji_ok (q', rs') \<and> ji_extends (q, rs) (q', rs') \<and> r \<in> set rs' \<and> ir_key r = fr_key f
    \<and> ir_fingerprint r = request_fingerprint (fr_op f) (fr_payload f)"
  using assms(3)
proof (cases rule: ji_commit_cases)
  case replayed
  then show ?thesis
    using assms(1) stored_receipt_Some [OF ledger_ok_keys, of q rs "fr_key f" r] queue_moves_refl
    by (auto simp: ji_ok_def ji_extends_def)
next
  case (applied j)
  have "queue_ok q' \<and> queue_moves q q'"
    using queue_step_moves applied(3) assms(1) validate_request_ok [OF assms(2)] by (auto simp: ji_ok_def)
  moreover have "ledger_ok q' rs'" unfolding applied(4,5)
    using assms(1) validate_request_ok [OF assms(2)] applied(2,6)
    by (intro ledger_ok_snoc) (auto simp: ji_ok_def stored_receipt_None)
  ultimately show ?thesis
    using applied(4,5) by (auto simp: ji_ok_def ji_extends_def new_receipt_def)
qed

lemma ji_cmd_Inr:
  assumes "ji_cmd s c = Inr t"
  obtains f out r where "validate_request (snd c) = Inr f"
    "ji_commit (fst c) (fst s) (snd s) f = Inr ((out, r), fst t, snd t)"
  using assms by (auto simp: ji_cmd_def)

interpretation jm: guarded_machine ji_cmd ji_ok ji_extends
proof
  fix s c t assume s: "ji_ok s" and c: "ji_cmd s c = Inr t"
  obtain f out r where f: "validate_request (snd c) = Inr f"
    "ji_commit (fst c) (fst s) (snd s) f = Inr ((out, r), fst t, snd t)"
    using c by (rule ji_cmd_Inr)
  have "ji_ok t \<and> ji_extends s t"
    using ji_commit_step [OF _ f] s by simp
  then show "ji_ok t" "ji_extends s t" by blast+
next
  fix s t u show "ji_extends s t \<Longrightarrow> ji_extends t u \<Longrightarrow> ji_extends s u"
    unfolding ji_extends_def using queue_moves_trans by force
qed (simp add: ji_extends_def queue_moves_refl)

lemma ji_apply_cmd:
  assumes "ji_apply fp st l v = Inr ((out, r), q', rs')"
  obtains q rs f where "check_state st = Inr q" "validate_ledger l (state_id_for q) = Inr rs"
    "validate_request v = Inr f" "ji_commit fp q rs f = Inr ((out, r), q', rs')"
  using assms by (cases "check_state st") (auto simp: ji_apply_def)

lemma receipt_shape_read:
  assumes "receipt_shape d n"
  shows "receipt_shape (receipt_dict (read_receipt d)) n"
proof -
  obtain a b c e g where "fld d ''idempotency_key'' = PStr a" "fld d ''request_fingerprint'' = PStr b"
    "fld d ''prior_state_id'' = PStr c" "fld d ''state_id'' = PStr e" "fld d ''receipt_id'' = PStr g"
    using assms unfolding receipt_shape_def matches_iff by blast
  then show ?thesis using assms unfolding receipt_shape_dict
    by (simp add: receipt_shape_def read_receipt_def)
qed

lemma check_receipts_reread:
  "check_receipts vs n seen prev = Some (rs, l) \<Longrightarrow>
     check_receipts (map (\<lambda>r. PDict 1 (receipt_dict r)) rs) n seen prev = Some (rs, l)"
proof (induction vs arbitrary: n seen prev rs l)
  case (Cons v vs)
  let ?r = "read_receipt (items v)"
  obtain rs' where *: "rs = ?r # rs'" "ir_key ?r \<notin> set seen" "receipt_shape (items v) n"
    "prev = None \<or> prev = Some (ir_prior ?r)"
    "ir_id ?r = derive_receipt_id (ir_key ?r) (ir_fingerprint ?r) (ir_prior ?r) (ir_state ?r) (ir_sequence ?r)"
    "check_receipts vs (n + 1) (ir_key ?r # seen) (Some (ir_state ?r)) = Some (rs', l)"
    using Cons.prems by (auto simp: Let_def split: if_splits)
  show ?case using Cons.IH [OF *(6)] receipt_shape_read [OF *(3)] *(1,2,4,5) by auto
qed simp

lemma validated_ledger_ok:
  assumes "validate_ledger v (state_id_for q) = Inr rs"
  shows "ledger_ok q rs"
proof -
  obtain n vs where v: "v = PList n vs" using assms by (auto simp: validate_ledger_def split: pyval.splits)
  obtain l where l: "check_receipts vs 0 [] None = Some (rs, l)" "l = None \<or> l = Some (state_id_for q)"
    using assms by (auto simp: validate_ledger_def v split: option.splits)
  show ?thesis unfolding ledger_ok_iff using check_receipts_reread [OF l(1)] l(2) by blast
qed

subsection \<open>A sample call\<close>

definition sample_ack :: pyval where
  "sample_ack = PDict 100 [(PStr ''idempotency_key'', PStr ''k1''), (PStr ''op'', PStr ''ack''),
     (PStr ''payload'', PDict 101 [(PStr ''job_id'', PStr (''job1:'' @ replicate 64 CHR ''b'')),
        (PStr ''worker'', PStr ''w''), (PStr ''now'', PInt 50)])]"

definition honest :: fingerprinter where
  "honest op body = Some (PStr (request_fingerprint op body))"

definition sample_frozen :: frozen_request where
  "sample_frozen = \<lparr>fr_key = ''k1'', fr_op = ''ack'', fr_payload = detach (PDict 101
       [(PStr ''job_id'', PStr (''job1:'' @ replicate 64 CHR ''b'')), (PStr ''worker'', PStr ''w''), (PStr ''now'', PInt 50)]),
     fr_queue = Ack (''job1:'' @ replicate 64 CHR ''b'') ''w'' 50\<rparr>"

definition sample_acked :: queue where
  "sample_acked = sample_queue\<lparr>jobs := [sample_job CHR ''a'' 0 1 Ready 5 None,
     sample_job CHR ''b'' 1 5 Done 1 None, sample_job CHR ''c'' 2 3 Ready 0 None]\<rparr>"

lemma sample_frozen_request: "validate_request sample_ack = Inr sample_frozen"
  by (simp add: validate_request_def sample_ack_def sample_frozen_def keys_are_def JI_FIELDS_def ji_key_ok_def
      name_char_def JI_OPS_def check_request_def OP_FIELDS_def insert_commute Let_def worker_ok_def MAX_NOW_def
      job_id_ok_def tag_grammar_def is_hex_def list_all_iff)

lemma honest_fingerprint: "fingerprint honest f = Inr (request_fingerprint (fr_op f) (fr_payload f))"
  by (simp add: fingerprint_def honest_def request_fingerprint_def Let_def)

lemma sample_transition: "\<exists>j. queue_step sample_queue (fr_queue sample_frozen) = Inr (j, sample_acked)"
  by (simp add: sample_frozen_def some_job_def settle_def by_id_def sample_queue_def sample_job_def held_by_def
      update_job_def release_def sample_acked_def)

lemma sample_ji_apply:
  "\<exists>r. ji_apply honest (reload sample_queue) (PList 200 []) sample_ack = Inr ((Applied, r), sample_acked, [r])"
proof -
  have "disjoint_graphs sample_ack (reload sample_queue) (PList 200 [])"
    by (simp add: disjoint_graphs_def sample_ack_def reload_def sample_queue_def sample_job_def queue_json_def
        job_json_def opt_json_def)
  then show ?thesis using sample_transition
    by (auto simp: ji_apply_def sample_frozen_request sample_state validate_ledger_def ji_commit_def
        honest_fingerprint stored_receipt_def Let_def)
qed

subsection \<open>Properties\<close>

text \<open>C36. What an accepted call commits is accepted by the next call: the queue state and the ledger,
  reloaded, pass validation and read back the same, the ledger has at most one receipt more, and the
  returned receipt is the ledger's one receipt for that key and content.\<close>

theorem ji_commit_accepted:
  assumes "ji_apply fp st l v = Inr ((out, r), q', rs')"
  shows "check_state (reload q') = Inr q' \<and> validate_ledger (ledger_value rs') (state_id_for q') = Inr rs'
    \<and> r \<in> set rs' \<and> distinct (map ir_key rs')
    \<and> (\<exists>q rs. check_state st = Inr q \<and> validate_ledger l (state_id_for q) = Inr rs \<and> queue_moves q q'
        \<and> (case out of Replayed \<Rightarrow> rs' = rs \<and> q' = q \<and> r \<in> set rs
          | Applied \<Rightarrow> rs' = rs @ [r] \<and> ir_prior r = state_id_for q \<and> ir_state r = state_id_for q'))"
proof -
  obtain q rs f where *: "check_state st = Inr q" "validate_ledger l (state_id_for q) = Inr rs"
    "validate_request v = Inr f" "ji_commit fp q rs f = Inr ((out, r), q', rs')"
    using assms by (rule ji_apply_cmd)
  have ok: "ji_ok (q, rs)"
    using check_state_ok [OF *(1)] validated_ledger_ok [OF *(2)] by (simp add: ji_ok_def)
  note st = ji_commit_step [OF ok *(3,4)]
  have "case out of Replayed \<Rightarrow> rs' = rs \<and> q' = q \<and> r \<in> set rs
      | Applied \<Rightarrow> rs' = rs @ [r] \<and> ir_prior r = state_id_for q \<and> ir_state r = state_id_for q'"
    using *(4) by (cases rule: ji_commit_cases) (use st in \<open>auto simp: new_receipt_def\<close>)
  then show ?thesis
    using st *(1,2) reload_committed [of q'] ledger_ok_keys [of q' rs']
    by (auto simp: ji_ok_def ji_extends_def ledger_ok_def reload_def)
qed

theorem ji_commit_accepted_witness:
  "\<exists>r. validate_ledger (ledger_value [r]) (state_id_for sample_acked) = Inr [r] \<and> ir_state r = state_id_for sample_acked"
proof -
  obtain r where r: "ji_apply honest (reload sample_queue) (PList 200 []) sample_ack = Inr ((Applied, r), sample_acked, [r])"
    using sample_ji_apply by blast
  show ?thesis using ji_commit_accepted [OF r] by auto
qed

text \<open>C34. Exactly once: after a request has been accepted, whatever calls with whatever fingerprinters
  come in between, the same request is replayed: it returns the very receipt of the first time and
  changes neither the queue nor the ledger. (It is still refused if the fingerprinter of that call
  misbehaves or if the request shares a container with the state or the ledger.)\<close>

theorem ji_exactly_once:
  assumes "ji_apply fp st l v = Inr ((out, r), q1, rs1)" and "run ji_cmd (q1, rs1) cs = (q2, rs2)"
  shows "\<exists>f. validate_request v = Inr f \<and> ji_apply fp' (reload q2) (ledger_value rs2) v =
    require (disjoint_graphs v (reload q2) (ledger_value rs2)) Malformed_idempotency_request
      (and_then (fingerprint fp' f) (\<lambda>_. Inr ((Replayed, r), q2, rs2)))"
proof -
  obtain q rs f where *: "check_state st = Inr q" "validate_ledger l (state_id_for q) = Inr rs"
    "validate_request v = Inr f" "ji_commit fp q rs f = Inr ((out, r), q1, rs1)"
    using assms(1) by (rule ji_apply_cmd)
  have "ji_ok (q, rs)"
    using check_state_ok [OF *(1)] validated_ledger_ok [OF *(2)] by (simp add: ji_ok_def)
  note st = ji_commit_step [OF this *(3,4)]
  have ok: "ji_ok (q2, rs2)" and ext: "ji_extends (q1, rs1) (q2, rs2)"
    using jm.run_inv [of "(q1, rs1)" cs] jm.run_le [of "(q1, rs1)" cs] st assms(2) by auto
  have "r \<in> set rs2" using ext st by (auto simp: ji_extends_def)
  then have "stored_receipt rs2 (fr_key f) = Some r"
    using ok st stored_receipt_Some [OF ledger_ok_keys, of q2 rs2] by (simp add: ji_ok_def)
  then have "ji_commit fp' q2 rs2 f = and_then (fingerprint fp' f) (\<lambda>_. Inr ((Replayed, r), q2, rs2))"
    using st fingerprint_Inr [of fp' f] by (cases "fingerprint fp' f") (auto simp: ji_commit_def)
  moreover have "check_state (reload q2) = Inr q2"
    using ok reload_committed by (simp add: ji_ok_def reload_def)
  ultimately show ?thesis
    using *(3) ok by (simp add: ji_apply_def ji_ok_def ledger_ok_def)
qed

theorem ji_exactly_once_witness:
  "\<exists>r. ji_apply honest (reload sample_acked) (ledger_value [r]) sample_ack = Inr ((Replayed, r), sample_acked, [r])"
proof -
  obtain r where r: "ji_apply honest (reload sample_queue) (PList 200 []) sample_ack = Inr ((Applied, r), sample_acked, [r])"
    using sample_ji_apply by blast
  have "disjoint_graphs sample_ack (reload sample_acked) (ledger_value [r])"
    by (simp add: disjoint_graphs_def sample_ack_def reload_def sample_acked_def sample_queue_def sample_job_def
        queue_json_def job_json_def opt_json_def ledger_value_def receipt_dict_def)
  then show ?thesis
    using ji_exactly_once [OF r, of "[]" sample_acked "[r]" honest] by (auto simp: honest_fingerprint)
qed

text \<open>One queue transition.\<close>

definition queue_trans :: "queue \<Rightarrow> request \<Rightarrow> (queue_error, queue) result" where
  "queue_trans q r = and_then (queue_step q r) (\<lambda>(_, q'). Inr q')"

definition receipt_for :: "ji_receipt \<Rightarrow> frozen_request \<Rightarrow> bool" where
  "receipt_for r f \<longleftrightarrow> ir_key r = fr_key f \<and> ir_fingerprint r = request_fingerprint (fr_op f) (fr_payload f)"

lemma ji_run_accounts:
  assumes "ji_ok (q, rs)" "run ji_cmd (q, rs) cs = (q', rs')"
  shows "\<exists>fs more. rs' = rs @ more \<and> list_all2 receipt_for more fs
    \<and> run_all queue_trans q (map fr_queue fs) = Inr q'
    \<and> (\<forall>f \<in> set fs. \<exists>c \<in> set cs. validate_request (snd c) = Inr f)"
  using assms
proof (induction cs arbitrary: q rs)
  case (Cons c cs)
  show ?case
  proof (cases "ji_cmd (q, rs) c")
    case (Inl e)
    then have "run ji_cmd (q, rs) cs = (q', rs')" using Cons.prems(2) by (simp add: step_or_stay_def)
    from Cons.IH [OF Cons.prems(1) this] show ?thesis by fastforce
  next
    case (Inr t)
    obtain f out r where f: "validate_request (snd c) = Inr f"
      "ji_commit (fst c) q rs f = Inr ((out, r), fst t, snd t)"
      using ji_cmd_Inr [OF Inr] by auto
    have t: "ji_ok (fst t, snd t)" using ji_commit_step [OF Cons.prems(1) f] by simp
    have "run ji_cmd (fst t, snd t) cs = (q', rs')" using Cons.prems(2) Inr by (simp add: step_or_stay_def)
    from Cons.IH [OF t this] obtain fs more where IH: "rs' = snd t @ more" "list_all2 receipt_for more fs"
      "run_all queue_trans (fst t) (map fr_queue fs) = Inr q'"
      "\<forall>f \<in> set fs. \<exists>c \<in> set cs. validate_request (snd c) = Inr f" by blast
    show ?thesis using f(2)
    proof (cases rule: ji_commit_cases)
      case replayed
      then show ?thesis using IH by fastforce
    next
      case (applied j)
      have "receipt_for r f" using applied(5) by (simp add: receipt_for_def new_receipt_def)
      moreover have "queue_trans q (fr_queue f) = Inr (fst t)" using applied(3) by (simp add: queue_trans_def)
      ultimately show ?thesis using IH applied(4) f(1)
        by (intro exI [of _ "f # fs"] exI [of _ "r # more"]) auto
    qed
  qed
qed simp

text \<open>C35. The ledger accounts for the queue: after any sequence of calls that started with an empty
  ledger, the queue is the one that the requests of the ledger's receipts, each applied once and in
  the order of the ledger, lead to; every one of them was asked for, under pairwise distinct keys.\<close>

theorem ji_ledger_accounts:
  assumes "check_state st = Inr q" and "run ji_cmd (q, []) cs = (q', rs)"
  shows "distinct (map ir_key rs) \<and> (\<exists>fs. list_all2 receipt_for rs fs
    \<and> run_all queue_trans q (map fr_queue fs) = Inr q'
    \<and> set (map Inr fs) \<subseteq> set (map (\<lambda>c. validate_request (snd c)) cs))"
proof -
  have ok: "ji_ok (q, [])"
    using check_state_ok [OF assms(1)] by (simp add: ji_ok_def ledger_ok_iff)
  obtain fs where "list_all2 receipt_for rs fs" "run_all queue_trans q (map fr_queue fs) = Inr q'"
      "\<forall>f \<in> set fs. \<exists>c \<in> set cs. validate_request (snd c) = Inr f"
    using ji_run_accounts [OF ok assms(2)] by auto
  moreover from this(3) have "set (map Inr fs) \<subseteq> set (map (\<lambda>c. validate_request (snd c)) cs)"
    by (force simp: image_iff)
  moreover have "ledger_ok q' rs" using jm.run_inv [OF ok, of cs] assms(2) by (simp add: ji_ok_def)
  then have "distinct (map ir_key rs)" by (rule ledger_ok_keys)
  ultimately show ?thesis by blast
qed

theorem ji_ledger_accounts_witness:
  "\<exists>r f. run_all queue_trans sample_queue [fr_queue f] = Inr sample_acked \<and> receipt_for r f"
proof -
  obtain r where r: "ji_commit honest sample_queue [] sample_frozen = Inr ((Applied, r), sample_acked, [r])"
    using sample_transition
    by (auto simp: ji_commit_def honest_fingerprint stored_receipt_def Let_def)
  have "run ji_cmd (sample_queue, []) [(honest, sample_ack)] = (sample_acked, [r])"
    by (simp add: step_or_stay_def ji_cmd_def sample_frozen_request r)
  from ji_ledger_accounts [OF sample_state this] obtain fs where
    "list_all2 receipt_for [r] fs" "run_all queue_trans sample_queue (map fr_queue fs) = Inr sample_acked" by blast
  then obtain f where "receipt_for r f" "run_all queue_trans sample_queue [fr_queue f] = Inr sample_acked"
    unfolding list_all2_Cons1 by fastforce
  then show ?thesis by blast
qed

end
