(* ===== verification/PositionDigest.thy ===== *)
theory PositionDigest
  imports FenFacts Json
begin

text \<open>
  The position digest, \<open>src/graph/position_digest.py\<close> over \<open>src/data/contracts/position_digest.yaml\<close>
  and its linked contracts: the en-passant identity value on a parsed board, the canonical encoding
  of the five identity fields, and the digest of the encoding.
\<close>

datatype digest_error = Unknown_variant | Malformed_position | Malformed_digest

fun digest_code :: "digest_error \<Rightarrow> string" where
  "digest_code Unknown_variant = ''malformed_request''"
| "digest_code Malformed_position = ''malformed_request''"
| "digest_code Malformed_digest = ''malformed_request''"

text \<open>The registered variants.\<close>

definition VARIANTS :: "string list" where
  "VARIANTS = [''standard'']"

text \<open>The position after one candidate capture. Both deleted keys are present: the pawn by the test
  before, the captured one by the FEN contract.\<close>

definition ep_after :: "fen_board \<Rightarrow> bool \<Rightarrow> int \<Rightarrow> int \<Rightarrow> fen_board" where
  "ep_after board white tf f = (let rank = (if white then 5 else 4) in
     dict_set (filter (\<lambda>kv. fst kv \<noteq> (f, rank) \<and> fst kv \<noteq> (tf, rank)) board)
       (tf, if white then 6 else 3) (cased white CHR ''P''))"

definition digest_ep :: "fen_position \<Rightarrow> string" where
  "digest_ep p = (case fp_ep p of None \<Rightarrow> ''-'' | Some ep \<Rightarrow>
     (let board = fp_board p; white = (fp_color p = ''w''); tf = index_of FILES (ep ! 0) in
      if list_ex (\<lambda>df. let f = tf + df in
           0 \<le> f \<and> f < 8 \<and> map_of board (f, if white then 5 else 4) = Some (cased white CHR ''P'')
           \<and> (let after = ep_after board white tf f in
              \<not> fen_attack (hd (squares_of after (cased white CHR ''K''))) after (\<not> white)))
         [- 1, 1]
      then ep else ''-''))"

definition identity_tuple :: "string \<Rightarrow> fen_position \<Rightarrow> string list" where
  "identity_tuple variant p = [variant, emit_placement (fp_board p), fp_color p,
     (if fp_rights p = [] then ''-'' else fp_rights p), digest_ep p]"

definition encode :: "string \<Rightarrow> fen_position \<Rightarrow> string" where
  "encode variant p = join_on CHR '' '' (identity_tuple variant p)"

definition digest :: "string \<Rightarrow> string" where
  "digest encoding = tagged ''pdv1'' encoding"

definition digest_fen :: "pyval \<Rightarrow> pyval \<Rightarrow> (digest_error, string) result" where
  "digest_fen variant text = (case variant of PStr v \<Rightarrow>
       require (v \<in> set VARIANTS) Unknown_variant
       (case parse_fen text of Inl _ \<Rightarrow> Inl Malformed_position
        | Inr p \<Rightarrow> Inr (digest (encode v p)))
     | _ \<Rightarrow> Inl Unknown_variant)"

definition parse_digest :: "pyval \<Rightarrow> (digest_error, string) result" where
  "parse_digest text = (case text of PStr s \<Rightarrow> require (tag_grammar ''pdv1'' s) Malformed_digest (Inr s)
     | _ \<Rightarrow> Inl Malformed_digest)"

subsection \<open>The identity value agrees with the en-passant runtime\<close>

lemma occ_of_filter:
  assumes "\<forall>((f, r), ch) \<in> set board. on_board f (r - 1)" "on_board f1 r1" "on_board f2 r2"
  shows "occ_of (filter (\<lambda>kv. fst kv \<noteq> (f1, r1 + 1) \<and> fst kv \<noteq> (f2, r2 + 1)) board)
    = filter (\<lambda>kv. fst kv \<noteq> sq f1 r1 \<and> fst kv \<noteq> sq f2 r2) (occ_of board)"
  using assms(1)
proof (induction board)
  case (Cons kv board)
  obtain f r ch where kv: "kv = ((f, r), ch)" by (metis prod.collapse)
  have "on_board f (r - 1)" using Cons.prems kv by simp
  then show ?case
    using Cons sq_inj [of f "r - 1" f1 r1] sq_inj [of f "r - 1" f2 r2] assms(2,3)
    by (auto simp: occ_of_def kv)
qed (simp add: occ_of_def)

lemma occ_of_dict_set:
  assumes "\<forall>((f, r), ch) \<in> set board. on_board f (r - 1)" "on_board g q"
  shows "occ_of (dict_set board (g, q + 1) ch) = dict_set (occ_of board) (sq g q) (letter_token ch)"
  using assms(1)
proof (induction board)
  case (Cons kv board)
  obtain f r c where kv: "kv = ((f, r), c)" by (metis prod.collapse)
  have "on_board f (r - 1)" using Cons.prems kv by simp
  then show ?case
    using Cons sq_inj [of f "r - 1" g q] assms(2) by (auto simp: occ_of_def kv)
qed (simp add: occ_of_def)

lemma squares_of_keep:
  "(\<And>k. (k, c) \<in> set board \<Longrightarrow> P (k, c)) \<Longrightarrow> squares_of (filter P board) c = squares_of board c"
  unfolding squares_of_def by (induction board) auto

lemma board_ok_filter: "board_ok board \<Longrightarrow> board_ok (filter P board)"
  by (auto simp: board_ok_def distinct_fst_filter)

lemma board_ok_place:
  "board_ok board \<Longrightarrow> on_board f (r - 1) \<Longrightarrow> ch \<in> set piece_letters \<Longrightarrow> board_ok (dict_set board (f, r) ch)"
  using set_dict_set_subset [of board "(f, r)" ch] by (auto simp: board_ok_def)

text \<open>One candidate: file \<open>f\<close> next to the target's file \<open>tf\<close>, \<open>m\<close> the row of both pawns.\<close>

lemma ep_after_occ:
  assumes b: "board_ok board" and o: "on_board f m" "on_board tf m" "on_board tf t"
    and ranks: "m + 1 = (if white then 5 else 4)" "t + 1 = (if white then 6 else 3)"
    and at: "map_of board (f, m + 1) = Some (cased white CHR ''P'')"
      "map_of board (tf, m + 1) = Some (cased (\<not> white) CHR ''P'')" "map_of board (tf, t + 1) = None"
  shows "occ_of (ep_after board white tf f) = dict_set (filter (\<lambda>kv. fst kv \<noteq> sq f m \<and> fst kv \<noteq> sq tf m)
      (occ_of board)) (sq tf t) [side_char white, CHR ''p'']"
    and "board_ok (ep_after board white tf f)"
    and "squares_of (ep_after board white tf f) (cased w CHR ''K'') = squares_of board (cased w CHR ''K'')"
proof -
  let ?P = "\<lambda>kv. fst kv \<noteq> (f, m + 1) \<and> fst kv \<noteq> (tf, m + 1)"
  let ?b = "filter ?P board"
  have e: "ep_after board white tf f = dict_set ?b (tf, t + 1) (cased white CHR ''P'')"
    using ranks by (simp add: ep_after_def)
  have ok: "board_ok ?b" by (rule board_ok_filter [OF b])
  have tok: "letter_token (cased white CHR ''P'') = [side_char white, CHR ''p'']"
    by (simp add: cased_def letter_token_def side_char_def is_upper_def lower_def)
  show "occ_of (ep_after board white tf f) = dict_set (filter (\<lambda>kv. fst kv \<noteq> sq f m \<and> fst kv \<noteq> sq tf m)
      (occ_of board)) (sq tf t) [side_char white, CHR ''p'']"
    unfolding e occ_of_dict_set [OF board_ok_squares [OF ok] o(3)] tok
    by (simp only: occ_of_filter [OF board_ok_squares [OF b] o(1,2)])
  show "board_ok (ep_after board white tf f)" unfolding e
    by (rule board_ok_place [OF ok]) (use o(3) in \<open>simp_all add: cased_def piece_letters_def lower_def\<close>)
  have new: "(tf, t + 1) \<notin> fst ` set ?b" using at(3) by (auto simp: map_of_eq_None_iff)
  have d: "distinct (map fst board)" using b by (simp add: board_ok_def)
  have keep: "?P (k, cased w CHR ''K'')" if "(k, cased w CHR ''K'') \<in> set board" for k
  proof -
    have "map_of board k = Some (cased w CHR ''K'')" using that d by simp
    then show ?thesis using at(1,2) by (auto simp: cased_def lower_def split: if_splits)
  qed
  have "cased white CHR ''P'' \<noteq> cased w CHR ''K''" by (simp add: cased_def lower_def)
  then show "squares_of (ep_after board white tf f) (cased w CHR ''K'') = squares_of board (cased w CHR ''K'')"
    unfolding e dict_set_new [OF new] using squares_of_keep [of "cased w CHR ''K''" board ?P] keep
    by (auto simp: squares_of_def)
qed

lemma digest_candidate:
  assumes p: "parse_fen (PStr s) = Inr p" and e: "fp_ep p = Some ep" and f: "0 \<le> f" "f < 8"
    and near: "\<bar>f - index_of FILES (ep ! 0)\<bar> = 1"
  defines "white \<equiv> fp_color p = ''w''" and "tf \<equiv> index_of FILES (ep ! 0)"
  shows "accepts (ep_capture (fen_ep p) [FILES ! nat f, mover_rank (ep_side (fen_ep p))] ep) \<longleftrightarrow>
    map_of (fp_board p) (f, if white then 5 else 4) = Some (cased white CHR ''P'')
    \<and> \<not> fen_attack (hd (squares_of (ep_after (fp_board p) white tf f) (cased white CHR ''K'')))
          (ep_after (fp_board p) white tf f) (\<not> white)"
proof -
  let ?st = "fen_ep p" and ?b = "fp_board p"
  define m where "m = (if white then 4 else 3 :: int)"
  define t where "t = (if white then 5 else 2 :: int)"
  have pb: "board_ok ?b" "position_ok p" "fp_color p = ''w'' \<or> fp_color p = ''b''"
    "length ep = 2" "ep ! 0 \<in> set FILES" "ep ! 1 \<in> set ''36''"
    using parsed_board [OF p] e by auto
  have v: "ep_valid ?st"
    using position_valid_occ [OF pb(1,2)] pb(3) by (auto simp: ep_valid_def fen_ep_def)
  have side: "ep_side ?st = side_char white" "other (side_char white) = side_char (\<not> white)"
    using pb(3) by (auto simp: white_def fen_ep_def side_char_def)
  have tgt: "ep_target ?st = ep" "ep_occ ?st = occ_of ?b" by (simp_all add: fen_ep_def e)
  have es: "ep_grammar ep" "ep \<noteq> EP_NONE" "ep ! 1 = so_target (set_on (side_char (\<not> white)))"
    "map_of (occ_of ?b) ep = None"
    "map_of (occ_of ?b) [ep ! 0, captured_rank (side_char white)] = Some [side_char (\<not> white), CHR ''p'']"
    using position_ep_square [OF pb(1-3) e pb(4-6)] side by (simp_all add: fen_ep_def Let_def)
  have tf: "FILES ! nat tf = ep ! 0" "0 \<le> tf" "tf < 8" using FILES_index [OF pb(5)] by (simp_all add: tf_def)
  have o: "on_board f m" "on_board tf m" "on_board tf t"
    using f tf by (simp_all add: on_board_iff m_def t_def)
  obtain c0 c1 where ep: "ep = [c0, c1]" using pb(4) by (auto simp: length_Suc_conv numeral_2_eq_2)
  have sqs: "[FILES ! nat f, mover_rank (side_char white)] = sq f m"
    "[ep ! 0, captured_rank (side_char white)] = sq tf m" "ep = sq tf t"
    using es(3) tf(1) by (auto simp: sq_def m_def t_def mover_rank_def captured_rank_def side_char_def RANKS_def
        set_on_def ep)
  have ord: "ord (sq f m ! 0) = f + 97" "ord (ep ! 0) = tf + 97"
    using f tf ord_FILES [of f] ord_FILES [of tf] by (simp_all add: sq_def)
  have "mover_rank (side_char white) = sq f m ! 1" by (simp flip: sqs(1))
  then have cap: "capturable ?st (sq f m) ep \<longleftrightarrow> map_of (occ_of ?b) (sq f m) = Some [side_char white, CHR ''p'']"
    unfolding capturable_def captured_square_def tgt side using es near ord by (simp add: tf_def)
  have at: "map_of (occ_of ?b) (sq x y) = map_option letter_token (map_of ?b (x, y + 1))" if "on_board x y" for x y
    by (rule map_of_occ_of [OF board_ok_squares [OF pb(1)] that])
  have pawn: "map_of (occ_of ?b) (sq x y) = Some [side_char w, CHR ''p''] \<longleftrightarrow>
      map_of ?b (x, y + 1) = Some (cased w CHR ''P'')" if "on_board x y" for x y w
  proof (cases "map_of ?b (x, y + 1)")
    case (Some ch)
    have "ch \<in> set piece_letters" by (rule board_ok_at(2) [OF pb(1) Some])
    then show ?thesis using at [OF that] Some letter_token_eq [of ch "CHR ''P''" w]
      by (simp add: lower_def side_char_def)
  qed (simp add: at [OF that])
  have ranks: "m + 1 = (if white then 5 else 4)" "t + 1 = (if white then 6 else 3)"
    by (simp_all add: m_def t_def)
  show ?thesis
  proof (cases "map_of ?b (f, m + 1) = Some (cased white CHR ''P'')")
    case False
    then show ?thesis using cap pawn [OF o(1)] accepts_ep_capture [OF v]
      by (simp add: side sqs(1) ranks(1))
  next
    case True
    let ?a = "ep_after ?b white tf f"
    have "map_of ?b (tf, t + 1) = None" using at [OF o(3)] es(4) sqs(3) by simp
    moreover have "map_of ?b (tf, m + 1) = Some (cased (\<not> white) CHR ''P'')"
      using pawn [OF o(2)] es(5) sqs(2) by simp
    ultimately have a: "occ_of ?a = capture_result ?st (sq f m) ep" "board_ok ?a"
        "squares_of ?a (cased white CHR ''K'') = squares_of ?b (cased white CHR ''K'')"
      using ep_after_occ [OF pb(1) o ranks True]
      by (simp_all add: capture_result_def tgt side sqs(2) flip: sqs(3))
    have "length (squares_of ?a (cased white CHR ''K'')) = 1"
      unfolding a(3) using pb(2) by (simp add: position_ok_def Let_def cased_def lower_def)
    from position_kings [OF a(2) this] obtain u y where k:
      "squares_of ?a (cased white CHR ''K'') = [(u, y + 1)]" "on_board u y"
      "king_square (occ_of ?a) (side_char white) = Some (sq u y)" by blast
    have "king_attacked (capture_result ?st (sq f m) ep) (side_char white) \<longleftrightarrow>
        fen_attack (u, y + 1) ?a (\<not> white)"
      unfolding a(1) [symmetric] king_attacked_def k(3) side(2)
      using fen_attack_iff [OF a(2) k(2), of "\<not> white"] by simp
    then show ?thesis
      using True cap pawn [OF o(1)] accepts_ep_capture [OF v] k(1)
      by (simp add: side sqs(1) ranks(1))
  qed
qed

text \<open>The en-passant identity value that the digest encodes is the one of the en-passant runtime:
  its own search on the parsed board finds a legal capture exactly if that runtime accepts one.\<close>

theorem digest_ep_agrees:
  assumes "parse_fen (PStr s) = Inr p"
  shows "digest_ep p = ep_identity_of (fen_ep p)"
proof (cases "fp_ep p")
  case None
  then show ?thesis by (simp add: digest_ep_def ep_identity_of_def fen_ep_def EP_NONE_def)
next
  case (Some ep)
  define tf where "tf = index_of FILES (ep ! 0)"
  have pb: "board_ok (fp_board p)" "position_ok p" "fp_color p = ''w'' \<or> fp_color p = ''b''"
    "length ep = 2" "ep ! 0 \<in> set FILES" "ep ! 1 \<in> set ''36''"
    using parsed_board [OF assms] Some by auto
  have es: "ep_grammar ep" "ep \<noteq> EP_NONE"
    using position_ep_square [OF pb(1-3) Some pb(4-6)] by (simp_all add: Let_def)
  have tgt: "ep_target (fen_ep p) = ep" by (simp add: fen_ep_def Some)
  have tf: "FILES ! nat tf = ep ! 0" "0 \<le> tf" "tf < 8" using FILES_index [OF pb(5)] by (simp_all add: tf_def)
  have ord: "ord (ep ! 0) - 97 = tf" using ord_FILES [of tf] tf by simp
  have c: "(0 \<le> tf + d \<and> tf + d \<le> 7 \<and> accepts (ep_capture (fen_ep p)
        [FILES ! nat (tf + d), mover_rank (ep_side (fen_ep p))] ep)) \<longleftrightarrow>
      (0 \<le> tf + d \<and> tf + d < 8 \<and> map_of (fp_board p) (tf + d, if fp_color p = ''w'' then 5 else 4)
          = Some (cased (fp_color p = ''w'') CHR ''P'')
        \<and> \<not> fen_attack (hd (squares_of (ep_after (fp_board p) (fp_color p = ''w'') tf (tf + d))
              (cased (fp_color p = ''w'') CHR ''K'')))
            (ep_after (fp_board p) (fp_color p = ''w'') tf (tf + d)) (fp_color p \<noteq> ''w''))"
    if "\<bar>d\<bar> = 1" for d
  proof -
    have "tf + d \<le> 7 \<longleftrightarrow> tf + d < 8" by arith
    then show ?thesis
      using digest_candidate [OF assms Some, of "tf + d"] that by (simp add: tf_def cong: conj_cong)
  qed
  show ?thesis
    using c [of "- 1"] c [of 1] es
    by (simp add: digest_ep_def ep_identity_of_def Some tgt Let_def ord EP_NONE_def flip: tf_def)
qed

theorem digest_ep_agrees_witness:
  "\<exists>p. parse_fen (PStr ep_fen) = Inr p \<and> ep_identity_of (fen_ep p) = ''d6''"
proof -
  have "(case parse_fen (PStr ep_fen) of Inr p \<Rightarrow> digest_ep p = ''d6'' | Inl _ \<Rightarrow> False)" by code_simp
  then obtain p where "parse_fen (PStr ep_fen) = Inr p" "digest_ep p = ''d6''" by (auto split: sum.splits)
  then show ?thesis using digest_ep_agrees [of ep_fen p] by auto
qed

end
