(* ===== verification/PositionIdentity.thy ===== *)
theory PositionIdentity
  imports PositionDigest
begin

text \<open>
  What the digest identifies: two parsed positions have the same identity tuple exactly if they agree
  after the snapshot normalization (en-passant value of the identity, clocks 0 and 1), and the encoding
  of the tuple is injective. The normalized position is itself a position of the parser.
\<close>

definition normalized :: "fen_position \<Rightarrow> fen_position" where
  "normalized p = p\<lparr>fp_ep := (if digest_ep p = ''-'' then None else fp_ep p), fp_half := 0, fp_full := 1\<rparr>"

lemma normalized_simps [simp]:
  "fp_board (normalized p) = fp_board p" "fp_color (normalized p) = fp_color p"
  "fp_rights (normalized p) = fp_rights p" "fp_half (normalized p) = 0" "fp_full (normalized p) = 1"
  by (simp_all add: normalized_def)

lemma digest_ep_cases: "digest_ep p = ''-'' \<or> (\<exists>ep. fp_ep p = Some ep \<and> digest_ep p = ep)"
  by (cases "fp_ep p") (auto simp: digest_ep_def Let_def)

lemma parse_fieldsI:
  assumes "placement \<noteq> []" "parse_placement placement = Inr (fp_board p)"
    "fp_color p = ''w'' \<or> fp_color p = ''b''" "parse_counter 0 half = Inr (fp_half p)"
    "parse_counter 1 full = Inr (fp_full p)" "castling \<noteq> []" "parse_castling castling = Inr (fp_rights p)"
    "ep \<noteq> []" "parse_ep ep = Inr (fp_ep p)" "position_ok p"
  shows "parse_fields [placement, fp_color p, castling, ep, half, full] = Inr p"
proof -
  have half: "half \<noteq> []" "full \<noteq> []" using assms(4,5) by (auto simp: parse_counter_def)
  show ?thesis using assms half by (cases p) (auto simp: parse_fields_def)
qed

lemma parsed_ep_two: "parse_fen (PStr s) = Inr p \<Longrightarrow> fp_ep p = Some e \<Longrightarrow> length e = 2"
  using parsed_board by blast

lemma digest_ep_normalized:
  assumes "parse_fen (PStr s) = Inr p"
  shows "digest_ep (normalized p) = digest_ep p"
proof (cases "digest_ep p = ''-''")
  case True
  then show ?thesis by (simp add: normalized_def digest_ep_def)
next
  case False
  then have "fp_ep (normalized p) = fp_ep p" by (simp add: normalized_def)
  then show ?thesis unfolding digest_ep_def normalized_simps by simp
qed

lemma normalized_ep:
  assumes "parse_fen (PStr s) = Inr p"
  shows "(case fp_ep (normalized p) of None \<Rightarrow> ''-'' | Some e \<Rightarrow> e) = digest_ep p"
  using digest_ep_cases [of p] parsed_ep_two [OF assms] by (auto simp: normalized_def)

text \<open>The parts of an accepted text, and the text of the normalized position.\<close>

lemma parsed_parts:
  assumes "parse_fen (PStr s) = Inr p"
  shows "parse_placement (emit_placement (fp_board p)) = Inr (fp_board p)"
    and "parse_castling (if fp_rights p = [] then ''-'' else fp_rights p) = Inr (fp_rights p)"
    and "parse_ep (case fp_ep p of None \<Rightarrow> ''-'' | Some e \<Rightarrow> e) = Inr (fp_ep p)"
    and "CHR '' '' \<notin> set (emit_placement (fp_board p))" "emit_placement (fp_board p) \<noteq> []"
proof -
  have "parse_fields (split_on CHR '' '' s) = Inr p" using assms by (simp add: parse_fen_def)
  from parse_fieldsE [OF this] obtain placement color castling ep half full where a:
    "split_on CHR '' '' s = [placement, color, castling, ep, half, full]"
    "parse_placement placement = Inr (fp_board p)" "parse_castling castling = Inr (fp_rights p)"
    "parse_ep ep = Inr (fp_ep p)" by metis
  have e: "emit_placement (fp_board p) = placement" by (rule placement_roundtrip [OF a(2)])
  show "parse_placement (emit_placement (fp_board p)) = Inr (fp_board p)" using a(2) e by simp
  show "parse_castling (if fp_rights p = [] then ''-'' else fp_rights p) = Inr (fp_rights p)"
    using a(3) parse_castling_text [OF a(3)] by simp
  show "parse_ep (case fp_ep p of None \<Rightarrow> ''-'' | Some e \<Rightarrow> e) = Inr (fp_ep p)"
    using a(4) parse_ep_text [OF a(4)] by simp
  show "CHR '' '' \<notin> set (emit_placement (fp_board p))"
    using split_no_sep [of placement "CHR '' ''" s] a(1) e by simp
  have "parse_placement [] = Inl Malformed_fen" by (simp add: parse_placement_def require_def)
  then show "emit_placement (fp_board p) \<noteq> []" using a(2) e by auto
qed

lemma digest_ep_parses:
  assumes "parse_fen (PStr s) = Inr p"
  shows "parse_ep (digest_ep p) = Inr (fp_ep (normalized p))" "digest_ep p \<noteq> []"
    "CHR '' '' \<notin> set (digest_ep p)"
proof -
  consider "digest_ep p = ''-''" | ep where "digest_ep p \<noteq> ''-''" "fp_ep p = Some ep" "digest_ep p = ep"
    using digest_ep_cases [of p] by blast
  then have "parse_ep (digest_ep p) = Inr (fp_ep (normalized p)) \<and> digest_ep p \<noteq> []
    \<and> CHR '' '' \<notin> set (digest_ep p)"
  proof cases
    case 1
    then show ?thesis by (simp add: normalized_def parse_ep_def)
  next
    case 2
    have "parse_ep ep = Inr (Some ep)" using parsed_parts(3) [OF assms] 2 by simp
    moreover have "length ep = 2" "ep ! 0 \<in> set FILES" "ep ! 1 \<in> set ''36''"
      using parsed_board [OF assms] 2 by auto
    moreover from this have "CHR '' '' \<notin> set ep"
      by (auto simp: length_Suc_conv numeral_2_eq_2 FILES_def)
    ultimately show ?thesis using 2 by (auto simp: normalized_def)
  qed
  then show "parse_ep (digest_ep p) = Inr (fp_ep (normalized p))" "digest_ep p \<noteq> []"
    "CHR '' '' \<notin> set (digest_ep p)" by blast+
qed

lemma position_ok_normalized:
  assumes "position_ok p"
  shows "position_ok (normalized p)"
proof -
  have "ep_consistent b w 0 e" if "ep_consistent b w h e" for b w h e
    using that by (simp add: ep_consistent_def Let_def)
  then show ?thesis using assms
    by (auto simp: position_ok_def Let_def normalized_def split: option.splits)
qed

lemma normalized_parses:
  assumes "parse_fen (PStr s) = Inr p"
  shows "parse_fen (PStr (emit_fen (normalized p))) = Inr (normalized p)"
proof -
  let ?n = "normalized p"
  let ?rights = "if fp_rights p = [] then ''-'' else fp_rights p"
  have pb: "position_ok p" "fp_color p = ''w'' \<or> fp_color p = ''b''" "set (fp_rights p) \<subseteq> set ''KQkq''"
    using parsed_board [OF assms] by blast+
  have emit: "emit_fen ?n = join_on CHR '' '' [emit_placement (fp_board p), fp_color p, ?rights,
      digest_ep p, ''0'', ''1'']"
    by (simp add: emit_fen_def normalized_ep [OF assms] dec_small digit_char_def)
  have sp: "\<forall>x \<in> set [emit_placement (fp_board p), fp_color p, ?rights, digest_ep p, ''0'', ''1''].
      CHR '' '' \<notin> set x"
    using parsed_parts(4) [OF assms] digest_ep_parses(3) [OF assms] pb(2,3) by auto
  have "parse_fields [emit_placement (fp_board p), fp_color ?n, ?rights, digest_ep p, ''0'', ''1''] = Inr ?n"
  proof (rule parse_fieldsI)
    show "parse_counter 0 ''0'' = Inr (fp_half ?n)" "parse_counter 1 ''1'' = Inr (fp_full ?n)"
      unfolding normalized_simps by code_simp+
  qed (use parsed_parts [OF assms] digest_ep_parses [OF assms] pb position_ok_normalized in auto)
  then show ?thesis
    unfolding parse_fen_def emit using split_join [OF _ sp] by simp
qed

subsection \<open>Identity\<close>

lemma identity_normalized:
  "parse_fen (PStr s) = Inr p \<Longrightarrow> identity_tuple v (normalized p) = identity_tuple v p"
  by (simp add: identity_tuple_def digest_ep_normalized)

lemma normalized_eq:
  assumes "parse_fen (PStr s) = Inr p" "parse_fen (PStr t) = Inr q"
  shows "normalized p = normalized q \<longleftrightarrow> fp_board p = fp_board q \<and> fp_color p = fp_color q
    \<and> fp_rights p = fp_rights q \<and> digest_ep p = digest_ep q" (is "_ \<longleftrightarrow> ?R")
proof
  assume "normalized p = normalized q"
  then show ?R using normalized_simps(1-3) digest_ep_normalized [OF assms(1)] digest_ep_normalized [OF assms(2)]
    by metis
next
  assume r: ?R
  then have "fp_ep (normalized p) = fp_ep (normalized q)"
    using digest_ep_parses(1) [OF assms(1)] digest_ep_parses(1) [OF assms(2)] by simp
  then show "normalized p = normalized q" using r by (intro fen_position.equality) simp_all
qed

lemma identity_tuple_iff:
  assumes "parse_fen (PStr s) = Inr p" "parse_fen (PStr t) = Inr q"
  shows "identity_tuple v p = identity_tuple w q \<longleftrightarrow> v = w \<and> normalized p = normalized q"
proof
  assume "identity_tuple v p = identity_tuple w q"
  then have a: "v = w" "emit_placement (fp_board p) = emit_placement (fp_board q)"
    "fp_color p = fp_color q" "digest_ep p = digest_ep q"
    "(if fp_rights p = [] then ''-'' else fp_rights p) = (if fp_rights q = [] then ''-'' else fp_rights q)"
    unfolding identity_tuple_def by (simp_all only: list.inject)
  have "Inr (fp_board p) = (Inr (fp_board q) :: (fen_error, fen_board) result)"
    by (rule trans [OF parsed_parts(1) [OF assms(1), symmetric, unfolded a(2)] parsed_parts(1) [OF assms(2)]])
  moreover have "Inr (fp_rights p) = (Inr (fp_rights q) :: (fen_error, string) result)"
    by (rule trans [OF parsed_parts(2) [OF assms(1), symmetric, unfolded a(5)] parsed_parts(2) [OF assms(2)]])
  ultimately show "v = w \<and> normalized p = normalized q"
    using normalized_eq [OF assms] a(1,3,4) by simp
next
  assume "v = w \<and> normalized p = normalized q"
  then show "identity_tuple v p = identity_tuple w q"
    using identity_normalized [OF assms(1), of v] identity_normalized [OF assms(2), of w] by simp
qed

text \<open>C27. The canonical encoding is injective: for registered variants and parsed positions, two
  encodings are the same text exactly if variant, placement, side, castling rights and en-passant
  identity all agree; clocks and an en-passant target that cannot be captured do not count.\<close>

theorem encode_injective:
  assumes "parse_fen (PStr s) = Inr p" "parse_fen (PStr t) = Inr q" "v \<in> set VARIANTS" "w \<in> set VARIANTS"
  shows "encode v p = encode w q \<longleftrightarrow> v = w \<and> fp_board p = fp_board q \<and> fp_color p = fp_color q
    \<and> fp_rights p = fp_rights q \<and> digest_ep p = digest_ep q"
proof -
  have plain: "\<forall>x \<in> set (identity_tuple u r). CHR '' '' \<notin> set x"
    if r: "parse_fen (PStr z) = Inr r" and u: "u \<in> set VARIANTS" for u z r
  proof -
    have "fp_color r = ''w'' \<or> fp_color r = ''b''" "set (fp_rights r) \<subseteq> set ''KQkq''"
      using parsed_board [OF r] by blast+
    then show ?thesis using parsed_parts(4) [OF r] digest_ep_parses(3) [OF r] u
      by (auto simp: identity_tuple_def VARIANTS_def)
  qed
  have "encode v p = encode w q \<longleftrightarrow> identity_tuple v p = identity_tuple w q"
    unfolding encode_def
    by (rule join_inj [OF _ _ plain [OF assms(1,3)] plain [OF assms(2,4)]])
      (simp_all add: identity_tuple_def)
  also have "\<dots> \<longleftrightarrow> v = w \<and> normalized p = normalized q" by (rule identity_tuple_iff [OF assms(1,2)])
  also have "\<dots> \<longleftrightarrow> v = w \<and> fp_board p = fp_board q \<and> fp_color p = fp_color q
    \<and> fp_rights p = fp_rights q \<and> digest_ep p = digest_ep q"
    using normalized_eq [OF assms(1,2)] by simp
  finally show ?thesis .
qed

theorem encode_injective_witness:
  "\<exists>p q. parse_fen (PStr ep_fen) = Inr p \<and> parse_fen (PStr start_fen) = Inr q
     \<and> encode ''standard'' p \<noteq> encode ''standard'' q"
proof -
  have "accepts (parse_fen (PStr ep_fen)) \<and> accepts (parse_fen (PStr start_fen))" by code_simp
  then obtain p q where pq: "parse_fen (PStr ep_fen) = Inr p" "parse_fen (PStr start_fen) = Inr q"
    by (auto simp: accepts_iff)
  have "(case (parse_fen (PStr ep_fen), parse_fen (PStr start_fen)) of
      (Inr p, Inr q) \<Rightarrow> fp_rights p \<noteq> fp_rights q | _ \<Rightarrow> False)" by code_simp
  then have "fp_rights p \<noteq> fp_rights q" using pq by simp
  then show ?thesis using encode_injective [OF pq, of "''standard''" "''standard''"] pq
    by (auto simp: VARIANTS_def)
qed

end
