(* ===== verification/BucketTable.thy ===== *)
theory BucketTable
  imports PyValue "HOL-Library.Multiset"
begin

text \<open>
  The dict of buckets that the node table and the edge table of the route graph keep: a key leads to
  the list of records filed under it, in insertion order. The locale is their contract: records of one
  identity share a key, so looking for an identity in one bucket is looking for it in the table.
\<close>

type_synonym ('k, 'r) buckets = "('k \<times> 'r list) list"

text \<open>\<open>self.buckets.get(key, [])\<close>, \<open>self.buckets.setdefault(key, []).append(rec)\<close> and \<open>records()\<close>.\<close>

definition bucket_at :: "('k, 'r) buckets \<Rightarrow> 'k \<Rightarrow> 'r list" where
  "bucket_at t k = (case map_of t k of Some b \<Rightarrow> b | None \<Rightarrow> [])"

definition bucket_add :: "('k, 'r) buckets \<Rightarrow> 'k \<Rightarrow> 'r \<Rightarrow> ('k, 'r) buckets" where
  "bucket_add t k r = dict_set t k (bucket_at t k @ [r])"

definition table_records :: "('k, 'r) buckets \<Rightarrow> 'r list" where
  "table_records t = concat (map snd t)"

lemma table_records_simps [simp]:
  "table_records [] = []" "table_records ((k, b) # t) = b @ table_records t"
  by (simp_all add: table_records_def)

lemma bucket_subset: "r \<in> set (bucket_at t k) \<Longrightarrow> r \<in> set (table_records t)"
  by (cases "map_of t k") (auto simp: bucket_at_def table_records_def dest!: map_of_SomeD intro: bexI [rotated])

lemma mset_bucket_add:
  "mset (table_records (bucket_add t k r)) = add_mset r (mset (table_records t))"
proof -
  have "mset (table_records (dict_set t k (b @ [r]))) + mset (bucket_at t k)
      = mset (table_records t) + mset (b @ [r])" for b
  proof (induction t)
    case (Cons kb t)
    then show ?case by (cases kb) (auto simp: bucket_at_def)
  qed (simp add: bucket_at_def)
  from this [of "bucket_at t k"] show ?thesis by (simp add: bucket_add_def)
qed

lemma set_bucket_add [simp]: "set (table_records (bucket_add t k r)) = insert r (set (table_records t))"
  using arg_cong [OF mset_bucket_add, of set_mset t k r] by simp

locale bucket_table =
  fixes key :: "'r \<Rightarrow> 'k" and ident :: "'r \<Rightarrow> 'i" and good :: "'r \<Rightarrow> bool"
  assumes key_ident: "good r \<Longrightarrow> good s \<Longrightarrow> ident r = ident s \<Longrightarrow> key r = key s"
begin

definition table_inv :: "('k, 'r) buckets \<Rightarrow> bool" where
  "table_inv t \<longleftrightarrow> distinct (map fst t) \<and> (\<forall>(k, b) \<in> set t. \<forall>r \<in> set b. good r \<and> key r = k)
     \<and> distinct (map ident (table_records t))"

lemma table_inv_empty: "table_inv []"
  by (simp add: table_inv_def)

lemma table_good: "table_inv t \<Longrightarrow> r \<in> set (table_records t) \<Longrightarrow> good r"
  by (auto simp: table_inv_def table_records_def)

lemma filed: "table_inv t \<Longrightarrow> r \<in> set (table_records t) \<Longrightarrow> r \<in> set (bucket_at t (key r))"
proof -
  assume t: "table_inv t" and "r \<in> set (table_records t)"
  then obtain k b where kb: "(k, b) \<in> set t" "r \<in> set b" by (auto simp: table_records_def)
  then have "key r = k" "map_of t k = Some b" using t by (auto simp: table_inv_def)
  then show ?thesis using kb(2) by (simp add: bucket_at_def)
qed

lemma unique_ident:
  "table_inv t \<Longrightarrow> r \<in> set (table_records t) \<Longrightarrow> s \<in> set (table_records t) \<Longrightarrow> ident r = ident s \<Longrightarrow> r = s"
  by (auto simp: table_inv_def distinct_map inj_on_def)

lemma lookup_bucket:
  assumes "table_inv t" "good r"
  shows "(\<exists>e \<in> set (bucket_at t (key r)). ident e = ident r) \<longleftrightarrow> (\<exists>e \<in> set (table_records t). ident e = ident r)"
  using filed [OF assms(1)] table_good [OF assms(1)] key_ident [OF _ assms(2)] bucket_subset by metis

lemma table_inv_add:
  assumes t: "table_inv t" and r: "good r" and new: "\<forall>e \<in> set (bucket_at t (key r)). ident e \<noteq> ident r"
  shows "table_inv (bucket_add t (key r) r)"
proof -
  have "ident r \<notin> ident ` set (table_records t)" using lookup_bucket [OF t r] new by auto
  moreover have "mset (map ident (table_records (bucket_add t (key r) r)))
      = mset (ident r # map ident (table_records t))"
    using arg_cong [OF mset_bucket_add, of "image_mset ident" t "key r" r] by simp
  ultimately have "distinct (map ident (table_records (bucket_add t (key r) r)))"
    using t mset_eq_imp_distinct_iff [of _ "ident r # map ident (table_records t)"]
    by (simp add: table_inv_def)
  moreover have "good x \<and> key x = k" if "(k, b) \<in> set (bucket_add t (key r) r)" "x \<in> set b" for k b x
  proof -
    have "(k, b) \<in> insert (key r, bucket_at t (key r) @ [r]) (set t)"
      using that(1) set_dict_set_subset unfolding bucket_add_def by (rule subsetD [rotated])
    moreover have "good y \<and> key y = key r" if "y \<in> set (bucket_at t (key r))" for y
      using that t by (auto simp: bucket_at_def table_inv_def split: option.splits dest: map_of_SomeD)
    ultimately show ?thesis using t r that(2) by (auto simp: table_inv_def)
  qed
  moreover have "distinct (map fst (bucket_add t (key r) r))" using t by (simp add: table_inv_def bucket_add_def)
  ultimately show ?thesis unfolding table_inv_def by blast
qed

end

end
