(* ===== verification/TranspositionNode.thy ===== *)
theory TranspositionNode
  imports PositionIdentity BucketTable
begin

text \<open>
  The transposition-node table, \<open>src/graph/transposition_node.py\<close> over
  \<open>src/data/contracts/transposition_node.yaml\<close>. The digest oracle is the caller's: an argument
  \<open>f\<close> of the definitions, a function of variant and FEN text whose result \<open>None\<close> is a raised
  exception. Record identity is the identity tuple, never the digest.
\<close>

datatype node_error = Node_unknown_variant | Node_malformed_position | Malformed_node_record

fun node_code :: "node_error \<Rightarrow> string" where
  "node_code Node_unknown_variant = ''unknown_variant''"
| "node_code Node_malformed_position = ''malformed_request''"
| "node_code Malformed_node_record = ''malformed_request''"

type_synonym digest_fn = "string \<Rightarrow> string \<Rightarrow> pyval option"

record node_record =
  nr_variant :: string
  nr_digest :: string
  nr_snapshot :: string

type_synonym node_table = "(string, node_record) buckets"

text \<open>The default oracle is the digest runtime.\<close>

definition default_oracle :: digest_fn where
  "default_oracle variant text = (case digest_fen (PStr variant) (PStr text) of
     Inr d \<Rightarrow> Some (PStr d) | Inl _ \<Rightarrow> None)"

text \<open>From the identity tuple: board, side, rights and en-passant identity, with fixed clocks.\<close>

definition snapshot_fen :: "string list \<Rightarrow> string" where
  "snapshot_fen identity = join_on CHR '' '' (tl identity @ [''0'', ''1''])"

definition oracle_digest :: "digest_fn \<Rightarrow> string \<Rightarrow> string \<Rightarrow> (node_error, string) result" where
  "oracle_digest f variant text = (case f variant text of
     Some (PStr out) \<Rightarrow> require (tag_grammar ''pdv1'' out) Malformed_node_record (Inr out)
   | _ \<Rightarrow> Inl Malformed_node_record)"

definition make_record :: "digest_fn \<Rightarrow> pyval \<Rightarrow> pyval \<Rightarrow> (node_error, node_record) result" where
  "make_record f variant text = (case variant of PStr v \<Rightarrow>
       require (v \<in> set VARIANTS) Node_unknown_variant
       (case text of PStr s \<Rightarrow> (case parse_fen (PStr s) of
            Inl _ \<Rightarrow> Inl Node_malformed_position
          | Inr p \<Rightarrow> and_then (oracle_digest f v s) (\<lambda>d. Inr \<lparr>nr_variant = v, nr_digest = d,
                nr_snapshot = snapshot_fen (identity_tuple v p)\<rparr>))
        | _ \<Rightarrow> Inl Node_malformed_position)
     | _ \<Rightarrow> Inl Node_unknown_variant)"

definition NODE_FIELDS :: "string list" where
  "NODE_FIELDS = [''variant'', ''digest'', ''snapshot_fen'']"

text \<open>A stored record given as a dict.\<close>

definition validate_node :: "digest_fn \<Rightarrow> pydict \<Rightarrow> (node_error, node_record) result" where
  "validate_node f d =
     require (keys_are d NODE_FIELDS) Malformed_node_record
     (require (list_all is_str [fld d ''variant'', fld d ''digest'', fld d ''snapshot_fen'']) Malformed_node_record
     (let v = key_bytes (fld d ''variant''); snap = key_bytes (fld d ''snapshot_fen'');
          parts = split_on CHR '' '' snap in
      require (fld d ''variant'' \<in> PStr ` set VARIANTS) Node_unknown_variant
     (require (matches (tag_grammar ''pdv1'') (fld d ''digest'')) Malformed_node_record
     (case parse_fen (fld d ''snapshot_fen'') of
        Inl _ \<Rightarrow> Inl Malformed_node_record
      | Inr p \<Rightarrow>
          require (parts ! 4 = ''0'' \<and> parts ! 5 = ''1'') Malformed_node_record
         (require (parts ! 3 = digest_ep p) Malformed_node_record
         (and_then (oracle_digest f v snap) (\<lambda>out.
          require (fld d ''digest'' = PStr out) Malformed_node_record
            (Inr \<lparr>nr_variant = v, nr_digest = key_bytes (fld d ''digest''), nr_snapshot = snap\<rparr>))))))))"

definition node_dict :: "node_record \<Rightarrow> pydict" where
  "node_dict r = [(PStr ''variant'', PStr (nr_variant r)), (PStr ''digest'', PStr (nr_digest r)),
     (PStr ''snapshot_fen'', PStr (nr_snapshot r))]"

text \<open>\<open>validate_record\<close> on an arbitrary value.\<close>

definition validate_node_record :: "digest_fn \<Rightarrow> pyval \<Rightarrow> (node_error, node_record) result" where
  "validate_node_record f rec = (case rec of PDict _ d \<Rightarrow> validate_node f d | _ \<Rightarrow> Inl Malformed_node_record)"

subsection \<open>The table\<close>

text \<open>The identity of a stored record; its snapshot parses (\<open>node_ok\<close> below).\<close>

definition node_identity :: "node_record \<Rightarrow> string list" where
  "node_identity r = (case parse_fen (PStr (nr_snapshot r)) of
     Inr p \<Rightarrow> identity_tuple (nr_variant r) p | Inl _ \<Rightarrow> [])"

definition node_insert :: "digest_fn \<Rightarrow> node_table \<Rightarrow> pyval \<Rightarrow> pyval
    \<Rightarrow> (node_error, node_table \<times> node_record) result" where
  "node_insert f t variant text = and_then (make_record f variant text) (\<lambda>r.
     (case find (\<lambda>e. node_identity e = node_identity r) (bucket_at t (nr_digest r)) of
        Some e \<Rightarrow> Inr (t, e)
      | None \<Rightarrow> Inr (bucket_add t (nr_digest r) r, r)))"

text \<open>The merge: every element of the source must be an exact dict, then every copy is validated, then
  all are inserted in order, in a staged table.\<close>

fun freeze :: "pyval list \<Rightarrow> (node_error, pydict list) result" where
  "freeze [] = Inr []"
| "freeze (PDict _ d # rs) = require (list_all is_str (map fst d)) Malformed_node_record
     (and_then (freeze rs) (\<lambda>ds. Inr (d # ds)))"
| "freeze (_ # rs) = Inl Malformed_node_record"

fun validate_nodes :: "digest_fn \<Rightarrow> pydict list \<Rightarrow> (node_error, node_record list) result" where
  "validate_nodes f [] = Inr []"
| "validate_nodes f (d # ds) = and_then (validate_node f d) (\<lambda>r.
     and_then (validate_nodes f ds) (\<lambda>rs. Inr (r # rs)))"

definition restage :: "digest_fn \<Rightarrow> node_table \<Rightarrow> node_record \<Rightarrow> (node_error, node_table) result" where
  "restage f t r = and_then (node_insert f t (PStr (nr_variant r)) (PStr (nr_snapshot r))) (\<lambda>(t', e). Inr t')"

definition node_merge :: "digest_fn \<Rightarrow> node_table \<Rightarrow> pyval \<Rightarrow> (node_error, node_table) result" where
  "node_merge f t source = (case source of PList _ rs \<Rightarrow>
       and_then (freeze rs) (\<lambda>ds. and_then (validate_nodes f ds) (\<lambda>recs. run_all (restage f) t recs))
     | _ \<Rightarrow> Inl Malformed_node_record)"

definition node_triple :: "node_record \<Rightarrow> string list" where
  "node_triple r = [nr_variant r, nr_digest r, nr_snapshot r]"

definition node_serialize :: "node_table \<Rightarrow> string list list" where
  "node_serialize t = sort (map node_triple (table_records t))"

text \<open>The value of \<open>records()\<close>, and the two mutating operations as one step.\<close>

definition records_value :: "node_table \<Rightarrow> pyval" where
  "records_value t = PList 0 (map (\<lambda>r. PDict 1 (node_dict r)) (table_records t))"

datatype node_op = Node_insert pyval pyval | Node_merge pyval

fun node_step :: "digest_fn \<Rightarrow> node_table \<Rightarrow> node_op \<Rightarrow> (node_error, node_table) result" where
  "node_step f t (Node_insert variant text) = and_then (node_insert f t variant text) (\<lambda>(t', e). Inr t')"
| "node_step f t (Node_merge source) = node_merge f t source"

end
