(* ===== verification/TranspositionProps.thy ===== *)
theory TranspositionProps
  imports TranspositionNode
begin

text \<open>
  Correctness of the node table. An oracle is only relied on for being a function of the position's
  identity (\<open>respects_identity\<close>): colliding digests are allowed. The digest runtime is such an oracle.
\<close>

definition respects_identity :: "digest_fn \<Rightarrow> bool" where
  "respects_identity f \<longleftrightarrow> (\<forall>v s t p q. parse_fen (PStr s) = Inr p \<longrightarrow> parse_fen (PStr t) = Inr q
     \<longrightarrow> normalized p = normalized q \<longrightarrow> f v s = f v t)"

text \<open>A record as the table builds it: the snapshot of a parsed position, filed under its digest.\<close>

definition node_ok :: "digest_fn \<Rightarrow> node_record \<Rightarrow> bool" where
  "node_ok f r \<longleftrightarrow> nr_variant r \<in> set VARIANTS \<and>
     (\<exists>p. parse_fen (PStr (nr_snapshot r)) = Inr p \<and> normalized p = p) \<and>
     oracle_digest f (nr_variant r) (nr_snapshot r) = Inr (nr_digest r)"

lemma snapshot_emit:
  assumes "parse_fen (PStr s) = Inr p"
  shows "snapshot_fen (identity_tuple v p) = emit_fen (normalized p)"
  by (simp add: snapshot_fen_def identity_tuple_def emit_fen_def normalized_ep [OF assms] dec_small
      digit_char_def)

lemma normalized_idem: "parse_fen (PStr s) = Inr p \<Longrightarrow> normalized (normalized p) = normalized p"
  using normalized_eq [OF normalized_parses] digest_ep_normalized by simp

lemma dec_clocks: "dec n = ''0'' \<longleftrightarrow> n = 0" "dec n = ''1'' \<longleftrightarrow> n = 1"
  using dec_inj [of n 0] dec_inj [of n 1] by (simp_all add: dec_small digit_char_def)

text \<open>The validator's checks on clocks and en-passant field say that the snapshot is normalized.\<close>

lemma snapshot_checks:
  assumes "parse_fen (PStr s) = Inr p"
  shows "(split_on CHR '' '' s ! 4 = ''0'' \<and> split_on CHR '' '' s ! 5 = ''1''
      \<and> split_on CHR '' '' s ! 3 = digest_ep p) \<longleftrightarrow> normalized p = p" (is "?L \<longleftrightarrow> _")
proof -
  have "?L \<longleftrightarrow> fp_half p = 0 \<and> fp_full p = 1 \<and> (case fp_ep p of None \<Rightarrow> ''-'' | Some e \<Rightarrow> e) = digest_ep p"
    using parsed_fields [OF assms] dec_clocks by (simp add: numeral_nat)
  also have "(case fp_ep p of None \<Rightarrow> ''-'' | Some e \<Rightarrow> e) = digest_ep p \<longleftrightarrow> fp_ep (normalized p) = fp_ep p"
    using normalized_ep [OF assms] digest_ep_cases [of p] parsed_ep_two [OF assms]
    by (cases "fp_ep p") (auto simp: normalized_def digest_ep_def)
  finally show ?thesis
    by (metis fen_position.equality normalized_simps old.unit.exhaust)
qed

lemma validate_node_iff:
  "validate_node f (node_dict r) = Inr r' \<longleftrightarrow> node_ok f r \<and> r' = r"
proof -
  have k: "keys_are (node_dict r) NODE_FIELDS"
    by (simp add: keys_are_def node_dict_def NODE_FIELDS_def insert_commute)
  have f: "fld (node_dict r) ''variant'' = PStr (nr_variant r)" "fld (node_dict r) ''digest'' = PStr (nr_digest r)"
    "fld (node_dict r) ''snapshot_fen'' = PStr (nr_snapshot r)"
    by (simp_all add: node_dict_def fld_simps)
  have "tag_grammar ''pdv1'' d" if "oracle_digest f v t = Inr d" for v t d
    using that by (auto simp: oracle_digest_def split: option.splits pyval.splits)
  then show ?thesis
    using snapshot_checks [of "nr_snapshot r"]
    by (cases "parse_fen (PStr (nr_snapshot r))")
      (auto simp: validate_node_def k f node_ok_def Let_def split: sum.splits)
qed

text \<open>What a validated dict holds.\<close>

lemma validate_node_ok:
  assumes "validate_node f d = Inr r"
  shows "node_ok f r"
proof -
  obtain p where p: "parse_fen (fld d ''snapshot_fen'') = Inr p"
    using assms by (auto simp: validate_node_def Let_def split: sum.splits)
  moreover obtain snap where s: "fld d ''snapshot_fen'' = PStr snap"
    using p by (cases "fld d ''snapshot_fen''") (auto simp: parse_fen_def)
  ultimately have ps: "parse_fen (PStr snap) = Inr p" by simp
  from assms snapshot_checks [OF ps] show ?thesis
    unfolding validate_node_def s ps Let_def sum.case key_bytes.simps
    by (auto simp: node_ok_def ps)
qed

subsection \<open>Records and their identity\<close>

lemma node_identity_ok:
  assumes "node_ok f r"
  obtains p where "parse_fen (PStr (nr_snapshot r)) = Inr p" "normalized p = p"
    "node_identity r = identity_tuple (nr_variant r) p" "nr_snapshot r = emit_fen p"
proof -
  from assms obtain p where p: "parse_fen (PStr (nr_snapshot r)) = Inr p" "normalized p = p"
    by (auto simp only: node_ok_def)
  show thesis by (rule that [OF p]) (simp_all add: node_identity_def p(1) emit_parsed [OF p(1)])
qed

text \<open>Under one oracle a record is determined by its identity.\<close>

lemma node_determined:
  assumes "node_ok f r" "node_ok f r'" "node_identity r = node_identity r'"
  shows "r = r'"
proof -
  from node_identity_ok [OF assms(1)] obtain p where p: "parse_fen (PStr (nr_snapshot r)) = Inr p"
    "normalized p = p" "node_identity r = identity_tuple (nr_variant r) p" "nr_snapshot r = emit_fen p" .
  from node_identity_ok [OF assms(2)] obtain q where q: "parse_fen (PStr (nr_snapshot r')) = Inr q"
    "normalized q = q" "node_identity r' = identity_tuple (nr_variant r') q" "nr_snapshot r' = emit_fen q" .
  have "nr_variant r = nr_variant r'" "p = q"
    using identity_tuple_iff [OF p(1) q(1), of "nr_variant r" "nr_variant r'"] assms(3) p(2,3) q(2,3) by simp_all
  moreover from this have "nr_snapshot r = nr_snapshot r'" using p(4) q(4) by simp
  moreover have "nr_digest r = nr_digest r'" using assms(1,2) calculation by (simp add: node_ok_def)
  ultimately show ?thesis by simp
qed

lemma make_record_cases:
  assumes "make_record f v x = Inr r"
  obtains u s p where "v = PStr u" "x = PStr s" "u \<in> set VARIANTS" "parse_fen (PStr s) = Inr p"
    "oracle_digest f u s = Inr (nr_digest r)" "nr_variant r = u" "nr_snapshot r = emit_fen (normalized p)"
proof -
  obtain u s where u: "v = PStr u" "x = PStr s" "u \<in> set VARIANTS"
    using assms by (auto simp: make_record_def split: pyval.splits)
  then obtain p where p: "parse_fen (PStr s) = Inr p" using assms by (auto simp: make_record_def split: sum.splits)
  show thesis
    using that [OF u p] assms u p snapshot_emit [OF p, of u] by (auto simp: make_record_def)
qed

text \<open>The digest runtime is a function of the identity.\<close>

lemma default_respects: "respects_identity default_oracle"
  unfolding respects_identity_def
proof (intro allI impI)
  fix v s t p q
  assume a: "parse_fen (PStr s) = Inr p" "parse_fen (PStr t) = Inr q" "normalized p = normalized q"
  have "identity_tuple v p = identity_tuple v q" using identity_tuple_iff [OF a(1,2)] a(3) by simp
  then show "default_oracle v s = default_oracle v t" using a by (simp add: default_oracle_def digest_fen_def encode_def)
qed

lemma default_digest:
  "v \<in> set VARIANTS \<Longrightarrow> parse_fen (PStr s) = Inr p \<Longrightarrow> oracle_digest default_oracle v s = Inr (digest (encode v p))"
  by (simp add: oracle_digest_def default_oracle_def digest_fen_def digest_def)

locale node_oracle =
  fixes f :: digest_fn
  assumes respects: "respects_identity f"
begin

lemma make_record_ok:
  assumes "make_record f v x = Inr r"
  shows "node_ok f r"
proof -
  from make_record_cases [OF assms] obtain u s p where a: "u \<in> set VARIANTS" "parse_fen (PStr s) = Inr p"
    "oracle_digest f u s = Inr (nr_digest r)" "nr_variant r = u" "nr_snapshot r = emit_fen (normalized p)" .
  have n: "parse_fen (PStr (nr_snapshot r)) = Inr (normalized p)" using normalized_parses [OF a(2)] a(5) by simp
  have "f u (nr_snapshot r) = f u s"
    using respects n a(2) normalized_idem [OF a(2)] unfolding respects_identity_def by blast
  then show ?thesis using a(1,3,4) n normalized_idem [OF a(2)] by (auto simp: node_ok_def oracle_digest_def)
qed

lemma make_record_again:
  assumes "node_ok f r"
  shows "make_record f (PStr (nr_variant r)) (PStr (nr_snapshot r)) = Inr r"
proof -
  from node_identity_ok [OF assms] obtain p where p: "parse_fen (PStr (nr_snapshot r)) = Inr p"
    "normalized p = p" "nr_snapshot r = emit_fen p" .
  then show ?thesis using assms snapshot_emit [OF p(1), of "nr_variant r"]
    by (simp add: make_record_def node_ok_def)
qed

end

sublocale node_oracle \<subseteq> nt: bucket_table nr_digest node_identity "node_ok f"
  by unfold_locales (metis node_determined)

context node_oracle
begin

text \<open>An insertion returns the record of the position, and adds it if it is new.\<close>

lemma insert_spec:
  assumes t: "nt.table_inv t" and i: "node_insert f t v x = Inr (t', r)"
  shows "make_record f v x = Inr r \<and> nt.table_inv t' \<and> set (table_records t') = insert r (set (table_records t))
    \<and> (r \<in> set (table_records t) \<longrightarrow> t' = t)"
proof -
  obtain m where m: "make_record f v x = Inr m" using i by (auto simp: node_insert_def)
  have ok: "node_ok f m" by (rule make_record_ok [OF m])
  show ?thesis
  proof (cases "find (\<lambda>e. node_identity e = node_identity m) (bucket_at t (nr_digest m))")
    case None
    then have new: "\<forall>e \<in> set (bucket_at t (nr_digest m)). node_identity e \<noteq> node_identity m"
      by (simp add: find_None_iff)
    have "r = m" "t' = bucket_add t (nr_digest m) m" using i m None by (auto simp: node_insert_def)
    moreover have "m \<notin> set (table_records t)" using nt.lookup_bucket [OF t ok] new by blast
    ultimately show ?thesis using m nt.table_inv_add [OF t ok new] by simp
  next
    case (Some e)
    then have e: "e \<in> set (bucket_at t (nr_digest m))" "node_identity e = node_identity m"
      by (auto simp: find_Some_iff)
    then have "e \<in> set (table_records t)" using bucket_subset by metis
    moreover from this have "e = m" using node_determined [OF nt.table_good [OF t] ok e(2)] by blast
    ultimately show ?thesis using i m t Some by (auto simp: node_insert_def)
  qed
qed

lemma insert_accepted: "accepts (node_insert f t v x) \<longleftrightarrow> accepts (make_record f v x)"
  by (cases "make_record f v x") (auto simp: node_insert_def accepts_def split: option.split)

lemma restage_run:
  "nt.table_inv t \<Longrightarrow> \<forall>r \<in> set rs. node_ok f r \<Longrightarrow>
     \<exists>t'. run_all (restage f) t rs = Inr t' \<and> nt.table_inv t'
       \<and> set (table_records t') = set (table_records t) \<union> set rs
       \<and> (set rs \<subseteq> set (table_records t) \<longrightarrow> t' = t)"
proof (induction rs arbitrary: t)
  case (Cons r rs)
  have m: "make_record f (PStr (nr_variant r)) (PStr (nr_snapshot r)) = Inr r"
    using make_record_again Cons.prems(2) by simp
  then obtain t1 e where i: "node_insert f t (PStr (nr_variant r)) (PStr (nr_snapshot r)) = Inr (t1, e)"
    using insert_accepted [of t] by (metis accepts_iff accepts_simps(1) surj_pair)
  from insert_spec [OF Cons.prems(1) i] m
  have t1: "nt.table_inv t1" "set (table_records t1) = insert r (set (table_records t))"
    "r \<in> set (table_records t) \<longrightarrow> t1 = t" by auto
  from Cons.IH [OF t1(1)] Cons.prems(2) obtain t' where
    "run_all (restage f) t1 rs = Inr t'" "nt.table_inv t'"
    "set (table_records t') = set (table_records t1) \<union> set rs" "set rs \<subseteq> set (table_records t1) \<longrightarrow> t' = t1" by auto
  moreover have "run_all (restage f) t (r # rs) = run_all (restage f) t1 rs" using i by (simp add: restage_def)
  moreover have "t' = t" if "set (r # rs) \<subseteq> set (table_records t)" using that t1 calculation(4) by auto
  ultimately show ?case using t1(2) by (intro exI [of _ t']) auto
qed simp

lemma validate_nodes_ok: "validate_nodes f ds = Inr rs \<Longrightarrow> \<forall>r \<in> set rs. node_ok f r"
  by (induction ds arbitrary: rs) (auto dest: validate_node_ok)

lemma validate_table:
  "\<forall>r \<in> set rs. node_ok f r \<Longrightarrow>
     freeze (map (\<lambda>r. PDict 1 (node_dict r)) rs) = Inr (map node_dict rs) \<and> validate_nodes f (map node_dict rs) = Inr rs"
proof (induction rs)
  case (Cons r rs)
  moreover have "list_all is_str (map fst (node_dict r))" by (simp add: node_dict_def)
  ultimately show ?case by (simp add: validate_node_iff)
qed simp

text \<open>Merging the records of a table is their union.\<close>

lemma merge_spec:
  assumes "nt.table_inv t" "nt.table_inv u"
  shows "\<exists>t'. node_merge f t (records_value u) = Inr t' \<and> nt.table_inv t'
    \<and> set (table_records t') = set (table_records t) \<union> set (table_records u)
    \<and> (set (table_records u) \<subseteq> set (table_records t) \<longrightarrow> t' = t)"
proof -
  have ok: "\<forall>r \<in> set (table_records u). node_ok f r" using nt.table_good [OF assms(2)] by blast
  show ?thesis using restage_run [OF assms(1) ok] validate_table [OF ok]
    by (simp add: node_merge_def records_value_def)
qed

lemma step_spec:
  assumes "nt.table_inv t" "node_step f t op = Inr t'"
  shows "nt.table_inv t' \<and> set (table_records t) \<subseteq> set (table_records t')"
proof (cases op)
  case (Node_insert v x)
  then obtain r where "node_insert f t v x = Inr (t', r)" using assms(2) by auto
  from insert_spec [OF assms(1) this] show ?thesis by blast
next
  case (Node_merge source)
  then obtain rs ds recs where "validate_nodes f ds = Inr recs" "run_all (restage f) t recs = Inr t'"
    using assms(2) by (cases source) (auto simp: node_merge_def)
  then show ?thesis using restage_run [OF assms(1) validate_nodes_ok] by fastforce
qed

end

sublocale node_oracle \<subseteq> nm: guarded_machine "node_step f" nt.table_inv
    "\<lambda>t u. set (table_records t) \<subseteq> set (table_records u)"
  using step_spec by unfold_locales (blast, blast, simp, blast)

context node_oracle
begin

lemma merge_point:
  assumes "nt.table_inv t" "node_insert f t (PStr u) (PStr s) = Inr (t1, r1)" "t2 = run (node_step f) t1 ops"
    "node_insert f t2 (PStr w) (PStr z) = Inr (t3, r2)" "parse_fen (PStr s) = Inr p" "parse_fen (PStr z) = Inr q"
  shows "(r1 = r2 \<longleftrightarrow> identity_tuple u p = identity_tuple w q) \<and> (r1 = r2 \<longrightarrow> t3 = t2)"
proof -
  note a = insert_spec [OF assms(1,2)]
  have t2: "nt.table_inv t2" "r1 \<in> set (table_records t2)"
    using a nm.run_inv [of t1 ops] nm.run_le [of t1 ops] assms(3) by auto
  note b = insert_spec [OF t2(1) assms(4)]
  have id: "node_ok f r" "node_identity r = identity_tuple v p'"
    if m: "make_record f (PStr v) (PStr x) = Inr r" and p': "parse_fen (PStr x) = Inr p'" for v x r p'
  proof -
    show "node_ok f r" by (rule make_record_ok [OF m])
    have "nr_variant r = v \<and> nr_snapshot r = emit_fen (normalized p')"
      by (rule make_record_cases [OF m]) (use p' in simp)
    then show "node_identity r = identity_tuple v p'"
      using normalized_parses [OF p'] identity_normalized [OF p'] by (simp add: node_identity_def)
  qed
  have "r1 = r2 \<longleftrightarrow> identity_tuple u p = identity_tuple w q"
    using id [OF _ assms(5)] id [OF _ assms(6)] node_determined a b by metis
  then show ?thesis using b t2(2) by auto
qed

lemma serialize_eq:
  assumes "nt.table_inv t" "nt.table_inv u" "set (table_records t) = set (table_records u)"
  shows "node_serialize t = node_serialize u"
proof -
  have "inj_on node_triple A" for A by (auto simp: inj_on_def node_triple_def)
  moreover have "distinct (table_records x)" if "nt.table_inv x" for x
    using that by (simp add: nt.table_inv_def distinct_map)
  ultimately have "distinct (node_serialize x)" if "nt.table_inv x" for x
    using that by (simp add: node_serialize_def distinct_map)
  then show ?thesis using assms sorted_distinct_set_unique [of "node_serialize t" "node_serialize u"]
    by (simp add: node_serialize_def)
qed

lemma merge_union:
  assumes t: "nt.table_inv t" and u: "nt.table_inv u"
  shows "\<exists>t' u'. node_merge f t (records_value u) = Inr t' \<and> node_merge f u (records_value t) = Inr u'
    \<and> node_serialize t' = node_serialize u'
    \<and> set (node_serialize t') = set (node_serialize t) \<union> set (node_serialize u)
    \<and> node_merge f t (records_value t) = Inr t"
proof -
  from merge_spec [OF t u] merge_spec [OF u t] obtain t' u' where
    m: "node_merge f t (records_value u) = Inr t'" "node_merge f u (records_value t) = Inr u'"
      "nt.table_inv t'" "nt.table_inv u'"
      "set (table_records t') = set (table_records t) \<union> set (table_records u)"
      "set (table_records u') = set (table_records u) \<union> set (table_records t)" by blast
  have "node_serialize t' = node_serialize u'" by (rule serialize_eq [OF m(3,4)]) (simp add: m(5,6) Un_commute)
  moreover have "set (node_serialize t') = set (node_serialize t) \<union> set (node_serialize u)"
    by (simp add: node_serialize_def m(5) image_Un)
  ultimately show ?thesis using m(1,2) merge_spec [OF t t] by blast
qed

lemma reached_inv: "nt.table_inv (run (node_step f) [] ops)"
  by (rule nm.run_inv [OF nt.table_inv_empty])

lemma reached_records:
  assumes "r \<in> set (table_records (run (node_step f) [] ops))"
  shows "validate_node_record f (PDict n (node_dict r)) = Inr r"
    and "\<forall>r' \<in> set (table_records (run (node_step f) [] ops)). node_identity r' = node_identity r \<longrightarrow> r' = r"
  using nt.table_good [OF reached_inv assms] nt.unique_ident [OF reached_inv] assms
  by (auto simp: validate_node_record_def validate_node_iff)

end

interpretation dn: node_oracle default_oracle
  by unfold_locales (rule default_respects)

subsection \<open>Properties\<close>

definition flat_oracle :: digest_fn where
  "flat_oracle v s = Some (PStr (''pdv1:'' @ replicate 64 CHR ''0''))"

lemma flat_respects: "respects_identity flat_oracle"
  by (simp add: respects_identity_def flat_oracle_def)

text \<open>C5. A node is the merge point of a position: in any table, after whatever insertions and merges
  come between, two insertions return one record exactly if variant and position identity agree, and
  then the second changes nothing. The digest never decides: the oracle may collide at will, it only
  has to give one answer per identity.\<close>

theorem node_merge_point:
  assumes "respects_identity f" "t = run (node_step f) [] ops0"
    and "node_insert f t (PStr u) (PStr s) = Inr (t1, r1)" "t2 = run (node_step f) t1 ops"
    and "node_insert f t2 (PStr w) (PStr z) = Inr (t3, r2)"
    and "parse_fen (PStr s) = Inr p" "parse_fen (PStr z) = Inr q"
  shows "(r1 = r2 \<longleftrightarrow> identity_tuple u p = identity_tuple w q) \<and> (r1 = r2 \<longrightarrow> t3 = t2)"
  using node_oracle.merge_point [OF node_oracle.intro [OF assms(1)]
      node_oracle.reached_inv [OF node_oracle.intro [OF assms(1)]]] assms by blast

text \<open>Two positions under one digest stay two nodes; the clocks do not make a third.\<close>

definition clock_fen :: string where
  "clock_fen = ''4k3/8/8/3pP3/8/8/8/4K3 w - d6 0 40''"

definition no_ep_fen :: string where
  "no_ep_fen = ''4k3/8/8/3pP3/8/8/8/4K3 w - - 0 1''"

theorem node_merge_point_witness:
  "\<exists>t1 r1 t3. node_insert flat_oracle [] (PStr ''standard'') (PStr ep_fen) = Inr (t1, r1)
     \<and> node_insert flat_oracle (run (node_step flat_oracle) t1 [Node_insert (PStr ''standard'') (PStr no_ep_fen)])
         (PStr ''standard'') (PStr clock_fen) = Inr (t3, r1)
     \<and> length (table_records t3) = 2"
proof -
  let ?ins = "\<lambda>t s. node_insert flat_oracle t (PStr ''standard'') (PStr s)"
  let ?run = "\<lambda>t. run (node_step flat_oracle) t [Node_insert (PStr ''standard'') (PStr no_ep_fen)]"
  have "(case (parse_fen (PStr ep_fen), parse_fen (PStr clock_fen), ?ins [] ep_fen) of
      (Inr p, Inr q, Inr (t1, r1)) \<Rightarrow> identity_tuple ''standard'' p = identity_tuple ''standard'' q
        \<and> length (table_records (?run t1)) = 2 \<and> accepts (?ins (?run t1) clock_fen) | _ \<Rightarrow> False)"
    by code_simp
  then obtain p q t1 r1 t3 r2 where a: "parse_fen (PStr ep_fen) = Inr p" "parse_fen (PStr clock_fen) = Inr q"
    "?ins [] ep_fen = Inr (t1, r1)" "identity_tuple ''standard'' p = identity_tuple ''standard'' q"
    "length (table_records (?run t1)) = 2" "?ins (?run t1) clock_fen = Inr (t3, r2)"
    by (auto simp: accepts_iff split: sum.splits prod.splits)
  have "[] = run (node_step flat_oracle) [] []" by simp
  from node_merge_point [OF flat_respects this a(3) refl a(6) a(1,2)] show ?thesis using a by auto
qed

text \<open>C26. A merge is the union: for any two tables that production operations reach, merging the
  records of either into the other is accepted, both orders serialize the same, to the union of the two
  serializations, and merging a table into itself leaves it as it is.\<close>

theorem node_merge_union:
  "let t = run (node_step default_oracle) [] ops; u = run (node_step default_oracle) [] ops' in
   \<exists>t' u'. node_merge default_oracle t (records_value u) = Inr t'
    \<and> node_merge default_oracle u (records_value t) = Inr u'
    \<and> node_serialize t' = node_serialize u'
    \<and> set (node_serialize t') = set (node_serialize t) \<union> set (node_serialize u)
    \<and> node_merge default_oracle t (records_value t) = Inr t"
  unfolding Let_def by (rule dn.merge_union [OF dn.reached_inv dn.reached_inv])

end
