(* ===== verification/RouteEdge.thy ===== *)
theory RouteEdge
  imports TranspositionProps LegalMoves
begin

text \<open>
  The route-edge table, \<open>src/graph/route_edge.py\<close> over \<open>src/data/contracts/route_edge.yaml\<close>: moves
  between canonical node snapshots, filed under the digest of the source and the move. The oracle is
  the node table's.
\<close>

datatype edge_error = Edge_unknown_variant | Edge_malformed_position | Malformed_edge_record | Conflicting_edge

fun edge_code :: "edge_error \<Rightarrow> string" where
  "edge_code Edge_unknown_variant = ''unknown_variant''"
| "edge_code Edge_malformed_position = ''malformed_request''"
| "edge_code Malformed_edge_record = ''malformed_request''"
| "edge_code Conflicting_edge = ''conflicting_edge''"

record edge_record =
  er_variant :: string
  er_move :: string
  er_from :: string
  er_to :: string

type_synonym edge_table = "(string \<times> string, edge_record) buckets"

definition EDGE_FIELDS :: "string list" where
  "EDGE_FIELDS = [''variant'', ''move'', ''from_snapshot_fen'', ''to_snapshot_fen'']"

text \<open>Two squares and at most one promotion letter.\<close>

definition move_ok :: "pyval \<Rightarrow> bool" where
  "move_ok move = (case move of PStr s \<Rightarrow>
       list_all (\<lambda>c. of_char c < (128 :: nat)) s \<and> length s \<in> {4, 5}
       \<and> (\<forall>q \<in> set [take 2 s, take 2 (drop 2 s)]. q ! 0 \<in> set FILES \<and> q ! 1 \<in> set RANKS)
       \<and> take 2 s \<noteq> take 2 (drop 2 s)
       \<and> (length s = 4 \<or> [s ! 4] \<in> set PROMO_VALUES)
     | _ \<Rightarrow> False)"

text \<open>The node module's oracle boundary, with its failure re-typed.\<close>

definition edge_digest :: "digest_fn \<Rightarrow> string \<Rightarrow> string \<Rightarrow> (edge_error, string) result" where
  "edge_digest f variant text = (case oracle_digest f variant text of
     Inl _ \<Rightarrow> Inl Malformed_edge_record | Inr d \<Rightarrow> Inr d)"

definition make_edge :: "pyval \<Rightarrow> pyval \<Rightarrow> pyval \<Rightarrow> pyval \<Rightarrow> (edge_error, edge_record) result" where
  "make_edge variant move frm to =
     require (variant \<in> PStr ` set VARIANTS) Edge_unknown_variant
     (require (is_str move) Malformed_edge_record
     (require (is_str frm \<and> is_str to) Edge_malformed_position
     (require (move_ok move) Malformed_edge_record
     (let v = key_bytes variant in
      case (parse_fen frm, parse_fen to) of
        (Inr p, Inr q) \<Rightarrow> Inr \<lparr>er_variant = v, er_move = key_bytes move,
            er_from = snapshot_fen (identity_tuple v p), er_to = snapshot_fen (identity_tuple v q)\<rparr>
      | _ \<Rightarrow> Inl Edge_malformed_position))))"

text \<open>One end of a stored edge, checked through the node validator.\<close>

definition check_end :: "digest_fn \<Rightarrow> string \<Rightarrow> string \<Rightarrow> bool" where
  "check_end f variant snapshot = accepts (and_then (oracle_digest f variant snapshot) (\<lambda>d.
     validate_node f (node_dict \<lparr>nr_variant = variant, nr_digest = d, nr_snapshot = snapshot\<rparr>)))"

definition validate_edge :: "digest_fn \<Rightarrow> pydict \<Rightarrow> (edge_error, edge_record) result" where
  "validate_edge f d =
     require (keys_are d EDGE_FIELDS) Malformed_edge_record
     (require (list_all (\<lambda>k. is_str (fld d k)) EDGE_FIELDS) Malformed_edge_record
     (require (fld d ''variant'' \<in> PStr ` set VARIANTS) Edge_unknown_variant
     (require (move_ok (fld d ''move'')) Malformed_edge_record
     (let v = key_bytes (fld d ''variant'') in
      require (\<forall>k \<in> set [''from_snapshot_fen'', ''to_snapshot_fen''].
          (case fld d k of PStr s \<Rightarrow> check_end f v s | _ \<Rightarrow> False)) Malformed_edge_record
        (Inr \<lparr>er_variant = v, er_move = key_bytes (fld d ''move''),
           er_from = key_bytes (fld d ''from_snapshot_fen''), er_to = key_bytes (fld d ''to_snapshot_fen'')\<rparr>)))))"

definition edge_dict :: "edge_record \<Rightarrow> pydict" where
  "edge_dict r = [(PStr ''variant'', PStr (er_variant r)), (PStr ''move'', PStr (er_move r)),
     (PStr ''from_snapshot_fen'', PStr (er_from r)), (PStr ''to_snapshot_fen'', PStr (er_to r))]"

subsection \<open>The table\<close>

text \<open>The identity of an end of a stored edge; stored snapshots parse. An edge's identity is its source
  (variant, move, identity of the origin) and the identity of the target.\<close>

definition end_identity :: "string \<Rightarrow> string \<Rightarrow> string list" where
  "end_identity variant snapshot = (case parse_fen (PStr snapshot) of
     Inr p \<Rightarrow> identity_tuple variant p | Inl _ \<Rightarrow> [])"

definition edge_source :: "edge_record \<Rightarrow> string \<times> string \<times> string list" where
  "edge_source r = (er_variant r, er_move r, end_identity (er_variant r) (er_from r))"

definition edge_identity :: "edge_record \<Rightarrow> (string \<times> string \<times> string list) \<times> string list" where
  "edge_identity r = (edge_source r, end_identity (er_variant r) (er_to r))"

text \<open>The loop over the bucket.\<close>

fun scan :: "edge_record \<Rightarrow> edge_record list \<Rightarrow> (edge_error, edge_record option) result" where
  "scan r [] = Inr None"
| "scan r (e # es) = (if edge_identity e = edge_identity r then Inr (Some e)
     else require (edge_source e \<noteq> edge_source r) Conflicting_edge (scan r es))"

definition edge_insert :: "digest_fn \<Rightarrow> edge_table \<Rightarrow> pyval \<Rightarrow> pyval \<Rightarrow> pyval \<Rightarrow> pyval
    \<Rightarrow> (edge_error, edge_table \<times> edge_record) result" where
  "edge_insert f t variant move frm to = and_then (make_edge variant move frm to) (\<lambda>r.
     and_then (edge_digest f (er_variant r) (er_from r)) (\<lambda>d.
     and_then (scan r (bucket_at t (d, er_move r))) (\<lambda>found.
     (case found of Some e \<Rightarrow> Inr (t, e) | None \<Rightarrow> Inr (bucket_add t (d, er_move r) r, r)))))"

text \<open>One step of the merge: shape and validation of a source record, then its insertion into the
  staged table.\<close>

definition stage_edge :: "digest_fn \<Rightarrow> edge_table \<Rightarrow> pyval \<Rightarrow> (edge_error, edge_table) result" where
  "stage_edge f t rec = (case rec of PDict _ d \<Rightarrow> and_then (validate_edge f d) (\<lambda>r.
       and_then (edge_insert f t (PStr (er_variant r)) (PStr (er_move r)) (PStr (er_from r)) (PStr (er_to r)))
         (\<lambda>(t', e). Inr t'))
     | _ \<Rightarrow> Inl Malformed_edge_record)"

definition edge_merge :: "digest_fn \<Rightarrow> edge_table \<Rightarrow> pyval \<Rightarrow> (edge_error, edge_table) result" where
  "edge_merge f t source = (case source of PList _ recs \<Rightarrow> run_all (stage_edge f) t recs
     | _ \<Rightarrow> Inl Malformed_edge_record)"

definition edge_serialize :: "edge_table \<Rightarrow> string list list" where
  "edge_serialize t = sort (map (\<lambda>r. [er_variant r, er_move r, er_from r, er_to r]) (table_records t))"

definition edges_value :: "edge_table \<Rightarrow> pyval" where
  "edges_value t = PList 0 (map (\<lambda>r. PDict 2 (edge_dict r)) (table_records t))"

datatype edge_op = Edge_insert pyval pyval pyval pyval | Edge_merge pyval

fun edge_step :: "digest_fn \<Rightarrow> edge_table \<Rightarrow> edge_op \<Rightarrow> (edge_error, edge_table) result" where
  "edge_step f t (Edge_insert variant move frm to) = and_then (edge_insert f t variant move frm to) (\<lambda>(t', e). Inr t')"
| "edge_step f t (Edge_merge source) = edge_merge f t source"

end
