(* ===== verification/RouteEdgeProps.thy ===== *)
theory RouteEdgeProps
  imports RouteEdge
begin

text \<open>
  Correctness of the edge table: it implements a partial function from sources (variant, move, identity
  of the origin) to target identities. Insertion is its guarded update, merge its union.
\<close>

definition snapshot_ok :: "string \<Rightarrow> bool" where
  "snapshot_ok s \<longleftrightarrow> (\<exists>p. parse_fen (PStr s) = Inr p \<and> normalized p = p)"

definition edge_ok :: "edge_record \<Rightarrow> bool" where
  "edge_ok r \<longleftrightarrow> er_variant r \<in> set VARIANTS \<and> move_ok (PStr (er_move r)) \<and> snapshot_ok (er_from r) \<and> snapshot_ok (er_to r)"

definition edge_map :: "edge_table \<Rightarrow> string \<times> string \<times> string list \<Rightarrow> string list option" where
  "edge_map t = map_of (map edge_identity (table_records t))"

lemma snapshot_determined:
  assumes "snapshot_ok s" "snapshot_ok s'"
  shows "end_identity v s = end_identity v s' \<longleftrightarrow> s = s'"
proof -
  obtain p where p: "parse_fen (PStr s) = Inr p" "normalized p = p" using assms(1) by (auto simp only: snapshot_ok_def)
  obtain q where q: "parse_fen (PStr s') = Inr q" "normalized q = q" using assms(2) by (auto simp only: snapshot_ok_def)
  have "end_identity v s = end_identity v s' \<longleftrightarrow> p = q"
    using identity_tuple_iff [OF p(1) q(1), of v v] p q by (simp add: end_identity_def)
  moreover have "p = q \<longleftrightarrow> s = s'" by (metis emit_parsed [OF p(1)] emit_parsed [OF q(1)] p(1) q(1) sum.inject(2))
  ultimately show ?thesis by simp
qed

lemma snapshot_of_position:
  assumes "parse_fen (PStr s) = Inr p"
  shows "snapshot_ok (snapshot_fen (identity_tuple v p))"
    "end_identity w (snapshot_fen (identity_tuple v p)) = identity_tuple w p"
proof -
  have n: "parse_fen (PStr (snapshot_fen (identity_tuple v p))) = Inr (normalized p)"
    unfolding snapshot_emit [OF assms] by (rule normalized_parses [OF assms])
  then show "snapshot_ok (snapshot_fen (identity_tuple v p))"
    using normalized_idem [OF assms] by (auto simp only: snapshot_ok_def)
  show "end_identity w (snapshot_fen (identity_tuple v p)) = identity_tuple w p"
    using identity_normalized [OF assms] by (simp add: end_identity_def n)
qed

lemma edge_source_determined:
  "edge_ok r \<Longrightarrow> edge_ok r' \<Longrightarrow> edge_source r = edge_source r' \<Longrightarrow>
     er_variant r = er_variant r' \<and> er_move r = er_move r' \<and> er_from r = er_from r'"
proof -
  assume r: "edge_ok r" "edge_ok r'" and e: "edge_source r = edge_source r'"
  have v: "er_variant r = er_variant r'" "er_move r = er_move r'" using e by (simp_all add: edge_source_def)
  have "end_identity (er_variant r) (er_from r) = end_identity (er_variant r) (er_from r')"
    using e v by (simp add: edge_source_def)
  moreover have "snapshot_ok (er_from r)" "snapshot_ok (er_from r')" using r by (simp_all only: edge_ok_def)
  ultimately show ?thesis using v snapshot_determined by blast
qed

lemma edge_determined: "edge_ok r \<Longrightarrow> edge_ok r' \<Longrightarrow> edge_identity r = edge_identity r' \<Longrightarrow> r = r'"
proof -
  assume r: "edge_ok r" "edge_ok r'" and e: "edge_identity r = edge_identity r'"
  have s: "er_variant r = er_variant r'" "er_move r = er_move r'" "er_from r = er_from r'"
    using edge_source_determined [OF r] e by (simp_all add: edge_identity_def)
  have "end_identity (er_variant r) (er_to r) = end_identity (er_variant r) (er_to r')"
    using e s(1) by (simp add: edge_identity_def)
  moreover have "snapshot_ok (er_to r)" "snapshot_ok (er_to r')" using r by (simp_all only: edge_ok_def)
  ultimately have "er_to r = er_to r'" using snapshot_determined by blast
  then show ?thesis using s by simp
qed

lemma make_edge_ok:
  assumes "make_edge v m x y = Inr r"
  shows "edge_ok r"
proof -
  obtain u where u: "v = PStr u" "u \<in> set VARIANTS" using assms by (auto simp: make_edge_def)
  obtain p q where pq: "parse_fen x = Inr p" "parse_fen y = Inr q"
    "r = \<lparr>er_variant = u, er_move = key_bytes m, er_from = snapshot_fen (identity_tuple u p),
       er_to = snapshot_fen (identity_tuple u q)\<rparr>"
    using assms u by (auto simp: make_edge_def split: sum.splits)
  obtain mm where mm: "m = PStr mm" "move_ok m"
    using assms by (cases m) (auto simp: make_edge_def move_ok_def)
  obtain s z where sz: "x = PStr s" "y = PStr z"
    using pq by (cases x; cases y) (auto simp: parse_fen_def)
  show ?thesis
    using u mm pq sz snapshot_of_position(1) by (simp add: edge_ok_def)
qed

lemma make_edge_request:
  assumes "v \<in> set VARIANTS" "move_ok (PStr m)" "parse_fen (PStr s) = Inr p" "parse_fen (PStr z) = Inr q"
  shows "\<exists>r. make_edge (PStr v) (PStr m) (PStr s) (PStr z) = Inr r \<and> edge_ok r
    \<and> edge_source r = (v, m, identity_tuple v p) \<and> edge_identity r = (edge_source r, identity_tuple v q)"
proof -
  obtain r where r: "make_edge (PStr v) (PStr m) (PStr s) (PStr z) = Inr r"
    "r = \<lparr>er_variant = v, er_move = m, er_from = snapshot_fen (identity_tuple v p),
       er_to = snapshot_fen (identity_tuple v q)\<rparr>"
    using assms by (simp add: make_edge_def)
  then show ?thesis using make_edge_ok [OF r(1)] snapshot_of_position(2) [OF assms(3)] snapshot_of_position(2) [OF assms(4)]
    by (simp add: edge_source_def edge_identity_def)
qed

lemma make_edge_again:
  assumes "edge_ok r"
  shows "make_edge (PStr (er_variant r)) (PStr (er_move r)) (PStr (er_from r)) (PStr (er_to r)) = Inr r"
proof -
  obtain p where p: "parse_fen (PStr (er_from r)) = Inr p" "normalized p = p" using assms by (auto simp only: edge_ok_def snapshot_ok_def)
  obtain q where q: "parse_fen (PStr (er_to r)) = Inr q" "normalized q = q" using assms by (auto simp only: edge_ok_def snapshot_ok_def)
  have "snapshot_fen (identity_tuple v p) = er_from r" "snapshot_fen (identity_tuple v q) = er_to r" for v
    unfolding snapshot_emit [OF p(1)] snapshot_emit [OF q(1)] p(2) q(2)
    by (rule emit_parsed [OF p(1)], rule emit_parsed [OF q(1)])
  then show ?thesis using assms by (simp add: make_edge_def edge_ok_def p(1) q(1))
qed

text \<open>The keys of a partial function that a list of identities lists.\<close>

definition deterministic :: "edge_record list \<Rightarrow> bool" where
  "deterministic rs \<longleftrightarrow> (\<forall>r \<in> set rs. \<forall>s \<in> set rs. edge_source r = edge_source s \<longrightarrow> edge_identity r = edge_identity s)"

lemma scan_spec:
  assumes "deterministic es"
  shows "scan r es = (if \<exists>e \<in> set es. edge_identity e = edge_identity r then
      Inr (find (\<lambda>e. edge_identity e = edge_identity r) es)
    else if \<exists>e \<in> set es. edge_source e = edge_source r then Inl Conflicting_edge else Inr None)"
  using assms
proof (induction es)
  case (Cons e es)
  have d: "deterministic es" using Cons.prems unfolding deterministic_def by (meson list.set_intros(2))
  have "edge_source e = edge_source r \<Longrightarrow> x \<in> set es \<Longrightarrow> edge_identity x = edge_identity r \<Longrightarrow>
      edge_identity e = edge_identity r" for x
    using Cons.prems unfolding deterministic_def by (metis edge_identity_def fst_conv list.set_intros)
  then show ?case using Cons.IH [OF d] by (auto simp: require_def)
qed simp

lemma edge_map_Some:
  assumes "deterministic (table_records t)"
  shows "edge_map t k = Some g \<longleftrightarrow> (\<exists>r \<in> set (table_records t). edge_identity r = (k, g))"
proof
  assume "edge_map t k = Some g"
  then show "\<exists>r \<in> set (table_records t). edge_identity r = (k, g)"
    using map_of_SomeD unfolding edge_map_def by fastforce
next
  assume "\<exists>r \<in> set (table_records t). edge_identity r = (k, g)"
  then obtain r where r: "r \<in> set (table_records t)" "edge_identity r = (k, g)" ..
  then have "k \<in> fst ` set (map edge_identity (table_records t))" by force
  then obtain g' where g': "edge_map t k = Some g'" unfolding edge_map_def by (metis map_of_eq_None_iff option.exhaust)
  then obtain s where s: "s \<in> set (table_records t)" "edge_identity s = (k, g')"
    using map_of_SomeD unfolding edge_map_def by fastforce
  have "edge_source r = k" "edge_source s = k" using r(2) s(2) by (simp_all add: edge_identity_def)
  then have "edge_identity r = edge_identity s" using assms r(1) s(1) unfolding deterministic_def by metis
  then show "edge_map t k = Some g" using g' r(2) s(2) by simp
qed

lemma edge_map_None:
  "edge_map t k = None \<longleftrightarrow> (\<forall>r \<in> set (table_records t). edge_source r \<noteq> k)"
  by (force simp: edge_map_def map_of_eq_None_iff edge_identity_def)

subsection \<open>Insertion is guarded update\<close>

definition edge_key :: "digest_fn \<Rightarrow> edge_record \<Rightarrow> string \<times> string" where
  "edge_key f r = (case edge_digest f (er_variant r) (er_from r) of Inr d \<Rightarrow> d | Inl _ \<Rightarrow> [], er_move r)"

lemma edge_key_source:
  assumes "edge_ok r" "edge_ok r'" "edge_source r = edge_source r'"
  shows "edge_key f r = edge_key f r'"
  unfolding edge_key_def using edge_source_determined [OF assms] by simp

interpretation et: bucket_table "edge_key f" edge_identity edge_ok for f
proof unfold_locales
  fix r s assume a: "edge_ok r" "edge_ok s" "edge_identity r = edge_identity s"
  then have "edge_source r = edge_source s" by (simp add: edge_identity_def)
  then show "edge_key f r = edge_key f s" by (rule edge_key_source [OF a(1,2)])
qed

definition edge_inv :: "digest_fn \<Rightarrow> edge_table \<Rightarrow> bool" where
  "edge_inv f t \<longleftrightarrow> et.table_inv f t \<and> deterministic (table_records t)"

lemma deterministic_subset: "deterministic rs \<Longrightarrow> set es \<subseteq> set rs \<Longrightarrow> deterministic es"
  unfolding deterministic_def by blast

lemma edge_lookup:
  assumes t: "edge_inv f t" and r: "edge_ok r" and d: "edge_digest f (er_variant r) (er_from r) = Inr d"
  shows "scan r (bucket_at t (d, er_move r)) = (case edge_map t (edge_source r) of None \<Rightarrow> Inr None
     | Some g \<Rightarrow> if edge_identity r = (edge_source r, g) then Inr (Some r) else Inl Conflicting_edge)"
proof -
  let ?b = "bucket_at t (d, er_move r)"
  have ti: "et.table_inv f t" and det: "deterministic (table_records t)" using t by (simp_all add: edge_inv_def)
  have key: "edge_key f r = (d, er_move r)" using d by (simp add: edge_key_def)
  have sub: "set ?b \<subseteq> set (table_records t)" by (rule subsetI) (rule bucket_subset)
  have filed: "e \<in> set ?b" if "e \<in> set (table_records t)" "edge_source e = edge_source r" for e
    using et.filed [OF ti that(1)] edge_key_source [OF et.table_good [OF ti that(1)] r that(2)] key by simp
  have same: "e = r" if "e \<in> set ?b" "edge_identity e = edge_identity r" for e
    using edge_determined [OF et.table_good [OF ti] r that(2)] that(1) sub by blast
  show ?thesis
  proof (cases "edge_map t (edge_source r)")
    case None
    then have "\<not> (\<exists>e \<in> set ?b. edge_source e = edge_source r)" using sub by (auto simp: edge_map_None)
    moreover from this have "\<not> (\<exists>e \<in> set ?b. edge_identity e = edge_identity r)" by (auto simp: edge_identity_def)
    ultimately show ?thesis using scan_spec [OF deterministic_subset [OF det sub]] None by simp
  next
    case (Some g)
    then obtain e where e: "e \<in> set (table_records t)" "edge_identity e = (edge_source r, g)"
      using edge_map_Some [OF det] by blast
    then have eb: "e \<in> set ?b" "edge_source e = edge_source r" using filed by (simp_all add: edge_identity_def)
    have g: "edge_identity x = (edge_source r, g)" if "x \<in> set ?b" "edge_source x = edge_source r" for x
      using det e eb that sub unfolding deterministic_def by (metis subsetD)
    show ?thesis
    proof (cases "edge_identity r = (edge_source r, g)")
      case True
      then have "e = r" using same [OF eb(1)] e(2) by simp
      then obtain x where x: "find (\<lambda>e. edge_identity e = edge_identity r) ?b = Some x"
        using eb(1) by (cases "find (\<lambda>e. edge_identity e = edge_identity r) ?b") (auto simp: find_None_iff)
      then have "x = r" using same by (auto simp: find_Some_iff)
      then show ?thesis using scan_spec [OF deterministic_subset [OF det sub], of r] Some True x \<open>e = r\<close> eb(1)
        by auto
    next
      case False
      then have "\<not> (\<exists>x \<in> set ?b. edge_identity x = edge_identity r)" using g by (metis edge_identity_def fst_conv)
      then show ?thesis using scan_spec [OF deterministic_subset [OF det sub], of r] Some False eb by auto
    qed
  qed
qed

lemma edge_insert_eq:
  assumes "edge_inv f t" "make_edge v m x y = Inr r" "edge_digest f (er_variant r) (er_from r) = Inr d"
  shows "edge_insert f t v m x y = (case edge_map t (edge_source r) of
       None \<Rightarrow> Inr (bucket_add t (edge_key f r) r, r)
     | Some g \<Rightarrow> if edge_identity r = (edge_source r, g) then Inr (t, r) else Inl Conflicting_edge)"
  using edge_lookup [OF assms(1) make_edge_ok [OF assms(2)] assms(3)] assms(2,3)
  by (simp add: edge_insert_def edge_key_def split: option.split)

lemma edge_map_here:
  assumes "edge_inv f t" "r \<in> set (table_records t)"
  shows "edge_map t (edge_source r) = Some (snd (edge_identity r))"
  using edge_map_Some [of t "edge_source r"] assms by (auto simp: edge_inv_def edge_identity_def)

lemma edge_add:
  assumes t: "edge_inv f t" and r: "edge_ok r" and new: "edge_map t (edge_source r) = None"
  shows "edge_inv f (bucket_add t (edge_key f r) r)"
    "edge_map (bucket_add t (edge_key f r) r) = (edge_map t)(edge_source r \<mapsto> snd (edge_identity r))"
proof -
  let ?t = "bucket_add t (edge_key f r) r"
  have ti: "et.table_inv f t" and det: "deterministic (table_records t)" using t by (simp_all add: edge_inv_def)
  have fresh: "\<forall>e \<in> set (table_records t). edge_source e \<noteq> edge_source r" using new by (simp add: edge_map_None)
  then have "\<forall>e \<in> set (bucket_at t (edge_key f r)). edge_identity e \<noteq> edge_identity r"
    using bucket_subset by (fastforce simp: edge_identity_def)
  then have "et.table_inv f ?t" by (rule et.table_inv_add [OF ti r])
  moreover have d: "deterministic (table_records ?t)"
    using det fresh unfolding deterministic_def set_bucket_add by (metis insert_iff)
  ultimately show "edge_inv f ?t" by (simp add: edge_inv_def)
  have "edge_map ?t k = Some g \<longleftrightarrow> ((edge_map t)(edge_source r \<mapsto> snd (edge_identity r))) k = Some g" for k g
  proof -
    have "edge_identity e = (k, g) \<Longrightarrow> edge_source e = k" for e by (simp add: edge_identity_def)
    then show ?thesis unfolding edge_map_Some [OF d] set_bucket_add using fresh edge_map_Some [OF det, of k g]
      by (auto simp: edge_identity_def)
  qed
  then show "edge_map ?t = (edge_map t)(edge_source r \<mapsto> snd (edge_identity r))"
    by (intro ext) (metis option.exhaust)
qed

lemma edge_insert_spec:
  assumes t: "edge_inv f t" and i: "edge_insert f t v m x y = Inr (t', r)"
  shows "make_edge v m x y = Inr r \<and> edge_inv f t' \<and> set (table_records t') = insert r (set (table_records t))"
proof -
  obtain r' d where r': "make_edge v m x y = Inr r'" "edge_digest f (er_variant r') (er_from r') = Inr d"
    using i by (auto simp: edge_insert_def)
  note eq = edge_insert_eq [OF t r']
  show ?thesis
  proof (cases "edge_map t (edge_source r')")
    case None
    then show ?thesis using eq i r'(1) edge_add [OF t make_edge_ok [OF r'(1)] None] by simp
  next
    case (Some g)
    then have same: "edge_identity r' = (edge_source r', g)" "t' = t" "r = r'" using eq i by (auto split: if_splits)
    obtain e where e: "e \<in> set (table_records t)" "edge_identity e = (edge_source r', g)"
      using edge_map_Some [of t] Some t by (auto simp: edge_inv_def)
    have "edge_ok e" using t e(1) et.table_good by (auto simp: edge_inv_def)
    then have "e = r'" using edge_determined [OF _ make_edge_ok [OF r'(1)]] e(2) same(1) by simp
    then show ?thesis using e(1) same r'(1) t by auto
  qed
qed

subsection \<open>Merge is union\<close>

lemma edge_inv_empty: "edge_inv f []"
  by (simp add: edge_inv_def et.table_inv_empty deterministic_def)

lemma edge_records_map_le:
  assumes "edge_inv f t" "edge_inv f u" "set (table_records t) \<subseteq> set (table_records u)"
  shows "edge_map t \<subseteq>\<^sub>m edge_map u"
  using assms edge_map_Some [of t] edge_map_Some [of u] unfolding map_le_def edge_inv_def
  by (metis domD subsetD)

lemma edge_map_union:
  assumes t: "edge_inv f t" and u: "edge_inv f u" and w: "edge_inv f w"
    and r: "set (table_records w) = set (table_records t) \<union> set (table_records u)"
  shows "edge_map w = edge_map t ++ edge_map u"
proof
  fix k
  have le: "edge_map t \<subseteq>\<^sub>m edge_map w" "edge_map u \<subseteq>\<^sub>m edge_map w"
    using edge_records_map_le [OF t w] edge_records_map_le [OF u w] r by simp_all
  have "edge_map w k = None \<longleftrightarrow> edge_map t k = None \<and> edge_map u k = None"
    unfolding edge_map_None r by blast
  then show "edge_map w k = (edge_map t ++ edge_map u) k"
    using bspec [OF le(1) [unfolded map_le_def], of k] bspec [OF le(2) [unfolded map_le_def], of k]
    by (cases "edge_map w k"; cases "edge_map u k"; cases "edge_map t k") (auto simp: map_add_def domIff)
qed

lemma edge_serialize_eq:
  assumes "edge_inv f t" "edge_inv f u" "set (table_records t) = set (table_records u)"
  shows "edge_serialize t = edge_serialize u"
proof -
  have "inj_on (\<lambda>r. [er_variant r, er_move r, er_from r, er_to r]) A" for A :: "edge_record set"
    by (rule inj_onI) (simp add: edge_record.equality)
  moreover have "distinct (table_records x)" if "edge_inv f x" for x
    using that by (simp add: edge_inv_def et.table_inv_def distinct_map)
  ultimately have "distinct (edge_serialize x)" if "edge_inv f x" for x
    using that by (simp add: edge_serialize_def distinct_map)
  then show ?thesis using assms sorted_distinct_set_unique [of "edge_serialize t" "edge_serialize u"]
    by (simp add: edge_serialize_def)
qed

lemma check_end_iff:
  "check_end f v s \<longleftrightarrow> v \<in> set VARIANTS \<and> snapshot_ok s \<and> accepts (oracle_digest f v s)"
  by (cases "oracle_digest f v s")
    (auto simp: check_end_def accepts_iff validate_node_iff node_ok_def snapshot_ok_def)

lemma validate_edge_ok: "validate_edge f d = Inr r \<Longrightarrow> edge_ok r"
  by (auto simp: validate_edge_def Let_def edge_ok_def check_end_iff move_ok_def split: pyval.splits)

lemma validate_edge_dict:
  assumes "edge_ok r" "check_end f (er_variant r) (er_from r)" "check_end f (er_variant r) (er_to r)"
  shows "validate_edge f (edge_dict r) = Inr r"
proof -
  have k: "keys_are (edge_dict r) EDGE_FIELDS"
    by (simp add: keys_are_def edge_dict_def EDGE_FIELDS_def insert_commute)
  have f: "fld (edge_dict r) ''variant'' = PStr (er_variant r)" "fld (edge_dict r) ''move'' = PStr (er_move r)"
    "fld (edge_dict r) ''from_snapshot_fen'' = PStr (er_from r)" "fld (edge_dict r) ''to_snapshot_fen'' = PStr (er_to r)"
    by (simp_all add: edge_dict_def fld_simps)
  show ?thesis using assms by (simp add: validate_edge_def k k [unfolded EDGE_FIELDS_def] f EDGE_FIELDS_def edge_ok_def)
qed

lemma stage_edge_spec:
  assumes "edge_inv f t" "stage_edge f t rec = Inr t'"
  shows "edge_inv f t' \<and> set (table_records t) \<subseteq> set (table_records t')"
proof -
  obtain r :: edge_record and e where "edge_insert f t (PStr (er_variant r)) (PStr (er_move r)) (PStr (er_from r)) (PStr (er_to r)) = Inr (t', e)"
    using assms(2) by (auto simp: stage_edge_def split: pyval.splits)
  from edge_insert_spec [OF assms(1) this] show ?thesis by blast
qed

lemma edge_merge_spec:
  assumes "edge_inv f t" "edge_merge f t source = Inr t'"
  shows "edge_inv f t' \<and> set (table_records t) \<subseteq> set (table_records t')"
proof -
  have "edge_inv f s \<Longrightarrow> run_all (stage_edge f) s recs = Inr t' \<Longrightarrow>
      edge_inv f t' \<and> set (table_records s) \<subseteq> set (table_records t')" for s recs
  proof (induction recs arbitrary: s)
    case (Cons x recs)
    then obtain s1 where s1: "stage_edge f s x = Inr s1" "run_all (stage_edge f) s1 recs = Inr t'" by auto
    from stage_edge_spec [OF Cons.prems(1) s1(1)] Cons.IH [OF _ s1(2)] show ?case by blast
  qed simp
  then show ?thesis using assms by (auto simp: edge_merge_def split: pyval.splits)
qed

lemma edge_step_spec:
  assumes "edge_inv f t" "edge_step f t op = Inr t'"
  shows "edge_inv f t' \<and> edge_map t \<subseteq>\<^sub>m edge_map t'"
proof -
  have "edge_inv f t' \<and> set (table_records t) \<subseteq> set (table_records t')"
  proof (cases op)
    case (Edge_insert v m x y)
    then obtain r where "edge_insert f t v m x y = Inr (t', r)" using assms(2) by auto
    from edge_insert_spec [OF assms(1) this] show ?thesis by blast
  qed (use assms edge_merge_spec in auto)
  then show ?thesis using edge_records_map_le assms(1) by blast
qed

interpretation em: guarded_machine "edge_step f" "edge_inv f" "\<lambda>t u. edge_map t \<subseteq>\<^sub>m edge_map u" for f
  using edge_step_spec by unfold_locales (blast, blast, simp, rule map_le_trans)

text \<open>An oracle that answers for every position.\<close>

locale edge_oracle =
  fixes f :: digest_fn
  assumes total: "v \<in> set VARIANTS \<Longrightarrow> parse_fen (PStr s) = Inr p \<Longrightarrow> \<exists>d. oracle_digest f v s = Inr d"
begin

lemma ends_checked: "edge_ok r \<Longrightarrow> check_end f (er_variant r) (er_from r) \<and> check_end f (er_variant r) (er_to r)"
  using total by (auto simp: edge_ok_def check_end_iff snapshot_ok_def accepts_iff)

lemma digest_answers: "edge_ok r \<Longrightarrow> \<exists>d. edge_digest f (er_variant r) (er_from r) = Inr d"
  using total by (fastforce simp: edge_ok_def snapshot_ok_def edge_digest_def split: sum.split)

lemma stage_dict:
  assumes t: "edge_inv f t" and r: "edge_ok r"
  shows "stage_edge f t (PDict n (edge_dict r)) = (case edge_map t (edge_source r) of
       None \<Rightarrow> Inr (bucket_add t (edge_key f r) r)
     | Some g \<Rightarrow> if edge_identity r = (edge_source r, g) then Inr t else Inl Conflicting_edge)"
proof -
  obtain d where "edge_digest f (er_variant r) (er_from r) = Inr d" using digest_answers [OF r] ..
  from edge_insert_eq [OF t make_edge_again [OF r] this] show ?thesis
    using validate_edge_dict [OF r] ends_checked [OF r] by (simp add: stage_edge_def split: option.split)
qed

lemma deterministic_Cons:
  "edge_inv f t \<Longrightarrow> edge_map t (edge_source r) = Some g \<Longrightarrow> deterministic (table_records t @ r # rs) \<Longrightarrow>
     edge_identity r = (edge_source r, g)"
  using edge_map_Some [of t "edge_source r" g] unfolding edge_inv_def deterministic_def
  by (metis Un_iff edge_identity_def fst_conv list.set_intros(1) set_append)

text \<open>Staging a list of good records: accepted exactly if together they are deterministic.\<close>

lemma stage_run:
  "edge_inv f t \<Longrightarrow> \<forall>r \<in> set rs. edge_ok r \<Longrightarrow>
     (if deterministic (table_records t @ rs)
      then \<exists>t'. run_all (stage_edge f) t (map (\<lambda>r. PDict 2 (edge_dict r)) rs) = Inr t' \<and> edge_inv f t'
        \<and> set (table_records t') = set (table_records t) \<union> set rs
      else run_all (stage_edge f) t (map (\<lambda>r. PDict 2 (edge_dict r)) rs) = Inl Conflicting_edge)"
proof (induction rs arbitrary: t)
  case Nil
  then show ?case by (simp add: edge_inv_def)
next
  case (Cons r rs)
  have r: "edge_ok r" and rs: "\<forall>r \<in> set rs. edge_ok r" using Cons.prems(2) by simp_all
  have same: "deterministic (table_records t1 @ rs) \<longleftrightarrow> deterministic (table_records t @ r # rs)"
    if "set (table_records t1) = insert r (set (table_records t))" for t1
    using that by (simp add: deterministic_def)
  have go: ?case if "stage_edge f t (PDict 2 (edge_dict r)) = Inr t1" "edge_inv f t1"
      "set (table_records t1) = insert r (set (table_records t))" for t1
    using Cons.IH [OF that(2) rs] same [OF that(3)] that
    by (cases "deterministic (table_records t @ r # rs)") auto
  show ?case
  proof (cases "edge_map t (edge_source r)")
    case None
    then show ?thesis using go [of "bucket_add t (edge_key f r) r"] stage_dict [OF Cons.prems(1) r] edge_add [OF Cons.prems(1) r None]
      by simp
  next
    case (Some g)
    show ?thesis
    proof (cases "edge_identity r = (edge_source r, g)")
      case True
      obtain e where e: "e \<in> set (table_records t)" "edge_identity e = (edge_source r, g)"
        using edge_map_Some [of t] Some Cons.prems(1) by (auto simp: edge_inv_def)
      have "e = r" using edge_determined [OF et.table_good r] e True Cons.prems(1) unfolding edge_inv_def by metis
      then have "set (table_records t) = insert r (set (table_records t))" using e(1) by blast
      then show ?thesis using go [of t] stage_dict [OF Cons.prems(1) r] Some True Cons.prems(1) by simp
    next
      case False
      then show ?thesis using stage_dict [OF Cons.prems(1) r] Some deterministic_Cons [OF Cons.prems(1) Some] by auto
    qed
  qed
qed

lemma deterministic_union:
  assumes "edge_inv f t" "edge_inv f u"
  shows "deterministic (table_records t @ table_records u) \<longleftrightarrow>
    (\<forall>k. \<forall>a b. edge_map t k = Some a \<longrightarrow> edge_map u k = Some b \<longrightarrow> a = b)" (is "?D \<longleftrightarrow> ?M")
proof
  assume d: ?D
  show ?M
  proof (intro allI impI)
    fix k a b assume "edge_map t k = Some a" "edge_map u k = Some b"
    then obtain r s where "r \<in> set (table_records t)" "edge_identity r = (k, a)"
      "s \<in> set (table_records u)" "edge_identity s = (k, b)"
      using edge_map_Some assms unfolding edge_inv_def by metis
    then have rs: "edge_source r = k" "edge_source s = k" "snd (edge_identity r) = a" "snd (edge_identity s) = b"
      "r \<in> set (table_records t @ table_records u)" "s \<in> set (table_records t @ table_records u)"
      by (simp_all add: edge_identity_def)
    then have "edge_identity r = edge_identity s" using d unfolding deterministic_def by metis
    then show "a = b" using rs(3,4) by simp
  qed
next
  assume m: ?M
  have "edge_identity r = edge_identity s" if "r \<in> set (table_records t) \<union> set (table_records u)"
    "s \<in> set (table_records t) \<union> set (table_records u)" "edge_source r = edge_source s" for r s
  proof -
    have at: "edge_map t (edge_source x) = Some (snd (edge_identity x)) \<or> edge_map u (edge_source x) = Some (snd (edge_identity x))"
      if "x \<in> set (table_records t) \<union> set (table_records u)" for x
      using that edge_map_here [OF assms(1)] edge_map_here [OF assms(2)] by blast
    have "snd (edge_identity r) = snd (edge_identity s)"
      using at [OF that(1), unfolded that(3)] at [OF that(2)]
    proof (elim disjE)
      assume "edge_map t (edge_source s) = Some (snd (edge_identity r))" "edge_map u (edge_source s) = Some (snd (edge_identity s))"
      then show ?thesis using m by blast
    next
      assume "edge_map u (edge_source s) = Some (snd (edge_identity r))" "edge_map t (edge_source s) = Some (snd (edge_identity s))"
      then have "snd (edge_identity s) = snd (edge_identity r)" using m by blast
      then show ?thesis by (rule sym)
    qed (simp_all only: option.inject)
    then show ?thesis using that(3) by (simp add: edge_identity_def)
  qed
  then show ?D unfolding deterministic_def set_append by blast
qed

end

lemma default_total:
  "v \<in> set VARIANTS \<Longrightarrow> parse_fen (PStr s) = Inr p \<Longrightarrow> \<exists>d. oracle_digest default_oracle v s = Inr d"
  using default_digest by blast

interpretation de: edge_oracle default_oracle
  by unfold_locales (rule default_total)

subsection \<open>Properties\<close>

text \<open>C6. The edge table is a partial function, and insertion its guarded update: for a registered
  variant, a move text and two positions, in any reached table, a source that leads nowhere gets its
  target, the same edge again is found and changes nothing, and a source that already leads to another
  target is refused. Whatever the operations, a target never changes.\<close>

theorem edge_insert_updates:
  assumes "v \<in> set VARIANTS" "move_ok (PStr m)" "parse_fen (PStr s) = Inr p" "parse_fen (PStr z) = Inr q"
    and "t = run (edge_step default_oracle) [] ops"
  shows "(let k = (v, m, identity_tuple v p); g = identity_tuple v q;
      ins = edge_insert default_oracle t (PStr v) (PStr m) (PStr s) (PStr z) in
     (case edge_map t k of
        None \<Rightarrow> \<exists>t' r. ins = Inr (t', r) \<and> edge_map t' = (edge_map t)(k \<mapsto> g)
          \<and> edge_map t' \<subseteq>\<^sub>m edge_map (run (edge_step default_oracle) t' ops')
      | Some g' \<Rightarrow> if g' = g then \<exists>r \<in> set (table_records t). ins = Inr (t, r) else ins = Inl Conflicting_edge))"
proof -
  have t: "edge_inv default_oracle t" unfolding assms(5) by (rule em.run_inv [OF edge_inv_empty])
  obtain r where r: "make_edge (PStr v) (PStr m) (PStr s) (PStr z) = Inr r" "edge_ok r"
    "edge_source r = (v, m, identity_tuple v p)" "edge_identity r = (edge_source r, identity_tuple v q)"
    using make_edge_request [OF assms(1-4)] by blast
  obtain d where d: "edge_digest default_oracle (er_variant r) (er_from r) = Inr d" using de.digest_answers [OF r(2)] ..
  note eq = edge_insert_eq [OF t r(1) d]
  show ?thesis
  proof (cases "edge_map t (edge_source r)")
    case None
    then show ?thesis using eq edge_add [OF t r(2) None] r(3,4) em.run_le [of default_oracle "bucket_add t (edge_key default_oracle r) r"]
      by (simp add: Let_def)
  next
    case (Some g)
    then obtain e where e: "e \<in> set (table_records t)" "edge_identity e = (edge_source r, g)"
      using edge_map_Some [of t] t by (auto simp: edge_inv_def)
    have "g = identity_tuple v q \<Longrightarrow> e = r"
      using edge_determined [OF et.table_good r(2)] e r(4) t unfolding edge_inv_def by metis
    then show ?thesis using eq Some r(3,4) e(1) by (auto simp: Let_def)
  qed
qed

definition route_start :: string where
  "route_start = ''4k3/8/8/8/8/8/4P3/4K3 w - - 3 7''"

definition route_e4 :: string where
  "route_e4 = ''4k3/8/8/8/4P3/8/8/4K3 b - e3 0 7''"

theorem edge_insert_updates_witness:
  "\<exists>p q t' r. parse_fen (PStr route_start) = Inr p \<and> parse_fen (PStr route_e4) = Inr q
    \<and> edge_insert default_oracle [] (PStr ''standard'') (PStr ''e2e4'') (PStr route_start) (PStr route_e4) = Inr (t', r)
    \<and> edge_map t' (''standard'', ''e2e4'', identity_tuple ''standard'' p) = Some (identity_tuple ''standard'' q)"
proof -
  have "accepts (parse_fen (PStr route_start)) \<and> accepts (parse_fen (PStr route_e4)) \<and> move_ok (PStr ''e2e4'')"
    by code_simp
  then obtain p q where pq: "parse_fen (PStr route_start) = Inr p" "parse_fen (PStr route_e4) = Inr q"
    "move_ok (PStr ''e2e4'')" by (auto simp: accepts_iff)
  have "''standard'' \<in> set VARIANTS" "[] = run (edge_step default_oracle) [] []" by (simp_all add: VARIANTS_def)
  from edge_insert_updates [OF this(1) pq(3,1,2) this(2), of "[]"] show ?thesis
    using pq by (auto simp: edge_map_def Let_def)
qed

text \<open>C25. Merge is compatible union: if two reached tables nowhere lead one source to two targets,
  either merge is accepted, its table is the union of the two functions, and both orders serialize the
  same; otherwise both merges are refused as conflicting.\<close>

theorem edge_merge_union:
  "let t = run (edge_step default_oracle) [] ops; u = run (edge_step default_oracle) [] ops' in
   (if \<exists>k a b. edge_map t k = Some a \<and> edge_map u k = Some b \<and> a \<noteq> b
    then edge_merge default_oracle t (edges_value u) = Inl Conflicting_edge
      \<and> edge_merge default_oracle u (edges_value t) = Inl Conflicting_edge
    else \<exists>t' u'. edge_merge default_oracle t (edges_value u) = Inr t'
      \<and> edge_merge default_oracle u (edges_value t) = Inr u'
      \<and> edge_map t' = edge_map t ++ edge_map u \<and> edge_serialize t' = edge_serialize u')"
proof -
  define t where "t = run (edge_step default_oracle) [] ops"
  define u where "u = run (edge_step default_oracle) [] ops'"
  have inv: "edge_inv default_oracle t" "edge_inv default_oracle u"
    unfolding t_def u_def by (rule em.run_inv [OF edge_inv_empty])+
  have good: "\<forall>r \<in> set (table_records x). edge_ok r" if "edge_inv default_oracle x" for x
    using that et.table_good unfolding edge_inv_def by blast
  note tu = de.stage_run [OF inv(1) good [OF inv(2)]] and ut = de.stage_run [OF inv(2) good [OF inv(1)]]
  have swap: "deterministic (table_records u @ table_records t) \<longleftrightarrow> deterministic (table_records t @ table_records u)"
    by (simp add: deterministic_def Un_commute)
  show ?thesis
  proof (cases "deterministic (table_records t @ table_records u)")
    case False
    then show ?thesis using tu ut swap de.deterministic_union [OF inv]
      by (simp add: edge_merge_def edges_value_def flip: t_def u_def)
  next
    case True
    from tu ut swap True obtain t' u' where m: "edge_merge default_oracle t (edges_value u) = Inr t'"
      "edge_merge default_oracle u (edges_value t) = Inr u'" "edge_inv default_oracle t'" "edge_inv default_oracle u'"
      "set (table_records t') = set (table_records t) \<union> set (table_records u)"
      "set (table_records u') = set (table_records t) \<union> set (table_records u)"
      by (auto simp: edge_merge_def edges_value_def)
    have "edge_map t' = edge_map t ++ edge_map u" by (rule edge_map_union [OF inv m(3,5)])
    moreover have "edge_serialize t' = edge_serialize u'" by (rule edge_serialize_eq [OF m(3,4)]) (simp add: m(5,6))
    moreover have "\<not> (\<exists>k a b. edge_map t k = Some a \<and> edge_map u k = Some b \<and> a \<noteq> b)"
      using de.deterministic_union [OF inv] True by metis
    ultimately show ?thesis using m(1,2) by (simp flip: t_def u_def)
  qed
qed

end
