(* ===== verification/VariantRuntime.thy ===== *)
theory VariantRuntime
  imports FenFacts Json
begin

text \<open>
  The variant runtime, \<open>src/tools/variant_runtime.py\<close>, with the FEN check of
  \<open>src/tools/variant_contract_lint.py\<close> that it runs on. The board is a grid of eight rows from rank 8
  down to rank 1; \<open>.\<close> is an empty square. Every failure carries the stage that rejected the input.
\<close>

datatype variant_failure = Wrong_field_count | Bad_board | Bad_side | Bad_castling | Bad_en_passant
  | Bad_counters | Illegal_position

text \<open>A \<open>VariantError\<close>: its code and the failure class, if the FEN check gave one.\<close>

datatype variant_error = Variant_error string "variant_failure option"

fun code_for_class :: "variant_failure \<Rightarrow> string" where
  "code_for_class Illegal_position = ''illegal_position''"
| "code_for_class _ = ''malformed_request''"

type_synonym grid = "string list"

text \<open>The registry: variant ids and their castling kind.\<close>

definition REGISTRY :: "(string \<times> string) list" where
  "REGISTRY = [(''standard'', ''orthodox'')]"

subsection \<open>Board\<close>

fun v_row :: "string \<Rightarrow> bool \<Rightarrow> string \<Rightarrow> (variant_failure, string) result" where
  "v_row [] prev_digit row = require (length row = 8) Bad_board (Inr row)"
| "v_row (ch # chs) prev_digit row =
     (if is_digit ch then
        require (ch \<in> set empty_run_digits) Bad_board
        (require (\<not> prev_digit) Bad_board
          (v_row chs True (row @ replicate (digit_val ch) CHR ''.'')))
      else require (ch \<in> set piece_letters) Bad_board (v_row chs False (row @ [ch])))"

fun v_rows :: "string list \<Rightarrow> (variant_failure, grid) result" where
  "v_rows [] = Inr []"
| "v_rows (rank # ranks) = and_then (v_row rank False []) (\<lambda>row.
     and_then (v_rows ranks) (\<lambda>grid. Inr (row # grid)))"

definition v_board :: "string \<Rightarrow> (variant_failure, grid) result" where
  "v_board board = (let ranks = split_on CHR ''/'' board in
     require (length ranks = 8) Bad_board (v_rows ranks))"

subsection \<open>Attack\<close>

definition inside :: "int \<Rightarrow> int \<Rightarrow> bool" where
  "inside r c \<longleftrightarrow> 0 \<le> r \<and> r < 8 \<and> 0 \<le> c \<and> c < 8"

definition cell :: "grid \<Rightarrow> int \<Rightarrow> int \<Rightarrow> char" where
  "cell grid r c = grid ! nat r ! nat c"

text \<open>The slider loop; the last conjunct of the guard only makes the walk total.\<close>

function v_slide :: "grid \<Rightarrow> string \<Rightarrow> int \<Rightarrow> int \<Rightarrow> int \<Rightarrow> int \<Rightarrow> bool" where
  "v_slide grid pieces dr dc rr cc = (if inside rr cc \<and> (dr, dc) \<noteq> (0, 0) then
       (if cell grid rr cc \<noteq> CHR ''.'' then cell grid rr cc \<in> set pieces
        else v_slide grid pieces dr dc (rr + dr) (cc + dc))
     else False)"
  by pat_completeness auto
termination
proof (relation "measure (\<lambda>(grid, pieces, dr, dc, rr, cc). ray_room dr dc rr cc)", goal_cases)
  case (2 grid pieces dr dc rr cc)
  then show ?case using ray_room_less [of rr cc dr dc] by (simp add: on_board_iff inside_def)
qed simp

declare v_slide.simps [simp del]

definition v_attacks :: "grid \<Rightarrow> int \<Rightarrow> int \<Rightarrow> bool \<Rightarrow> bool" where
  "v_attacks grid r c by_white = (let hit = (\<lambda>dr dc p. inside (r + dr) (c + dc) \<and> cell grid (r + dr) (c + dc) = cased by_white p) in
     list_ex (\<lambda>dc. hit (if by_white then - 1 else 1) dc CHR ''P'') [- 1, 1]
     \<or> list_ex (\<lambda>(dr, dc). hit dr dc CHR ''N'')
         [(1, 2), (2, 1), (- 1, 2), (- 2, 1), (1, - 2), (2, - 1), (- 1, - 2), (- 2, - 1)]
     \<or> list_ex (\<lambda>dr. list_ex (\<lambda>dc. (dr, dc) \<noteq> (0, 0) \<and> hit dr dc CHR ''K'') [- 1, 0, 1]) [- 1, 0, 1]
     \<or> list_ex (\<lambda>(pieces, dirs). list_ex (\<lambda>(dr, dc). v_slide grid (map (cased by_white) pieces) dr dc (r + dr) (c + dc)) dirs)
         [(''BQ'', [(1, 1), (1, - 1), (- 1, 1), (- 1, - 1)]), (''RQ'', [(0, 1), (0, - 1), (1, 0), (- 1, 0)])])"

subsection \<open>Position rules\<close>

text \<open>The squares holding a piece, row by row.\<close>

definition cells_with :: "grid \<Rightarrow> char \<Rightarrow> (int \<times> int) list" where
  "cells_with grid ch = filter (\<lambda>(r, c). cell grid r c = ch) (List.product [0, 1, 2, 3, 4, 5, 6, 7] [0, 1, 2, 3, 4, 5, 6, 7])"

definition grid_set :: "grid \<Rightarrow> int \<Rightarrow> int \<Rightarrow> char \<Rightarrow> grid" where
  "grid_set grid r c ch = grid[nat r := (grid ! nat r)[nat c := ch]]"

definition ep_capture_legal :: "grid \<Rightarrow> string \<Rightarrow> string \<Rightarrow> int \<Rightarrow> int \<Rightarrow> char \<Rightarrow> bool" where
  "ep_capture_legal grid ep side row file_idx enemy =
     list_ex (\<lambda>df. let cf = file_idx + df in
        0 \<le> cf \<and> cf < 8 \<and> cell grid row cf = enemy \<and>
        (let sim = grid_set (grid_set (grid_set grid row cf CHR ''.'') row file_idx CHR ''.'')
               (if ep ! 1 = CHR ''3'' then 5 else 2) file_idx enemy;
             kings = cells_with sim (if side = ''b'' then CHR ''k'' else CHR ''K'') in
         length kings = 1 \<and> \<not> v_attacks sim (fst (hd kings)) (snd (hd kings)) (side = ''b''))) [- 1, 1]"

definition ep_semantics :: "grid \<Rightarrow> string \<Rightarrow> string \<Rightarrow> bool" where
  "ep_semantics grid ep side = (let file_idx = int (of_char (ep ! 0)) - 97; three = (ep ! 1 = CHR ''3'');
       pawn = (if three then CHR ''P'' else CHR ''p''); enemy = (if three then CHR ''p'' else CHR ''P'');
       row = (if three then 4 else 3); origin = (if three then 6 else 1); skipped = (if three then 5 else 2) in
     side = (if three then ''b'' else ''w'') \<and> cell grid row file_idx = pawn
     \<and> cell grid origin file_idx = CHR ''.'' \<and> cell grid skipped file_idx = CHR ''.''
     \<and> ep_capture_legal grid ep side row file_idx enemy)"

definition castling_squares :: "char \<Rightarrow> (int \<times> int) \<times> (int \<times> int)" where
  "castling_squares right = (let row = (if is_upper right then 7 else 0) in
     ((row, 4), (row, if lower right = CHR ''k'' then 7 else 0)))"

definition castling_semantics :: "grid \<Rightarrow> string \<Rightarrow> string \<Rightarrow> bool" where
  "castling_semantics grid castling kind \<longleftrightarrow>
     (kind = ''chess960'' \<longrightarrow> castling = ''-'') \<and>
     (kind = ''orthodox'' \<and> castling \<noteq> ''-'' \<longrightarrow> list_all (\<lambda>right.
        let ((kr, kc), (rr, rc)) = castling_squares right in
        cell grid kr kc = cased (is_upper right) CHR ''K'' \<and> cell grid rr rc = cased (is_upper right) CHR ''R'') castling)"

definition material_count_ok :: "string \<Rightarrow> bool \<Rightarrow> bool" where
  "material_count_ok flat white \<longleftrightarrow> length (filter (\<lambda>sq. sq = cased white CHR ''P'') flat) \<le> 8
     \<and> length (filter (\<lambda>sq. sq \<noteq> CHR ''.'' \<and> is_upper sq = white) flat) \<le> 16"

definition position_semantics :: "grid \<Rightarrow> string \<Rightarrow> string \<Rightarrow> string \<Rightarrow> bool" where
  "position_semantics grid castling side kind = (let flat = concat grid;
       kw = hd (cells_with grid CHR ''K''); kb = hd (cells_with grid CHR ''k'');
       waiting = (if side = ''w'' then kb else kw) in
     length (filter ((=) CHR ''K'') flat) = 1 \<and> length (filter ((=) CHR ''k'') flat) = 1
     \<and> material_count_ok flat True \<and> material_count_ok flat False
     \<and> \<not> list_ex (\<lambda>p. p \<in> set ''Pp'') (hd grid @ List.last grid)
     \<and> max \<bar>fst kw - fst kb\<bar> \<bar>snd kw - snd kb\<bar> > 1
     \<and> \<not> v_attacks grid (fst waiting) (snd waiting) (side = ''w'')
     \<and> castling_semantics grid castling kind)"

subsection \<open>The FEN check\<close>

definition bounded_counter :: "string \<Rightarrow> bool" where
  "bounded_counter s \<longleftrightarrow> s \<noteq> [] \<and> length s \<le> 10 \<and> list_all is_digit s \<and> hd s \<noteq> CHR ''0''"

definition check_fen :: "pyval \<Rightarrow> string \<Rightarrow> (variant_failure, unit) result" where
  "check_fen fen kind = (case fen of PStr s \<Rightarrow>
     (case split_on CHR '' '' s of
        [board, side, castling, ep, half, full] \<Rightarrow>
          and_then (v_board board) (\<lambda>grid.
          require (side = ''w'' \<or> side = ''b'') Bad_side
         (require (castling = ''-'' \<or> castling \<noteq> [] \<and> set castling \<subseteq> set ''KQkq'' \<and> distinct castling) Bad_castling
         (require (ep = ''-'' \<or> length ep = 2 \<and> ep ! 0 \<in> set FILES \<and> ep ! 1 \<in> set ''36'') Bad_en_passant
         (require ((half = ''0'' \<or> bounded_counter half) \<and> bounded_counter full) Bad_counters
         (require (position_semantics grid castling side kind) Illegal_position
         (require (ep = ''-'' \<or> ep_semantics grid ep side) Illegal_position (Inr ())))))))
      | _ \<Rightarrow> Inl Wrong_field_count)
   | _ \<Rightarrow> Inl Wrong_field_count)"

subsection \<open>Positions and their identity\<close>

text \<open>The fields of a \<open>Position\<close> can be overwritten from outside, so they are arbitrary values.\<close>

record vposition =
  vp_variant :: pyval
  vp_board :: pyval
  vp_side :: pyval
  vp_castling :: pyval
  vp_ep :: pyval

definition MALFORMED :: variant_error where
  "MALFORMED = Variant_error ''malformed_request'' None"

definition checked_variant :: "pyval \<Rightarrow> (variant_error, string) result" where
  "checked_variant variant = (case variant of
     PStr v \<Rightarrow> (case map_of REGISTRY v of Some kind \<Rightarrow> Inr kind | None \<Rightarrow> Inl MALFORMED)
   | _ \<Rightarrow> Inl MALFORMED)"

definition checked_fen :: "pyval \<Rightarrow> string \<Rightarrow> (variant_error, unit) result" where
  "checked_fen fen kind = (case check_fen fen kind of
     Inl cls \<Rightarrow> Inl (Variant_error (code_for_class cls) (Some cls)) | Inr u \<Rightarrow> Inr u)"

definition parse_position :: "pyval \<Rightarrow> pyval \<Rightarrow> (variant_error, vposition) result" where
  "parse_position variant fen = and_then (checked_variant variant) (\<lambda>kind.
     and_then (checked_fen fen kind) (\<lambda>_.
     (let parts = map PStr (split_on CHR '' '' (key_bytes fen)) in
      Inr \<lparr>vp_variant = variant, vp_board = parts ! 0, vp_side = parts ! 1, vp_castling = parts ! 2, vp_ep = parts ! 3\<rparr>)))"

text \<open>The text of an exact \<open>str\<close>; one without an encoding stands for a text that no grammar admits.\<close>

fun text_of :: "pyval \<Rightarrow> string" where
  "text_of (PStr s) = s"
| "text_of _ = [CHR 0xFF]"

definition validate_fields :: "pyval list \<Rightarrow> (variant_error, unit) result" where
  "validate_fields vals = require (list_all is_str vals) MALFORMED
     (and_then (checked_variant (hd vals)) (\<lambda>kind.
       checked_fen (PStr (join_on CHR '' '' (map text_of (tl vals) @ [''0'', ''1'']))) kind))"

definition vp_fields :: "vposition \<Rightarrow> pyval list" where
  "vp_fields p = [vp_variant p, vp_board p, vp_side p, vp_castling p, vp_ep p]"

definition identity :: "vposition \<Rightarrow> (variant_error, pyval list) result" where
  "identity p = and_then (validate_fields (vp_fields p)) (\<lambda>_. Inr (vp_fields p))"

definition CANONICAL_FIELDS :: "string list" where
  "CANONICAL_FIELDS = [''variant'', ''board'', ''side_to_move'', ''castling_rights'', ''en_passant'']"

definition project_additive :: "pyval \<Rightarrow> (variant_error, pyval list) result" where
  "project_additive rec = (case rec of PDict _ d \<Rightarrow>
       require (list_all is_str (map fst d)) MALFORMED
       (require (list_all (\<lambda>f. pget d f \<noteq> None) CANONICAL_FIELDS) MALFORMED
       (require (list_all (\<lambda>f. is_str (fld d f)) CANONICAL_FIELDS) MALFORMED
       (and_then (validate_fields (map (fld d) CANONICAL_FIELDS)) (\<lambda>_. Inr (map (fld d) CANONICAL_FIELDS)))))
     | _ \<Rightarrow> Inl MALFORMED)"

end
