(* ===== verification/VariantFacts.thy ===== *)
theory VariantFacts
  imports VariantRuntime
begin

text \<open>
  The grid of the variant runtime against the board of the FEN parser: the same placements are
  accepted, and the attack tests agree except for pawns.
\<close>

definition cell_char :: "char option \<Rightarrow> char" where
  "cell_char x = (case x of None \<Rightarrow> CHR ''.'' | Some ch \<Rightarrow> ch)"

definition grid_of :: "fen_board \<Rightarrow> grid" where
  "grid_of board = map (\<lambda>r. map cell_char (row_cells board r)) [8, 7, 6, 5, 4, 3, 2, 1]"

lemma digit_letters: "ch \<in> set empty_run_digits \<Longrightarrow> is_digit ch \<and> ch \<noteq> CHR ''0''"
  "ch \<in> set piece_letters \<Longrightarrow> \<not> is_digit ch" "is_digit CHR ''0''"
  "is_digit ch \<Longrightarrow> ch \<noteq> CHR ''0'' \<Longrightarrow> ch \<notin> set empty_run_digits \<Longrightarrow> ch = CHR ''9''"
  by (auto simp: empty_run_digits_def is_digit_def piece_letters_def)

text \<open>One rank: the two loops accept the same texts, and the row holds the cells.\<close>

lemma v_row_parse_rank:
  "length row = f \<Longrightarrow>
     (case parse_rank rn chs f pd board of
        Inr b \<Rightarrow> v_row chs pd row = Inr (row @ map cell_char (rank_cells chs))
      | Inl _ \<Rightarrow> v_row chs pd row = Inl Bad_board)"
proof (induction rn chs f pd board arbitrary: row rule: parse_rank.induct)
  case (1 rn f pd board)
  then show ?case by (simp add: require_def)
next
  case (2 rn ch chs f pd board)
  consider "ch \<in> set empty_run_digits" | "ch \<in> set piece_letters" "ch \<notin> set empty_run_digits"
    | "ch \<notin> set empty_run_digits" "ch \<notin> set piece_letters" by blast
  then show ?case
  proof cases
    case 1
    show ?thesis
    proof (cases pd)
      case True
      then show ?thesis using 1 digit_letters(1) by (simp add: require_def)
    next
      case False
      then show ?thesis using 1 digit_letters(1) "2.IH"(1) [OF 1, of "row @ replicate (digit_val ch) CHR ''.''"] "2.prems"
        by (simp add: cell_char_def split: sum.splits)
    qed
  next
    case 2
    then have "ch \<noteq> CHR ''0''" "\<not> is_digit ch" using digit_letters(2,3) by auto
    then show ?thesis using 2 "2.IH"(2) [OF 2(2), of "row @ [ch]"] "2.prems"
      by (simp add: cell_char_def split: sum.splits)
  next
    case 3
    then have "v_row (ch # chs) pd row = Inl Bad_board" by (simp add: require_def)
    moreover have "parse_rank rn (ch # chs) f pd board = Inl Malformed_fen" using 3 by simp
    ultimately show ?thesis by (simp only: sum.case)
  qed
qed

lemma v_rows_parse_ranks:
  "case parse_ranks rn ranks board of
     Inr b \<Rightarrow> v_rows ranks = Inr (map (map cell_char \<circ> rank_cells) ranks)
   | Inl _ \<Rightarrow> v_rows ranks = Inl Bad_board"
proof (induction ranks arbitrary: rn board)
  case (Cons rank ranks)
  show ?case
  proof (cases "rank = []")
    case True
    then show ?thesis by (simp add: require_def)
  next
    case False
    show ?thesis
    proof (cases "parse_rank rn rank 0 False board")
      case (Inl e)
      then show ?thesis using False v_row_parse_rank [where row = "[]" and f = 0 and rn = rn and chs = rank and pd = False and board = board] by simp
    next
      case (Inr b)
      then show ?thesis using False v_row_parse_rank [where row = "[]" and f = 0 and rn = rn and chs = rank and pd = False and board = board] Cons.IH [where rn = "rn - 1" and board = b]
        by (simp split: sum.splits)
    qed
  qed
qed simp

lemma v_board_placement:
  "parse_placement placement = Inr b \<Longrightarrow> v_board placement = Inr (grid_of b)"
  "parse_placement placement = Inl e \<Longrightarrow> v_board placement = Inl Bad_board"
proof -
  let ?ranks = "split_on CHR ''/'' placement"
  assume p: "parse_placement placement = Inr b"
  then have len: "length ?ranks = 8" and pr: "parse_ranks 8 ?ranks [] = Inr b"
    by (simp_all add: parse_placement_def Let_def)
  have b: "b = ranks_placed 8 ?ranks" and cells: "\<forall>rank \<in> set ?ranks. length (rank_cells rank) = 8"
    using parse_ranks_placed [OF pr] by auto
  have "row_cells b (8 - int i) = rank_cells (?ranks ! i)" if "i < 8" for i
    unfolding b by (rule row_cells_placed [OF cells]) (simp add: len that)
  from this [of 0] this [of 1] this [of 2] this [of 3] this [of 4] this [of 5] this [of 6] this [of 7]
  have "grid_of b = map (\<lambda>i. map cell_char (rank_cells (?ranks ! i))) [0, 1, 2, 3, 4, 5, 6, 7]"
    by (simp add: grid_of_def)
  also have "[0, 1, 2, 3, 4, 5, 6, 7] = [0..<length ?ranks]" unfolding len by (simp add: upt_conv_Cons)
  also have "map (\<lambda>i. map cell_char (rank_cells (?ranks ! i))) [0..<length ?ranks] = map (map cell_char \<circ> rank_cells) ?ranks"
    by (rule nth_equalityI) simp_all
  finally show "v_board placement = Inr (grid_of b)"
    using v_rows_parse_ranks [where rn = 8 and ranks = ?ranks and board = "[]"] by (simp add: v_board_def Let_def len pr)
next
  assume "parse_placement placement = Inl e"
  then show "v_board placement = Inl Bad_board"
    using v_rows_parse_ranks [where rn = 8 and ranks = "split_on CHR ''/'' placement" and board = "[]"]
    by (auto simp: parse_placement_def v_board_def Let_def require_def split: if_splits sum.splits)
qed

subsection \<open>Cells and squares\<close>

lemma dot_piece: "CHR ''.'' \<notin> set piece_letters"
  by (simp add: piece_letters_def)

lemma eight_cases: "0 \<le> r \<Longrightarrow> r < (8 :: int) \<Longrightarrow> r = 0 \<or> r = 1 \<or> r = 2 \<or> r = 3 \<or> r = 4 \<or> r = 5 \<or> r = 6 \<or> r = 7"
  by arith

lemma cell_grid_of: "inside r c \<Longrightarrow> cell (grid_of board) r c = cell_char (map_of board (c, 8 - r))"
proof -
  assume i: "inside r c"
  have "grid_of board ! nat r = map cell_char (row_cells board (8 - r))"
    using eight_cases [of r] i by (auto simp: inside_def grid_of_def numeral_nat)
  moreover have "row_cells board (8 - r) ! nat c = map_of board (c, 8 - r)" "nat c < length (row_cells board (8 - r))"
    using eight_cases [of c] i by (auto simp: inside_def row_cells_def numeral_nat)
  ultimately show ?thesis by (simp add: cell_def)
qed

lemma board_inside: "board_ok board \<Longrightarrow> map_of board (c, 8 - r) = Some ch \<Longrightarrow> inside r c \<and> ch \<noteq> CHR ''.''"
  using board_ok_at [of board c "8 - r" ch] dot_piece by (auto simp: inside_def on_board_iff)

lemma cell_hit:
  assumes "board_ok board" "ch \<noteq> CHR ''.''"
  shows "inside r c \<and> cell (grid_of board) r c = ch \<longleftrightarrow> map_of board (c, 8 - r) = Some ch"
  using cell_grid_of [of r c board] board_inside [OF assms(1), of c r] assms(2)
  by (auto simp: cell_char_def split: option.splits)

lemma cell_empty:
  assumes "board_ok board" "inside r c"
  shows "cell (grid_of board) r c = CHR ''.'' \<longleftrightarrow> map_of board (c, 8 - r) = None"
  using cell_grid_of [OF assms(2), of board] board_inside [OF assms(1), of c r]
  by (auto simp: cell_char_def split: option.splits)

text \<open>The slider loops walk the same squares: a step down the grid is a step down the ranks.\<close>

lemma v_slide_fen:
  assumes b: "board_ok board"
  shows "v_slide (grid_of board) pieces dr dc rr cc = fen_slide board pieces dc (- dr) cc (8 - rr)"
proof (induction "grid_of board" pieces dr dc rr cc rule: v_slide.induct)
  case (1 pieces dr dc rr cc)
  have g: "0 \<le> cc \<and> cc < 8 \<and> 1 \<le> 8 - rr \<and> 8 - rr \<le> 8 \<and> (dc, - dr) \<noteq> (0, 0) \<longleftrightarrow> inside rr cc \<and> (dr, dc) \<noteq> (0, 0)"
    by (auto simp: inside_def)
  show ?case
  proof (cases "inside rr cc \<and> (dr, dc) \<noteq> (0, 0)")
    case True
    have v: "v_slide (grid_of board) pieces dr dc rr cc = (if cell (grid_of board) rr cc \<noteq> CHR ''.''
        then cell (grid_of board) rr cc \<in> set pieces else v_slide (grid_of board) pieces dr dc (rr + dr) (cc + dc))"
      using True by (subst v_slide.simps) simp
    have f: "fen_slide board pieces dc (- dr) cc (8 - rr) = (case map_of board (cc, 8 - rr) of
        Some piece \<Rightarrow> piece \<in> set pieces | None \<Rightarrow> fen_slide board pieces dc (- dr) (cc + dc) (8 - rr + - dr))"
      by (subst fen_slide.simps) (simp only: g True if_True simp_thms)
    show ?thesis
    proof (cases "map_of board (cc, 8 - rr)")
      case None
      then have "cell (grid_of board) rr cc = CHR ''.''" using cell_empty [OF b] True by blast
      then show ?thesis using v f None "1" [OF True] by (simp add: algebra_simps)
    next
      case (Some ch)
      then have "cell (grid_of board) rr cc = ch" "ch \<noteq> CHR ''.''"
        using cell_grid_of [of rr cc board] True board_inside [OF b Some] by (auto simp: cell_char_def)
      then show ?thesis using v f Some by simp
    qed
  next
    case False
    then show ?thesis by (subst v_slide.simps, subst fen_slide.simps) (simp only: g if_False)
  qed
qed

subsection \<open>Attack\<close>

text \<open>The pawn test as written: the squares that are looked at are one step in the direction the pawns
  of that side move, not one step back from it.\<close>

definition pawn_ahead :: "fen_board \<Rightarrow> int \<times> int \<Rightarrow> bool \<Rightarrow> bool" where
  "pawn_ahead board k white = list_ex (\<lambda>df. map_of board (fst k + df, snd k + (if white then 1 else - 1))
     = Some (cased white CHR ''P'')) [- 1, 1]"

definition pawn_attack :: "fen_board \<Rightarrow> int \<times> int \<Rightarrow> bool \<Rightarrow> bool" where
  "pawn_attack board k white = list_ex (\<lambda>df. map_of board (fst k + df, snd k - (if white then 1 else - 1))
     = Some (cased white CHR ''P'')) [- 1, 1]"

definition officer_attack :: "fen_board \<Rightarrow> int \<times> int \<Rightarrow> bool \<Rightarrow> bool" where
  "officer_attack board k white \<longleftrightarrow>
     list_ex (\<lambda>(df, dr). map_of board (fst k + df, snd k + dr) = Some (cased white CHR ''N'')) fen_knight_deltas
     \<or> list_ex (\<lambda>(df, dr). map_of board (fst k + df, snd k + dr) = Some (cased white CHR ''K'')) fen_king_deltas
     \<or> list_ex (\<lambda>(directions, kinds). list_ex (\<lambda>(df, dr).
           fen_slide board (map (cased white) kinds) df dr (fst k + df) (snd k + dr)) directions)
       [(fen_rook_directions, ''RQ''), (fen_bishop_directions, ''BQ'')]"

lemma fen_attack_split: "fen_attack k board white \<longleftrightarrow> pawn_attack board k white \<or> officer_attack board k white"
  by (cases k) (auto simp: fen_attack_def pawn_attack_def officer_attack_def fen_pawn_deltas_def)

lemma cased_not_dot: "cased w CHR ''P'' \<noteq> CHR ''.''" "cased w CHR ''N'' \<noteq> CHR ''.''" "cased w CHR ''K'' \<noteq> CHR ''.''"
  by (simp_all add: cased_def lower_def)

lemma v_attacks_split:
  assumes b: "board_ok board"
  shows "v_attacks (grid_of board) r c white \<longleftrightarrow>
    pawn_ahead board (c, 8 - r) white \<or> officer_attack board (c, 8 - r) white"
proof -
  have hit: "inside (r + dr) (c + dc) \<and> cell (grid_of board) (r + dr) (c + dc) = ch \<longleftrightarrow>
      map_of board (c + dc, 8 - r - dr) = Some ch" if "ch \<noteq> CHR ''.''" for dr dc ch
    using cell_hit [OF b that, of "r + dr" "c + dc"] by (simp add: algebra_simps)
  have slide: "v_slide (grid_of board) ps dr dc (r + dr) (c + dc) = fen_slide board ps dc (- dr) (c + dc) (8 - r - dr)"
    for ps dr dc using v_slide_fen [OF b, of ps dr dc "r + dr" "c + dc"] by (simp add: algebra_simps)
  show ?thesis
    unfolding v_attacks_def Let_def hit [OF cased_not_dot(1)] hit [OF cased_not_dot(2)] hit [OF cased_not_dot(3)] slide
    by (simp add: pawn_ahead_def officer_attack_def fen_knight_deltas_def fen_king_deltas_def
        fen_rook_directions_def fen_bishop_directions_def) argo
qed

subsection \<open>Position rules\<close>

text \<open>The pieces of a parsed board are those of the grid, in the order of the text.\<close>

lemma pieces_of_cells:
  "\<forall>ch. Some ch \<in> set cells \<longrightarrow> ch \<noteq> CHR ''.'' \<Longrightarrow>
     map snd (placed rn f cells) = filter (\<lambda>c. c \<noteq> CHR ''.'') (map cell_char cells)"
  by (induction rn f cells rule: placed.induct) (simp_all add: cell_char_def)

lemma pieces_of_ranks:
  "\<forall>rank \<in> set ranks. set rank \<subseteq> set empty_run_digits \<union> set piece_letters \<Longrightarrow>
     map snd (ranks_placed rn ranks) = filter (\<lambda>c. c \<noteq> CHR ''.'') (concat (map (map cell_char \<circ> rank_cells) ranks))"
proof (induction rn ranks rule: ranks_placed.induct)
  case (2 rn rank ranks)
  have "\<forall>ch. Some ch \<in> set (rank_cells rank) \<longrightarrow> ch \<noteq> CHR ''.''"
    using rank_cells_letter "2.prems" dot_piece by fastforce
  then show ?case using 2 pieces_of_cells by simp
qed simp

lemma pieces_of_board:
  assumes "parse_placement placement = Inr b"
  shows "map snd b = filter (\<lambda>c. c \<noteq> CHR ''.'') (concat (grid_of b))"
proof -
  let ?ranks = "split_on CHR ''/'' placement"
  have len: "length ?ranks = 8" and pr: "parse_ranks 8 ?ranks [] = Inr b"
    using assms by (simp_all add: parse_placement_def Let_def)
  have "Inr (grid_of b) = (Inr (map (map cell_char \<circ> rank_cells) ?ranks) :: (variant_failure, grid) result)"
    using v_board_placement(1) [OF assms] v_rows_parse_ranks [where rn = 8 and ranks = ?ranks and board = "[]"]
    by (simp add: v_board_def Let_def len pr)
  then show ?thesis using pieces_of_ranks [of ?ranks 8] parse_ranks_placed [OF pr] by simp
qed

lemma count_pieces:
  assumes "parse_placement placement = Inr b" "\<not> P CHR ''.''"
  shows "length (filter P (concat (grid_of b))) = length (filter P (map snd b))"
proof -
  have "filter P (filter (\<lambda>c. c \<noteq> CHR ''.'') xs) = filter P xs" for xs
    using assms(2) by (induction xs) auto
  then show ?thesis by (simp only: pieces_of_board [OF assms(1)])
qed

lemma count_kind:
  assumes "parse_placement placement = Inr b" "ch \<noteq> CHR ''.''"
  shows "length (filter ((=) ch) (concat (grid_of b))) = length (squares_of b ch)"
proof -
  have "length (filter ((=) ch) (map snd xs)) = length (filter (\<lambda>kv. snd kv = ch) xs)" for xs :: fen_board
    by (induction xs) auto
  then show ?thesis using count_pieces [OF assms(1), of "(=) ch"] assms(2) by (simp add: squares_of_def)
qed

lemma letter_case:
  "c \<in> set piece_letters \<Longrightarrow> c = cased white CHR ''P'' \<longleftrightarrow> is_upper c = white \<and> lower c = CHR ''p''"
  by (cases white) (auto simp: piece_letters_def cased_def lower_def is_upper_def)

lemma material_counts:
  assumes p: "parse_placement placement = Inr b" and m: "material_ok b white"
  shows "material_count_ok (concat (grid_of b)) white"
proof -
  let ?mine = "filter (\<lambda>p. is_upper p = white) (map snd b)"
  have letters: "c \<in> set piece_letters" if "c \<in> set (map snd b)" for c
    using parse_placement_ok [OF p] that by (auto simp: board_ok_def)
  have "filter (\<lambda>sq. sq = cased white CHR ''P'') (map snd b) = filter (\<lambda>p. lower p = CHR ''p'') ?mine"
    unfolding filter_filter by (rule filter_cong [OF refl]) (use letter_case letters in blast)
  moreover have "filter (\<lambda>sq. sq \<noteq> CHR ''.'' \<and> is_upper sq = white) (map snd b) = ?mine"
    by (rule filter_cong [OF refl]) (use letters dot_piece in blast)
  ultimately show ?thesis
    using m count_pieces [OF p, of "\<lambda>sq. sq = cased white CHR ''P''"]
      count_pieces [OF p, of "\<lambda>sq. sq \<noteq> CHR ''.'' \<and> is_upper sq = white"] cased_not_dot(1) [of white]
    unfolding material_count_ok_def material_ok_def Let_def by simp
qed

lemma mem_board: "distinct (map fst b) \<Longrightarrow> ((c, r), ch) \<in> set b \<longleftrightarrow> map_of b (c, r) = Some ch"
  by simp

lemma eight_mem: "x \<in> set [0, 1, 2, 3, 4, 5, 6, 7] \<longleftrightarrow> 0 \<le> x \<and> x < (8 :: int)"
  by auto

lemma edge_rows:
  assumes "board_ok b"
  shows "list_ex (\<lambda>p. p \<in> set ''Pp'') (hd (grid_of b) @ List.last (grid_of b)) \<longleftrightarrow>
    list_ex (\<lambda>((_, r), c). c \<in> set ''Pp'' \<and> r \<in> set [1, 8]) b"
proof -
  have d: "distinct (map fst b)" using assms by (simp add: board_ok_def)
  have h: "hd (grid_of b) = map cell_char (row_cells b 8)" "List.last (grid_of b) = map cell_char (row_cells b 1)"
    by (simp_all add: grid_of_def)
  have row: "p \<in> set (map cell_char (row_cells b r)) \<longleftrightarrow> (\<exists>c. map_of b (c, r) = Some p)" if "p \<in> set ''Pp''" for p r
  proof -
    have "cell_char x = p \<longleftrightarrow> x = Some p" for x using that by (auto simp: cell_char_def split: option.split)
    then have "p \<in> set (map cell_char (row_cells b r)) \<longleftrightarrow> Some p \<in> set (row_cells b r)"
      unfolding set_map image_iff by metis
    also have "\<dots> \<longleftrightarrow> (\<exists>c \<in> set [0, 1, 2, 3, 4, 5, 6, 7]. Some p = map_of b (c, r))"
      unfolding row_cells_def set_map image_iff ..
    also have "\<dots> \<longleftrightarrow> (\<exists>c. map_of b (c, r) = Some p)"
    proof
      assume "\<exists>c. map_of b (c, r) = Some p"
      then obtain c where c: "map_of b (c, r) = Some p" ..
      have "c \<in> set [0, 1, 2, 3, 4, 5, 6, 7]"
        unfolding eight_mem using board_ok_at(1) [OF assms c] by (simp only: on_board_iff)
      then show "\<exists>c \<in> set [0, 1, 2, 3, 4, 5, 6, 7]. Some p = map_of b (c, r)" using c [symmetric] by (rule rev_bexI)
    qed (erule bexE, rule exI, erule sym)
    finally show ?thesis .
  qed
  have "list_ex (\<lambda>p. p \<in> set ''Pp'') (hd (grid_of b) @ List.last (grid_of b)) \<longleftrightarrow>
      (\<exists>p \<in> set ''Pp''. \<exists>r \<in> {1, 8}. p \<in> set (map cell_char (row_cells b r)))"
    unfolding h list_ex_iff set_append by blast
  also have "\<dots> \<longleftrightarrow> (\<exists>p \<in> set ''Pp''. \<exists>r \<in> {1, 8}. \<exists>c. ((c, r), p) \<in> set b)"
    using row mem_board [OF d] by meson
  also have "\<dots> \<longleftrightarrow> list_ex (\<lambda>((_, r), c). c \<in> set ''Pp'' \<and> r \<in> set [1, 8]) b"
    unfolding list_ex_iff Bex_def split_paired_Ex case_prod_conv list.set by blast
  finally show ?thesis .
qed

lemma distinct_cells: "distinct (cells_with grid ch)"
  unfolding cells_with_def by (rule distinct_filter) (simp add: distinct_product)

lemma mem_cells_with:
  assumes "board_ok b" "ch \<noteq> CHR ''.''"
  shows "(r, c) \<in> set (cells_with (grid_of b) ch) \<longleftrightarrow> map_of b (c, 8 - r) = Some ch"
proof -
  have "(r, c) \<in> set (cells_with (grid_of b) ch) \<longleftrightarrow> inside r c \<and> cell (grid_of b) r c = ch"
    by (auto simp only: cells_with_def inside_def set_filter set_product mem_Collect_eq mem_Sigma_iff eight_mem
        case_prod_conv)
  then show ?thesis using cell_hit [OF assms] by simp
qed

lemma king_cell:
  assumes b: "board_ok b" and k: "squares_of b ch = [(f, r)]" and ch: "ch \<noteq> CHR ''.''"
  shows "cells_with (grid_of b) ch = [(8 - r, f)]"
proof -
  have d: "distinct (map fst b)" using b by (simp add: board_ok_def)
  have "map_of b x = Some ch \<longleftrightarrow> x \<in> set (squares_of b ch)" for x
    using map_of_mem_distinct [OF d, of x ch] by (force simp: squares_of_def)
  then have "set (cells_with (grid_of b) ch) = {(8 - r, f)}"
    using mem_cells_with [OF b ch] k by auto
  then have "length (cells_with (grid_of b) ch) = 1"
    using distinct_card [OF distinct_cells [of "grid_of b" ch]] by simp
  with \<open>set (cells_with (grid_of b) ch) = {(8 - r, f)}\<close> show ?thesis
    using length_oneE [of "cells_with (grid_of b) ch"] by auto
qed

end
