(* ===== verification/VariantProps.thy ===== *)
theory VariantProps
  imports VariantFacts
begin

text \<open>
  What the variant runtime accepts, against the FEN parser. The two agree on every position rule that
  a parsed position satisfies, except for the direction of pawns in the check test.
\<close>

lemma castling_agree:
  assumes b: "board_ok b" and r: "right \<in> set ''KQkq''" and c: "castling_consistent b right"
  shows "let ((kr, kc), (rr, rc)) = castling_squares right in
    cell (grid_of b) kr kc = cased (is_upper right) CHR ''K'' \<and> cell (grid_of b) rr rc = cased (is_upper right) CHR ''R''"
proof -
  have "right = CHR ''K'' \<or> right = CHR ''Q'' \<or> right = CHR ''k'' \<or> right = CHR ''q''" using r by auto
  then show ?thesis
    using c by (elim disjE)
      (simp_all add: castling_squares_def castling_consistent_def is_upper_def lower_def cased_def
        cell_grid_of inside_def cell_char_def)
qed

text \<open>The square of the king that may not be in check.\<close>

definition waiting_king :: "fen_position \<Rightarrow> int \<times> int" where
  "waiting_king p = hd (squares_of (fp_board p) (if fp_color p = ''w'' then CHR ''k'' else CHR ''K''))"

lemma position_semantics_parsed:
  assumes pl: "parse_placement placement = Inr (fp_board p)" and ok: "position_ok p"
    and c: "fp_color p = ''w'' \<or> fp_color p = ''b''" and cr: "set (fp_rights p) \<subseteq> set ''KQkq''"
  shows "position_semantics (grid_of (fp_board p)) (if fp_rights p = [] then ''-'' else fp_rights p) (fp_color p) ''orthodox''
    \<longleftrightarrow> \<not> pawn_ahead (fp_board p) (waiting_king p) (fp_color p = ''w'')"
proof -
  let ?b = "fp_board p" and ?g = "grid_of (fp_board p)" and ?w = "fp_color p = ''w''"
  have b: "board_ok ?b" by (rule parse_placement_ok [OF pl])
  have len: "length (squares_of ?b CHR ''K'') = 1" "length (squares_of ?b CHR ''k'') = 1"
    using ok by (simp_all add: position_ok_def Let_def)
  obtain wf wr bf br where sq: "squares_of ?b CHR ''K'' = [(wf, wr)]" "squares_of ?b CHR ''k'' = [(bf, br)]"
    using length_oneE [OF len(1)] length_oneE [OF len(2)] by (metis surj_pair)
  have cells: "cells_with ?g CHR ''K'' = [(8 - wr, wf)]" "cells_with ?g CHR ''k'' = [(8 - br, bf)]"
    by (rule king_cell [OF b sq(1)], simp, rule king_cell [OF b sq(2)], simp)
  have counts: "length (filter ((=) CHR ''K'') (concat ?g)) = 1" "length (filter ((=) CHR ''k'') (concat ?g)) = 1"
    using count_kind [OF pl, of "CHR ''K''"] count_kind [OF pl, of "CHR ''k''"] len by simp_all
  have mat: "material_count_ok (concat ?g) True" "material_count_ok (concat ?g) False"
    using ok by (intro material_counts [OF pl]; simp add: position_ok_def Let_def)+
  have rows: "\<not> list_ex (\<lambda>p. p \<in> set ''Pp'') (hd ?g @ List.last ?g)"
    using ok unfolding edge_rows [OF b] by (simp only: position_ok_def Let_def simp_thms)
  have far: "1 < max \<bar>(8 - wr) - (8 - br)\<bar> \<bar>wf - bf\<bar>"
    using ok by (auto simp: position_ok_def Let_def sq kings_adjacent_def)
  have king: "waiting_king p = (if ?w then (bf, br) else (wf, wr))" by (simp add: waiting_king_def sq)
  have safe: "\<not> fen_attack (waiting_king p) ?b ?w"
    using ok by (cases ?w) (simp_all add: position_ok_def Let_def sq king)
  have check: "v_attacks ?g (8 - snd (waiting_king p)) (fst (waiting_king p)) ?w \<longleftrightarrow> pawn_ahead ?b (waiting_king p) ?w"
    using v_attacks_split [OF b, of "8 - snd (waiting_king p)" "fst (waiting_king p)" ?w] safe
    by (simp add: fen_attack_split)
  have cast: "castling_semantics ?g (if fp_rights p = [] then ''-'' else fp_rights p) ''orthodox''"
    using ok cr castling_agree [OF b]
    by (auto simp: castling_semantics_def position_ok_def Let_def list_all_iff subset_iff)
  show ?thesis
    unfolding position_semantics_def Let_def using counts mat rows far cast check
    by (cases ?w) (simp_all add: cells king)
qed

lemma parsed_counter:
  assumes "parse_counter lo s = Inr n"
  shows "(n = 0 \<longrightarrow> s = ''0'') \<and> (0 < n \<longrightarrow> length s \<le> 10 \<longrightarrow> bounded_counter s)"
proof -
  have s: "dec n = s" using parse_counter_text [OF assms] ..
  then show ?thesis
    using dec_head [of n] dec_digits [of n] dec_nonempty [of n]
    by (auto simp: bounded_counter_def dec_small digit_char_def)
qed

subsection \<open>The en-passant stage\<close>

text \<open>The attack test of the runtime on a FEN board: officers as they attack, pawns the wrong way.\<close>

definition runtime_attack :: "fen_board \<Rightarrow> int \<times> int \<Rightarrow> bool \<Rightarrow> bool" where
  "runtime_attack board k white \<longleftrightarrow> pawn_ahead board k white \<or> officer_attack board k white"

text \<open>The board after the capture by the pawn of \<open>white\<close> on the file \<open>f + df\<close>, next to the advanced pawn on \<open>f\<close>.\<close>

definition capture_rank :: "bool \<Rightarrow> int" where
  "capture_rank white = (if white then 5 else 4)"

definition after_capture :: "fen_board \<Rightarrow> bool \<Rightarrow> int \<Rightarrow> int \<Rightarrow> fen_board" where
  "after_capture board white f df = ((f, if white then 6 else 3), cased white CHR ''P'')
     # filter (\<lambda>kv. fst kv \<noteq> (f + df, capture_rank white) \<and> fst kv \<noteq> (f, capture_rank white)) board"

text \<open>The square of the king of the side to move, and whether some pawn next to the advanced one can take it so
  that this king is not attacked in the sense of the runtime.\<close>

definition moving_king :: "fen_position \<Rightarrow> int \<times> int" where
  "moving_king p = hd (squares_of (fp_board p) (if fp_color p = ''w'' then CHR ''K'' else CHR ''k''))"

definition ep_usable :: "fen_position \<Rightarrow> string \<Rightarrow> bool" where
  "ep_usable p ep = (let white = (fp_color p = ''w''); f = index_of FILES (ep ! 0) in
     list_ex (\<lambda>df. map_of (fp_board p) (f + df, capture_rank white) = Some (cased white CHR ''P'')
       \<and> \<not> runtime_attack (after_capture (fp_board p) white f df) (moving_king p) (\<not> white)) [- 1, 1])"

lemma grid_eqI:
  assumes "length g = 8" "length h = 8" "\<And>r. r < 8 \<Longrightarrow> length (g ! r) = 8 \<and> length (h ! r) = 8"
    and "\<And>r c. inside r c \<Longrightarrow> cell g r c = cell h r c"
  shows "g = h"
proof (rule nth_equalityI)
  fix r assume "r < length g"
  then have r: "r < 8" using assms(1) by simp
  show "g ! r = h ! r"
  proof (rule nth_equalityI)
    fix c assume "c < length (g ! r)"
    then have "inside (int r) (int c)" using r assms(3) [OF r] by (simp add: inside_def)
    then show "g ! r ! c = h ! r ! c" using assms(4) [of "int r" "int c"] by (simp add: cell_def)
  qed (use assms(3) [OF r] in simp)
qed (use assms in simp)

lemma grid_of_size: "length (grid_of b) = 8" "r < 8 \<Longrightarrow> length (grid_of b ! r) = 8"
proof -
  show "length (grid_of b) = 8" by (simp add: grid_of_def)
  have "list_all (\<lambda>row. length row = 8) (grid_of b)" by (simp add: grid_of_def row_cells_def)
  then show "r < 8 \<Longrightarrow> length (grid_of b ! r) = 8" using \<open>length (grid_of b) = 8\<close> by (simp add: list_all_length)
qed

lemma grid_set_size: "length g = 8 \<Longrightarrow> (\<And>i. i < 8 \<Longrightarrow> length (g ! i) = 8) \<Longrightarrow>
    length (grid_set g r c ch) = 8 \<and> (\<forall>i < 8. length (grid_set g r c ch ! i) = 8)"
  by (auto simp: grid_set_def nth_list_update) (metis length_list_update nth_list_update_eq nth_list_update_neq)

lemma cell_grid_set:
  assumes "length g = 8" "\<And>i. i < 8 \<Longrightarrow> length (g ! i) = 8" "inside r c" "inside r' c'"
  shows "cell (grid_set g r c ch) r' c' = (if r' = r \<and> c' = c then ch else cell g r' c')"
  using assms(1) assms(2) [of "nat r"] assms(3,4)
  by (auto simp: cell_def grid_set_def inside_def nth_list_update nat_eq_iff)

lemma map_of_after_capture:
  "map_of (after_capture board white f df) k = (if k = (f, if white then 6 else 3) then Some (cased white CHR ''P'')
     else if k = (f + df, capture_rank white) \<or> k = (f, capture_rank white) then None else map_of board k)"
  by (simp add: after_capture_def map_of_filter_key [where P = "\<lambda>k. k \<noteq> (f + df, capture_rank white) \<and> k \<noteq> (f, capture_rank white)"])

lemma cell_char_if: "cell_char (if Q then x else y) = (if Q then cell_char x else cell_char y)"
  by simp

lemma cell_char_simps: "cell_char None = CHR ''.''" "cell_char (Some ch) = ch"
  by (simp_all add: cell_char_def)

lemma if_or_eq: "X = X' \<Longrightarrow> Y = Y' \<Longrightarrow> Z = Z' \<Longrightarrow>
    (if X then p else if Y then q else if Z then q else c) = (if X' then p else if Z' \<or> Y' then q else c)"
  by auto

text \<open>What the stage checks once the position is one of the parser's.\<close>

lemma ep_semantics_parsed:
  assumes b: "board_ok (fp_board p)" and c: "fp_color p = ''w'' \<or> fp_color p = ''b''"
    and ep: "length ep = 2" "ep ! 0 \<in> set FILES" "ep ! 1 \<in> set ''36''"
    and con: "ep_consistent (fp_board p) (fp_color p = ''w'') half ep"
    and k: "squares_of (fp_board p) (if fp_color p = ''w'' then CHR ''K'' else CHR ''k'') = [moving_king p]"
  shows "ep_semantics (grid_of (fp_board p)) ep (fp_color p) \<longleftrightarrow> ep_usable p ep"
proof -
  let ?b = "fp_board p" and ?w = "fp_color p = ''w''" and ?f = "index_of FILES (ep ! 0)"
  let ?P = "cased ?w CHR ''P''" and ?row = "if ?w then 3 else 4 :: int" and ?to = "if ?w then 2 else 5 :: int"
  have f: "0 \<le> ?f" "?f < 8" using FILES_index [OF ep(2)] by simp_all
  have col: "int (of_char (ep ! 0)) - 97 = ?f" using ep(2) by (auto simp: FILES_def)
  have side: "ep ! 1 = CHR ''3'' \<longleftrightarrow> \<not> ?w" using con by (auto simp: ep_consistent_def Let_def)
  have at: "map_of ?b (?f, capture_rank ?w) = Some (cased (\<not> ?w) CHR ''P'')" "map_of ?b (?f, if ?w then 6 else 3) = None"
    "map_of ?b (?f, if ?w then 7 else 2) = None"
    using con side by (auto simp: ep_consistent_def Let_def capture_rank_def cased_def lower_def split: if_splits)
  have rank: "8 - ?row = capture_rank ?w" "8 - ?to = (if ?w then 6 else 3)" by (simp_all add: capture_rank_def)
  have ins: "inside ?row ?f" "inside ?to ?f" "inside (if ?w then 1 else 6) ?f" using f by (simp_all add: inside_def)
  have advanced: "cell (grid_of ?b) ?row ?f = cased (\<not> ?w) CHR ''P''"
    using cell_grid_of [OF ins(1), of ?b] at(1) unfolding rank by (simp add: cell_char_def)
  have empty: "cell (grid_of ?b) ?to ?f = CHR ''.''" "cell (grid_of ?b) (if ?w then 1 else 6) ?f = CHR ''.''"
    using cell_empty [OF b ins(2)] cell_empty [OF b ins(3)] at(2,3) rank(2) by (auto split: if_splits)
  define sim where "sim df = grid_set (grid_set (grid_set (grid_of ?b) ?row (?f + df) CHR ''.'') ?row ?f CHR ''.'') ?to ?f ?P" for df
  have stage: "ep_semantics (grid_of ?b) ep (fp_color p) \<longleftrightarrow> list_ex (\<lambda>df. inside ?row (?f + df) \<and> cell (grid_of ?b) ?row (?f + df) = ?P
      \<and> (let kings = cells_with (sim df) (if ?w then CHR ''K'' else CHR ''k'') in
         length kings = 1 \<and> \<not> v_attacks (sim df) (fst (hd kings)) (snd (hd kings)) (\<not> ?w))) [- 1, 1]"
    using c advanced empty side
    by (auto simp: ep_semantics_def ep_capture_legal_def Let_def col sim_def inside_def cased_def lower_def)
  have one: "inside ?row (?f + df) \<and> cell (grid_of ?b) ?row (?f + df) = ?P
      \<and> (let kings = cells_with (sim df) (if ?w then CHR ''K'' else CHR ''k'') in
         length kings = 1 \<and> \<not> v_attacks (sim df) (fst (hd kings)) (snd (hd kings)) (\<not> ?w))
    \<longleftrightarrow> map_of ?b (?f + df, capture_rank ?w) = Some ?P
      \<and> \<not> runtime_attack (after_capture ?b ?w ?f df) (moving_king p) (\<not> ?w)" for df
  proof (cases "map_of ?b (?f + df, capture_rank ?w) = Some ?P")
    case True
    let ?b' = "after_capture ?b ?w ?f df"
    have hit: "inside ?row (?f + df)" "cell (grid_of ?b) ?row (?f + df) = ?P"
      using cell_hit [OF b cased_not_dot(1), of ?row "?f + df" ?w] True rank by simp_all
    have d: "distinct (map fst ?b)" using b by (simp add: board_ok_def)
    have b': "board_ok ?b'"
      using b at(2) f distinct_fst_filter [OF d, of "\<lambda>kv. fst kv \<noteq> (?f + df, capture_rank ?w) \<and> fst kv \<noteq> (?f, capture_rank ?w)"]
      by (auto simp: board_ok_def after_capture_def on_board_iff map_of_eq_None_iff piece_letters_def cased_def lower_def image_iff)
    have "sim df = grid_of ?b'"
    proof (rule grid_eqI)
      let ?G1 = "grid_set (grid_of ?b) ?row (?f + df) CHR ''.''"
      let ?G2 = "grid_set ?G1 ?row ?f CHR ''.''"
      note g0 = grid_of_size [where b = ?b]
      have g1: "length ?G1 = 8" "\<And>i. i < 8 \<Longrightarrow> length (?G1 ! i) = 8"
        using grid_set_size [OF g0, of ?row "?f + df" "CHR ''.''"] by blast+
      have g2: "length ?G2 = 8" "\<And>i. i < 8 \<Longrightarrow> length (?G2 ! i) = 8"
        using grid_set_size [OF g1, of ?row ?f "CHR ''.''"] by blast+
      have g3: "length (sim df) = 8 \<and> (\<forall>i < 8. length (sim df ! i) = 8)"
        unfolding sim_def by (rule grid_set_size [OF g2])
      show "length (sim df) = 8" using g3 by (simp add: sim_def)
      show "length (grid_of ?b') = 8" by (rule grid_of_size)
      show "length (sim df ! r) = 8 \<and> length (grid_of ?b' ! r) = 8" if "r < 8" for r
        using g3 grid_of_size(2) that by (simp add: sim_def)
      fix r c assume rc: "inside r c"
      have "cell (sim df) r c = (if r = ?to \<and> c = ?f then ?P else if r = ?row \<and> c = ?f then CHR ''.''
          else if r = ?row \<and> c = ?f + df then CHR ''.'' else cell (grid_of ?b) r c)"
        unfolding sim_def by (subst cell_grid_set [OF g2 ins(2) rc], assumption,
            subst cell_grid_set [OF g1 ins(1) rc], assumption, subst cell_grid_set [OF g0 hit(1) rc], assumption, rule refl)
      also have "\<dots> = cell (grid_of ?b') r c"
        unfolding cell_grid_of [OF rc] map_of_after_capture cell_char_if cell_char_simps prod.inject
        by (rule if_or_eq) (auto simp: capture_rank_def)
      finally show "cell (sim df) r c = cell (grid_of ?b') r c" .
    qed
    moreover have "squares_of ?b' (if ?w then CHR ''K'' else CHR ''k'') = [moving_king p]"
    proof -
      have "fst kv \<noteq> (?f + df, capture_rank ?w) \<and> fst kv \<noteq> (?f, capture_rank ?w)"
        if "kv \<in> set ?b" "snd kv = (if ?w then CHR ''K'' else CHR ''k'')" for kv
      proof -
        obtain q ch where kv: "kv = (q, ch)" by fastforce
        then have "map_of ?b q = Some ch" "ch = (if ?w then CHR ''K'' else CHR ''k'')" using that map_of_is_SomeI [OF d] by auto
        then show ?thesis using True at(1) kv by (cases ?w) (auto simp: cased_def lower_def)
      qed
      then have "filter (\<lambda>kv. snd kv = (if ?w then CHR ''K'' else CHR ''k'')) (filter (\<lambda>kv. fst kv \<noteq> (?f + df, capture_rank ?w)
          \<and> fst kv \<noteq> (?f, capture_rank ?w)) ?b) = filter (\<lambda>kv. snd kv = (if ?w then CHR ''K'' else CHR ''k'')) ?b"
        unfolding filter_filter by (intro filter_cong refl) blast
      then have "squares_of ?b' (if ?w then CHR ''K'' else CHR ''k'') = squares_of ?b (if ?w then CHR ''K'' else CHR ''k'')"
        by (simp add: squares_of_def after_capture_def cased_def lower_def)
      then show ?thesis using k by simp
    qed
    then have "cells_with (grid_of ?b') (if ?w then CHR ''K'' else CHR ''k'') = [(8 - snd (moving_king p), fst (moving_king p))]"
      using king_cell [OF b', of _ "fst (moving_king p)" "snd (moving_king p)"] by simp
    ultimately show ?thesis
      using True hit v_attacks_split [OF b', of "8 - snd (moving_king p)" "fst (moving_king p)"]
      by (simp add: runtime_attack_def)
  next
    case False
    then show ?thesis using cell_hit [OF b cased_not_dot(1), of ?row "?f + df" ?w] rank by auto
  qed
  show ?thesis unfolding stage one unfolding ep_usable_def Let_def ..
qed

text \<open>C7. The variant runtime against the FEN parser, for every text that the parser accepts: the variant
  runtime accepts it exactly if both counters have at most ten digits, no pawn of the side to move stands
  diagonally in front (in that side's direction) of the waiting king, and, when there is an en-passant
  target, some pawn next to the advanced one can take it so that on the board after the capture its own
  king is not attacked in the sense of the runtime. A pawn in front gives no check: the pawn test of the
  runtime looks the wrong way, in both stages.\<close>

theorem variant_accepts_parsed:
  assumes "parse_fen (PStr s) = Inr p"
  shows "accepts (parse_position (PStr ''standard'') (PStr s)) \<longleftrightarrow>
    length (dec (fp_half p)) \<le> 10 \<and> length (dec (fp_full p)) \<le> 10
    \<and> \<not> pawn_ahead (fp_board p) (waiting_king p) (fp_color p = ''w'')
    \<and> (case fp_ep p of None \<Rightarrow> True | Some ep \<Rightarrow> ep_usable p ep)"
proof -
  have "parse_fields (split_on CHR '' '' s) = Inr p" using assms(1) by (simp add: parse_fen_def)
  from parse_fieldsE [OF this] obtain placement color castling ep half full where a:
    "split_on CHR '' '' s = [placement, color, castling, ep, half, full]"
    "parse_placement placement = Inr (fp_board p)" "color = fp_color p" "fp_color p = ''w'' \<or> fp_color p = ''b''"
    "parse_counter 0 half = Inr (fp_half p)" "parse_counter 1 full = Inr (fp_full p)"
    "parse_castling castling = Inr (fp_rights p)" "parse_ep ep = Inr (fp_ep p)" "position_ok p" by metis
  have texts: "(if fp_rights p = [] then ''-'' else fp_rights p) = castling" "ep = (case fp_ep p of None \<Rightarrow> ''-'' | Some e \<Rightarrow> e)"
    using parse_castling_text [OF a(7)] parse_ep_text [OF a(8)] by simp_all
  have rights: "castling = ''-'' \<or> castling \<noteq> [] \<and> set castling \<subseteq> set ''KQkq'' \<and> distinct castling"
    using a(7) by (auto simp: parse_castling_def split: if_splits)
  have target: "length e = 2 \<and> e ! 0 \<in> set FILES \<and> e ! 1 \<in> set ''36''" if "fp_ep p = Some e" for e
    using a(8) that by (auto simp: parse_ep_def split: if_splits)
  have "set (fp_rights p) \<subseteq> set ''KQkq''" using parsed_board [OF assms(1)] by blast
  note sem = position_semantics_parsed [OF a(2,9,4) this, unfolded texts(1)]
  have "0 < fp_full p" using parsed_board [OF assms(1)] by simp
  then have counters: "(half = ''0'' \<or> bounded_counter half) \<and> bounded_counter full \<longleftrightarrow>
      length (dec (fp_half p)) \<le> 10 \<and> length (dec (fp_full p)) \<le> 10"
    using parsed_counter [OF a(5)] parsed_counter [OF a(6)]
      parse_counter_text [OF a(5)] parse_counter_text [OF a(6)] by (cases "fp_half p = 0") (auto simp: bounded_counter_def)
  have b: "board_ok (fp_board p)" by (rule parse_placement_ok [OF a(2)])
  have king: "squares_of (fp_board p) (if fp_color p = ''w'' then CHR ''K'' else CHR ''k'') = [moving_king p]"
  proof -
    have "xs = [hd xs]" if "length xs = 1" for xs :: "(int \<times> int) list" using that by (cases xs) simp_all
    then show ?thesis using a(9) unfolding position_ok_def Let_def moving_king_def by (cases "fp_color p = ''w''") simp_all
  qed
  have passing: "ep = ''-'' \<or> ep_semantics (grid_of (fp_board p)) ep (fp_color p) \<longleftrightarrow> (case fp_ep p of None \<Rightarrow> True | Some ep \<Rightarrow> ep_usable p ep)"
  proof (cases "fp_ep p")
    case (Some e)
    then have "ep_consistent (fp_board p) (fp_color p = ''w'') (fp_half p) e" using a(9) by (simp add: position_ok_def Let_def)
    then show ?thesis using ep_semantics_parsed [OF b a(4) _ _ _ _ king] target [OF Some] texts(2) Some by auto
  qed (simp add: texts(2))
  have "accepts (check_fen (PStr s) ''orthodox'') \<longleftrightarrow> (half = ''0'' \<or> bounded_counter half) \<and> bounded_counter full
      \<and> position_semantics (grid_of (fp_board p)) castling (fp_color p) ''orthodox''
      \<and> (ep = ''-'' \<or> ep_semantics (grid_of (fp_board p)) ep (fp_color p))"
    using a(3,4) rights target texts(2) v_board_placement(1) [OF a(2)] by (auto simp: check_fen_def a(1) split: option.splits)
  moreover have "accepts (parse_position (PStr ''standard'') (PStr s)) \<longleftrightarrow> accepts (check_fen (PStr s) ''orthodox'')"
    by (cases "check_fen (PStr s) ''orthodox''") (simp_all add: parse_position_def checked_variant_def REGISTRY_def checked_fen_def Let_def)
  ultimately show ?thesis using sem passing counters by blast
qed

text \<open>A position whose waiting king stands behind an enemy pawn, where the pawn gives no check.\<close>

definition behind_pawn_fen :: string where
  "behind_pawn_fen = ''8/8/8/3P4/4k3/8/8/K7 w - - 0 1''"

text \<open>A position whose only en-passant capture leaves the king, in the sense of the runtime, in check from a pawn
  behind it.\<close>

definition ep_pawn_fen :: string where
  "ep_pawn_fen = ''4k3/8/8/3pP3/7K/6p1/8/8 w - d6 0 1''"

theorem variant_accepts_parsed_witness:
  "(\<exists>p. parse_fen (PStr behind_pawn_fen) = Inr p \<and> \<not> accepts (parse_position (PStr ''standard'') (PStr behind_pawn_fen)))
   \<and> (\<exists>p. parse_fen (PStr ep_pawn_fen) = Inr p \<and> \<not> accepts (parse_position (PStr ''standard'') (PStr ep_pawn_fen)))"
proof -
  have "(case parse_fen (PStr behind_pawn_fen) of Inr p \<Rightarrow> pawn_ahead (fp_board p) (waiting_king p) (fp_color p = ''w'') | Inl _ \<Rightarrow> False)"
    by code_simp
  then obtain p where p: "parse_fen (PStr behind_pawn_fen) = Inr p" "pawn_ahead (fp_board p) (waiting_king p) (fp_color p = ''w'')"
    by (auto split: sum.splits)
  have "(case parse_fen (PStr ep_pawn_fen) of Inr p \<Rightarrow> (case fp_ep p of None \<Rightarrow> False | Some ep \<Rightarrow> \<not> ep_usable p ep) | Inl _ \<Rightarrow> False)"
    by code_simp
  then obtain q where q: "parse_fen (PStr ep_pawn_fen) = Inr q" "case fp_ep q of None \<Rightarrow> False | Some ep \<Rightarrow> \<not> ep_usable q ep"
    by (auto split: sum.splits)
  then have "\<not> (case fp_ep q of None \<Rightarrow> True | Some ep \<Rightarrow> ep_usable q ep)" by (auto split: option.splits)
  then show ?thesis using p variant_accepts_parsed [OF p(1)] q(1) variant_accepts_parsed [OF q(1)] by blast
qed

text \<open>And one whose waiting king is in check from a pawn: accepted, though the parser rejects it.\<close>

definition pawn_check_fen :: string where
  "pawn_check_fen = ''4k3/3P4/8/8/8/8/8/4K3 w - - 0 1''"

text \<open>The pawn direction shows at the public entry points: a position in which the side not to move
  is in check from a pawn is accepted, and one in which it is not in check is refused as an illegal
  position, each the opposite of the FEN parser's verdict.\<close>

theorem variant_pawn_direction:
  "accepts (parse_position (PStr ''standard'') (PStr pawn_check_fen))
   \<and> parse_fen (PStr pawn_check_fen) = Inl Impossible_position
   \<and> parse_position (PStr ''standard'') (PStr behind_pawn_fen)
       = Inl (Variant_error ''illegal_position'' (Some Illegal_position))
   \<and> accepts (parse_fen (PStr behind_pawn_fen))"
proof (intro conjI)
  show "accepts (parse_position (PStr ''standard'') (PStr pawn_check_fen))" by code_simp
  show "parse_fen (PStr pawn_check_fen) = Inl Impossible_position" by code_simp
  show "parse_position (PStr ''standard'') (PStr behind_pawn_fen)
      = Inl (Variant_error ''illegal_position'' (Some Illegal_position))" by code_simp
  show "accepts (parse_fen (PStr behind_pawn_fen))" by code_simp
qed

end
