(* ===== verification/GraphState.thy ===== *)
theory GraphState
  imports VariantRuntime TranspositionNode
begin

text \<open>
  Graph-state values: exact node records (\<open>src/graph/node.py\<close>), the canonical key of a record and the
  state identifier that \<open>src/graph/diff.py\<close> and \<open>src/graph/conflict.py\<close> share. A state is a dict from
  keys to records, as its items in order.
\<close>

type_synonym gstate = "(string \<times> node_record) list"

text \<open>\<open>repr\<close> of a tuple of the five projected strings, which hold no quote and no backslash.\<close>

definition repr_key :: "string list \<Rightarrow> string" where
  "repr_key parts = ''('' @ concat (map (\<lambda>s. [CHR 0x27] @ s @ [CHR 0x27, CHR '','', CHR '' '']) (butlast parts))
     @ [CHR 0x27] @ last parts @ [CHR 0x27] @ '')''"

text \<open>The fields of a record in sorted order, and the digest of the sorted entries.\<close>

definition record_body :: "node_record \<Rightarrow> string" where
  "record_body r = ''digest='' @ nr_digest r @ ''|snapshot_fen='' @ nr_snapshot r @ ''|variant='' @ nr_variant r"

definition state_text :: "gstate \<Rightarrow> string" where
  "state_text st = concat (map (\<lambda>(key, r). key @ [CHR 0x0A] @ record_body r @ [CHR 0x0A]) (sort_key fst st))"

definition gs_id :: "gstate \<Rightarrow> string" where
  "gs_id st = tagged ''gs1'' (state_text st)"

definition state_value :: "gstate \<Rightarrow> pyval" where
  "state_value st = PDict 0 (map (\<lambda>(key, r). (PStr key, PDict 2 (node_dict r))) st)"

subsection \<open>Exact node records\<close>

datatype record_fault = Variant_fault variant_error | Digest_fault digest_error | Value_fault

definition exact_record :: "pyval \<Rightarrow> pyval \<Rightarrow> (record_fault, node_record) result" where
  "exact_record variant fen = (case parse_position variant fen of
     Inl e \<Rightarrow> Inl (Variant_fault e)
   | Inr position \<Rightarrow> (let parts = split_on CHR '' '' (key_bytes fen) in
       require (\<not> (length parts = 6 \<and> parts ! 3 \<noteq> ''-'' \<and> parts ! 4 \<noteq> ''0'')) (Variant_fault MALFORMED)
       (case identity position of
          Inl e \<Rightarrow> Inl (Variant_fault e)
        | Inr projection \<Rightarrow> (let canonical = join_on CHR '' '' (map text_of (tl projection) @ [''0'', ''1'']) in
            case digest_fen variant (PStr canonical) of
              Inl e \<Rightarrow> Inl (Digest_fault e)
            | Inr d \<Rightarrow> Inr \<lparr>nr_variant = text_of (hd projection), nr_digest = d, nr_snapshot = canonical\<rparr>))))"

text \<open>The key of the projection of a variant and a FEN text.\<close>

definition projection_key :: "pyval \<Rightarrow> pyval \<Rightarrow> (variant_error, string) result" where
  "projection_key variant fen = and_then (parse_position variant fen) (\<lambda>position.
     and_then (identity position) (\<lambda>projection. Inr (repr_key (map text_of projection))))"

definition record_identity :: "pyval \<Rightarrow> (record_fault, string) result" where
  "record_identity rec = (case rec of PDict _ d \<Rightarrow>
       require (set (map fst d) = set (map PStr NODE_FIELDS)) Value_fault
       (and_then (exact_record (fld d ''variant'') (fld d ''snapshot_fen'')) (\<lambda>r.
          require (\<forall>k \<in> set NODE_FIELDS. fld d k = fld (node_dict r) k) Value_fault
          (case projection_key (fld d ''variant'') (fld d ''snapshot_fen'') of
             Inl e \<Rightarrow> Inl (Variant_fault e) | Inr key \<Rightarrow> Inr key)))
     | _ \<Rightarrow> Inl Value_fault)"

end
