(* ===== verification/GraphDiff.thy ===== *)
theory GraphDiff
  imports GraphState
begin

text \<open>
  Diffs of graph states, \<open>src/graph/diff.py\<close>: validation of states and diffs, \<open>compute\<close> and \<open>apply\<close>.
  Validation returns the typed content that everything later reads.
\<close>

datatype diff_error = Malformed_diff_record | Divergent_target | Conflicting_base | Unknown_identity

fun diff_code :: "diff_error \<Rightarrow> string" where
  "diff_code Malformed_diff_record = ''malformed_request''"
| "diff_code Divergent_target = ''malformed_request''"
| "diff_code Conflicting_base = ''conflicting_base''"
| "diff_code Unknown_identity = ''unknown_identity''"

record gdiff =
  d_base_id :: string
  d_target_id :: string
  d_added :: gstate
  d_removed :: gstate
  d_changed :: "(string \<times> node_record \<times> node_record) list"

definition DIFF_FIELDS :: "string list" where
  "DIFF_FIELDS = [''base_id'', ''target_id'', ''added'', ''removed'', ''changed'']"

text \<open>\<open>_record_identity\<close>: the key of a record, with the record's content.\<close>

definition diff_record :: "pyval \<Rightarrow> (diff_error, string \<times> node_record) result" where
  "diff_record rec = (case rec of PDict _ d \<Rightarrow>
       require (keys_are d NODE_FIELDS) Malformed_diff_record
       (require (list_all (\<lambda>k. is_str (fld d k)) NODE_FIELDS) Malformed_diff_record
       (require (matches (tag_grammar ''pdv1'') (fld d ''digest'')) Malformed_diff_record
       (let parts = split_on CHR '' '' (text_of (fld d ''snapshot_fen'')) in
        require (length parts = 6 \<and> drop 4 parts = [''0'', ''1'']) Malformed_diff_record
       (case (projection_key (fld d ''variant'') (fld d ''snapshot_fen''),
              digest_fen (fld d ''variant'') (fld d ''snapshot_fen'')) of
          (Inr key, Inr expected) \<Rightarrow>
            require (fld d ''digest'' = PStr expected) Malformed_diff_record
              (Inr (key, \<lparr>nr_variant = key_bytes (fld d ''variant''), nr_digest = expected,
                 nr_snapshot = key_bytes (fld d ''snapshot_fen'')\<rparr>))
        | _ \<Rightarrow> Inl Malformed_diff_record))))
     | _ \<Rightarrow> Inl Malformed_diff_record)"

fun diff_entries :: "pydict \<Rightarrow> (diff_error, gstate) result" where
  "diff_entries [] = Inr []"
| "diff_entries ((key, rec) # entries) = require (is_str key) Malformed_diff_record
     (and_then (diff_record rec) (\<lambda>(k, r). require (key = PStr k) Malformed_diff_record
     (and_then (diff_entries entries) (\<lambda>st. Inr ((k, r) # st)))))"

definition diff_state :: "pyval \<Rightarrow> (diff_error, gstate) result" where
  "diff_state v = (case v of PDict _ d \<Rightarrow> diff_entries d | _ \<Rightarrow> Inl Malformed_diff_record)"

subsection \<open>compute\<close>

definition diff_of :: "gstate \<Rightarrow> gstate \<Rightarrow> gdiff" where
  "diff_of base target = \<lparr>d_base_id = gs_id base, d_target_id = gs_id target,
     d_added = sort_key fst (filter (\<lambda>(key, r). map_of base key = None) target),
     d_removed = sort_key fst (filter (\<lambda>(key, r). map_of target key = None) base),
     d_changed = sort_key fst (concat (map (\<lambda>(key, r). case map_of target key of
        Some r' \<Rightarrow> if r \<noteq> r' then [(key, r, r')] else [] | None \<Rightarrow> []) base))\<rparr>"

definition compute :: "pyval \<Rightarrow> pyval \<Rightarrow> (diff_error, gdiff) result" where
  "compute base target = and_then (diff_state base) (\<lambda>b. and_then (diff_state target) (\<lambda>t. Inr (diff_of b t)))"

text \<open>The returned dict.\<close>

definition diff_value :: "gdiff \<Rightarrow> pyval" where
  "diff_value d = PDict 0 [(PStr ''base_id'', PStr (d_base_id d)), (PStr ''target_id'', PStr (d_target_id d)),
     (PStr ''added'', state_value (d_added d)), (PStr ''removed'', state_value (d_removed d)),
     (PStr ''changed'', PDict 3 (map (\<lambda>(key, r, r'). (PStr key, PDict 4 [(PStr ''base'', PDict 2 (node_dict r)),
        (PStr ''target'', PDict 2 (node_dict r'))])) (d_changed d)))]"

subsection \<open>Validation of a diff\<close>

fun changed_entries :: "pydict \<Rightarrow> (diff_error, (string \<times> node_record \<times> node_record) list) result" where
  "changed_entries [] = Inr []"
| "changed_entries ((key, PDict _ w) # entries) =
     require (is_str key \<and> keys_are w [''base'', ''target'']) Malformed_diff_record
     (and_then (diff_record (fld w ''base'')) (\<lambda>(k, r). require (key = PStr k) Malformed_diff_record
     (and_then (diff_record (fld w ''target'')) (\<lambda>(k', r'). require (key = PStr k') Malformed_diff_record
     (require (r \<noteq> r') Malformed_diff_record
     (and_then (changed_entries entries) (\<lambda>ch. Inr ((k, r, r') # ch))))))))"
| "changed_entries ((key, _) # entries) = Inl Malformed_diff_record"

definition disjoint_keys :: "string list \<Rightarrow> string list \<Rightarrow> bool" where
  "disjoint_keys xs ys \<longleftrightarrow> list_all (\<lambda>x. x \<notin> set ys) xs"

definition validate_diff :: "pyval \<Rightarrow> (diff_error, gdiff) result" where
  "validate_diff v = (case v of PDict _ d \<Rightarrow>
       require (keys_are d DIFF_FIELDS) Malformed_diff_record
       (require (matches (tag_grammar ''gs1'') (fld d ''base_id'') \<and> matches (tag_grammar ''gs1'') (fld d ''target_id''))
          Malformed_diff_record
       (and_then (diff_state (fld d ''added'')) (\<lambda>added.
        and_then (diff_state (fld d ''removed'')) (\<lambda>removed.
        and_then (case fld d ''changed'' of PDict _ ch \<Rightarrow> changed_entries ch | _ \<Rightarrow> Inl Malformed_diff_record) (\<lambda>changed.
        let a = map fst added; r = map fst removed; c = map fst changed; empty = (a = [] \<and> r = [] \<and> c = []);
            same = (fld d ''base_id'' = fld d ''target_id'') in
        require (disjoint_keys a r \<and> disjoint_keys a c \<and> disjoint_keys r c) Malformed_diff_record
       (require (\<not> (empty \<and> \<not> same)) Divergent_target
       (require (\<not> (\<not> empty \<and> same)) Malformed_diff_record
         (Inr \<lparr>d_base_id = key_bytes (fld d ''base_id''), d_target_id = key_bytes (fld d ''target_id''),
            d_added = added, d_removed = removed, d_changed = changed\<rparr>))))))))
     | _ \<Rightarrow> Inl Malformed_diff_record)"

subsection \<open>apply\<close>

text \<open>The two checking loops; a changed entry is checked by its base record.\<close>

fun check_present :: "gstate \<Rightarrow> gstate \<Rightarrow> (diff_error, unit) result" where
  "check_present staged [] = Inr ()"
| "check_present staged ((key, r) # rest) = (case map_of staged key of
     None \<Rightarrow> Inl Unknown_identity
   | Some r' \<Rightarrow> require (r' = r) Conflicting_base (check_present staged rest))"

definition dict_update :: "gstate \<Rightarrow> gstate \<Rightarrow> gstate" where
  "dict_update st entries = foldl (\<lambda>s (key, r). dict_set s key r) st entries"

definition apply_diff :: "gdiff \<Rightarrow> gstate \<Rightarrow> (diff_error, gstate) result" where
  "apply_diff d base =
     require (gs_id base = d_base_id d \<and> disjoint_keys (map fst (d_added d)) (map fst base)) Conflicting_base
     (and_then (check_present base (d_removed d)) (\<lambda>_.
      and_then (check_present base (map (\<lambda>(key, r, r'). (key, r)) (d_changed d))) (\<lambda>_.
      let staged = filter (\<lambda>(key, r). key \<notin> set (map fst (d_removed d))) base;
          staged = dict_update staged (map (\<lambda>(key, r, r'). (key, r')) (d_changed d));
          staged = dict_update staged (d_added d) in
      require (gs_id staged = d_target_id d) Divergent_target (Inr staged))))"

definition apply_value :: "pyval \<Rightarrow> pyval \<Rightarrow> (diff_error, gstate) result" where
  "apply_value diff base = and_then (validate_diff diff) (\<lambda>d. and_then (diff_state base) (\<lambda>b. apply_diff d b))"

end
