(* ===== verification/GraphStateFacts.thy ===== *)
theory GraphStateFacts
  imports GraphState TranspositionProps
begin

text \<open>
  The canonical key of an exact record: it is made of the variant and the first four fields of the
  snapshot, none of which holds a quote, a bar or a line break, so key and fields determine each other.
\<close>

definition plain_text :: "string \<Rightarrow> bool" where
  "plain_text s \<longleftrightarrow> CHR 0x27 \<notin> set s \<and> CHR 0x0A \<notin> set s \<and> CHR ''|'' \<notin> set s"

lemma plain_simps [simp]:
  "plain_text []" "plain_text (c # s) \<longleftrightarrow> c \<noteq> CHR 0x27 \<and> c \<noteq> CHR 0x0A \<and> c \<noteq> CHR ''|'' \<and> plain_text s"
  "plain_text (s @ t) \<longleftrightarrow> plain_text s \<and> plain_text t"
  by (auto simp: plain_text_def)

lemma plain_subset: "set s \<subseteq> set t \<Longrightarrow> plain_text t \<Longrightarrow> plain_text s"
  by (auto simp: plain_text_def)

lemma set_join_on: "set (join_on c ps) \<subseteq> insert c (\<Union> (set ` set ps))"
  by (induction c ps rule: join_on.induct) auto

lemma plain_placement:
  assumes "parse_placement placement = Inr b"
  shows "plain_text placement"
proof -
  let ?ranks = "split_on CHR ''/'' placement"
  have "parse_ranks 8 ?ranks [] = Inr b" using assms by (simp add: parse_placement_def Let_def)
  then have "\<forall>rank \<in> set ?ranks. set rank \<subseteq> set empty_run_digits \<union> set piece_letters"
    using parse_ranks_placed by blast
  then have "set placement \<subseteq> set (CHR ''/'' # empty_run_digits @ piece_letters)"
    using set_join_on [of "CHR ''/''" ?ranks] by auto
  moreover have "plain_text (CHR ''/'' # empty_run_digits @ piece_letters)"
    by (simp add: empty_run_digits_def piece_letters_def)
  ultimately show ?thesis by (rule plain_subset)
qed

lemma parsed_plain:
  assumes "parse_fen (PStr s) = Inr p"
  shows "\<exists>half full. split_on CHR '' '' s = [emit_placement (fp_board p), fp_color p,
      (if fp_rights p = [] then ''-'' else fp_rights p), (case fp_ep p of None \<Rightarrow> ''-'' | Some e \<Rightarrow> e), half, full]"
    and "list_all plain_text [emit_placement (fp_board p), fp_color p,
      (if fp_rights p = [] then ''-'' else fp_rights p), (case fp_ep p of None \<Rightarrow> ''-'' | Some e \<Rightarrow> e)]"
proof -
  show "\<exists>half full. split_on CHR '' '' s = [emit_placement (fp_board p), fp_color p,
      (if fp_rights p = [] then ''-'' else fp_rights p), (case fp_ep p of None \<Rightarrow> ''-'' | Some e \<Rightarrow> e), half, full]"
    using parsed_fields [OF assms] by blast
  have pb: "fp_color p = ''w'' \<or> fp_color p = ''b''" "set (fp_rights p) \<subseteq> set ''KQkq''"
    "\<forall>e. fp_ep p = Some e \<longrightarrow> length e = 2 \<and> e ! 0 \<in> set FILES \<and> e ! 1 \<in> set ''36''"
    using parsed_board [OF assms] by blast+
  have "plain_text e" if e: "fp_ep p = Some e" for e
  proof -
    have "length e = 2" "e ! 0 \<in> set FILES" "e ! 1 \<in> set ''36''" using pb(3) e by blast+
    then have "set e \<subseteq> set (FILES @ ''36'')" by (auto simp: length_Suc_conv numeral_2_eq_2)
    moreover have "plain_text (FILES @ ''36'')" by (simp add: FILES_def)
    ultimately show ?thesis by (rule plain_subset)
  qed
  moreover have "plain_text (fp_rights p)" by (rule plain_subset [OF pb(2)]) simp
  ultimately show "list_all plain_text [emit_placement (fp_board p), fp_color p,
      (if fp_rights p = [] then ''-'' else fp_rights p), (case fp_ep p of None \<Rightarrow> ''-'' | Some e \<Rightarrow> e)]"
    using plain_placement [OF parsed_parts(1) [OF assms]] pb(1) by (auto split: option.split)
qed

lemma repr_key_join:
  "repr_key [a, b, c, d, e] = join_on CHR 0x27 [''('', a, '', '', b, '', '', c, '', '', d, '', '', e, '')'']"
  by (simp add: repr_key_def)

lemma repr_key_inj:
  assumes "list_all plain_text [a, b, c, d, e]" "list_all plain_text [a', b', c', d', e']"
  shows "repr_key [a, b, c, d, e] = repr_key [a', b', c', d', e'] \<longleftrightarrow> [a, b, c, d, e] = [a', b', c', d', e']"
proof -
  have "repr_key [a, b, c, d, e] = repr_key [a', b', c', d', e'] \<longleftrightarrow>
      [''('', a, '', '', b, '', '', c, '', '', d, '', '', e, '')''] = [''('', a', '', '', b', '', '', c', '', '', d', '', '', e', '')'']"
    unfolding repr_key_join by (rule join_inj) (use assms in \<open>auto simp: plain_text_def\<close>)
  then show ?thesis by simp
qed

lemma repr_key_plain: "list_all plain_text [a, b, c, d, e] \<Longrightarrow> CHR 0x0A \<notin> set (repr_key [a, b, c, d, e])"
  by (auto simp: repr_key_def plain_text_def)

text \<open>The key of a registered variant and a text that both parsers accept.\<close>

lemma projection_key_parts:
  assumes "projection_key v x = Inr key"
  obtains u s where "v = PStr u" "x = PStr s" "u \<in> set VARIANTS" "length (split_on CHR '' '' s) = 6"
    "key = repr_key (u # take 4 (split_on CHR '' '' s))"
proof -
  obtain q where q: "parse_position v x = Inr q" "and_then (identity q) (\<lambda>pr. Inr (repr_key (map text_of pr))) = Inr key"
    using assms by (auto simp: projection_key_def)
  obtain kind where k: "checked_variant v = Inr kind" "accepts (checked_fen x kind)"
    "q = (let parts = map PStr (split_on CHR '' '' (key_bytes x)) in
      \<lparr>vp_variant = v, vp_board = parts ! 0, vp_side = parts ! 1, vp_castling = parts ! 2, vp_ep = parts ! 3\<rparr>)"
    using q(1) by (auto simp: parse_position_def Let_def accepts_iff)
  obtain u where u: "v = PStr u" "u \<in> set VARIANTS"
    using k(1) by (auto simp: checked_variant_def REGISTRY_def VARIANTS_def split: pyval.splits if_splits)
  obtain s a b c d e f where s: "x = PStr s" "split_on CHR '' '' s = [a, b, c, d, e, f]"
    using k(2) by (auto simp: checked_fen_def check_fen_def accepts_iff split: pyval.splits list.splits sum.splits)
  have "key = repr_key (map text_of (vp_fields q))" using q(2) by (auto simp: identity_def)
  then have "key = repr_key [u, a, b, c, d]"
    using k(3) u(1) s by (simp add: vp_fields_def)
  then show thesis using that u s by simp
qed

text \<open>A Python dict has no key twice.\<close>

definition dict_ok :: "pyval \<Rightarrow> bool" where
  "dict_ok v = (case v of PDict _ d \<Rightarrow> distinct (map fst d) | _ \<Rightarrow> True)"

end
