(* ===== verification/GraphDiffProps.thy ===== *)
theory GraphDiffProps
  imports GraphDiff GraphStateFacts
begin

text \<open>
  Correctness of diffs: a key determines its record, so a diff has no changed entries; a computed diff is
  valid and takes its base to its target.
\<close>

text \<open>An entry that validation accepts and returns.\<close>

definition entry_ok :: "string \<Rightarrow> node_record \<Rightarrow> bool" where
  "entry_ok key r \<longleftrightarrow> diff_record (PDict 2 (node_dict r)) = Inr (key, r)"

definition gstate_ok :: "gstate \<Rightarrow> bool" where
  "gstate_ok st \<longleftrightarrow> distinct (map fst st) \<and> (\<forall>(key, r) \<in> set st. entry_ok key r)"

lemma node_dict_fields [simp]:
  "fld (node_dict r) ''variant'' = PStr (nr_variant r)" "fld (node_dict r) ''digest'' = PStr (nr_digest r)"
  "fld (node_dict r) ''snapshot_fen'' = PStr (nr_snapshot r)"
  by (simp_all add: node_dict_def fld_simps)

lemma node_dict_keys [simp]: "keys_are (node_dict r) NODE_FIELDS"
  by (simp add: keys_are_def node_dict_def NODE_FIELDS_def insert_commute)

text \<open>What an accepted record is.\<close>

lemma diff_record_iff:
  "diff_record (PDict n d) = Inr (key, r) \<longleftrightarrow>
     keys_are d NODE_FIELDS \<and> fld d ''variant'' = PStr (nr_variant r) \<and> fld d ''digest'' = PStr (nr_digest r)
     \<and> fld d ''snapshot_fen'' = PStr (nr_snapshot r) \<and> drop 4 (split_on CHR '' '' (nr_snapshot r)) = [''0'', ''1'']
     \<and> projection_key (PStr (nr_variant r)) (PStr (nr_snapshot r)) = Inr key
     \<and> digest_fen (PStr (nr_variant r)) (PStr (nr_snapshot r)) = Inr (nr_digest r)" (is "?L \<longleftrightarrow> ?R")
proof
  assume l: ?L
  let ?v = "fld d ''variant''" and ?x = "fld d ''snapshot_fen''"
  obtain k e where ke: "projection_key ?v ?x = Inr k" "digest_fen ?v ?x = Inr e"
    using l by (auto simp: diff_record_def Let_def split: sum.splits)
  from projection_key_parts [OF ke(1)] obtain u s where us: "?v = PStr u" "?x = PStr s" by metis
  show ?R using l ke us by (auto simp: diff_record_def Let_def)
next
  assume r: ?R
  have "digest_fen v x = Inr e \<Longrightarrow> tag_grammar ''pdv1'' e" for v x e
    by (auto simp: digest_fen_def digest_def split: pyval.splits sum.splits)
  moreover from projection_key_parts [of "PStr (nr_variant r)" "PStr (nr_snapshot r)" key] r
  have "length (split_on CHR '' '' (nr_snapshot r)) = 6" by (metis pyval.inject(4))
  ultimately show ?L using r by (auto simp: diff_record_def Let_def NODE_FIELDS_def)
qed

lemma diff_record_entry: "diff_record rec = Inr (key, r) \<Longrightarrow> entry_ok key r"
proof -
  assume a: "diff_record rec = Inr (key, r)"
  then obtain n d where "rec = PDict n d" by (cases rec) (auto simp: diff_record_def)
  then show ?thesis using a by (simp add: entry_ok_def diff_record_iff)
qed

text \<open>The fields of an entry's snapshot.\<close>

lemma entry_parts:
  assumes "entry_ok key r"
  obtains a b c d where "split_on CHR '' '' (nr_snapshot r) = [a, b, c, d, ''0'', ''1'']"
    "key = repr_key [nr_variant r, a, b, c, d]" "list_all plain_text [nr_variant r, a, b, c, d]"
    "digest_fen (PStr (nr_variant r)) (PStr (nr_snapshot r)) = Inr (nr_digest r)"
proof -
  note e = assms [unfolded entry_ok_def diff_record_iff]
  from projection_key_parts [of "PStr (nr_variant r)" "PStr (nr_snapshot r)" key] e
  have v: "nr_variant r \<in> set VARIANTS" "key = repr_key (nr_variant r # take 4 (split_on CHR '' '' (nr_snapshot r)))"
    by (metis pyval.inject(4))+
  obtain p where p: "parse_fen (PStr (nr_snapshot r)) = Inr p"
    using e v(1) by (auto simp: digest_fen_def split: sum.splits)
  obtain half full where sp: "split_on CHR '' '' (nr_snapshot r) = [emit_placement (fp_board p), fp_color p,
      (if fp_rights p = [] then ''-'' else fp_rights p), (case fp_ep p of None \<Rightarrow> ''-'' | Some e \<Rightarrow> e), half, full]"
    using parsed_plain(1) [OF p] by blast
  moreover have "[half, full] = [''0'', ''1'']" using e sp by simp
  moreover have "plain_text (nr_variant r)" using v(1) by (auto simp: VARIANTS_def)
  ultimately show thesis using that v(2) e parsed_plain(2) [OF p] by simp
qed

lemma entry_determined:
  assumes "entry_ok key r" "entry_ok key r'"
  shows "r = r'"
proof -
  from entry_parts [OF assms(1)] obtain a b c d where r: "split_on CHR '' '' (nr_snapshot r) = [a, b, c, d, ''0'', ''1'']"
    "key = repr_key [nr_variant r, a, b, c, d]" "list_all plain_text [nr_variant r, a, b, c, d]"
    "digest_fen (PStr (nr_variant r)) (PStr (nr_snapshot r)) = Inr (nr_digest r)" .
  from entry_parts [OF assms(2)] obtain a' b' c' d' where r': "split_on CHR '' '' (nr_snapshot r') = [a', b', c', d', ''0'', ''1'']"
    "key = repr_key [nr_variant r', a', b', c', d']" "list_all plain_text [nr_variant r', a', b', c', d']"
    "digest_fen (PStr (nr_variant r')) (PStr (nr_snapshot r')) = Inr (nr_digest r')" .
  have e: "[nr_variant r, a, b, c, d] = [nr_variant r', a', b', c', d']"
    using repr_key_inj [OF r(3) r'(3)] r(2) r'(2) by simp
  then have "split_on CHR '' '' (nr_snapshot r) = split_on CHR '' '' (nr_snapshot r')" using r(1) r'(1) by simp
  then have s: "nr_snapshot r = nr_snapshot r'" by (metis join_split)
  then have "nr_digest r = nr_digest r'" using r(4) r'(4) e by simp
  then show ?thesis using s e by simp
qed

lemma entry_key_plain: "entry_ok key r \<Longrightarrow> CHR 0x0A \<notin> set key"
  by (erule entry_parts) (simp add: repr_key_plain)

subsection \<open>States\<close>

lemma diff_entries_value:
  "(\<forall>(key, r) \<in> set st. entry_ok key r) \<Longrightarrow> diff_entries (map (\<lambda>(key, r). (PStr key, PDict 2 (node_dict r))) st) = Inr st"
  by (induction st) (auto simp: entry_ok_def)

lemma diff_state_value: "gstate_ok st \<Longrightarrow> diff_state (state_value st) = Inr st"
  by (simp add: diff_state_def state_value_def diff_entries_value gstate_ok_def)

lemma diff_entries_ok: "diff_entries d = Inr st \<Longrightarrow> (\<forall>(key, r) \<in> set st. entry_ok key r) \<and> map fst d = map (PStr \<circ> fst) st"
  by (induction d arbitrary: st rule: diff_entries.induct) (auto dest: diff_record_entry)

lemma diff_state_ok:
  assumes "diff_state v = Inr st" "dict_ok v"
  shows "gstate_ok st"
proof -
  obtain n d where v: "v = PDict n d" "diff_entries d = Inr st" using assms(1) by (auto simp: diff_state_def split: pyval.splits)
  from diff_entries_ok [OF v(2)] have "distinct (map PStr (map fst st))" using assms(2) by (simp add: dict_ok_def v(1))
  then have "distinct (map fst st)" unfolding distinct_map [of PStr "map fst st"] ..
  then show ?thesis using diff_entries_ok [OF v(2)] unfolding gstate_ok_def by blast
qed

lemma gstate_ok_subset: "gstate_ok st \<Longrightarrow> set st' \<subseteq> set st \<Longrightarrow> distinct (map fst st') \<Longrightarrow> gstate_ok st'"
  unfolding gstate_ok_def by blast

lemma gstate_ok_sort: "gstate_ok st \<Longrightarrow> gstate_ok (sort_key fst (filter P st))"
  by (rule gstate_ok_subset) (auto simp: gstate_ok_def distinct_map distinct_sort distinct_filter intro: inj_on_subset)

text \<open>The identifier depends on the content only, and two texts that agree come from one content.\<close>

lemma sorted_entries:
  assumes "gstate_ok b" "gstate_ok t" "set b = set t"
  shows "sort_key fst b = sort_key fst t"
proof (rule map_sorted_distinct_set_unique)
  show "inj_on fst (set (sort_key fst b) \<union> set (sort_key fst t))"
    using assms by (simp add: gstate_ok_def distinct_map)
  show "sorted (map fst (sort_key fst b))" "sorted (map fst (sort_key fst t))" by simp_all
  show "distinct (map fst (sort_key fst b))" "distinct (map fst (sort_key fst t))"
    using assms by (simp_all add: gstate_ok_def distinct_map)
  show "set (sort_key fst b) = set (sort_key fst t)" using assms(3) by simp
qed

lemma gs_id_content: "gstate_ok b \<Longrightarrow> gstate_ok t \<Longrightarrow> set b = set t \<Longrightarrow> gs_id b = gs_id t"
  using sorted_entries [of b t] by (simp add: gs_id_def state_text_def)

lemma gstate_map_set:
  assumes "gstate_ok b" "gstate_ok t"
  shows "map_of b = map_of t \<longleftrightarrow> set b = set t"
proof (rule map_of_inject_set)
  show "distinct (map fst b)" "distinct (map fst t)" using assms unfolding gstate_ok_def by blast+
qed

lemma state_text_lines:
  "state_text st = join_on CHR 0x0A (concat (map (\<lambda>(key, r). [key, record_body r]) (sort_key fst st)) @ [[]])"
proof -
  have "concat (map (\<lambda>(key, r). key @ [CHR 0x0A] @ record_body r @ [CHR 0x0A]) xs)
      = join_on CHR 0x0A (concat (map (\<lambda>(key, r). [key, record_body r]) xs) @ [[]])" for xs :: gstate
  proof (induction xs)
    case (Cons x xs)
    obtain y ys where "concat (map (\<lambda>(key, r). [key, record_body r]) xs) @ [[]] = y # ys"
      by (cases "concat (map (\<lambda>(key, r). [key, record_body r]) xs)") auto
    then show ?case using Cons by (cases x) simp
  qed simp
  then show ?thesis by (simp add: state_text_def)
qed

lemma hex_plain: "list_all is_hex s \<Longrightarrow> CHR 0x0A \<notin> set s"
proof
  assume "list_all is_hex s" "CHR 0x0A \<in> set s"
  then have "is_hex CHR 0x0A" by (simp only: list_all_iff)
  then show False by (simp add: is_hex_def)
qed

lemma entry_body_plain:
  assumes "entry_ok key r"
  shows "CHR 0x0A \<notin> set (record_body r)"
proof -
  from entry_parts [OF assms] obtain a b c d where r: "split_on CHR '' '' (nr_snapshot r) = [a, b, c, d, ''0'', ''1'']"
    "list_all plain_text [nr_variant r, a, b, c, d]"
    "digest_fen (PStr (nr_variant r)) (PStr (nr_snapshot r)) = Inr (nr_digest r)" by metis
  have "nr_snapshot r = join_on CHR '' '' [a, b, c, d, ''0'', ''1'']" using r(1) by (metis join_split)
  then have "CHR 0x0A \<notin> set (nr_snapshot r)" using r(2) by (auto simp: plain_text_def)
  moreover have "CHR 0x0A \<notin> set (digest e)" for e
    using sha256_hex_grammar [THEN conjunct2, THEN hex_plain, of e] by (simp add: digest_def tagged_def)
  moreover obtain e where "digest e = nr_digest r"
    using r(3) by (auto simp: digest_fen_def split: sum.splits)
  ultimately have "CHR 0x0A \<notin> set (nr_digest r)" by metis
  moreover note \<open>CHR 0x0A \<notin> set (nr_snapshot r)\<close>
  ultimately show ?thesis using r(2) by (auto simp: record_body_def plain_text_def)
qed

lemma pairs_inject: "concat (map (\<lambda>(x, y). [x, f y]) xs) = concat (map (\<lambda>(x, y). [x, f y]) ys) \<Longrightarrow> map fst xs = map fst ys"
proof (induction xs arbitrary: ys)
  case Nil
  then show ?case by (cases ys) auto
next
  case (Cons x xs)
  obtain a c where x: "x = (a, c)" by (cases x)
  show ?case
  proof (cases ys)
    case (Cons y zs)
    obtain u v where y: "y = (u, v)" by (cases y)
    show ?thesis using Cons.prems Cons.IH [of zs] by (simp add: x y Cons)
  qed (use Cons.prems x in simp)
qed

lemma state_text_content:
  assumes b: "gstate_ok b" and t: "gstate_ok t"
  shows "state_text b = state_text t \<longleftrightarrow> set b = set t"
proof
  let ?lines = "\<lambda>st. concat (map (\<lambda>(key, r). [key, record_body r]) (sort_key fst st)) @ [[]]"
  have plain: "\<forall>l \<in> set (?lines st). CHR 0x0A \<notin> set l" if "gstate_ok st" for st
  proof
    fix l assume "l \<in> set (?lines st)"
    then consider "l = []" | key r where "(key, r) \<in> set st" "l = key \<or> l = record_body r" by auto
    then show "CHR 0x0A \<notin> set l"
    proof cases
      case (2 key r)
      then have "entry_ok key r" using that unfolding gstate_ok_def by blast
      then show ?thesis using 2(2) entry_key_plain entry_body_plain by blast
    qed simp
  qed
  assume "state_text b = state_text t"
  then have "?lines b = ?lines t"
    unfolding state_text_lines by (subst (asm) join_inj [OF _ _ plain [OF b] plain [OF t]]) simp_all
  then have "map fst (sort_key fst b) = map fst (sort_key fst t)" using pairs_inject by simp
  then have keys: "fst ` set b = fst ` set t" by (metis list.set_map set_sort)
  have sub: "set b \<subseteq> set t" if ks: "fst ` set b \<subseteq> fst ` set t" and "gstate_ok b" "gstate_ok t" for b t
  proof
    fix x assume x: "x \<in> set b"
    obtain key r where kr: "x = (key, r)" by (cases x)
    have "key \<in> fst ` set t" using x ks kr by force
    then obtain r' where r': "(key, r') \<in> set t" by auto
    have "entry_ok key r" "entry_ok key r'" using that(2,3) x kr r' unfolding gstate_ok_def by blast+
    then have "r = r'" by (rule entry_determined)
    then show "x \<in> set t" using r' kr by simp
  qed
  show "set b = set t" by (rule equalityI; rule sub) (simp_all add: keys b t)
next
  assume "set b = set t"
  then show "state_text b = state_text t" by (simp add: state_text_def sorted_entries [OF b t])
qed

subsection \<open>Round trip\<close>

lemma map_of_dict_update:
  "distinct (map fst es) \<Longrightarrow> map_of (dict_update st es) = map_of st ++ map_of es"
proof (induction es arbitrary: st)
  case (Cons e es)
  obtain k v where e: "e = (k, v)" by (cases e)
  have "map_of (dict_update st (e # es)) = (map_of st)(k \<mapsto> v) ++ map_of es"
    using Cons by (simp add: dict_update_def e)
  also have "\<dots> = map_of st ++ map_of (e # es)"
    using Cons.prems by (auto simp: e map_add_def fun_eq_iff map_of_eq_None_iff image_iff split: option.split)
  finally show ?case .
qed (simp add: dict_update_def)

lemma keys_dict_update: "distinct (map fst st) \<Longrightarrow> distinct (map fst (dict_update st es))"
  by (induction es arbitrary: st) (auto simp: dict_update_def)

lemma diff_of_unchanged:
  assumes "gstate_ok b" "gstate_ok t"
  shows "d_changed (diff_of b t) = []"
proof -
  have "(case map_of t key of Some r' \<Rightarrow> if r \<noteq> r' then [(key, r, r')] else [] | None \<Rightarrow> []) = []"
    if "(key, r) \<in> set b" for key r
    using that assms entry_determined by (fastforce simp: gstate_ok_def split: option.split dest: map_of_SomeD)
  then have "concat (map (\<lambda>(key, r). case map_of t key of Some r' \<Rightarrow> if r \<noteq> r' then [(key, r, r')] else [] | None \<Rightarrow> []) b) = []"
    by auto
  then show ?thesis by (simp only: diff_of_def gdiff.simps sort_key_simps)
qed

lemma diff_sections:
  assumes "gstate_ok b" "gstate_ok t"
  shows "gstate_ok (d_added (diff_of b t))" "gstate_ok (d_removed (diff_of b t))"
    "set (d_added (diff_of b t)) = {(key, r) \<in> set t. map_of b key = None}"
    "set (d_removed (diff_of b t)) = {(key, r) \<in> set b. map_of t key = None}"
  using gstate_ok_sort [OF assms(1)] gstate_ok_sort [OF assms(2)] by (auto simp: diff_of_def)

lemma no_sections:
  assumes b: "gstate_ok b" and t: "gstate_ok t" and e: "d_added (diff_of b t) = []" "d_removed (diff_of b t) = []"
  shows "set b = set t"
proof -
  have sub: "set x \<subseteq> set y" if x: "gstate_ok x" "gstate_ok y" and n: "{(key, r) \<in> set x. map_of y key = None} = {}" for x y
  proof
    fix kr assume kr: "kr \<in> set x"
    obtain key r where p: "kr = (key, r)" by (cases kr)
    then obtain r' where r': "map_of y key = Some r'" using kr n by blast
    then have "(key, r') \<in> set y" by (rule map_of_SomeD)
    moreover have "entry_ok key r" "entry_ok key r'" using x kr p calculation unfolding gstate_ok_def by blast+
    ultimately show "kr \<in> set y" using entry_determined p by blast
  qed
  show ?thesis
    using sub [OF b t] sub [OF t b] diff_sections(3,4) [OF b t] e by simp
qed

lemma validate_computed:
  assumes b: "gstate_ok b" and t: "gstate_ok t" and differ: "set b \<noteq> set t \<longrightarrow> gs_id b \<noteq> gs_id t"
  shows "validate_diff (diff_value (diff_of b t)) = Inr (diff_of b t)"
proof -
  let ?d = "diff_of b t"
  note ch = diff_of_unchanged [OF b t] and sec = diff_sections [OF b t]
  have ids: "tag_grammar ''gs1'' (gs_id x)" for x by (simp add: gs_id_def)
  have dis: "disjoint_keys (map fst (d_added ?d)) (map fst (d_removed ?d))"
    using sec(3,4) by (auto simp: disjoint_keys_def list_all_iff map_of_eq_None_iff)
  have empty: "d_added ?d = [] \<and> d_removed ?d = [] \<longleftrightarrow> gs_id b = gs_id t"
  proof
    assume "d_added ?d = [] \<and> d_removed ?d = []"
    then show "gs_id b = gs_id t" using no_sections [OF b t] gs_id_content [OF b t] by blast
  next
    assume "gs_id b = gs_id t"
    then have "set b = set t" using differ by blast
    then show "d_added ?d = [] \<and> d_removed ?d = []"
      using sec(3,4) gstate_map_set [OF b t] by (auto simp flip: set_empty dest: weak_map_of_SomeI)
  qed
  define A R where "A = d_added ?d" and "R = d_removed ?d"
  have D: "?d = \<lparr>d_base_id = gs_id b, d_target_id = gs_id t, d_added = A, d_removed = R, d_changed = []\<rparr>"
    using ch by (simp add: diff_of_def A_def R_def)
  obtain d where d: "diff_value ?d = PDict 0 d" "keys_are d DIFF_FIELDS"
    "fld d ''base_id'' = PStr (gs_id b)" "fld d ''target_id'' = PStr (gs_id t)" "fld d ''added'' = state_value A"
    "fld d ''removed'' = state_value R" "fld d ''changed'' = PDict 3 []"
    unfolding D by (simp add: diff_value_def fld_simps keys_are_def DIFF_FIELDS_def insert_commute)
  have st: "diff_state (state_value A) = Inr A" "diff_state (state_value R) = Inr R"
    unfolding A_def R_def by (rule diff_state_value [OF sec(1)], rule diff_state_value [OF sec(2)])
  have "validate_diff (PDict 0 d) = Inr \<lparr>d_base_id = gs_id b, d_target_id = gs_id t, d_added = A, d_removed = R, d_changed = []\<rparr>"
    using empty dis st ids [of b] ids [of t] unfolding A_def [symmetric] R_def [symmetric]
    by (auto simp: validate_diff_def d Let_def disjoint_keys_def list_all_iff)
  then show ?thesis unfolding d(1) unfolding D .
qed

lemma check_present_subset:
  "distinct (map fst st) \<Longrightarrow> set es \<subseteq> set st \<Longrightarrow> check_present st es = Inr ()"
proof (induction es)
  case (Cons e es)
  obtain key r where e: "e = (key, r)" by (cases e)
  have "map_of st key = Some r" by (rule map_of_is_SomeI [OF Cons.prems(1)]) (use Cons.prems(2) e in simp)
  moreover have "check_present st es = Inr ()" using Cons.IH Cons.prems by simp
  ultimately show ?case by (simp add: e)
qed simp

lemma apply_computed:
  assumes b: "gstate_ok b" and t: "gstate_ok t"
  shows "\<exists>r. apply_diff (diff_of b t) b = Inr r \<and> gstate_ok r \<and> set r = set t"
proof -
  let ?d = "diff_of b t"
  note ch = diff_of_unchanged [OF b t] and sec = diff_sections [OF b t]
  let ?kept = "filter (\<lambda>(key, r). key \<notin> set (map fst (d_removed ?d))) b"
  let ?r = "dict_update ?kept (d_added ?d)"
  have bd: "distinct (map fst b)" "distinct (map fst (d_added ?d))" "distinct (map fst t)"
    using b sec(1) t unfolding gstate_ok_def by blast+
  have kept: "map_of ?kept key = (if map_of t key = None then None else map_of b key)" for key
  proof -
    have "key \<in> set (map fst (d_removed ?d)) \<longleftrightarrow> map_of b key \<noteq> None \<and> map_of t key = None"
      using sec(4) bd(1) by (auto simp: map_of_eq_None_iff image_iff intro: rev_bexI)
    moreover have "map_of ?kept key = (if key \<notin> set (map fst (d_removed ?d)) then map_of b key else None)"
      using map_of_filter_key [of "\<lambda>k. k \<notin> set (map fst (d_removed ?d))" b key] by (simp add: case_prod_unfold)
    ultimately show ?thesis by auto
  qed
  have "map_of ?r key = map_of t key" for key
  proof -
    have added: "map_of (d_added ?d) key = (if map_of b key = None then map_of t key else None)"
    proof -
      have "map_of (d_added ?d) key = Some x \<longleftrightarrow> map_of b key = None \<and> map_of t key = Some x" for x
        using map_of_mem_distinct [OF bd(2), of key x] map_of_mem_distinct [OF bd(3), of key x] sec(3) by auto
      then show ?thesis by (metis not_None_eq)
    qed
    have same: "x = y" if "map_of b key = Some x" "map_of t key = Some y" for x y
    proof -
      have "entry_ok key x" "entry_ok key y"
        using b t map_of_SomeD [OF that(1)] map_of_SomeD [OF that(2)] unfolding gstate_ok_def by blast+
      then show ?thesis by (rule entry_determined)
    qed
    show ?thesis unfolding map_of_dict_update [OF bd(2)] map_add_def kept added
      using same by (cases "map_of b key"; cases "map_of t key") simp_all
  qed
  then have m: "map_of ?r = map_of t" ..
  have rd: "distinct (map fst ?r)" by (rule keys_dict_update [OF distinct_fst_filter [OF bd(1)]])
  have r: "set ?r = set t" using map_of_inject_set [OF rd bd(3)] m by simp
  have ok: "gstate_ok ?r" using t rd r unfolding gstate_ok_def by simp
  have "gs_id ?r = gs_id t" by (rule gs_id_content [OF ok t r])
  moreover have "disjoint_keys (map fst (d_added ?d)) (map fst b)"
    using sec(3) by (auto simp: disjoint_keys_def list_all_iff map_of_eq_None_iff)
  moreover have "check_present b (d_removed ?d) = Inr ()"
    by (rule check_present_subset [OF bd(1)]) (use sec(4) in auto)
  ultimately have "apply_diff ?d b = Inr ?r"
    by (simp add: apply_diff_def ch Let_def) (simp add: diff_of_def dict_update_def)
  then show ?thesis using ok r by blast
qed

text \<open>C8. Round trip: for two valid states, the computed diff has no changed entries, and applying the
  returned dict to the base succeeds and gives the target's content exactly; unless the two contents are
  different texts with one SHA-256 digest.\<close>

theorem diff_roundtrip:
  assumes "diff_state v = Inr b" "diff_state w = Inr t" "dict_ok v" "dict_ok w"
  shows "(\<exists>d r. compute v w = Inr d \<and> d_changed d = [] \<and> apply_value (diff_value d) v = Inr r
      \<and> distinct (map fst r) \<and> set r = set t)
    \<or> (state_text b \<noteq> state_text t \<and> sha256_hex (state_text b) = sha256_hex (state_text t))"
proof (cases "set b \<noteq> set t \<and> gs_id b = gs_id t")
  case True
  note ok = diff_state_ok [OF assms(1,3)] diff_state_ok [OF assms(2,4)]
  show ?thesis using True state_text_content [OF ok] by (auto simp: gs_id_def tagged_def)
next
  case False
  note ok = diff_state_ok [OF assms(1,3)] diff_state_ok [OF assms(2,4)]
  obtain r where r: "apply_diff (diff_of b t) b = Inr r" "gstate_ok r" "set r = set t" using apply_computed [OF ok] by blast
  have "set b \<noteq> set t \<longrightarrow> gs_id b \<noteq> gs_id t" using False by blast
  then have "apply_value (diff_value (diff_of b t)) v = Inr r"
    using validate_computed [OF ok] r(1) assms(1) by (simp add: apply_value_def)
  moreover have "compute v w = Inr (diff_of b t)" using assms(1,2) by (simp add: compute_def)
  moreover have "distinct (map fst r)" using r(2) by (simp only: gstate_ok_def)
  ultimately show ?thesis using diff_of_unchanged [OF ok] r(3) by blast
qed

text \<open>The starting position is an entry.\<close>

lemma start_entry: "\<exists>key d. entry_ok key \<lparr>nr_variant = ''standard'', nr_digest = d, nr_snapshot = start_fen\<rparr>"
proof -
  have "(case projection_key (PStr ''standard'') (PStr start_fen) of Inr key \<Rightarrow> True | Inl _ \<Rightarrow> False)" by code_simp
  then obtain key where key: "projection_key (PStr ''standard'') (PStr start_fen) = Inr key" by (auto split: sum.splits)
  have "accepts (parse_fen (PStr start_fen))" by code_simp
  then obtain d where "digest_fen (PStr ''standard'') (PStr start_fen) = Inr d"
    by (auto simp: accepts_iff digest_fen_def VARIANTS_def)
  moreover have "drop 4 (split_on CHR '' '' start_fen) = [''0'', ''1'']" by code_simp
  ultimately have "entry_ok key \<lparr>nr_variant = ''standard'', nr_digest = d, nr_snapshot = start_fen\<rparr>"
    unfolding entry_ok_def diff_record_iff using key by simp
  then show ?thesis by blast
qed

theorem diff_roundtrip_witness:
  "\<exists>v t. diff_state v = Inr t \<and> length t = 1 \<and> diff_state (state_value []) = Inr []
    \<and> ((\<exists>d r. compute (state_value []) v = Inr d \<and> apply_value (diff_value d) (state_value []) = Inr r \<and> set r = set t)
      \<or> sha256_hex [] = sha256_hex (state_text t))"
proof -
  obtain key r where "entry_ok key r" using start_entry by blast
  then have ok: "gstate_ok [(key, r)]" "gstate_ok []" by (simp_all add: gstate_ok_def)
  note st = diff_state_value [OF ok(1)] diff_state_value [OF ok(2)]
  have "dict_ok (state_value [(key, r)])" "dict_ok (state_value [])" by (simp_all add: dict_ok_def state_value_def)
  from diff_roundtrip [OF st(2,1) this(2,1)] show ?thesis using st
    by (intro exI [of _ "state_value [(key, r)]"] exI [of _ "[(key, r)]"]) (auto simp: state_text_def)
qed

end
