(* ===== verification/GraphConflict.thy ===== *)
theory GraphConflict
  imports GraphState
begin

text \<open>
  The three-way conflict detector, \<open>src/graph/conflict.py\<close>: validation of the three states, the changes
  of each side against the base, and the overlaps of the changes. The digest of a record is checked for
  its format only.
\<close>

datatype conflict_error = Malformed_conflict_record | Divergent_base

fun conflict_code :: "conflict_error \<Rightarrow> string" where
  "conflict_code Malformed_conflict_record = ''malformed_request''"
| "conflict_code Divergent_base = ''divergent_base''"

text \<open>\<open>_validated_identity\<close> for one entry of a state.\<close>

definition conflict_entry :: "pyval \<Rightarrow> pyval \<Rightarrow> (conflict_error, string \<times> node_record) result" where
  "conflict_entry key rec = (case rec of PDict _ d \<Rightarrow>
       require (is_str key) Malformed_conflict_record
       (require (list_all is_str (map fst d)) Malformed_conflict_record
       (require (length d = length NODE_FIELDS \<and> set (map fst d) = set (map PStr NODE_FIELDS)) Malformed_conflict_record
       (require (list_all (\<lambda>k. is_str (fld d k)) NODE_FIELDS) Malformed_conflict_record
       (case (exact_record (fld d ''variant'') (fld d ''snapshot_fen''),
              projection_key (fld d ''variant'') (fld d ''snapshot_fen'')) of
          (Inr derived, Inr derived_key) \<Rightarrow>
            require (fld d ''variant'' = PStr (nr_variant derived) \<and> fld d ''snapshot_fen'' = PStr (nr_snapshot derived))
              Malformed_conflict_record
           (require (matches (tag_grammar ''pdv1'') (fld d ''digest'')) Malformed_conflict_record
           (require (key = PStr derived_key) Malformed_conflict_record
             (Inr (derived_key, \<lparr>nr_variant = nr_variant derived, nr_digest = key_bytes (fld d ''digest''),
                nr_snapshot = nr_snapshot derived\<rparr>))))
        | _ \<Rightarrow> Inl Malformed_conflict_record))))
     | _ \<Rightarrow> Inl Malformed_conflict_record)"

fun conflict_entries :: "pydict \<Rightarrow> (conflict_error, gstate) result" where
  "conflict_entries [] = Inr []"
| "conflict_entries ((key, rec) # entries) = and_then (conflict_entry key rec) (\<lambda>e.
     and_then (conflict_entries entries) (\<lambda>st. Inr (e # st)))"

definition conflict_state :: "pyval \<Rightarrow> (conflict_error, gstate) result" where
  "conflict_state v = (case v of PDict _ d \<Rightarrow> conflict_entries d | _ \<Rightarrow> Inl Malformed_conflict_record)"

definition conflict_state_id :: "pyval \<Rightarrow> (conflict_error, string) result" where
  "conflict_state_id v = and_then (conflict_state v) (\<lambda>st. Inr (gs_id st))"

subsection \<open>Changes\<close>

datatype change = Added | Removed | Changed

text \<open>Added and changed keys in the order of the derived state, then the removed ones.\<close>

definition changes :: "gstate \<Rightarrow> gstate \<Rightarrow> (string \<times> change \<times> node_record) list" where
  "changes base derived =
     concat (map (\<lambda>(key, r). case map_of base key of
         None \<Rightarrow> [(key, Added, r)] | Some r' \<Rightarrow> if r' \<noteq> r then [(key, Changed, r)] else []) derived)
     @ concat (map (\<lambda>(key, r). if map_of derived key = None then [(key, Removed, r)] else []) base)"

datatype conflict_kind = Added_differently | Both_changed_differently | Changed_vs_removed

record witness =
  w_kind :: conflict_kind
  w_left :: "node_record option"
  w_right :: "node_record option"

definition witness_side :: "change \<times> node_record \<Rightarrow> node_record option" where
  "witness_side c = (if fst c = Changed then Some (snd c) else None)"

text \<open>The body of the loop over the common keys.\<close>

definition overlap :: "change \<times> node_record \<Rightarrow> change \<times> node_record \<Rightarrow> witness option" where
  "overlap l r = (if fst l = Removed \<and> fst r = Removed then None
     else if fst l = fst r then
       (if snd l \<noteq> snd r then Some \<lparr>w_kind = (if fst l = Added then Added_differently else Both_changed_differently),
          w_left = Some (snd l), w_right = Some (snd r)\<rparr> else None)
     else Some \<lparr>w_kind = Changed_vs_removed, w_left = witness_side l, w_right = witness_side r\<rparr>)"

record detection =
  dt_base_id :: string
  dt_left_id :: string
  dt_right_id :: string
  dt_conflicts :: "(string \<times> witness) list"

definition conflicts_of :: "gstate \<Rightarrow> gstate \<Rightarrow> gstate \<Rightarrow> (string \<times> witness) list" where
  "conflicts_of base left right = (let lch = changes base left; rch = changes base right in
     List.map_filter (\<lambda>key. case (map_of lch key, map_of rch key) of
         (Some l, Some r) \<Rightarrow> map_option (\<lambda>w. (key, w)) (overlap l r) | _ \<Rightarrow> None)
       (sort (remdups (filter (\<lambda>key. key \<in> set (map fst rch)) (map fst lch)))))"

definition detect :: "pyval \<Rightarrow> pyval \<Rightarrow> pyval \<Rightarrow> (conflict_error, detection) result" where
  "detect base left right = and_then (conflict_state base) (\<lambda>b. and_then (conflict_state left) (\<lambda>l.
     and_then (conflict_state right) (\<lambda>r.
     require (gs_id b \<notin> set [gs_id l, gs_id r]) Divergent_base
       (Inr \<lparr>dt_base_id = gs_id b, dt_left_id = gs_id l, dt_right_id = gs_id r, dt_conflicts = conflicts_of b l r\<rparr>))))"

end
