(* ===== verification/GraphConflictProps.thy ===== *)
theory GraphConflictProps
  imports GraphConflict GraphStateFacts
begin

text \<open>
  The detector is exact: a key is reported exactly if both sides left the base's value and ended with
  different ones.
\<close>

lemma map_of_changes:
  assumes "distinct (map fst b)" "distinct (map fst s)"
  shows "map_of (changes b s) key = (case (map_of b key, map_of s key) of
      (None, None) \<Rightarrow> None | (None, Some r) \<Rightarrow> Some (Added, r) | (Some r, None) \<Rightarrow> Some (Removed, r)
    | (Some r, Some r') \<Rightarrow> if r = r' then None else Some (Changed, r'))"
proof -
  have keyed: "map_of (concat (map (\<lambda>(k, r). map (\<lambda>v. (k, v)) (g k r)) xs)) key = (case map_of xs key of
      None \<Rightarrow> None | Some r \<Rightarrow> (case g key r of [] \<Rightarrow> None | v # _ \<Rightarrow> Some v))"
    if "distinct (map fst xs)" for g :: "string \<Rightarrow> node_record \<Rightarrow> (change \<times> node_record) list" and xs :: gstate
    using that
  proof (induction xs)
    case (Cons x xs)
    obtain k r where x: "x = (k, r)" by (cases x)
    have m: "map_of (map (\<lambda>v. (k, v)) vs) key = (if k = key then (case vs of [] \<Rightarrow> None | v # _ \<Rightarrow> Some v) else None)" for vs :: "(change \<times> node_record) list"
      by (induction vs) auto
    have "k = key \<Longrightarrow> map_of xs key = None" using Cons.prems x by (simp add: map_of_eq_None_iff)
    then show ?case using Cons by (auto simp: x m map_add_def split: option.split list.split)
  qed simp
  let ?f = "\<lambda>k r. case map_of b k of None \<Rightarrow> [(Added, r)] | Some r' \<Rightarrow> if r' \<noteq> r then [(Changed, r)] else []"
  let ?g = "\<lambda>k r. if map_of s k = None then [(Removed, r)] else []"
  have "changes b s = concat (map (\<lambda>(k, r). map (\<lambda>v. (k, v)) (?f k r)) s) @ concat (map (\<lambda>(k, r). map (\<lambda>v. (k, v)) (?g k r)) b)"
    unfolding changes_def by (intro arg_cong2 [where f = append] arg_cong [where f = concat] map_cong refl) (auto split: option.split)
  then show ?thesis
    using keyed [OF assms(2), of ?f] keyed [OF assms(1), of ?g] by (auto simp: map_add_def split: option.split)
qed

text \<open>The witness that the loop makes of a key, and the keys it runs over.\<close>

definition meet :: "gstate \<Rightarrow> gstate \<Rightarrow> gstate \<Rightarrow> string \<Rightarrow> witness option" where
  "meet b l r key = (case (map_of (changes b l) key, map_of (changes b r) key) of
     (Some x, Some y) \<Rightarrow> overlap x y | _ \<Rightarrow> None)"

definition common :: "gstate \<Rightarrow> gstate \<Rightarrow> gstate \<Rightarrow> string list" where
  "common b l r = sort (remdups (filter (\<lambda>key. key \<in> set (map fst (changes b r))) (map fst (changes b l))))"

lemma conflicts_meet: "conflicts_of b l r = List.map_filter (\<lambda>k. map_option (\<lambda>w. (k, w)) (meet b l r k)) (common b l r)"
  unfolding conflicts_of_def Let_def common_def meet_def
  by (intro arg_cong2 [where f = List.map_filter] ext refl) (simp split: option.split)

lemma meet_common: "meet b l r key \<noteq> None \<Longrightarrow> key \<in> set (common b l r)"
proof -
  assume "meet b l r key \<noteq> None"
  then have "map_of (changes b l) key \<noteq> None" "map_of (changes b r) key \<noteq> None" by (auto simp: meet_def split: option.splits)
  then show ?thesis by (auto simp: map_of_eq_None_iff common_def)
qed

lemma map_of_map_filter_key:
  "map_of (List.map_filter (\<lambda>k. map_option (\<lambda>w. (k, w)) (g k)) ks) key = (if key \<in> set ks then g key else None)"
  by (induction ks) (auto simp: List.map_filter_simps split: option.split)

lemma map_of_conflicts: "map_of (conflicts_of b l r) key = meet b l r key"
  using meet_common [of b l r key] by (cases "meet b l r key") (auto simp: conflicts_meet map_of_map_filter_key)

lemma conflict_keys: "sorted (map fst (conflicts_of b l r)) \<and> distinct (map fst (conflicts_of b l r))"
proof -
  have "map fst (List.map_filter (\<lambda>k. map_option (\<lambda>w. (k, w)) (g k)) ks) = filter (\<lambda>k. g k \<noteq> None) ks"
    for g :: "string \<Rightarrow> witness option" and ks
    by (induction ks) (auto simp: List.map_filter_simps split: option.split)
  then show ?thesis unfolding conflicts_meet
    using sorted_filter [of "\<lambda>x. x" "common b l r"] by (simp add: common_def distinct_sort)
qed

definition swap_sides :: "witness \<Rightarrow> witness" where
  "swap_sides w = w\<lparr>w_left := w_right w, w_right := w_left w\<rparr>"

lemma overlap_swap: "overlap r l = map_option swap_sides (overlap l r)"
  by (auto simp: overlap_def swap_sides_def)

lemma meet_swap: "meet b r l key = map_option swap_sides (meet b l r key)"
proof (cases "map_of (changes b l) key"; cases "map_of (changes b r) key")
  fix x y assume "map_of (changes b l) key = Some x" "map_of (changes b r) key = Some y"
  then show ?thesis using overlap_swap [of y x] by (simp add: meet_def)
qed (simp_all add: meet_def)

lemma meet_iff:
  assumes "distinct (map fst b)" "distinct (map fst l)" "distinct (map fst r)"
  shows "meet b l r key \<noteq> None \<longleftrightarrow>
    map_of l key \<noteq> map_of b key \<and> map_of r key \<noteq> map_of b key \<and> map_of l key \<noteq> map_of r key"
  unfolding meet_def map_of_changes [OF assms(1,2)] map_of_changes [OF assms(1,3)]
  by (cases "map_of b key"; cases "map_of l key"; cases "map_of r key") (auto simp: overlap_def)

lemma conflicts_swap: "conflicts_of b r l = map (\<lambda>(key, w). (key, swap_sides w)) (conflicts_of b l r)"
proof (rule map_sorted_distinct_set_unique [where f = fst])
  let ?m = "map (\<lambda>(key, w). (key, swap_sides w)) (conflicts_of b l r)"
  have keys: "map fst ?m = map fst (conflicts_of b l r)" by (simp add: case_prod_unfold comp_def)
  then have d: "distinct (map fst ?m)" "distinct (map fst (conflicts_of b r l))" using conflict_keys by metis+
  have "map_of ?m key = map_of (conflicts_of b r l) key" for key
    using meet_swap [of b r l key] by (simp add: map_of_conflicts map_of_map)
  then have s: "set (conflicts_of b r l) = set ?m" using map_of_inject_set [OF d(2,1)] by (simp add: fun_eq_iff)
  show "inj_on fst (set (conflicts_of b r l) \<union> set ?m)" using d(2) unfolding s [symmetric] Un_absorb distinct_map by blast
  show "sorted (map fst (conflicts_of b r l))" "distinct (map fst (conflicts_of b r l))" using conflict_keys by blast+
  show "sorted (map fst ?m)" "distinct (map fst ?m)" unfolding keys using conflict_keys by blast+
  show "set (conflicts_of b r l) = set ?m" by (rule s)
qed

lemma conflict_state_distinct:
  assumes "conflict_state v = Inr st" "dict_ok v"
  shows "distinct (map fst st)"
proof -
  obtain n d where v: "v = PDict n d" "conflict_entries d = Inr st"
    using assms(1) by (auto simp: conflict_state_def split: pyval.splits)
  have "conflict_entry key rec = Inr (k, r) \<Longrightarrow> key = PStr k" for key rec k r
    by (auto simp: conflict_entry_def split: pyval.splits sum.splits)
  then have "map fst d = map PStr (map fst st)" using v(2)
    by (induction d arbitrary: st rule: conflict_entries.induct) fastforce+
  then have "distinct (map PStr (map fst st))" using assms(2) by (simp add: dict_ok_def v(1))
  then show ?thesis unfolding distinct_map [of PStr "map fst st"] ..
qed

text \<open>C9. The detector is exact and symmetric: valid states are only refused if an identifier of a side is
  the base's; otherwise a key is reported exactly if both sides changed what the base holds for it
  (added, changed or removed) and ended with different values, keys come in strict order, and
  exchanging the sides exchanges the two sides of every witness and nothing else.\<close>

theorem conflict_detection_exact:
  assumes "conflict_state base = Inr b" "conflict_state left = Inr l" "conflict_state right = Inr r"
    and "dict_ok base" "dict_ok left" "dict_ok right"
  shows "(case detect base left right of
      Inl e \<Rightarrow> e = Divergent_base \<and> gs_id b \<in> {gs_id l, gs_id r} \<and> detect base right left = Inl e
    | Inr d \<Rightarrow> fst ` set (dt_conflicts d)
          = {key. map_of l key \<noteq> map_of b key \<and> map_of r key \<noteq> map_of b key \<and> map_of l key \<noteq> map_of r key}
        \<and> sorted_wrt (<) (map fst (dt_conflicts d))
        \<and> (\<exists>d'. detect base right left = Inr d' \<and> dt_conflicts d' = map (\<lambda>(key, w). (key, swap_sides w)) (dt_conflicts d)))"
proof -
  note dist = conflict_state_distinct [OF assms(1,4)] conflict_state_distinct [OF assms(2,5)] conflict_state_distinct [OF assms(3,6)]
  have "fst ` set (conflicts_of b l r) = dom (map_of (conflicts_of b l r))" by (simp add: dom_map_of_conv_image_fst)
  also have "\<dots> = {key. map_of l key \<noteq> map_of b key \<and> map_of r key \<noteq> map_of b key \<and> map_of l key \<noteq> map_of r key}"
    unfolding dom_def map_of_conflicts using meet_iff [OF dist] by blast
  finally have "fst ` set (conflicts_of b l r) = \<dots>" .
  moreover have "sorted_wrt (<) (map fst (conflicts_of b l r))" using conflict_keys strict_sorted_iff by blast
  ultimately show ?thesis using assms(1-3) conflicts_swap [of b r l]
    by (cases "gs_id b \<in> {gs_id l, gs_id r}") (auto simp: detect_def)
qed

text \<open>Both sides add the starting position, with different digests.\<close>

definition forged :: "string \<Rightarrow> char \<Rightarrow> gstate" where
  "forged key c = [(key, \<lparr>nr_variant = ''standard'', nr_digest = ''pdv1:'' @ replicate 64 c, nr_snapshot = start_fen\<rparr>)]"

theorem conflict_detection_exact_witness:
  "\<exists>key. case detect (state_value []) (state_value (forged key CHR ''0'')) (state_value (forged key CHR ''1'')) of
      Inl e \<Rightarrow> e = Divergent_base | Inr d \<Rightarrow> fst ` set (dt_conflicts d) = {key}"
proof -
  have "(case projection_key (PStr ''standard'') (PStr start_fen) of Inr key \<Rightarrow> True | Inl _ \<Rightarrow> False)" by code_simp
  then obtain key where key: "projection_key (PStr ''standard'') (PStr start_fen) = Inr key" by (auto split: sum.splits)
  have e: "exact_record (PStr ''standard'') (PStr start_fen) = Inr \<lparr>nr_variant = ''standard'', nr_digest = d, nr_snapshot = start_fen\<rparr>"
    if "digest_fen (PStr ''standard'') (PStr start_fen) = Inr d" for d
  proof -
    have "(case parse_position (PStr ''standard'') (PStr start_fen) of Inl _ \<Rightarrow> False
      | Inr q \<Rightarrow> (case identity q of Inl _ \<Rightarrow> False | Inr pr \<Rightarrow> join_on CHR '' '' (map text_of (tl pr) @ [''0'', ''1'']) = start_fen
          \<and> text_of (hd pr) = ''standard''))" by code_simp
    moreover have "split_on CHR '' '' start_fen ! 3 = ''-''" by code_simp
    ultimately show ?thesis using that by (auto simp: exact_record_def Let_def split: sum.splits)
  qed
  have "accepts (parse_fen (PStr start_fen))" by code_simp
  then obtain d where "digest_fen (PStr ''standard'') (PStr start_fen) = Inr d"
    by (auto simp: accepts_iff digest_fen_def VARIANTS_def)
  note rec = e [OF this]
  have "matches (tag_grammar ''pdv1'') (PStr (''pdv1:'' @ replicate 64 c))" if "is_hex c" for c
    using that by (simp add: tag_grammar_def list_all_iff)
  then have st: "conflict_state (state_value (forged key c)) = Inr (forged key c)" if "is_hex c" for c
    using that key rec by (simp add: conflict_state_def state_value_def forged_def conflict_entry_def node_dict_def
        NODE_FIELDS_def fld_simps insert_commute)
  have st0: "conflict_state (state_value []) = Inr []" by (simp add: conflict_state_def state_value_def)
  have ok: "dict_ok (state_value [])" "dict_ok (state_value (forged key c))" for c
    by (simp_all add: dict_ok_def state_value_def forged_def)
  have hex: "is_hex CHR ''0''" "is_hex CHR ''1''" by (simp_all add: is_hex_def)
  have "replicate 64 CHR ''0'' \<noteq> replicate 64 CHR ''1''" by simp
  then have diff: "{k. map_of (forged key CHR ''0'') k \<noteq> map_of [] k \<and> map_of (forged key CHR ''1'') k \<noteq> map_of [] k
      \<and> map_of (forged key CHR ''0'') k \<noteq> map_of (forged key CHR ''1'') k} = {key}"
    by (auto simp: forged_def)
  from conflict_detection_exact [OF st0 st [OF hex(1)] st [OF hex(2)] ok(1) ok(2) ok(2)] show ?thesis
    unfolding diff by (intro exI [of _ key]) (auto split: sum.splits)
qed

end
