(* ===== verification/Wal.thy ===== *)
theory Wal
  imports GraphDiff
begin

text \<open>
  The write-ahead log of graph states, \<open>src/store/wal.py\<close> over \<open>src/data/contracts/wal.yaml\<close>: a chain of
  content-addressed put and delete entries of exact node records. Validation takes an arbitrary Python
  value and returns the typed content (the frozen copy that everything later reads). The payload
  canonicalizer is the caller's code: a parameter that gives the value it returns, or None if it raises.
  Whatever it does to the live inputs is undone on every exit, so the model has no such effect.
\<close>

datatype wal_error = Malformed_wal_entry | Unknown_operation | Sequence_conflict | Corrupt_chain
  | Divergent_canonicalization | State_rejected diff_error

text \<open>\<open>State_rejected\<close> is the \<open>DiffError\<close> that \<open>state_id\<close> would let through; replay never raises it.\<close>

fun wal_code :: "wal_error \<Rightarrow> string" where
  "wal_code Malformed_wal_entry = ''malformed_request''"
| "wal_code Unknown_operation = ''unknown_operation''"
| "wal_code Sequence_conflict = ''sequence_conflict''"
| "wal_code Corrupt_chain = ''corrupt_chain''"
| "wal_code Divergent_canonicalization = ''divergent_canonicalization''"
| "wal_code (State_rejected e) = diff_code e"

definition WAL_FIELDS :: "string list" where
  "WAL_FIELDS = [''entry_id'', ''sequence'', ''op'', ''payload'', ''prior_entry_id'']"

definition WAL_OPS :: "string list" where
  "WAL_OPS = [''put'', ''delete'']"

definition PAYLOAD_FIELDS :: "string list" where
  "PAYLOAD_FIELDS = [''identity'', ''record'']"

definition GENESIS :: string where
  "GENESIS = ''wal0:'' @ replicate 64 CHR ''0''"

record wal_entry =
  we_id :: string
  we_sequence :: int
  we_op :: string
  we_identity :: string
  we_record :: node_record
  we_prior :: string

type_synonym canonicalizer = "string \<Rightarrow> node_record \<Rightarrow> pyval option"

definition payload_text :: "string \<Rightarrow> node_record \<Rightarrow> string" where
  "payload_text key r = join_on CHR 0x0A [key, nr_variant r, nr_digest r, nr_snapshot r]"

definition canonical_payload :: canonicalizer where
  "canonical_payload key r = Some (PStr (payload_text key r))"

definition derive_entry_id :: "int \<Rightarrow> string \<Rightarrow> string \<Rightarrow> string \<Rightarrow> string" where
  "derive_entry_id sequence op canonical prior =
     tagged ''wal1'' (int_text sequence @ CHR 0x0A # op @ CHR 0x0A # canonical @ CHR 0x0A # prior)"

subsection \<open>Validation\<close>

definition wal_record :: "pyval \<Rightarrow> (wal_error, string \<times> node_record) result" where
  "wal_record rec = (case rec of PDict _ d \<Rightarrow>
       require (keys_are d NODE_FIELDS) Malformed_wal_entry
       (require (list_all (\<lambda>k. is_str (fld d k)) NODE_FIELDS) Malformed_wal_entry
       (case exact_record (fld d ''variant'') (fld d ''snapshot_fen'') of
          Inl _ \<Rightarrow> Inl Malformed_wal_entry
        | Inr derived \<Rightarrow> (case record_identity (PDict 0 (node_dict derived)) of
            Inl _ \<Rightarrow> Inl Malformed_wal_entry
          | Inr key \<Rightarrow>
              require (list_all (\<lambda>k. fld d k = fld (node_dict derived) k) NODE_FIELDS) Malformed_wal_entry
                (Inr (key, derived)))))
     | _ \<Rightarrow> Inl Malformed_wal_entry)"

definition wal_payload :: "pyval \<Rightarrow> (wal_error, string \<times> node_record) result" where
  "wal_payload payload = (case payload of PDict _ p \<Rightarrow>
       require (keys_are p PAYLOAD_FIELDS) Malformed_wal_entry
       (require (is_str (fld p ''identity'')) Malformed_wal_entry
       (and_then (wal_record (fld p ''record'')) (\<lambda>(key, r).
          require (fld p ''identity'' = PStr key) Malformed_wal_entry (Inr (key, r)))))
     | _ \<Rightarrow> Inl Malformed_wal_entry)"

text \<open>The operation of an entry or a request.\<close>

definition wal_op :: "pyval \<Rightarrow> (wal_error, string) result" where
  "wal_op v = require (is_str v) Malformed_wal_entry
     (require (matches (\<lambda>s. s \<in> set WAL_OPS) v) Unknown_operation (Inr (key_bytes v)))"

definition prior_grammar :: "string \<Rightarrow> bool" where
  "prior_grammar s \<longleftrightarrow> s = GENESIS \<or> tag_grammar ''wal1'' s"

definition check_entry :: "pyval \<Rightarrow> int \<Rightarrow> string \<Rightarrow> (wal_error, wal_entry) result" where
  "check_entry v position prior_tip = (case v of PDict _ d \<Rightarrow>
       require (keys_are d WAL_FIELDS) Malformed_wal_entry
       (and_then (wal_op (fld d ''op'')) (\<lambda>op.
        case fld d ''sequence'' of PInt n \<Rightarrow>
          require (n = position) Sequence_conflict
         (require (matches (tag_grammar ''wal1'') (fld d ''entry_id'')) Malformed_wal_entry
         (require (matches prior_grammar (fld d ''prior_entry_id'')) Malformed_wal_entry
         (require (fld d ''prior_entry_id'' = PStr prior_tip) Corrupt_chain
         (and_then (wal_payload (fld d ''payload'')) (\<lambda>(key, r).
            Inr \<lparr>we_id = key_bytes (fld d ''entry_id''), we_sequence = n, we_op = op, we_identity = key,
              we_record = r, we_prior = key_bytes (fld d ''prior_entry_id'')\<rparr>)))))
        | _ \<Rightarrow> Inl Malformed_wal_entry))
     | _ \<Rightarrow> Inl Malformed_wal_entry)"

fun check_log :: "pyval list \<Rightarrow> int \<Rightarrow> string \<Rightarrow> (wal_error, wal_entry list) result" where
  "check_log [] position tip = Inr []"
| "check_log (v # vs) position tip = and_then (check_entry v position tip) (\<lambda>e.
     and_then (check_log vs (position + 1) (we_id e)) (\<lambda>es. Inr (e # es)))"

definition wal_request :: "pyval \<Rightarrow> (wal_error, string \<times> string \<times> node_record) result" where
  "wal_request v = (case v of PDict _ d \<Rightarrow>
       require (keys_are d [''op'', ''payload'']) Malformed_wal_entry
       (and_then (wal_op (fld d ''op'')) (\<lambda>op.
        and_then (wal_payload (fld d ''payload'')) (\<lambda>(key, r). Inr (op, key, r))))
     | _ \<Rightarrow> Inl Malformed_wal_entry)"

subsection \<open>The chain\<close>

definition canonicalize :: "canonicalizer \<Rightarrow> string \<Rightarrow> node_record \<Rightarrow> (wal_error, string) result" where
  "canonicalize c key r = (case c key r of
     Some (PStr out) \<Rightarrow> Inr out | _ \<Rightarrow> Inl Divergent_canonicalization)"

fun rederive :: "canonicalizer \<Rightarrow> wal_entry list \<Rightarrow> string \<Rightarrow> (wal_error, string) result" where
  "rederive c [] tip = Inr tip"
| "rederive c (e # es) tip = and_then (canonicalize c (we_identity e) (we_record e)) (\<lambda>canonical.
     require (derive_entry_id (we_sequence e) (we_op e) canonical (we_prior e) = we_id e) Corrupt_chain
       (rederive c es (we_id e)))"

text \<open>Staging of a new entry after the chain of the log.\<close>

definition stage_entry :: "canonicalizer \<Rightarrow> wal_entry list \<Rightarrow> string \<times> string \<times> node_record
    \<Rightarrow> (wal_error, wal_entry) result" where
  "stage_entry c es req = (case req of (op, key, r) \<Rightarrow>
     and_then (rederive c es GENESIS) (\<lambda>tip.
     and_then (canonicalize c key r) (\<lambda>canonical.
       let sequence = int (length es) + 1 in
       Inr \<lparr>we_id = derive_entry_id sequence op canonical tip, we_sequence = sequence, we_op = op,
         we_identity = key, we_record = r, we_prior = tip\<rparr>)))"

text \<open>The staged entry and the log it is committed to.\<close>

definition wal_append :: "canonicalizer \<Rightarrow> pyval \<Rightarrow> pyval \<Rightarrow> (wal_error, wal_entry \<times> wal_entry list) result" where
  "wal_append c log v = (case log of PList _ vs \<Rightarrow>
       and_then (wal_request v) (\<lambda>req.
       and_then (check_log vs 1 GENESIS) (\<lambda>es.
       and_then (stage_entry c es req) (\<lambda>e. Inr (e, es @ [e]))))
     | _ \<Rightarrow> Inl Malformed_wal_entry)"

subsection \<open>Replay\<close>

definition wal_effect :: "gstate \<Rightarrow> wal_entry \<Rightarrow> gstate" where
  "wal_effect st e = (if we_op e = ''put'' then dict_set st (we_identity e) (we_record e)
     else filter (\<lambda>(key, r). key \<noteq> we_identity e) st)"

definition log_state :: "wal_entry list \<Rightarrow> gstate" where
  "log_state es = foldl wal_effect [] es"

record replayed =
  rp_state :: gstate
  rp_state_id :: string
  rp_head :: string
  rp_applied :: nat

definition checked_state_id :: "gstate \<Rightarrow> (wal_error, string) result" where
  "checked_state_id st = (case diff_state (state_value st) of
     Inl e \<Rightarrow> Inl (State_rejected e) | Inr st' \<Rightarrow> Inr (gs_id st'))"

definition replay_entries :: "canonicalizer \<Rightarrow> wal_entry list \<Rightarrow> (wal_error, replayed) result" where
  "replay_entries c es = and_then (rederive c es GENESIS) (\<lambda>tip.
     and_then (checked_state_id (log_state es)) (\<lambda>sid.
       Inr \<lparr>rp_state = log_state es, rp_state_id = sid, rp_head = tip, rp_applied = length es\<rparr>))"

definition wal_replay :: "canonicalizer \<Rightarrow> pyval \<Rightarrow> (wal_error, replayed) result" where
  "wal_replay c log = (case log of PList _ vs \<Rightarrow> and_then (check_log vs 1 GENESIS) (replay_entries c)
     | _ \<Rightarrow> Inl Malformed_wal_entry)"

text \<open>A committed log, as the next call sees it.\<close>

definition entry_dict :: "wal_entry \<Rightarrow> pydict" where
  "entry_dict e = [(PStr ''entry_id'', PStr (we_id e)), (PStr ''sequence'', PInt (we_sequence e)),
     (PStr ''op'', PStr (we_op e)),
     (PStr ''payload'', PDict 3 [(PStr ''identity'', PStr (we_identity e)),
        (PStr ''record'', PDict 4 (node_dict (we_record e)))]),
     (PStr ''prior_entry_id'', PStr (we_prior e))]"

definition entry_value :: "wal_entry \<Rightarrow> pyval" where
  "entry_value e = PDict 2 (entry_dict e)"

definition log_value :: "wal_entry list \<Rightarrow> pyval" where
  "log_value es = PList 0 (map entry_value es)"

end
