(* ===== verification/WalFacts.thy ===== *)
theory WalFacts
  imports Wal GraphDiffProps
begin

text \<open>
  Facts of the write-ahead log: its record validation agrees with the one of the diff runtime, validation
  and chain go along the log entry by entry, and a validated log is read back as itself.
\<close>

subsection \<open>Records\<close>

lemma exact_record_parts:
  assumes "exact_record v x = Inr r"
  obtains u s where "v = PStr u" "x = PStr s" "nr_variant r = u"
    "nr_snapshot r = join_on CHR '' '' (take 4 (split_on CHR '' '' s) @ [''0'', ''1''])"
    "digest_fen v (PStr (nr_snapshot r)) = Inr (nr_digest r)" "accepts (projection_key v x)"
proof -
  obtain q pr where q: "parse_position v x = Inr q" "identity q = Inr pr"
    "nr_variant r = text_of (hd pr)" "nr_snapshot r = join_on CHR '' '' (map text_of (tl pr) @ [''0'', ''1''])"
    "digest_fen v (PStr (nr_snapshot r)) = Inr (nr_digest r)"
    using assms by (auto simp: exact_record_def Let_def split: sum.splits)
  have key: "projection_key v x = Inr (repr_key (map text_of pr))"
    using q(1,2) by (simp add: projection_key_def)
  from projection_key_parts [OF key] obtain u s where us: "v = PStr u" "x = PStr s"
    "length (split_on CHR '' '' s) = 6" by metis
  have "pr = vp_fields q" using q(2) by (auto simp: identity_def)
  moreover have "q = (let parts = map PStr (split_on CHR '' '' s) in
      \<lparr>vp_variant = v, vp_board = parts ! 0, vp_side = parts ! 1, vp_castling = parts ! 2, vp_ep = parts ! 3\<rparr>)"
    using q(1) us(2) by (auto simp: parse_position_def Let_def)
  moreover obtain a b c d e f where "split_on CHR '' '' s = [a, b, c, d, e, f]"
    using us(3) by (auto simp: length_Suc_conv eval_nat_numeral)
  ultimately have "map text_of pr = u # take 4 (split_on CHR '' '' s)" "text_of (hd pr) = u"
    using us(1) by (simp_all add: vp_fields_def)
  then have "nr_snapshot r = join_on CHR '' '' (take 4 (split_on CHR '' '' s) @ [''0'', ''1''])"
    using q(4) by (metis list.sel(3) map_tl)
  then show thesis using that us q(3,5) key \<open>text_of (hd pr) = u\<close> by simp
qed

lemma split_snapshot:
  assumes "s = join_on CHR '' '' (take 4 (split_on CHR '' '' s) @ [''0'', ''1''])"
  shows "drop 4 (split_on CHR '' '' s) = [''0'', ''1'']"
proof -
  have "\<forall>p \<in> set (take 4 (split_on CHR '' '' s) @ [''0'', ''1'']). CHR '' '' \<notin> set p"
    using split_no_sep in_set_takeD by fastforce
  then have "split_on CHR '' '' s = take 4 (split_on CHR '' '' s) @ [''0'', ''1'']"
    by (subst assms) (rule split_join, simp)
  then show ?thesis by (metis append_take_drop_id same_append_eq)
qed

text \<open>An entry of a state is an exact record whose derivation is the record itself.\<close>

lemma exact_record_entry:
  assumes "entry_ok key r"
  shows "exact_record (PStr (nr_variant r)) (PStr (nr_snapshot r)) = Inr r"
    and "record_identity (PDict n (node_dict r)) = Inr key"
proof -
  note e = assms [unfolded entry_ok_def diff_record_iff]
  let ?v = "PStr (nr_variant r)" and ?x = "PStr (nr_snapshot r)"
  obtain q where q: "parse_position ?v ?x = Inr q" "accepts (identity q)"
    using e by (auto simp: projection_key_def accepts_iff)
  have len: "length (split_on CHR '' '' (nr_snapshot r)) = 6"
    using projection_key_parts [of ?v ?x key] e by (metis pyval.inject(4))
  obtain a b c d where sp: "split_on CHR '' '' (nr_snapshot r) = [a, b, c, d, ''0'', ''1'']"
    using len e by (auto simp: length_Suc_conv eval_nat_numeral)
  have "q = \<lparr>vp_variant = ?v, vp_board = PStr a, vp_side = PStr b, vp_castling = PStr c, vp_ep = PStr d\<rparr>"
    using q(1) by (auto simp: parse_position_def Let_def sp)
  then have pr: "identity q = Inr [?v, PStr a, PStr b, PStr c, PStr d]"
    using q(2) by (auto simp: identity_def vp_fields_def accepts_iff)
  have "join_on CHR '' '' [a, b, c, d, ''0'', ''1''] = nr_snapshot r"
    using join_split [of "CHR '' ''" "nr_snapshot r"] by (simp only: sp)
  then show ex: "exact_record ?v ?x = Inr r"
    using q(1) pr e by (simp add: exact_record_def sp Let_def)
  have "fst ` set (node_dict r) = PStr ` set NODE_FIELDS" by (auto simp: node_dict_def NODE_FIELDS_def)
  then show "record_identity (PDict n (node_dict r)) = Inr key"
    using ex e by (simp add: record_identity_def)
qed

text \<open>The two record validations of the store agree.\<close>

lemma wal_record_iff: "wal_record v = Inr (key, r) \<longleftrightarrow> diff_record v = Inr (key, r)"
proof (cases v)
  case (PDict n d)
  show ?thesis
  proof
    assume w: "wal_record v = Inr (key, r)"
    then have ex: "exact_record (fld d ''variant'') (fld d ''snapshot_fen'') = Inr r"
      and id: "record_identity (PDict 0 (node_dict r)) = Inr key" and keys: "keys_are d NODE_FIELDS"
      and eq: "list_all (\<lambda>k. fld d k = fld (node_dict r) k) NODE_FIELDS"
      by (auto simp: wal_record_def PDict split: sum.splits)
    have f: "fld d ''variant'' = PStr (nr_variant r)" "fld d ''digest'' = PStr (nr_digest r)"
      "fld d ''snapshot_fen'' = PStr (nr_snapshot r)" using eq by (simp_all add: NODE_FIELDS_def)
    from exact_record_parts [OF ex] have s:
      "nr_snapshot r = join_on CHR '' '' (take 4 (split_on CHR '' '' (nr_snapshot r)) @ [''0'', ''1''])"
      "digest_fen (PStr (nr_variant r)) (PStr (nr_snapshot r)) = Inr (nr_digest r)"
      using f(1,3) by (metis pyval.inject(4))+
    have "projection_key (PStr (nr_variant r)) (PStr (nr_snapshot r)) = Inr key"
      using id by (auto simp: record_identity_def split: sum.splits)
    then show "diff_record v = Inr (key, r)"
      unfolding PDict diff_record_iff using keys f s(2) split_snapshot [OF s(1)] by simp
  next
    assume "diff_record v = Inr (key, r)"
    then have e: "entry_ok key r" and d: "keys_are d NODE_FIELDS" "fld d ''variant'' = PStr (nr_variant r)"
      "fld d ''digest'' = PStr (nr_digest r)" "fld d ''snapshot_fen'' = PStr (nr_snapshot r)"
      using diff_record_entry diff_record_iff unfolding PDict by blast+
    show "wal_record v = Inr (key, r)"
      using d exact_record_entry [OF e] by (simp add: wal_record_def PDict NODE_FIELDS_def)
  qed
qed (simp_all add: wal_record_def diff_record_def)

lemma wal_payload_entry: "wal_payload v = Inr (key, r) \<Longrightarrow> entry_ok key r"
  by (auto simp: wal_payload_def wal_record_iff dest: diff_record_entry split: pyval.splits)

text \<open>A record that is its own derivation is an entry.\<close>

lemma derived_entry:
  assumes "exact_record (PStr (nr_variant r)) (PStr (nr_snapshot r)) = Inr r" "record_identity (PDict 0 (node_dict r)) = Inr key"
  shows "entry_ok key r"
proof -
  have "wal_record (PDict 0 (node_dict r)) = Inr (key, r)"
    using assms by (simp add: wal_record_def NODE_FIELDS_def) (simp add: keys_are_def node_dict_def insert_commute)
  then show ?thesis unfolding wal_record_iff by (rule diff_record_entry)
qed

lemma wal_payload_value:
  "entry_ok key r \<Longrightarrow> wal_payload (PDict n [(PStr ''identity'', PStr key), (PStr ''record'', PDict m (node_dict r))]) = Inr (key, r)"
proof -
  assume e: "entry_ok key r"
  have "diff_record (PDict m (node_dict r)) = Inr (key, r)"
    using e unfolding entry_ok_def diff_record_iff by simp
  then show ?thesis
    by (simp add: wal_payload_def fld_simps keys_are_def PAYLOAD_FIELDS_def wal_record_iff [THEN iffD2])
qed

subsection \<open>Entries and logs\<close>

text \<open>What validation promises of an entry at a position after a tip.\<close>

definition we_ok :: "wal_entry \<Rightarrow> int \<Rightarrow> string \<Rightarrow> bool" where
  "we_ok e position tip \<longleftrightarrow> we_op e \<in> set WAL_OPS \<and> we_sequence e = position \<and> tag_grammar ''wal1'' (we_id e)
     \<and> prior_grammar (we_prior e) \<and> we_prior e = tip \<and> entry_ok (we_identity e) (we_record e)"

lemma check_entry_ok: "check_entry v position tip = Inr e \<Longrightarrow> we_ok e position tip"
  by (auto simp: check_entry_def wal_op_def we_ok_def matches_iff dest: wal_payload_entry split: pyval.splits)

lemma check_entry_value: "we_ok e position tip \<Longrightarrow> check_entry (entry_value e) position tip = Inr e"
proof -
  assume e: "we_ok e position tip"
  have "keys_are (entry_dict e) WAL_FIELDS" by (auto simp: keys_are_def entry_dict_def WAL_FIELDS_def)
  moreover have "fld (entry_dict e) ''op'' = PStr (we_op e)" "fld (entry_dict e) ''sequence'' = PInt (we_sequence e)"
    "fld (entry_dict e) ''entry_id'' = PStr (we_id e)" "fld (entry_dict e) ''prior_entry_id'' = PStr (we_prior e)"
    "fld (entry_dict e) ''payload'' = PDict 3 [(PStr ''identity'', PStr (we_identity e)),
        (PStr ''record'', PDict 4 (node_dict (we_record e)))]"
    by (simp_all add: entry_dict_def fld_simps)
  ultimately show ?thesis using e
    by (cases e) (simp add: check_entry_def entry_value_def wal_op_def we_ok_def wal_payload_value)
qed

text \<open>The tip after a list of entries.\<close>

definition tip_of :: "string \<Rightarrow> wal_entry list \<Rightarrow> string" where
  "tip_of tip es = (if es = [] then tip else we_id (last es))"

lemma tip_of_simps [simp]:
  "tip_of tip [] = tip" "tip_of tip (e # es) = tip_of (we_id e) es" "tip_of tip (es @ [e]) = we_id e"
  "tip_of tip (es @ fs) = tip_of (tip_of tip es) fs"
  by (simp_all add: tip_of_def)

lemma check_log_append:
  "check_log (vs @ ws) position tip = and_then (check_log vs position tip) (\<lambda>es.
     and_then (check_log ws (position + int (length vs)) (tip_of tip es)) (\<lambda>fs. Inr (es @ fs)))"
proof (induction vs arbitrary: position tip)
  case Nil
  show ?case by (cases "check_log ws position tip") simp_all
next
  case (Cons v vs)
  show ?case
  proof (cases "check_entry v position tip")
    case (Inr e)
    then show ?thesis using Cons [of "position + 1" "we_id e"]
      by (cases "check_log vs (position + 1) (we_id e)";
          cases "check_log ws (position + 1 + int (length vs)) (tip_of (we_id e) (projr (check_log vs (position + 1) (we_id e))))")
        (simp_all add: ac_simps)
  qed simp
qed

lemma check_log_length: "check_log vs position tip = Inr es \<Longrightarrow> length es = length vs"
  by (induction vs arbitrary: position tip es) auto

lemma check_log_entries: "check_log vs position tip = Inr es \<Longrightarrow> e \<in> set es \<Longrightarrow> entry_ok (we_identity e) (we_record e)"
  by (induction vs arbitrary: position tip es) (auto dest!: check_entry_ok simp: we_ok_def)

lemma check_log_value: "check_log vs position tip = Inr es \<Longrightarrow> check_log (map entry_value es) position tip = Inr es"
  by (induction vs arbitrary: position tip es) (auto dest!: check_entry_ok simp: check_entry_value)

lemma rederive_append: "rederive c (es @ fs) tip = and_then (rederive c es tip) (rederive c fs)"
  by (induction es arbitrary: tip) (auto simp: and_then_def require_def split: sum.split)

lemma rederive_tip: "rederive c es tip = Inr t \<Longrightarrow> t = tip_of tip es"
  by (induction es arbitrary: tip) auto

subsection \<open>The state of a log\<close>

lemma wal_effect_ok:
  assumes "gstate_ok st" "entry_ok (we_identity e) (we_record e)"
  shows "gstate_ok (wal_effect st e)"
proof (cases "we_op e = ''put''")
  case True
  have "distinct (map fst (dict_set st (we_identity e) (we_record e)))"
    using assms(1) by (simp add: gstate_ok_def)
  moreover have "set (dict_set st (we_identity e) (we_record e)) \<subseteq> insert (we_identity e, we_record e) (set st)"
    by (rule set_dict_set_subset)
  ultimately show ?thesis using assms True unfolding gstate_ok_def wal_effect_def by auto
next
  case False
  then show ?thesis unfolding wal_effect_def
    by (simp only: if_False, intro gstate_ok_subset [OF assms(1)] distinct_fst_filter)
      (use assms(1) in \<open>auto simp: gstate_ok_def\<close>)
qed

lemma log_state_snoc [simp]: "log_state (es @ [e]) = wal_effect (log_state es) e" "log_state [] = []"
  by (simp_all add: log_state_def)

lemma log_state_ok: "(\<forall>e \<in> set es. entry_ok (we_identity e) (we_record e)) \<Longrightarrow> gstate_ok (log_state es)"
proof (induction es rule: rev_induct)
  case Nil
  show ?case by (simp add: gstate_ok_def)
next
  case (snoc e es)
  then show ?case by (simp add: wal_effect_ok)
qed

lemma map_of_filter_neq: "map_of (filter (\<lambda>(key, r). key \<noteq> k) st) = (map_of st)(k := None)"
  by (induction st) auto

lemma map_of_wal_effect:
  "map_of (wal_effect st e) = (map_of st)(we_identity e := if we_op e = ''put'' then Some (we_record e) else None)"
  by (simp add: wal_effect_def map_of_filter_neq)

text \<open>Replay of a validated log never fails on the state: it is decided by the chain.\<close>

lemma replay_entries_checked:
  assumes "check_log vs position tip = Inr es"
  shows "replay_entries c es = and_then (rederive c es GENESIS) (\<lambda>t. Inr \<lparr>rp_state = log_state es,
    rp_state_id = gs_id (log_state es), rp_head = t, rp_applied = length es\<rparr>)"
proof -
  have "gstate_ok (log_state es)" using log_state_ok check_log_entries [OF assms] by blast
  then have "diff_state (state_value (log_state es)) = Inr (log_state es)" by (rule diff_state_value)
  then show ?thesis by (simp add: replay_entries_def checked_state_id_def)
qed

definition replay_of :: "wal_entry list \<Rightarrow> replayed" where
  "replay_of es = \<lparr>rp_state = log_state es, rp_state_id = gs_id (log_state es), rp_head = tip_of GENESIS es,
     rp_applied = length es\<rparr>"

lemma wal_replay_Inr:
  "wal_replay c (PList n vs) = Inr rp \<longleftrightarrow>
     (\<exists>es. check_log vs 1 GENESIS = Inr es \<and> accepts (rederive c es GENESIS) \<and> rp = replay_of es)"
  by (cases "check_log vs 1 GENESIS")
    (auto simp: wal_replay_def replay_entries_checked accepts_iff replay_of_def dest: rederive_tip)

text \<open>The logs that replay.\<close>

definition log_ok :: "canonicalizer \<Rightarrow> wal_entry list \<Rightarrow> bool" where
  "log_ok c es \<longleftrightarrow> check_log (map entry_value es) 1 GENESIS = Inr es \<and> accepts (rederive c es GENESIS)"

lemma check_entry_self: "check_entry (entry_value e) position tip = Inr f \<Longrightarrow> f = e"
proof -
  assume a: "check_entry (entry_value e) position tip = Inr f"
  obtain key r where p: "wal_payload (PDict 3 [(PStr ''identity'', PStr (we_identity e)),
      (PStr ''record'', PDict 4 (node_dict (we_record e)))]) = Inr (key, r)" and f: "f = e\<lparr>we_identity := key, we_record := r\<rparr>"
    using a by (cases e) (auto simp: check_entry_def entry_value_def entry_dict_def wal_op_def fld_simps)
  have "key = we_identity e" "diff_record (PDict 4 (node_dict (we_record e))) = Inr (key, r)"
    using p by (auto simp: wal_payload_def wal_record_iff fld_simps)
  then show "f = e" using f unfolding diff_record_iff by (cases e; cases r) simp
qed

lemma check_log_self: "check_log (map entry_value es) position tip = Inr fs \<Longrightarrow> fs = es"
  by (induction es arbitrary: position tip fs) (auto dest: check_entry_self)

lemma log_ok_replay: "log_ok c es \<longleftrightarrow> wal_replay c (log_value es) = Inr (replay_of es)"
  unfolding log_value_def wal_replay_Inr log_ok_def using check_log_self by blast

lemma wal_replay_ok: "wal_replay c (PList n vs) = Inr rp \<Longrightarrow> \<exists>es. check_log vs 1 GENESIS = Inr es \<and> log_ok c es \<and> rp = replay_of es"
  unfolding wal_replay_Inr log_ok_def using check_log_value by blast

subsection \<open>A request for a record\<close>

definition payload_value :: "string \<Rightarrow> node_record \<Rightarrow> pyval" where
  "payload_value key r = PDict 6 [(PStr ''identity'', PStr key), (PStr ''record'', PDict 7 (node_dict r))]"

definition request_value :: "string \<Rightarrow> string \<Rightarrow> node_record \<Rightarrow> pyval" where
  "request_value op key r = PDict 5 [(PStr ''op'', PStr op), (PStr ''payload'', payload_value key r)]"

lemma wal_request_value: "op \<in> set WAL_OPS \<Longrightarrow> entry_ok key r \<Longrightarrow> wal_request (request_value op key r) = Inr (op, key, r)"
  by (simp add: wal_request_def request_value_def payload_value_def wal_payload_value fld_simps keys_are_def wal_op_def)

end
