(* ===== verification/WalProps.thy ===== *)
theory WalProps
  imports WalFacts
begin

text \<open>
  Correctness of the write-ahead log: append accepts exactly what extends a replayable log and its result
  replays to the next state; any run of appends implements updates of a finite map; and with the honest
  canonicalizer the head of a log pins its whole content up to a collision of the digest.
\<close>

subsection \<open>Staging\<close>

lemma wal_request_ok: "wal_request v = Inr (op, key, r) \<Longrightarrow> op \<in> set WAL_OPS \<and> entry_ok key r"
  by (auto simp: wal_request_def wal_op_def matches_iff dest: wal_payload_entry split: pyval.splits)

lemma check_log_tip: "check_log vs position tip = Inr es \<Longrightarrow> prior_grammar tip \<Longrightarrow> prior_grammar (tip_of tip es)"
proof (induction vs arbitrary: position tip es)
  case (Cons v vs)
  then obtain e fs where e: "check_entry v position tip = Inr e" "check_log vs (position + 1) (we_id e) = Inr fs" "es = e # fs"
    by auto
  have "prior_grammar (we_id e)" using check_entry_ok [OF e(1)] by (simp add: we_ok_def prior_grammar_def)
  then show ?case using Cons.IH [OF e(2)] e(3) by simp
qed simp

lemma stage_entry_Inr:
  assumes "check_log vs 1 GENESIS = Inr es"
  shows "stage_entry c es (op, key, r) = Inr e \<longleftrightarrow> (\<exists>canonical. accepts (rederive c es GENESIS)
    \<and> canonicalize c key r = Inr canonical
    \<and> e = \<lparr>we_id = derive_entry_id (int (length es) + 1) op canonical (tip_of GENESIS es),
        we_sequence = int (length es) + 1, we_op = op, we_identity = key, we_record = r, we_prior = tip_of GENESIS es\<rparr>)"
  by (auto simp: stage_entry_def Let_def accepts_iff dest: rederive_tip)

lemma staged_log_ok:
  assumes "check_log vs 1 GENESIS = Inr es" "wal_request v = Inr (op, key, r)" "stage_entry c es (op, key, r) = Inr e"
  shows "log_ok c (es @ [e])"
proof -
  obtain canonical where e: "accepts (rederive c es GENESIS)" "canonicalize c key r = Inr canonical"
    "e = \<lparr>we_id = derive_entry_id (int (length es) + 1) op canonical (tip_of GENESIS es),
        we_sequence = int (length es) + 1, we_op = op, we_identity = key, we_record = r, we_prior = tip_of GENESIS es\<rparr>"
    using assms(3) unfolding stage_entry_Inr [OF assms(1)] by blast
  have "prior_grammar (tip_of GENESIS es)"
    by (rule check_log_tip [OF assms(1)]) (simp add: prior_grammar_def)
  then have "we_ok e (1 + int (length es)) (tip_of GENESIS es)"
    using wal_request_ok [OF assms(2)] e(3) by (simp add: we_ok_def derive_entry_id_def)
  then have "check_log (map entry_value (es @ [e])) 1 GENESIS = Inr (es @ [e])"
    using check_log_value [OF assms(1)] by (simp add: check_log_append check_entry_value)
  moreover obtain t where "rederive c es GENESIS = Inr t" using e(1) by (auto simp: accepts_iff)
  then have "accepts (rederive c (es @ [e]) GENESIS)"
    using e(2,3) rederive_tip by (simp add: rederive_append)
  ultimately show ?thesis by (simp add: log_ok_def)
qed

text \<open>A request that validates and has a canonical form.\<close>

definition wal_accepted :: "canonicalizer \<Rightarrow> pyval \<Rightarrow> (string \<times> string \<times> node_record) option" where
  "wal_accepted c v = (case wal_request v of
     Inr (op, key, r) \<Rightarrow> if accepts (canonicalize c key r) then Some (op, key, r) else None | Inl _ \<Rightarrow> None)"

lemma wal_append_cases:
  "(case wal_append c (PList n vs) v of
      Inl e \<Rightarrow> \<not> (accepts (wal_replay c (PList n vs)) \<and> wal_accepted c v \<noteq> None)
    | Inr (e, es') \<Rightarrow> (\<exists>es. check_log vs 1 GENESIS = Inr es \<and> log_ok c es \<and> log_ok c es' \<and> es' = es @ [e]
        \<and> wal_accepted c v = Some (we_op e, we_identity e, we_record e) \<and> we_prior e = tip_of GENESIS es))"
proof (cases "wal_request v")
  case (Inl e)
  then show ?thesis by (simp add: wal_append_def wal_accepted_def)
next
  case (Inr req)
  obtain op key r where req: "wal_request v = Inr (op, key, r)" using Inr by (cases req) auto
  show ?thesis
  proof (cases "check_log vs 1 GENESIS")
    case (Inl e)
    then show ?thesis by (simp add: wal_append_def wal_replay_def req)
  next
    case (Inr es)
    show ?thesis
    proof (cases "stage_entry c es (op, key, r)")
      case (Inl e)
      then have "\<not> (accepts (rederive c es GENESIS) \<and> accepts (canonicalize c key r))"
        using stage_entry_Inr [OF Inr, of c op key r] by (auto simp: accepts_iff)
      then show ?thesis using Inl by (auto simp: wal_append_def wal_replay_Inr wal_accepted_def req Inr accepts_iff)
    next
      case st: (Inr e)
      from st [unfolded stage_entry_Inr [OF Inr]] check_log_value [OF Inr]
      show ?thesis using staged_log_ok [OF Inr req st]
        by (auto simp: wal_append_def wal_accepted_def req Inr st log_ok_def)
    qed
  qed
qed

text \<open>C14. Append extends exactly the replayable logs: whatever log value, request and canonicalizer are
  given, append is accepted exactly if the log replays under that canonicalizer and the request is valid
  and has a canonical form. It then stages one entry whose prior link is the head of the old replay, and
  the committed log replays, to the old state with the entry's operation applied, one more entry and the
  new entry's id as its head.\<close>

theorem wal_append_extends:
  "case wal_append c log v of
     Inl e \<Rightarrow> \<not> (accepts (wal_replay c log) \<and> wal_accepted c v \<noteq> None)
   | Inr (e, es) \<Rightarrow> wal_accepted c v = Some (we_op e, we_identity e, we_record e)
       \<and> (\<exists>rp. wal_replay c log = Inr rp \<and> we_prior e = rp_head rp
           \<and> wal_replay c (log_value es) = Inr \<lparr>rp_state = wal_effect (rp_state rp) e,
               rp_state_id = gs_id (wal_effect (rp_state rp) e), rp_head = we_id e, rp_applied = Suc (rp_applied rp)\<rparr>)"
proof (cases log)
  case (PList n vs)
  show ?thesis
  proof (cases "wal_append c (PList n vs) v")
    case (Inl e)
    then show ?thesis using wal_append_cases [of c n vs v] by (simp add: PList)
  next
    case (Inr p)
    obtain e es' where p: "p = (e, es')" by (cases p)
    then obtain es where es: "check_log vs 1 GENESIS = Inr es" "log_ok c es" "log_ok c es'" "es' = es @ [e]"
      "wal_accepted c v = Some (we_op e, we_identity e, we_record e)" "we_prior e = tip_of GENESIS es"
      using wal_append_cases [of c n vs v] Inr by auto
    have "wal_replay c log = Inr (replay_of es)"
      unfolding PList wal_replay_Inr using es(1,2) by (simp add: log_ok_def)
    moreover have "wal_replay c (log_value es') = Inr (replay_of es')" using es(3) log_ok_replay by blast
    ultimately show ?thesis using es(4-6) Inr p by (simp add: PList replay_of_def)
  qed
qed (simp_all add: wal_append_def wal_replay_def)

subsection \<open>Runs\<close>

definition wal_cmd :: "canonicalizer \<Rightarrow> wal_entry list \<Rightarrow> pyval \<Rightarrow> (wal_error, wal_entry list) result" where
  "wal_cmd c es v = and_then (wal_append c (log_value es) v) (\<lambda>(e, es'). Inr es')"

lemma wal_cmd_step:
  assumes "log_ok c es"
  shows "case wal_cmd c es v of Inl _ \<Rightarrow> wal_accepted c v = None
    | Inr es' \<Rightarrow> log_ok c es' \<and> (\<exists>e. es' = es @ [e] \<and> wal_accepted c v = Some (we_op e, we_identity e, we_record e))"
proof (cases "wal_append c (log_value es) v")
  case (Inl e)
  have "accepts (wal_replay c (log_value es))" using assms log_ok_replay by (metis accepts_simps(1))
  then have "wal_accepted c v = None" using wal_append_cases [of c 0 "map entry_value es" v] Inl
    by (cases "wal_accepted c v") (simp_all flip: log_value_def)
  then show ?thesis using Inl by (simp add: wal_cmd_def)
next
  case (Inr p)
  then show ?thesis using wal_append_cases [of c 0 "map entry_value es" v] assms
    by (cases p) (auto simp: wal_cmd_def log_ok_def simp flip: log_value_def)
qed

interpretation wm: guarded_machine "wal_cmd c" "log_ok c" "\<lambda>es es'. \<exists>fs. es' = es @ fs" for c
proof
  fix es v es' assume a: "log_ok c es" and b: "wal_cmd c es v = Inr es'"
  from wal_cmd_step [OF a, of v] show "log_ok c es'" "\<exists>fs. es' = es @ fs" using b by auto
qed auto

lemma log_ok_Nil [simp]: "log_ok c []"
  by (simp add: log_ok_def)

text \<open>The abstract specification: a finite map from keys to records.\<close>

fun map_effect :: "(string \<rightharpoonup> node_record) \<Rightarrow> string \<times> string \<times> node_record \<Rightarrow> (string \<rightharpoonup> node_record)" where
  "map_effect m (op, key, r) = m(key := if op = ''put'' then Some r else None)"

lemma wal_run_refines:
  "\<exists>es'. run (wal_cmd c) es vs = es' \<and> (log_ok c es \<longrightarrow> map_of (log_state es') =
       foldl map_effect (map_of (log_state es)) (List.map_filter (wal_accepted c) vs)
     \<and> length es' = length es + length (List.map_filter (wal_accepted c) vs))"
proof (induction vs arbitrary: es)
  case (Cons v vs)
  show ?case
  proof (cases "log_ok c es")
    case True
    show ?thesis
    proof (cases "wal_cmd c es v")
      case (Inl e)
      then show ?thesis using wal_cmd_step [OF True, of v] Cons.IH [of es]
        by (simp add: step_or_stay_def List.map_filter_simps)
    next
      case (Inr es')
      then obtain e where "log_ok c es'" "es' = es @ [e]" "wal_accepted c v = Some (we_op e, we_identity e, we_record e)"
        using wal_cmd_step [OF True, of v] by auto
      moreover from this have "map_of (log_state es') = map_effect (map_of (log_state es)) (we_op e, we_identity e, we_record e)"
        by (simp only: log_state_snoc map_of_wal_effect map_effect.simps)
      ultimately show ?thesis using Cons.IH [of es'] Inr
        by (simp add: step_or_stay_def List.map_filter_simps del: map_effect.simps log_state_snoc)
    qed
  qed simp
qed (simp add: List.map_filter_simps)

text \<open>C10. Durability: the log implements a finite map. After any sequence of append requests on an empty
  log, accepted or rejected, the log replays, its state is the map that the accepted requests (the valid
  ones that have a canonical form) update one after the other, each of them has exactly one entry, and the
  state id is the digest of that state.\<close>

theorem wal_refines_map:
  "\<exists>rp. wal_replay c (log_value (run (wal_cmd c) [] vs)) = Inr rp
     \<and> map_of (rp_state rp) = foldl map_effect Map.empty (List.map_filter (wal_accepted c) vs)
     \<and> distinct (map fst (rp_state rp))
     \<and> rp_applied rp = length (List.map_filter (wal_accepted c) vs)
     \<and> rp_state_id rp = gs_id (rp_state rp)"
proof -
  let ?es = "run (wal_cmd c) [] vs"
  have ok: "log_ok c ?es" by (rule wm.run_inv) simp
  then have "gstate_ok (log_state ?es)"
    using log_state_ok check_log_entries unfolding log_ok_def by blast
  moreover have "wal_replay c (log_value ?es) = Inr (replay_of ?es)" using ok log_ok_replay by blast
  ultimately show ?thesis using wal_run_refines [of c "[]" vs]
    by (simp add: replay_of_def gstate_ok_def)
qed

subsection \<open>Tamper evidence\<close>

text \<open>The text whose digest is the id of an entry under the honest canonicalizer.\<close>

definition entry_text :: "wal_entry \<Rightarrow> string" where
  "entry_text e = join_on CHR 0x0A [int_text (we_sequence e), we_op e, we_identity e, nr_variant (we_record e),
     nr_digest (we_record e), nr_snapshot (we_record e), we_prior e]"

lemma honest_entry_id:
  "derive_entry_id (we_sequence e) (we_op e) (payload_text (we_identity e) (we_record e)) (we_prior e)
     = tagged ''wal1'' (entry_text e)"
  by (simp add: derive_entry_id_def payload_text_def entry_text_def)

lemma int_text_plain: "CHR 0x0A \<notin> set (int_text n)"
proof -
  have "CHR 0x0A \<notin> set (dec m)" for m
  proof
    assume "CHR 0x0A \<in> set (dec m)"
    then have "is_digit CHR 0x0A" using dec_digits [of m] by (simp only: list_all_iff)
    then show False by (simp add: is_digit_def)
  qed
  then show ?thesis by (simp add: int_text_def)
qed

lemma tag_plain:
  assumes "tag_grammar prefix s" "CHR 0x0A \<notin> set prefix"
  shows "CHR 0x0A \<notin> set s"
proof -
  let ?n = "length prefix + 1"
  have "CHR 0x0A \<notin> set (take ?n s)" "CHR 0x0A \<notin> set (drop ?n s)"
    using assms hex_plain [of "drop ?n s"] unfolding tag_grammar_def by simp_all
  then show ?thesis using set_append [of "take ?n s" "drop ?n s"] unfolding append_take_drop_id by blast
qed

lemma entry_text_plain:
  assumes "we_ok e position tip"
  shows "\<forall>p \<in> set [int_text (we_sequence e), we_op e, we_identity e, nr_variant (we_record e),
     nr_digest (we_record e), nr_snapshot (we_record e), we_prior e]. CHR 0x0A \<notin> set p"
proof -
  note e = assms [unfolded we_ok_def]
  have "CHR 0x0A \<notin> set (we_op e)" using e by (auto simp: WAL_OPS_def)
  moreover have "CHR 0x0A \<notin> set (we_identity e)" "CHR 0x0A \<notin> set (record_body (we_record e))"
    using e entry_key_plain entry_body_plain by blast+
  moreover have "CHR 0x0A \<notin> set (we_prior e)"
    using e tag_plain [of "''wal1''" "we_prior e"] by (auto simp: prior_grammar_def GENESIS_def)
  ultimately show ?thesis using int_text_plain by (auto simp: record_body_def)
qed

text \<open>The texts that were hashed for the entries of a log.\<close>

definition log_texts :: "pyval \<Rightarrow> string list" where
  "log_texts log = (case log of PList _ vs \<Rightarrow>
     (case check_log vs 1 GENESIS of Inr es \<Rightarrow> map entry_text es | Inl _ \<Rightarrow> []) | _ \<Rightarrow> [])"

lemma entry_text_inj:
  assumes "we_ok e n t" "we_ok f m u" "entry_text e = entry_text f"
  shows "we_op e = we_op f \<and> we_identity e = we_identity f \<and> we_record e = we_record f \<and> we_prior e = we_prior f"
  using assms(3) join_inj [OF _ _ entry_text_plain [OF assms(1)] entry_text_plain [OF assms(2)]]
  unfolding entry_text_def by (cases "we_record e"; cases "we_record f") simp

lemma check_log_snoc:
  assumes "check_log (map entry_value (es @ [e])) 1 GENESIS = Inr (es @ [e])"
  shows "check_log (map entry_value es) 1 GENESIS = Inr es \<and> we_ok e (1 + int (length es)) (tip_of GENESIS es)"
proof -
  obtain fs g where fs: "check_log (map entry_value es) 1 GENESIS = Inr fs"
    "check_entry (entry_value e) (1 + int (length es)) (tip_of GENESIS fs) = Inr g"
    using assms by (auto simp: check_log_append)
  then show ?thesis using check_log_self [OF fs(1)] check_entry_self [OF fs(2)] check_entry_ok by blast
qed

lemma honest_log_snoc:
  assumes "log_ok canonical_payload (es @ [e])"
  shows "log_ok canonical_payload es \<and> we_ok e (1 + int (length es)) (tip_of GENESIS es) \<and> we_id e = tagged ''wal1'' (entry_text e)"
proof -
  obtain t where "rederive canonical_payload (es @ [e]) GENESIS = Inr t" using assms by (auto simp: log_ok_def accepts_iff)
  then obtain u where "rederive canonical_payload es GENESIS = Inr u" "we_id e = tagged ''wal1'' (entry_text e)"
    by (auto simp: rederive_append canonicalize_def canonical_payload_def honest_entry_id)
  moreover have "check_log (map entry_value (es @ [e])) 1 GENESIS = Inr (es @ [e])" using assms by (simp only: log_ok_def)
  ultimately show ?thesis using check_log_snoc [of es e] by (simp only: log_ok_def accepts_simps simp_thms)
qed

lemma tagged_not_genesis: "tagged ''wal1'' s \<noteq> GENESIS"
  by (simp add: tagged_def GENESIS_def)

lemma head_pins_log:
  assumes "log_ok canonical_payload es" "log_ok canonical_payload fs" "tip_of GENESIS es = tip_of GENESIS fs"
    and "\<forall>e \<in> set es. \<forall>f \<in> set fs. sha256_hex (entry_text e) = sha256_hex (entry_text f) \<longrightarrow> entry_text e = entry_text f"
  shows "es = fs"
  using assms
proof (induction es arbitrary: fs rule: rev_induct)
  case Nil
  show ?case
  proof (cases fs rule: rev_cases)
    case (snoc fs' f)
    then show ?thesis using honest_log_snoc [of fs' f] Nil tagged_not_genesis by (metis tip_of_simps(1,3))
  qed simp
next
  case (snoc e es)
  note e = honest_log_snoc [OF snoc.prems(1)]
  show ?case
  proof (cases fs rule: rev_cases)
    case Nil
    then show ?thesis using e snoc.prems(3) tagged_not_genesis by (metis tip_of_simps(1,3))
  next
    case fs: (snoc fs' f)
    note f = honest_log_snoc [OF snoc.prems(2) [unfolded fs]]
    have id: "we_id e = we_id f" using snoc.prems(3) by (simp add: fs)
    then have "sha256_hex (entry_text e) = sha256_hex (entry_text f)" using e f by (simp add: tagged_def)
    then have t: "entry_text e = entry_text f" using snoc.prems(4) by (simp add: fs)
    have eq: "we_op e = we_op f" "we_identity e = we_identity f" "we_record e = we_record f" "we_prior e = we_prior f"
      using entry_text_inj [OF _ _ t] e f by blast+
    have tips: "tip_of GENESIS es = tip_of GENESIS fs'" using eq(4) e f by (simp add: we_ok_def)
    have es: "es = fs'"
      by (rule snoc.IH) (use e f tips snoc.prems(4) fs in simp_all)
    have "we_sequence e = we_sequence f" using e f es by (simp add: we_ok_def)
    then show ?thesis using eq id es fs by simp
  qed
qed

text \<open>C15. Tamper evidence: the head of a log pins its whole content. If two log values replay under the
  honest canonicalizer to one head, they hold the same entries and replay to the same state, or among the
  texts hashed for their entries two different ones have one SHA-256 digest.\<close>

theorem wal_head_pins_log:
  assumes "wal_replay canonical_payload (PList n vs) = Inr rp" and "wal_replay canonical_payload (PList m ws) = Inr rq"
    and "rp_head rp = rp_head rq"
  shows "(rp = rq \<and> check_log vs 1 GENESIS = check_log ws 1 GENESIS)
    \<or> (\<exists>s \<in> set (log_texts (PList n vs)). \<exists>t \<in> set (log_texts (PList m ws)). s \<noteq> t \<and> sha256_hex s = sha256_hex t)"
proof -
  obtain es where es: "check_log vs 1 GENESIS = Inr es" "log_ok canonical_payload es" "rp = replay_of es"
    using wal_replay_ok [OF assms(1)] by blast
  obtain fs where fs: "check_log ws 1 GENESIS = Inr fs" "log_ok canonical_payload fs" "rq = replay_of fs"
    using wal_replay_ok [OF assms(2)] by blast
  have tips: "tip_of GENESIS es = tip_of GENESIS fs" using assms(3) es(3) fs(3) by (simp add: replay_of_def)
  have "set (log_texts (PList n vs)) = entry_text ` set es" "set (log_texts (PList m ws)) = entry_text ` set fs"
    using es(1) fs(1) by (simp_all add: log_texts_def)
  then show ?thesis using head_pins_log [OF es(2) fs(2) tips] es fs by auto
qed

text \<open>A log of one entry, which puts the starting position.\<close>

lemma sample_log: "\<exists>e. log_ok canonical_payload [e] \<and> we_op e = ''put'' \<and> nr_snapshot (we_record e) = start_fen"
proof -
  obtain key r where e: "entry_ok key r" "nr_snapshot r = start_fen" using start_entry by force
  have "wal_accepted canonical_payload (request_value ''put'' key r) = Some (''put'', key, r)"
    using e by (simp add: wal_accepted_def wal_request_value WAL_OPS_def canonicalize_def canonical_payload_def)
  then show ?thesis using wal_cmd_step [OF log_ok_Nil, of canonical_payload "request_value ''put'' key r"] e(2)
    by (cases "wal_cmd canonical_payload [] (request_value ''put'' key r)") auto
qed

theorem wal_head_pins_log_witness:
  "\<exists>e rp rq. wal_replay canonical_payload (PList 0 [entry_value e]) = Inr rp
    \<and> wal_replay canonical_payload (PList 9 [PDict 8 (rev (entry_dict e))]) = Inr rq \<and> rp_applied rq = 1
    \<and> (rp = rq \<or> (\<exists>s \<in> set (log_texts (PList 0 [entry_value e])). \<exists>t \<in> set (log_texts (PList 9 [PDict 8 (rev (entry_dict e))])).
        s \<noteq> t \<and> sha256_hex s = sha256_hex t))"
proof -
  obtain e where e: "log_ok canonical_payload [e]" using sample_log by blast
  then have c: "check_log [entry_value e] 1 GENESIS = Inr [e]" by (simp add: log_ok_def)
  have "distinct (map fst (entry_dict e))" "distinct (map fst (rev (entry_dict e)))" by (simp_all add: entry_dict_def)
  then have "map_of (rev (entry_dict e)) = map_of (entry_dict e)" by (subst map_of_inject_set) simp_all
  then have f: "fld (rev (entry_dict e)) = fld (entry_dict e)" by (rule_tac ext) (simp add: fld_def pget_def)
  have k: "keys_are (rev (entry_dict e)) WAL_FIELDS = keys_are (entry_dict e) WAL_FIELDS"
    by (simp add: keys_are_def list_all_iff)
  have "check_entry (PDict 8 (rev (entry_dict e))) n t = check_entry (entry_value e) n t" for n t
    unfolding check_entry_def entry_value_def pyval.case f k ..
  then have "check_log [PDict 8 (rev (entry_dict e))] 1 GENESIS = Inr [e]" using c by simp
  then have r: "wal_replay canonical_payload (PList 9 [PDict 8 (rev (entry_dict e))]) = Inr (replay_of [e])"
    "wal_replay canonical_payload (PList 0 [entry_value e]) = Inr (replay_of [e])"
    using e c unfolding wal_replay_Inr log_ok_def by blast+
  from wal_head_pins_log [OF r(2,1) refl] show ?thesis using r
    by (intro exI [of _ e] exI [of _ "replay_of [e]"]) (auto simp: replay_of_def)
qed

end
