(* ===== verification/StoreLog.thy ===== *)
theory StoreLog
  imports WalProps
begin

text \<open>
  What the store runtimes over the write-ahead log share: a validated log is closed under prefixes, so a
  search for a surviving prefix ends at the longest one, and the length-framed texts of their tokens.
\<close>

subsection \<open>Prefix-closed logs\<close>

text \<open>\<open>for k in range(n, -1, -1)\<close>: the first valid prefix from the top; None is the \<open>AssertionError\<close>
  after the loop.\<close>

fun search_down :: "('a list \<Rightarrow> bool) \<Rightarrow> 'a list \<Rightarrow> nat \<Rightarrow> nat option" where
  "search_down valid xs 0 = (if valid (take 0 xs) then Some 0 else None)"
| "search_down valid xs (Suc k) = (if valid (take (Suc k) xs) then Some (Suc k) else search_down valid xs k)"

locale prefix_log =
  fixes valid :: "'a list \<Rightarrow> bool"
  assumes valid_Nil: "valid []"
    and valid_take: "valid xs \<Longrightarrow> valid (take k xs)"
begin

lemma search_total: "\<exists>k \<le> n. search_down valid xs n = Some k"
  by (induction n) (auto simp: valid_Nil intro: le_SucI)

lemma search_le: "search_down valid xs n = Some k \<Longrightarrow> k \<le> n"
  using search_total [of n xs] by auto

lemma valid_shorter: "valid (take k xs) \<Longrightarrow> j \<le> k \<Longrightarrow> valid (take j xs)"
  using valid_take [of "take k xs" j] by (simp add: min.absorb2 min.absorb1)

lemma search_longest: "search_down valid xs n = Some k \<Longrightarrow> {j. j \<le> n \<and> valid (take j xs)} = {..k}"
proof (induction n)
  case 0
  then show ?case by (auto split: if_splits)
next
  case (Suc n)
  show ?case
  proof (cases "valid (take (Suc n) xs)")
    case True
    then show ?thesis using Suc.prems valid_shorter [OF True] by auto
  next
    case False
    then have "{j. j \<le> Suc n \<and> valid (take j xs)} = {j. j \<le> n \<and> valid (take j xs)}" by (auto simp: le_Suc_eq)
    then show ?thesis using Suc False by simp
  qed
qed

end

lemma check_log_take: "check_log vs position tip = Inr es \<Longrightarrow> check_log (take k vs) position tip = Inr (take k es)"
proof (induction vs arbitrary: position tip es k)
  case (Cons v vs)
  then show ?case by (cases k) auto
qed simp

lemma rederive_take: "accepts (rederive c es tip) \<Longrightarrow> accepts (rederive c (take k es) tip)"
  using rederive_append [of c "take k es" "drop k es" tip] by (auto simp: accepts_iff)

lemma wal_replay_take:
  assumes "wal_replay c (PList n vs) = Inr rp"
  shows "\<exists>es. check_log vs 1 GENESIS = Inr es \<and> rp = replay_of es
    \<and> wal_replay c (PList m (take k vs)) = Inr (replay_of (take k es))"
proof -
  obtain es where es: "check_log vs 1 GENESIS = Inr es" "accepts (rederive c es GENESIS)" "rp = replay_of es"
    using assms unfolding wal_replay_Inr by blast
  then show ?thesis unfolding wal_replay_Inr using check_log_take rederive_take by blast
qed

definition replays :: "canonicalizer \<Rightarrow> pyval list \<Rightarrow> bool" where
  "replays c vs \<longleftrightarrow> accepts (wal_replay c (PList 0 vs))"

interpretation wl: prefix_log "replays c" for c
proof
  have "wal_replay c (PList 0 []) = Inr (replay_of [])" unfolding wal_replay_Inr by simp
  then show "replays c []" by (simp add: replays_def)
next
  fix vs k assume "replays c vs"
  then show "replays c (take k vs)" unfolding replays_def accepts_iff using wal_replay_take by blast
qed

interpretation al: prefix_log "list_all P" for P :: "pyval \<Rightarrow> bool"
  by unfold_locales (auto simp: list_all_iff dest: in_set_takeD)

lemma replays_value: "log_ok c es \<Longrightarrow> replays c (map entry_value es)"
  unfolding replays_def using log_ok_replay by (simp add: log_value_def)

lemma log_ok_take: "log_ok c es \<Longrightarrow> log_ok c (take k es)"
  unfolding log_ok_def using check_log_take rederive_take by (metis take_map)

text \<open>The frozen copy that the code makes of a validated log.\<close>

definition freeze_log :: "pyval \<Rightarrow> wal_entry list" where
  "freeze_log log = (case log of PList _ vs \<Rightarrow> (case check_log vs 1 GENESIS of Inr es \<Rightarrow> es | Inl _ \<Rightarrow> [])
     | _ \<Rightarrow> [])"

lemma freeze_log_value [simp]: "log_ok c es \<Longrightarrow> freeze_log (log_value es) = es"
  by (simp add: freeze_log_def log_value_def log_ok_def)

subsection \<open>Length-framed texts\<close>

text \<open>Lengths are in characters.\<close>

definition framed :: "string \<Rightarrow> string" where
  "framed text = dec (length (code_points text)) @ CHR '':'' # text"

definition framed_digest :: "string \<Rightarrow> string list \<Rightarrow> string" where
  "framed_digest prefix texts = tagged prefix (join_on CHR ''|'' (prefix # map framed texts))"

lemma framed_digest_grammar [simp]: "tag_grammar prefix (framed_digest prefix texts)"
  by (simp add: framed_digest_def)

end
