(* ===== verification/Rollback.thy ===== *)
theory Rollback
  imports StoreLog
begin

text \<open>
  Truncation of a log to an earlier position, \<open>src/store/rollback.py\<close> over
  \<open>src/data/contracts/rollback.yaml\<close>. The tail archiver is the caller's code: a parameter that gives the
  value it returns for the frozen tail, or None if it raises.
\<close>

datatype rollback_error = Malformed_rollback_record | Unknown_target | Rb_corrupt_source | Divergent_archive

fun rollback_code :: "rollback_error \<Rightarrow> string" where
  "rollback_code Malformed_rollback_record = ''malformed_request''"
| "rollback_code Unknown_target = ''unknown_target''"
| "rollback_code Rb_corrupt_source = ''corrupt_source''"
| "rollback_code Divergent_archive = ''divergent_archive''"

type_synonym archiver = "wal_entry list \<Rightarrow> pyval option"

definition archive_tail :: "wal_entry list \<Rightarrow> string" where
  "archive_tail tail = framed_digest ''arc1'' (concat (map (\<lambda>e. [int_text (we_sequence e), we_op e, we_id e,
     we_prior e, we_identity e, nr_variant (we_record e), nr_digest (we_record e), nr_snapshot (we_record e)]) tail))"

definition derive_rollback_id :: "string \<Rightarrow> string \<Rightarrow> nat \<Rightarrow> string \<Rightarrow> string" where
  "derive_rollback_id from_head to_head truncated token =
     tagged ''rbk1'' (join_on CHR 0x0A [from_head, to_head, dec truncated, token])"

definition archive :: "archiver \<Rightarrow> wal_entry list \<Rightarrow> (rollback_error, string) result" where
  "archive a tail = (case a tail of
     Some (PStr out) \<Rightarrow> require (tag_grammar ''arc1'' out) Divergent_archive (Inr out)
   | _ \<Rightarrow> Inl Divergent_archive)"

record rollback_receipt =
  rb_id :: string
  rb_from :: string
  rb_to :: string
  rb_count :: nat
  rb_token :: string

text \<open>The receipt and what is left of the log.\<close>

definition rollback :: "archiver \<Rightarrow> pyval \<Rightarrow> pyval \<Rightarrow> (rollback_error, rollback_receipt \<times> pyval list) result" where
  "rollback a log request = (case (log, request) of (PList _ vs, PDict _ d) \<Rightarrow>
       require (keys_are d [''target_sequence'']) Malformed_rollback_record
       (case fld d ''target_sequence'' of PInt n \<Rightarrow>
          (case wal_replay canonical_payload log of Inl _ \<Rightarrow> Inl Rb_corrupt_source
           | Inr _ \<Rightarrow>
               require (\<not> (n < 0 \<or> n > int (length vs))) Unknown_target
               (let frozen = freeze_log log; target = nat n; tail = drop target frozen in
                and_then (archive a tail) (\<lambda>token.
                require (token = archive_tail tail) Divergent_archive
                (let from_head = (if frozen \<noteq> [] then we_id (last frozen) else GENESIS);
                     to_head = (if target \<noteq> 0 then we_id (frozen ! (target - 1)) else GENESIS);
                     truncated = length frozen - target in
                 Inr (\<lparr>rb_id = derive_rollback_id from_head to_head truncated token, rb_from = from_head,
                    rb_to = to_head, rb_count = truncated, rb_token = token\<rparr>, take target vs)))))
        | _ \<Rightarrow> Inl Malformed_rollback_record)
     | _ \<Rightarrow> Inl Malformed_rollback_record)"

subsection \<open>Correctness\<close>

definition rollback_request :: "nat \<Rightarrow> pyval" where
  "rollback_request target = PDict 1 [(PStr ''target_sequence'', PInt (int target))]"

definition honest_archiver :: archiver where
  "honest_archiver tail = Some (PStr (archive_tail tail))"

lemma honest_archive: "archive honest_archiver tail = Inr (archive_tail tail)"
  by (simp add: archive_def honest_archiver_def archive_tail_def)

lemma tip_of_take: "k \<le> length es \<Longrightarrow> tip_of tip (take k es) = (if k \<noteq> 0 then we_id (es ! (k - 1)) else tip)"
  by (cases k) (auto simp: tip_of_def take_Suc_conv_app_nth)

text \<open>What an accepted rollback does, whatever the archiver.\<close>

lemma rollback_Inr:
  assumes "rollback a log request = Inr (rc, ws)"
  obtains n vs es k where "log = PList n vs" "check_log vs 1 GENESIS = Inr es" "k \<le> length es" "ws = take k vs"
    "wal_replay canonical_payload log = Inr (replay_of es)"
    "wal_replay canonical_payload (PList n ws) = Inr (replay_of (take k es))"
    "rb_from rc = tip_of GENESIS es" "rb_to rc = tip_of GENESIS (take k es)" "rb_count rc = length es - k"
    "rb_token rc = archive_tail (drop k es)" "a (drop k es) = Some (PStr (rb_token rc))"
proof -
  obtain n vs m d where l: "log = PList n vs" "request = PDict m d"
    using assms by (auto simp: rollback_def split: pyval.splits)
  obtain t where t: "fld d ''target_sequence'' = PInt t"
    using assms by (auto simp: rollback_def l split: pyval.splits)
  obtain rp where rp: "wal_replay canonical_payload log = Inr rp"
    using assms by (auto simp: rollback_def l t split: sum.splits)
  from wal_replay_take [OF rp [unfolded l], of n "nat t"] obtain es where es: "check_log vs 1 GENESIS = Inr es"
    "rp = replay_of es" "wal_replay canonical_payload (PList n (take (nat t) vs)) = Inr (replay_of (take (nat t) es))" by blast
  have f: "freeze_log log = es" by (simp add: freeze_log_def l es(1))
  have len: "length es = length vs" using check_log_length [OF es(1)] .
  have le: "nat t \<le> length es" using assms by (auto simp: rollback_def l t rp [unfolded l] len)
  obtain token where tk: "archive a (drop (nat t) es) = Inr token" "token = archive_tail (drop (nat t) es)"
    using assms by (auto simp: rollback_def l t rp [unfolded l] f [unfolded l] Let_def)
  have a: "a (drop (nat t) es) = Some (PStr token)" using tk(1) by (auto simp: archive_def split: option.splits pyval.splits)
  have "rb_from rc = tip_of GENESIS es" "rb_to rc = tip_of GENESIS (take (nat t) es)" "rb_count rc = length es - nat t"
    "rb_token rc = token" "ws = take (nat t) vs"
    using assms tk le by (auto simp: rollback_def l t rp [unfolded l] f [unfolded l] Let_def tip_of_take) (auto simp: tip_of_def)
  then show thesis using that [OF l(1) es(1) le] rp es(2,3) tk(2) a l(1) by simp
qed

lemma rollback_length:
  assumes ok0: "log_ok canonical_payload es0"
  shows "\<exists>rc. rollback honest_archiver (log_value (run (wal_cmd canonical_payload) es0 vs)) (rollback_request (length es0))
      = Inr (rc, map entry_value es0)
    \<and> rb_from rc = tip_of GENESIS (run (wal_cmd canonical_payload) es0 vs) \<and> rb_to rc = tip_of GENESIS es0
    \<and> rb_count rc = length (List.map_filter (wal_accepted canonical_payload) vs)"
proof -
  let ?es = "run (wal_cmd canonical_payload) es0 vs"
  have ok: "log_ok canonical_payload ?es" using ok0 by (rule wm.run_inv)
  obtain fs where fs: "?es = es0 @ fs" using wm.run_le [OF ok0] by blast
  have count: "length ?es - length es0 = length (List.map_filter (wal_accepted canonical_payload) vs)"
    using wal_run_refines [of canonical_payload es0 vs] ok0 by auto
  have rp: "wal_replay canonical_payload (log_value ?es) = Inr (replay_of ?es)" using ok log_ok_replay by blast
  have "take (length es0) (map entry_value ?es) = map entry_value es0" by (simp add: fs)
  then have "\<exists>rc. rollback honest_archiver (log_value ?es) (rollback_request (length es0)) = Inr (rc, map entry_value es0)"
    using rp freeze_log_value [OF ok] fs
    by (simp add: rollback_def rollback_request_def log_value_def keys_are_def fld_simps honest_archive Let_def)
  then obtain rc where rc: "rollback honest_archiver (log_value ?es) (rollback_request (length es0)) = Inr (rc, map entry_value es0)" ..
  from rc show ?thesis
  proof (rule rollback_Inr)
    fix n ws es k assume a: "log_value ?es = PList n ws" "check_log ws 1 GENESIS = Inr es" "k \<le> length es"
      "map entry_value es0 = take k ws" "rb_from rc = tip_of GENESIS es" "rb_to rc = tip_of GENESIS (take k es)"
      "rb_count rc = length es - k"
    have es: "es = ?es" using a(1,2) ok by (simp add: log_value_def log_ok_def)
    have "length (map entry_value es0) = k" using a(3,4) check_log_length [OF a(2)] by simp
    then show ?thesis using rc a(5-7) count es fs by simp
  qed
qed

text \<open>C17. Rollback undoes: after any run of append requests that follows any earlier run, a rollback to the
  length the log had in between, with the honest archiver, is accepted; it gives back exactly the earlier
  log (which replays to the earlier state), and the receipt names the heads of the two logs and the number
  of entries that the later requests appended.\<close>

theorem rollback_undoes:
  "let es0 = run (wal_cmd canonical_payload) [] us; es = run (wal_cmd canonical_payload) es0 vs in
   \<exists>rc rp rq. rollback honest_archiver (log_value es) (rollback_request (length es0)) = Inr (rc, map entry_value es0)
    \<and> wal_replay canonical_payload (log_value es) = Inr rp \<and> wal_replay canonical_payload (log_value es0) = Inr rq
    \<and> rb_from rc = rp_head rp \<and> rb_to rc = rp_head rq
    \<and> rb_count rc = length (List.map_filter (wal_accepted canonical_payload) vs)"
proof -
  let ?es0 = "run (wal_cmd canonical_payload) [] us"
  have ok: "log_ok canonical_payload ?es0" by (rule wm.run_inv) simp
  note ok' = wm.run_inv [OF ok, of vs]
  from rollback_length [OF ok, of vs] ok [unfolded log_ok_replay] ok' [unfolded log_ok_replay]
  show ?thesis by (auto simp: Let_def replay_of_def)
qed

end
