(* ===== verification/CrashResume.thy ===== *)
theory CrashResume
  imports StoreLog Payload
begin

text \<open>
  Recovery of a log after a crash, \<open>src/store/crash_resume.py\<close> over \<open>src/data/contracts/crash_resume.yaml\<close>:
  the longest prefix that is admissible and replays survives, everything from the first invalid entry on is
  quarantined and removed, and an entry at or before the durable checkpoint is never given up. The
  quarantine sink is the caller's code: a parameter that gives the value it returns for the frozen tail, or
  None if it raises.
\<close>

datatype resume_error = Malformed_resume_record | Unknown_checkpoint | Rs_corrupt_source | Divergent_quarantine
  | Uncaught

text \<open>\<open>Uncaught\<close> is an exception without a class: the \<open>AssertionError\<close> after the search, or an error of
  the replay of the prefix that has just replayed. No input leads there.\<close>

fun resume_code :: "resume_error \<Rightarrow> string option" where
  "resume_code Malformed_resume_record = Some ''malformed_request''"
| "resume_code Unknown_checkpoint = Some ''unknown_checkpoint''"
| "resume_code Rs_corrupt_source = Some ''corrupt_source''"
| "resume_code Divergent_quarantine = Some ''divergent_quarantine''"
| "resume_code Uncaught = None"

type_synonym quarantine_sink = "json list \<Rightarrow> pyval option"

text \<open>The admission walk starts with no container met: sharing between two entries is admissible.\<close>

definition is_canonical_json :: "pyval \<Rightarrow> bool" where
  "is_canonical_json v \<longleftrightarrow> payload_ok v [] \<noteq> None"

definition quarantine_tail :: "json list \<Rightarrow> string" where
  "quarantine_tail tail = framed_digest ''qtn1'' (map (canon False) tail)"

definition valid_prefix_length :: "pyval list \<Rightarrow> nat option" where
  "valid_prefix_length vs = search_down (replays canonical_payload) vs (length (takeWhile is_canonical_json vs))"

definition quarantine :: "quarantine_sink \<Rightarrow> json list \<Rightarrow> (resume_error, string) result" where
  "quarantine sink tail = (case sink tail of
     Some (PStr out) \<Rightarrow> require (tag_grammar ''qtn1'' out) Divergent_quarantine (Inr out)
   | _ \<Rightarrow> Inl Divergent_quarantine)"

definition derive_resume_id :: "string \<Rightarrow> string \<Rightarrow> nat \<Rightarrow> nat \<Rightarrow> string \<Rightarrow> string" where
  "derive_resume_id head sid resumed discarded token =
     tagged ''rsm1'' (join_on CHR 0x0A [head, sid, dec resumed, dec discarded, token])"

record resume_receipt =
  rs_id :: string
  rs_head :: string
  rs_state_id :: string
  rs_resumed :: nat
  rs_discarded :: nat
  rs_token :: string

text \<open>From the search on; the result is the receipt and what is left of the log.\<close>

definition resume_log :: "quarantine_sink \<Rightarrow> pyval list \<Rightarrow> int \<Rightarrow> (resume_error, resume_receipt \<times> pyval list) result" where
  "resume_log sink vs checkpoint = (case valid_prefix_length vs of None \<Rightarrow> Inl Uncaught
   | Some k \<Rightarrow>
       require (\<not> int k < checkpoint) Rs_corrupt_source
       (let tail = drop k vs in
        require (list_all is_canonical_json tail) Malformed_resume_record
       (case wal_replay canonical_payload (PList 0 (take k vs)) of Inl _ \<Rightarrow> Inl Uncaught
        | Inr rp \<Rightarrow> (let frozen = map detach tail in
            and_then (quarantine sink frozen) (\<lambda>token.
            require (token = quarantine_tail frozen) Divergent_quarantine
              (Inr (\<lparr>rs_id = derive_resume_id (rp_head rp) (rp_state_id rp) k (length frozen) token,
                 rs_head = rp_head rp, rs_state_id = rp_state_id rp, rs_resumed = k,
                 rs_discarded = length frozen, rs_token = token\<rparr>, take k vs)))))))"

definition resume :: "quarantine_sink \<Rightarrow> pyval \<Rightarrow> pyval \<Rightarrow> (resume_error, resume_receipt \<times> pyval list) result" where
  "resume sink log request = (case (log, request) of (PList _ vs, PDict _ d) \<Rightarrow>
       require (keys_are d [''checkpoint_sequence'']) Malformed_resume_record
       (case fld d ''checkpoint_sequence'' of PInt checkpoint \<Rightarrow>
            require (\<not> checkpoint < 0) Unknown_checkpoint
           (require (\<not> checkpoint > int (length vs)) Rs_corrupt_source
             (resume_log sink vs checkpoint))
        | _ \<Rightarrow> Inl Malformed_resume_record)
     | _ \<Rightarrow> Inl Malformed_resume_record)"

subsection \<open>The surviving prefix\<close>

lemma takeWhile_prefixes: "{k. k \<le> length xs \<and> list_all P (take k xs)} = {..length (takeWhile P xs)}"
proof (rule equalityI; rule subsetI)
  fix k assume "k \<in> {k. k \<le> length xs \<and> list_all P (take k xs)}"
  then show "k \<in> {..length (takeWhile P xs)}"
    by (induction xs arbitrary: k) (auto simp: take_Cons split: nat.splits)
next
  fix k assume "k \<in> {..length (takeWhile P xs)}"
  then show "k \<in> {k. k \<le> length xs \<and> list_all P (take k xs)}"
    by (induction xs arbitrary: k) (auto simp: take_Cons split: nat.splits if_splits)
qed

text \<open>The lengths of the prefixes that would survive.\<close>

definition surviving :: "pyval list \<Rightarrow> nat set" where
  "surviving vs = {k. k \<le> length vs \<and> list_all is_canonical_json (take k vs) \<and> replays canonical_payload (take k vs)}"

lemma valid_prefix_longest: "\<exists>k. valid_prefix_length vs = Some k \<and> surviving vs = {..k} \<and> k \<le> length vs
    \<and> replays canonical_payload (take k vs)"
proof -
  let ?n = "length (takeWhile is_canonical_json vs)"
  obtain k where k: "k \<le> ?n" "search_down (replays canonical_payload) vs ?n = Some k"
    using wl.search_total [of ?n canonical_payload vs] by blast
  note l = wl.search_longest [OF k(2)]
  have "surviving vs = {k. k \<le> length vs \<and> list_all is_canonical_json (take k vs)} \<inter> {j. replays canonical_payload (take j vs)}"
    by (auto simp: surviving_def)
  also have "\<dots> = {j. j \<le> ?n \<and> replays canonical_payload (take j vs)}" unfolding takeWhile_prefixes by auto
  finally have s: "surviving vs = {..k}" using l by simp
  then have "k \<in> surviving vs" by simp
  then show ?thesis using s k(2) by (simp add: surviving_def valid_prefix_length_def)
qed

lemma resume_log_Inr:
  "resume_log sink vs checkpoint = Inr (rc, ws) \<longleftrightarrow> (\<exists>k rp. surviving vs = {..k} \<and> k \<le> length vs \<and> checkpoint \<le> int k
     \<and> list_all is_canonical_json (drop k vs) \<and> wal_replay canonical_payload (PList 0 (take k vs)) = Inr rp
     \<and> quarantine sink (map detach (drop k vs)) = Inr (quarantine_tail (map detach (drop k vs)))
     \<and> rc = \<lparr>rs_id = derive_resume_id (rp_head rp) (rp_state_id rp) k (length vs - k) (quarantine_tail (map detach (drop k vs))),
           rs_head = rp_head rp, rs_state_id = rp_state_id rp, rs_resumed = k, rs_discarded = length vs - k,
           rs_token = quarantine_tail (map detach (drop k vs))\<rparr> \<and> ws = take k vs)"
proof -
  obtain k where k: "valid_prefix_length vs = Some k" "surviving vs = {..k}" "k \<le> length vs"
    "replays canonical_payload (take k vs)" using valid_prefix_longest by blast
  obtain rp where rp: "wal_replay canonical_payload (PList 0 (take k vs)) = Inr rp"
    using k(4) by (auto simp: replays_def accepts_iff)
  have "surviving vs = {..j} \<longleftrightarrow> j = k" for j using k(2) by auto
  then show ?thesis using k(1,3) rp by (auto simp: resume_log_def Let_def not_less)
qed

lemma resume_never_uncaught: "resume sink log request \<noteq> Inl Uncaught"
proof -
  have "resume_log sink vs c \<noteq> Inl Uncaught" for vs c
  proof -
    obtain k where k: "valid_prefix_length vs = Some k" "replays canonical_payload (take k vs)"
      using valid_prefix_longest by blast
    have "quarantine sink t \<noteq> Inl Uncaught" for t
      by (auto simp: quarantine_def require_def split: option.splits pyval.splits)
    then show ?thesis using k
      by (auto simp: resume_log_def replays_def accepts_iff Let_def require_def and_then_def split: sum.splits)
  qed
  then show ?thesis by (auto simp: resume_def require_def split: pyval.splits)
qed

end
