(* ===== verification/CrashResumeProps.thy ===== *)
theory CrashResumeProps
  imports CrashResume
begin

text \<open>
  Correctness of the recovery: what survives is the longest valid prefix and covers the checkpoint, and a
  crash that only loses or garbles what came after the checkpoint never costs a committed entry.
\<close>

text \<open>C16. Recovery is exact: whatever log, request and sink are given, an accepted resume keeps exactly the
  longest prefix whose entries are admissible and which replays (the prefixes that would survive are those
  up to its length), the checkpoint lies in it, the receipt's head and state id are those of its replay and
  its counts add up to the old length, and the sink acknowledged exactly the removed tail. The search for
  the prefix always ends: no exception escapes that is not a typed error.\<close>

theorem resume_longest_prefix:
  "case resume sink log request of
     Inl e \<Rightarrow> e \<noteq> Uncaught
   | Inr (rc, ws) \<Rightarrow> (\<exists>n vs m d checkpoint rp. log = PList n vs \<and> request = PDict m d \<and> ws = take (rs_resumed rc) vs
       \<and> surviving vs = {..rs_resumed rc} \<and> rs_resumed rc + rs_discarded rc = length vs
       \<and> fld d ''checkpoint_sequence'' = PInt checkpoint \<and> checkpoint \<le> int (rs_resumed rc)
       \<and> wal_replay canonical_payload (PList 0 ws) = Inr rp \<and> rs_head rc = rp_head rp \<and> rs_state_id rc = rp_state_id rp
       \<and> sink (map detach (drop (rs_resumed rc) vs)) = Some (PStr (rs_token rc)))"
proof (cases "resume sink log request")
  case (Inl e)
  then show ?thesis using resume_never_uncaught [of sink log request] by auto
next
  case (Inr p)
  obtain rc ws where p: "p = (rc, ws)" by (cases p)
  obtain n vs m d where l: "log = PList n vs" "request = PDict m d"
    using Inr by (auto simp: resume_def split: pyval.splits)
  obtain c where c: "fld d ''checkpoint_sequence'' = PInt c"
    using Inr by (auto simp: resume_def l split: pyval.splits)
  have "resume_log sink vs c = Inr (rc, ws)" using Inr by (simp add: resume_def l c p)
  then obtain k rp where k: "surviving vs = {..k}" "k \<le> length vs" "c \<le> int k" "rs_resumed rc = k"
    "rs_discarded rc = length vs - k" "wal_replay canonical_payload (PList 0 (take k vs)) = Inr rp"
    "rs_head rc = rp_head rp" "rs_state_id rc = rp_state_id rp" "ws = take k vs"
    "quarantine sink (map detach (drop k vs)) = Inr (rs_token rc)"
    unfolding resume_log_Inr by auto
  have "sink (map detach (drop k vs)) = Some (PStr (rs_token rc))"
    using k(10) by (auto simp: quarantine_def split: option.splits pyval.splits)
  moreover have "rs_resumed rc + rs_discarded rc = length vs" using k(2,4,5) by simp
  ultimately show ?thesis unfolding Inr p sum.case prod.case using k(1,3,4,6-9) l c by blast
qed

subsection \<open>Committed entries\<close>

definition resume_request :: "nat \<Rightarrow> pyval" where
  "resume_request checkpoint = PDict 1 [(PStr ''checkpoint_sequence'', PInt (int checkpoint))]"

definition honest_sink :: quarantine_sink where
  "honest_sink tail = Some (PStr (quarantine_tail tail))"

lemma honest_quarantine: "quarantine honest_sink tail = Inr (quarantine_tail tail)"
  by (simp add: quarantine_def honest_sink_def quarantine_tail_def)

lemma check_log_sequence:
  "check_log vs position tip = Inr es \<Longrightarrow> e \<in> set es \<Longrightarrow> position \<le> we_sequence e \<and> we_sequence e < position + int (length vs)"
proof (induction vs arbitrary: position tip es)
  case (Cons v vs)
  then obtain f fs where f: "check_entry v position tip = Inr f" "check_log vs (position + 1) (we_id f) = Inr fs" "es = f # fs"
    by auto
  show ?case using Cons.IH [OF f(2)] Cons.prems(2) f(3) check_entry_ok [OF f(1)] by (auto simp: we_ok_def)
qed simp

text \<open>A committed entry is admissible as long as its position has at most 4000 digits.\<close>

lemma entry_admissible: "\<bar>we_sequence e\<bar> < 10 ^ MAX_INT_DIGITS \<Longrightarrow> is_canonical_json (entry_value e)"
proof -
  assume "\<bar>we_sequence e\<bar> < 10 ^ MAX_INT_DIGITS"
  then have "scalar_ok (PInt (we_sequence e))" unfolding payload_int_ok .
  then have "tree_ok 1 (entry_value e)"
    by (simp add: entry_value_def entry_dict_def node_dict_def key_ok_def MAX_DEPTH_def del: scalar_ok.simps(3))
  moreover have "distinct (containers (entry_value e))" by (simp add: entry_value_def entry_dict_def node_dict_def)
  ultimately show ?thesis using payload_ok_iff [of "entry_value e" "[]"] by (auto simp: is_canonical_json_def)
qed

lemma log_admissible:
  assumes "log_ok c es" "int (length es) < 10 ^ MAX_INT_DIGITS"
  shows "list_all is_canonical_json (map entry_value es)"
  unfolding list_all_iff
proof
  fix v assume "v \<in> set (map entry_value es)"
  then obtain e where e: "e \<in> set es" "v = entry_value e" by auto
  have "1 \<le> we_sequence e \<and> we_sequence e < 1 + int (length es)"
    using check_log_sequence [of "map entry_value es" 1 GENESIS es e] assms(1) e(1) by (simp add: log_ok_def)
  then have "\<bar>we_sequence e\<bar> < 10 ^ MAX_INT_DIGITS" using assms(2) by linarith
  then show "is_canonical_json v" unfolding e(2) by (rule entry_admissible)
qed

lemma resume_honest:
  assumes "surviving vs = {..k}" "k \<le> length vs" "checkpoint \<le> k" "list_all is_canonical_json (drop k vs)"
  shows "\<exists>rc rp. resume honest_sink (PList n vs) (resume_request checkpoint) = Inr (rc, take k vs)
    \<and> wal_replay canonical_payload (PList 0 (take k vs)) = Inr rp \<and> rs_head rc = rp_head rp \<and> rs_state_id rc = rp_state_id rp
    \<and> rs_resumed rc = k \<and> rs_discarded rc = length vs - k"
proof -
  have "k \<in> surviving vs" unfolding assms(1) by simp
  then obtain rp where "wal_replay canonical_payload (PList 0 (take k vs)) = Inr rp"
    by (auto simp: surviving_def replays_def accepts_iff)
  then have "\<exists>rc. resume_log honest_sink vs (int checkpoint) = Inr (rc, take k vs) \<and> rs_head rc = rp_head rp
      \<and> rs_state_id rc = rp_state_id rp \<and> rs_resumed rc = k \<and> rs_discarded rc = length vs - k"
    unfolding resume_log_Inr using assms honest_quarantine by fastforce
  moreover have "checkpoint \<le> length vs" using assms(2,3) by simp
  ultimately show ?thesis using \<open>wal_replay canonical_payload (PList 0 (take k vs)) = Inr rp\<close>
    by (auto simp: resume_def resume_request_def keys_are_def fld_simps)
qed

text \<open>C11. No committed entry is lost: take any log that a run of append requests has committed, cut it at
  any point at or after the durable checkpoint, and let any admissible values follow (the torn tail). Then
  a resume with the honest sink is accepted, the log it leaves begins with every entry before the cut, and
  resuming that log again discards nothing and reports the same head and state. (The bound on the length
  is the bound of the admission walk on a position's digits.)\<close>

theorem resume_keeps_committed:
  assumes "checkpoint \<le> kept_len" and "kept_len \<le> length (run (wal_cmd canonical_payload) [] requests)"
    and "int (length (run (wal_cmd canonical_payload) [] requests)) < 10 ^ MAX_INT_DIGITS"
    and "list_all is_canonical_json torn"
  shows "let kept = map entry_value (take kept_len (run (wal_cmd canonical_payload) [] requests)) in
    \<exists>rc ws rc'. resume honest_sink (PList n (kept @ torn)) (resume_request checkpoint) = Inr (rc, ws)
      \<and> take kept_len ws = kept \<and> rs_discarded rc = length (kept @ torn) - length ws
      \<and> resume honest_sink (PList m ws) (resume_request checkpoint) = Inr (rc', ws)
      \<and> rs_discarded rc' = 0 \<and> rs_head rc' = rs_head rc \<and> rs_state_id rc' = rs_state_id rc"
proof -
  let ?es = "run (wal_cmd canonical_payload) [] requests"
  let ?kept = "map entry_value (take kept_len ?es)" and ?vs = "map entry_value (take kept_len ?es) @ torn"
  have ok: "log_ok canonical_payload ?es" by (rule wm.run_inv) simp
  have adm: "list_all is_canonical_json ?kept" using log_admissible [OF ok assms(3)] by (auto simp: list_all_iff dest: in_set_takeD)
  have len: "length ?kept = kept_len" using assms(2) by simp
  have "replays canonical_payload ?kept" by (rule replays_value) (rule log_ok_take [OF ok])
  then have inside: "kept_len \<in> surviving ?vs" using adm len by (simp add: surviving_def)
  obtain k where k: "surviving ?vs = {..k}" "k \<le> length ?vs" using valid_prefix_longest by blast
  have ck: "kept_len \<le> k" using inside k(1) by simp
  let ?ws = "take k ?vs"
  have all: "list_all is_canonical_json ?vs" using adm assms(4) by simp
  obtain rc rp where rc: "resume honest_sink (PList n ?vs) (resume_request checkpoint) = Inr (rc, ?ws)"
    "wal_replay canonical_payload (PList 0 ?ws) = Inr rp" "rs_head rc = rp_head rp" "rs_state_id rc = rp_state_id rp"
    "rs_discarded rc = length ?vs - k"
    using resume_honest [OF k, of checkpoint n] assms(1) ck all by (auto simp: list_all_iff dest: in_set_dropD)
  have "j \<in> surviving ?ws \<longleftrightarrow> j \<in> surviving ?vs \<and> j \<le> k" for j
    using k(2) by (auto simp: surviving_def min_def)
  then have k': "surviving ?ws = {..k}" using k(1) by auto
  obtain rc' rp' where rc': "resume honest_sink (PList m ?ws) (resume_request checkpoint) = Inr (rc', take k ?ws)"
    "wal_replay canonical_payload (PList 0 (take k ?ws)) = Inr rp'" "rs_head rc' = rp_head rp'" "rs_state_id rc' = rp_state_id rp'"
    "rs_discarded rc' = length ?ws - k"
    using resume_honest [OF k', of checkpoint m] assms(1) ck k(2) by auto
  have ws: "take k ?ws = ?ws" "length ?ws = k" using k(2) by (simp_all only: take_take min.idem length_take min_absorb2)
  have "take kept_len ?ws = take kept_len ?vs" using ck by (simp only: take_take min_absorb1)
  then have kept: "take kept_len ?ws = ?kept" using len by (simp only: take_append) simp
  have "rp' = rp" using rc(2) rc'(2) unfolding ws by simp
  moreover have "rs_discarded rc = length ?vs - length ?ws" "rs_discarded rc' = 0" unfolding rc(5) rc'(5) ws(2) by (rule refl, rule diff_self_eq_0)
  ultimately show ?thesis using rc(1,3,4) rc'(1,3,4) kept unfolding Let_def ws(1)
    by (metis (no_types))
qed

text \<open>A log of one entry, cut after it, followed by a null.\<close>

theorem resume_keeps_committed_witness:
  "\<exists>e rc ws. resume honest_sink (PList 5 [entry_value e, PNone]) (resume_request 1) = Inr (rc, ws) \<and> take 1 ws = [entry_value e]"
proof -
  obtain key r where r: "entry_ok key r" using start_entry by blast
  let ?q = "request_value ''put'' key r"
  have "wal_accepted canonical_payload ?q = Some (''put'', key, r)"
    using r by (simp add: wal_accepted_def wal_request_value WAL_OPS_def canonicalize_def canonical_payload_def)
  then obtain e where e: "step_or_stay (wal_cmd canonical_payload) [] ?q = [e]"
    using wal_cmd_step [OF log_ok_Nil, of canonical_payload ?q]
    by (cases "wal_cmd canonical_payload [] ?q") (auto simp: step_or_stay_def)
  have "list_all is_canonical_json [PNone]" by (simp add: is_canonical_json_def payload_ok_def payload_walk.simps)
  moreover have "(1 :: int) < 10 ^ MAX_INT_DIGITS" by (rule one_less_power) (simp_all add: MAX_INT_DIGITS_def)
  ultimately show ?thesis
    using resume_keeps_committed [of 1 1 "[?q]" "[PNone]" 5 6] by (auto simp: e Let_def)
qed

end
