(* ===== verification/StoreIdempotency.thy ===== *)
theory StoreIdempotency
  imports StoreLog JobsIdempotency
begin

text \<open>
  Keyed exactly-once appends to a log, \<open>src/store/idempotency.py\<close> over
  \<open>src/data/contracts/idempotency.yaml\<close>. Every receipt of the ledger is bound to the log entry it was
  issued for. The fingerprinter is the caller's code: a parameter that gives the value it returns, or None
  if it raises. The log and the ledger are two lists.
\<close>

datatype si_error = Si_malformed_request | Si_corrupt_source | Si_corrupt_ledger | Si_key_conflict
  | Si_divergent_fingerprint | Si_append_rejected wal_error

text \<open>\<open>Si_append_rejected\<close> is a rejection of the staged append, which the code does not catch; no input
  leads there.\<close>

fun si_code :: "si_error \<Rightarrow> string" where
  "si_code Si_malformed_request = ''malformed_request''"
| "si_code Si_corrupt_source = ''corrupt_source''"
| "si_code Si_corrupt_ledger = ''corrupt_ledger''"
| "si_code Si_key_conflict = ''key_conflict''"
| "si_code Si_divergent_fingerprint = ''divergent_fingerprint''"
| "si_code (Si_append_rejected e) = wal_code e"

definition SI_FIELDS :: "string list" where
  "SI_FIELDS = [''receipt_id'', ''idempotency_key'', ''request_fingerprint'', ''entry_id'', ''sequence'']"

type_synonym si_fingerprinter = "string \<Rightarrow> string \<Rightarrow> node_record \<Rightarrow> pyval option"

definition si_request_fingerprint :: "string \<Rightarrow> string \<Rightarrow> node_record \<Rightarrow> string" where
  "si_request_fingerprint op key r = framed_digest ''idf1'' [op, key, nr_variant r, nr_digest r, nr_snapshot r]"

definition si_receipt_id :: "string \<Rightarrow> string \<Rightarrow> string \<Rightarrow> int \<Rightarrow> string" where
  "si_receipt_id key fp entry_id sequence = tagged ''idr1'' (join_on CHR 0x0A [key, fp, entry_id, int_text sequence])"

subsection \<open>Validation\<close>

definition payload_str_keyed :: "pyval \<Rightarrow> bool" where
  "payload_str_keyed v = (case v of PDict _ p \<Rightarrow> list_all is_str (map fst p)
       \<and> (case pget p ''record'' of Some (PDict _ r) \<Rightarrow> list_all is_str (map fst r) | _ \<Rightarrow> True)
     | _ \<Rightarrow> True)"

definition log_str_keyed :: "pyval \<Rightarrow> bool" where
  "log_str_keyed log = (case log of PList _ vs \<Rightarrow> list_all (\<lambda>v. case v of
       PDict _ d \<Rightarrow> list_all is_str (map fst d)
         \<and> (case pget d ''payload'' of Some w \<Rightarrow> payload_str_keyed w | None \<Rightarrow> True)
     | _ \<Rightarrow> True) vs | _ \<Rightarrow> True)"

record si_request =
  sq_key :: string
  sq_op :: string
  sq_identity :: string
  sq_record :: node_record

text \<open>The payload goes through an append to an empty scratch log.\<close>

definition si_validate_request :: "pyval \<Rightarrow> (si_error, si_request) result" where
  "si_validate_request v = (case v of PDict _ d \<Rightarrow>
       require (keys_are d [''idempotency_key'', ''op'', ''payload'']) Si_malformed_request
       (require (matches ji_key_ok (fld d ''idempotency_key'')) Si_malformed_request
       (require (is_str (fld d ''op'') \<and> payload_str_keyed (fld d ''payload'')) Si_malformed_request
       (case wal_append canonical_payload (PList 0 [])
               (PDict 5 [(PStr ''op'', fld d ''op''), (PStr ''payload'', fld d ''payload'')]) of
          Inl _ \<Rightarrow> Inl Si_malformed_request
        | Inr (e, _) \<Rightarrow> Inr \<lparr>sq_key = key_bytes (fld d ''idempotency_key''), sq_op = we_op e,
            sq_identity = we_identity e, sq_record = we_record e\<rparr>)))
     | _ \<Rightarrow> Inl Si_malformed_request)"

record si_receipt =
  sr_id :: string
  sr_key :: string
  sr_fingerprint :: string
  sr_entry :: string
  sr_sequence :: int

definition si_read_receipt :: "pydict \<Rightarrow> si_receipt" where
  "si_read_receipt d = \<lparr>sr_id = key_bytes (fld d ''receipt_id''), sr_key = key_bytes (fld d ''idempotency_key''),
     sr_fingerprint = key_bytes (fld d ''request_fingerprint''), sr_entry = key_bytes (fld d ''entry_id''),
     sr_sequence = int_of (fld d ''sequence'')\<rparr>"

text \<open>The body of the ledger's loop, for one receipt.\<close>

definition si_receipt_ok :: "wal_entry list \<Rightarrow> string list \<Rightarrow> int \<Rightarrow> pydict \<Rightarrow> bool" where
  "si_receipt_ok es seen_keys last_seq d \<longleftrightarrow> keys_are d SI_FIELDS
     \<and> matches ji_key_ok (fld d ''idempotency_key'') \<and> matches (tag_grammar ''idf1'') (fld d ''request_fingerprint'')
     \<and> matches (tag_grammar ''wal1'') (fld d ''entry_id'') \<and> matches (tag_grammar ''idr1'') (fld d ''receipt_id'')
     \<and> int_in (fld d ''sequence'') (last_seq + 1) (int (length es))
     \<and> (let r = si_read_receipt d; e = es ! nat (sr_sequence r - 1) in
        sr_key r \<notin> set seen_keys
        \<and> sr_id r = si_receipt_id (sr_key r) (sr_fingerprint r) (sr_entry r) (sr_sequence r)
        \<and> we_id e = sr_entry r \<and> si_request_fingerprint (we_op e) (we_identity e) (we_record e) = sr_fingerprint r)"

fun si_check_receipts :: "pyval list \<Rightarrow> wal_entry list \<Rightarrow> string list \<Rightarrow> int \<Rightarrow> si_receipt list option" where
  "si_check_receipts [] es seen_keys last_seq = Some []"
| "si_check_receipts (PDict _ d # vs) es seen_keys last_seq = (let r = si_read_receipt d in
     if si_receipt_ok es seen_keys last_seq d
     then map_option (\<lambda>rs. r # rs) (si_check_receipts vs es (sr_key r # seen_keys) (sr_sequence r)) else None)"
| "si_check_receipts (_ # vs) es seen_keys last_seq = None"

definition si_validate_ledger :: "pyval \<Rightarrow> wal_entry list \<Rightarrow> (si_error, si_receipt list) result" where
  "si_validate_ledger ledger es = (case ledger of PList _ vs \<Rightarrow>
       (case si_check_receipts vs es [] 0 of None \<Rightarrow> Inl Si_corrupt_ledger | Some rs \<Rightarrow> Inr rs)
     | _ \<Rightarrow> Inl Si_corrupt_ledger)"

subsection \<open>Apply\<close>

definition si_fingerprint :: "si_fingerprinter \<Rightarrow> si_request \<Rightarrow> (si_error, string) result" where
  "si_fingerprint fp q = (case fp (sq_op q) (sq_identity q) (sq_record q) of
     Some (PStr out) \<Rightarrow> require (tag_grammar ''idf1'' out) Si_divergent_fingerprint
       (require (out = si_request_fingerprint (sq_op q) (sq_identity q) (sq_record q)) Si_divergent_fingerprint (Inr out))
   | _ \<Rightarrow> Inl Si_divergent_fingerprint)"

definition si_stored :: "si_receipt list \<Rightarrow> string \<Rightarrow> si_receipt option" where
  "si_stored rs key = find (\<lambda>r. sr_key r = key) (rev rs)"

definition si_new_receipt :: "si_request \<Rightarrow> string \<Rightarrow> wal_entry \<Rightarrow> si_receipt" where
  "si_new_receipt q token e = \<lparr>sr_id = si_receipt_id (sq_key q) token (we_id e) (we_sequence e), sr_key = sq_key q,
     sr_fingerprint = token, sr_entry = we_id e, sr_sequence = we_sequence e\<rparr>"

text \<open>From the fingerprint on, over the frozen values; the result is the outcome, the log and the ledger.\<close>

definition si_commit :: "si_fingerprinter \<Rightarrow> wal_entry list \<Rightarrow> si_receipt list \<Rightarrow> si_request
    \<Rightarrow> (si_error, (outcome \<times> si_receipt) \<times> wal_entry list \<times> si_receipt list) result" where
  "si_commit fp es rs q = and_then (si_fingerprint fp q) (\<lambda>token.
     case si_stored rs (sq_key q) of
       Some r \<Rightarrow> require (\<not> sr_fingerprint r \<noteq> token) Si_key_conflict (Inr ((Replayed, r), es, rs))
     | None \<Rightarrow> (case wal_append canonical_payload (log_value es)
                       (request_value (sq_op q) (sq_identity q) (sq_record q)) of
           Inl e \<Rightarrow> Inl (Si_append_rejected e)
         | Inr (e, _) \<Rightarrow> (let r = si_new_receipt q token e in Inr ((Applied, r), es @ [e], rs @ [r]))))"

definition si_apply :: "si_fingerprinter \<Rightarrow> pyval \<Rightarrow> pyval \<Rightarrow> pyval
    \<Rightarrow> (si_error, (outcome \<times> si_receipt) \<times> wal_entry list \<times> si_receipt list) result" where
  "si_apply fp log ledger v = and_then (si_validate_request v) (\<lambda>q.
     require (log_str_keyed log) Si_corrupt_source
     (case wal_replay canonical_payload log of Inl _ \<Rightarrow> Inl Si_corrupt_source
      | Inr _ \<Rightarrow> (let es = freeze_log log in
          and_then (si_validate_ledger ledger es) (\<lambda>rs. si_commit fp es rs q))))"

end
