(* ===== verification/StoreIdempotencyProps.thy ===== *)
theory StoreIdempotencyProps
  imports StoreIdempotency
begin

text \<open>
  The idempotent store as a guarded machine over a log and its ledger, among plain appends of other
  writers: what it commits is accepted by the next call, and a request is applied exactly once.
\<close>

subsection \<open>The ledger a commit leaves\<close>

definition si_receipt_dict :: "si_receipt \<Rightarrow> pydict" where
  "si_receipt_dict r = [(PStr ''receipt_id'', PStr (sr_id r)), (PStr ''idempotency_key'', PStr (sr_key r)),
     (PStr ''request_fingerprint'', PStr (sr_fingerprint r)), (PStr ''entry_id'', PStr (sr_entry r)),
     (PStr ''sequence'', PInt (sr_sequence r))]"

definition si_ledger_value :: "si_receipt list \<Rightarrow> pyval" where
  "si_ledger_value rs = PList 10 (map (\<lambda>r. PDict 11 (si_receipt_dict r)) rs)"

lemma si_read_receipt_dict [simp]: "si_read_receipt (si_receipt_dict r) = r"
  by (cases r) (simp add: si_read_receipt_def si_receipt_dict_def fld_simps)

text \<open>A receipt that is accepted after the keys and the position seen so far.\<close>

definition sr_ok :: "wal_entry list \<Rightarrow> string list \<Rightarrow> int \<Rightarrow> si_receipt \<Rightarrow> bool" where
  "sr_ok es seen last_seq r \<longleftrightarrow> ji_key_ok (sr_key r) \<and> tag_grammar ''idf1'' (sr_fingerprint r)
     \<and> tag_grammar ''wal1'' (sr_entry r) \<and> tag_grammar ''idr1'' (sr_id r)
     \<and> last_seq < sr_sequence r \<and> sr_sequence r \<le> int (length es) \<and> sr_key r \<notin> set seen
     \<and> sr_id r = si_receipt_id (sr_key r) (sr_fingerprint r) (sr_entry r) (sr_sequence r)
     \<and> (let e = es ! nat (sr_sequence r - 1) in we_id e = sr_entry r
         \<and> si_request_fingerprint (we_op e) (we_identity e) (we_record e) = sr_fingerprint r)"

lemma si_receipt_ok_read: "si_receipt_ok es seen n d \<Longrightarrow> sr_ok es seen n (si_read_receipt d)"
  by (auto simp: si_receipt_ok_def sr_ok_def si_read_receipt_def matches_iff int_in_iff Let_def)

lemma si_receipt_ok_dict: "si_receipt_ok es seen n (si_receipt_dict r) \<longleftrightarrow> sr_ok es seen n r"
proof -
  have "keys_are (si_receipt_dict r) SI_FIELDS" by (auto simp: keys_are_def si_receipt_dict_def SI_FIELDS_def)
  moreover have "fld (si_receipt_dict r) ''receipt_id'' = PStr (sr_id r)" "fld (si_receipt_dict r) ''idempotency_key'' = PStr (sr_key r)"
    "fld (si_receipt_dict r) ''request_fingerprint'' = PStr (sr_fingerprint r)"
    "fld (si_receipt_dict r) ''entry_id'' = PStr (sr_entry r)" "fld (si_receipt_dict r) ''sequence'' = PInt (sr_sequence r)"
    by (simp_all add: si_receipt_dict_def fld_simps)
  ultimately show ?thesis by (auto simp: si_receipt_ok_def sr_ok_def Let_def)
qed

text \<open>The loop over typed receipts.\<close>

fun receipts_ok :: "si_receipt list \<Rightarrow> wal_entry list \<Rightarrow> string list \<Rightarrow> int \<Rightarrow> bool" where
  "receipts_ok [] es seen n \<longleftrightarrow> True"
| "receipts_ok (r # rs) es seen n \<longleftrightarrow> sr_ok es seen n r \<and> receipts_ok rs es (sr_key r # seen) (sr_sequence r)"

lemma si_check_read: "si_check_receipts vs es seen n = Some rs \<Longrightarrow> receipts_ok rs es seen n"
  by (induction vs es seen n arbitrary: rs rule: si_check_receipts.induct)
    (auto simp: Let_def si_receipt_ok_read split: if_splits)

lemma si_check_dict: "si_check_receipts (map (\<lambda>r. PDict k (si_receipt_dict r)) rs) es seen n = (if receipts_ok rs es seen n then Some rs else None)"
  by (induction rs arbitrary: seen n) (auto simp: Let_def si_receipt_ok_dict)

lemma sr_ok_mono: "0 \<le> n \<Longrightarrow> sr_ok es seen n r \<Longrightarrow> sr_ok (es @ fs) seen n r"
proof -
  assume n: "0 \<le> n" and r: "sr_ok es seen n r"
  then have "nat (sr_sequence r - 1) < length es" unfolding sr_ok_def by linarith
  then have "(es @ fs) ! nat (sr_sequence r - 1) = es ! nat (sr_sequence r - 1)" by (simp add: nth_append)
  then show ?thesis using r unfolding sr_ok_def by (simp add: si_receipt_id_def)
qed

lemma receipts_ok_mono: "0 \<le> n \<Longrightarrow> receipts_ok rs es seen n \<Longrightarrow> receipts_ok rs (es @ fs) seen n"
proof (induction rs arbitrary: seen n)
  case (Cons r rs)
  have "0 \<le> sr_sequence r" using Cons.prems by (auto simp: sr_ok_def)
  then show ?case using Cons sr_ok_mono by simp
qed simp

lemma receipts_ok_bound: "0 \<le> n \<Longrightarrow> receipts_ok rs es seen n \<Longrightarrow> r \<in> set rs \<Longrightarrow> n < sr_sequence r \<and> sr_sequence r \<le> int (length es)"
proof (induction rs arbitrary: seen n)
  case (Cons s rs)
  have s: "n < sr_sequence s" "sr_sequence s \<le> int (length es)" using Cons.prems(2) by (simp_all add: sr_ok_def)
  show ?case using Cons.prems Cons.IH [of "sr_sequence s" "sr_key s # seen"] s by fastforce
qed simp

lemma receipts_ok_keys: "receipts_ok rs es seen n \<Longrightarrow> distinct (map sr_key rs) \<and> set (map sr_key rs) \<inter> set seen = {}"
  by (induction rs arbitrary: seen n) (fastforce simp: sr_ok_def)+

lemma receipts_ok_snoc:
  "receipts_ok (rs @ [r]) es seen n \<longleftrightarrow> receipts_ok rs es seen n
     \<and> sr_ok es (rev (map sr_key rs) @ seen) (if rs = [] then n else sr_sequence (last rs)) r"
  by (induction rs arbitrary: seen n) auto

subsection \<open>Commits\<close>

definition si_ok :: "wal_entry list \<times> si_receipt list \<Rightarrow> bool" where
  "si_ok s \<longleftrightarrow> log_ok canonical_payload (fst s) \<and> receipts_ok (snd s) (fst s) [] 0"

definition si_extends :: "wal_entry list \<times> si_receipt list \<Rightarrow> wal_entry list \<times> si_receipt list \<Rightarrow> bool" where
  "si_extends s t \<longleftrightarrow> (\<exists>es rs. fst t = fst s @ es \<and> snd t = snd s @ rs)"

lemma si_validate_request_ok:
  assumes "si_validate_request v = Inr q"
  shows "ji_key_ok (sq_key q)" "sq_op q \<in> set WAL_OPS" "entry_ok (sq_identity q) (sq_record q)"
proof -
  obtain n d e es where d: "v = PDict n d" "matches ji_key_ok (fld d ''idempotency_key'')"
    "wal_append canonical_payload (PList 0 []) (PDict 5 [(PStr ''op'', fld d ''op''), (PStr ''payload'', fld d ''payload'')]) = Inr (e, es)"
    "q = \<lparr>sq_key = key_bytes (fld d ''idempotency_key''), sq_op = we_op e, sq_identity = we_identity e, sq_record = we_record e\<rparr>"
    using assms by (auto simp: si_validate_request_def split: pyval.splits sum.splits)
  have "wal_accepted canonical_payload (PDict 5 [(PStr ''op'', fld d ''op''), (PStr ''payload'', fld d ''payload'')])
      = Some (we_op e, we_identity e, we_record e)"
    using wal_append_cases [of canonical_payload 0 "[]" "PDict 5 [(PStr ''op'', fld d ''op''), (PStr ''payload'', fld d ''payload'')]"]
    unfolding d(3) by simp
  then have "we_op e \<in> set WAL_OPS \<and> entry_ok (we_identity e) (we_record e)"
    by (auto simp: wal_accepted_def dest: wal_request_ok split: sum.splits if_splits)
  then show "ji_key_ok (sq_key q)" "sq_op q \<in> set WAL_OPS" "entry_ok (sq_identity q) (sq_record q)"
    using d(2,4) by (auto simp: matches_iff)
qed

lemma si_fingerprint_Inr:
  "si_fingerprint fp q = Inr t \<Longrightarrow> t = si_request_fingerprint (sq_op q) (sq_identity q) (sq_record q)"
  by (auto simp: si_fingerprint_def split: option.splits pyval.splits)

text \<open>The append of a validated request to a replayable log.\<close>

lemma honest_append:
  assumes "log_ok canonical_payload es" "op \<in> set WAL_OPS" "entry_ok key r"
  shows "\<exists>e. wal_append canonical_payload (log_value es) (request_value op key r) = Inr (e, es @ [e])
    \<and> log_ok canonical_payload (es @ [e]) \<and> we_op e = op \<and> we_identity e = key \<and> we_record e = r
    \<and> we_sequence e = int (length es) + 1 \<and> tag_grammar ''wal1'' (we_id e)"
proof -
  have acc: "wal_accepted canonical_payload (request_value op key r) = Some (op, key, r)"
    using assms(2,3) by (simp add: wal_accepted_def wal_request_value canonicalize_def canonical_payload_def)
  obtain e es' where e: "wal_append canonical_payload (log_value es) (request_value op key r) = Inr (e, es')"
    using wal_append_cases [of canonical_payload 0 "map entry_value es" "request_value op key r"] acc
      assms(1) [unfolded log_ok_replay] unfolding log_value_def
    by (cases "wal_append canonical_payload (PList 0 (map entry_value es)) (request_value op key r)") auto
  have c: "es' = es @ [e]" "log_ok canonical_payload (es @ [e])" "wal_accepted canonical_payload (request_value op key r) = Some (we_op e, we_identity e, we_record e)"
    using wal_append_cases [of canonical_payload 0 "map entry_value es" "request_value op key r"] e assms(1)
    by (auto simp: log_value_def log_ok_def)
  have "we_ok e (1 + int (length es)) (tip_of GENESIS es)" using honest_log_snoc [OF c(2)] by blast
  then show ?thesis using e c acc by (auto simp: we_ok_def)
qed

lemma si_stored_None: "si_stored rs key = None \<longleftrightarrow> key \<notin> sr_key ` set rs"
  by (auto simp: si_stored_def find_None_iff)

lemma si_stored_Some:
  assumes "distinct (map sr_key rs)"
  shows "si_stored rs key = Some r \<longleftrightarrow> r \<in> set rs \<and> sr_key r = key"
proof -
  have found: "si_stored rs key = Some s \<Longrightarrow> s \<in> set rs \<and> sr_key s = key" for s
    unfolding si_stored_def find_Some_iff by (metis length_rev nth_mem set_rev)
  show ?thesis
  proof
    assume r: "r \<in> set rs \<and> sr_key r = key"
    then obtain s where s: "si_stored rs key = Some s" using si_stored_None [of rs key] by force
    then show "si_stored rs key = Some r" using found [OF s] r assms by (metis distinct_map inj_on_def)
  qed (rule found)
qed

lemma si_commit_step:
  assumes "si_ok (es, rs)" "si_validate_request v = Inr q" "si_commit fp es rs q = Inr ((out, r), es', rs')"
  shows "si_ok (es', rs') \<and> si_extends (es, rs) (es', rs') \<and> r \<in> set rs' \<and> sr_key r = sq_key q
    \<and> sr_fingerprint r = si_request_fingerprint (sq_op q) (sq_identity q) (sq_record q)"
proof -
  note ok = assms(1) [unfolded si_ok_def fst_conv snd_conv]
  note q = si_validate_request_ok [OF assms(2)]
  obtain t where t: "si_fingerprint fp q = Inr t" using assms(3) by (auto simp: si_commit_def)
  note ft = si_fingerprint_Inr [OF t]
  have keys: "distinct (map sr_key rs)" using ok receipts_ok_keys by blast
  show ?thesis
  proof (cases "si_stored rs (sq_key q)")
    case (Some s)
    then have "s = r" "es' = es" "rs' = rs" "sr_fingerprint r = t" using assms(3) t by (auto simp: si_commit_def)
    then show ?thesis using assms(1) Some [unfolded si_stored_Some [OF keys]] ft by (auto simp: si_extends_def)
  next
    case None
    obtain e where e: "wal_append canonical_payload (log_value es) (request_value (sq_op q) (sq_identity q) (sq_record q)) = Inr (e, es @ [e])"
      "log_ok canonical_payload (es @ [e])" "we_op e = sq_op q" "we_identity e = sq_identity q" "we_record e = sq_record q"
      "we_sequence e = int (length es) + 1" "tag_grammar ''wal1'' (we_id e)"
      using honest_append [OF _ q(2,3)] ok by blast
    have r: "es' = es @ [e]" "rs' = rs @ [r]" "r = si_new_receipt q t e"
      using assms(3) t None e(1) by (auto simp: si_commit_def Let_def)
    have seq: "(if rs = [] then 0 else sr_sequence (last rs)) < we_sequence e"
      using receipts_ok_bound [of 0 rs es "[]" "last rs"] ok e(6) by auto
    have "sr_ok (es @ [e]) (rev (map sr_key rs) @ []) (if rs = [] then 0 else sr_sequence (last rs)) r"
      using q(1) None e seq unfolding r(3) ft
      by (simp add: sr_ok_def si_new_receipt_def si_stored_None si_receipt_id_def si_request_fingerprint_def)
    then have "receipts_ok rs' es' [] 0"
      unfolding r(1,2) receipts_ok_snoc using receipts_ok_mono ok by simp
    then show ?thesis using e(2) r ft by (auto simp: si_ok_def si_extends_def si_new_receipt_def)
  qed
qed

subsection \<open>The machine\<close>

datatype si_command = Si_apply si_fingerprinter pyval | Si_append pyval

fun si_cmd :: "wal_entry list \<times> si_receipt list \<Rightarrow> si_command \<Rightarrow> (si_error, wal_entry list \<times> si_receipt list) result" where
  "si_cmd (es, rs) (Si_apply fp v) = and_then (si_apply fp (log_value es) (si_ledger_value rs) v) (\<lambda>(_, s). Inr s)"
| "si_cmd (es, rs) (Si_append v) = (case wal_append canonical_payload (log_value es) v of
     Inl e \<Rightarrow> Inl (Si_append_rejected e) | Inr (e, es') \<Rightarrow> Inr (es', rs))"

lemma log_str_keyed_value: "log_str_keyed (log_value es)"
  by (auto simp: log_str_keyed_def log_value_def list_all_iff entry_value_def entry_dict_def payload_str_keyed_def node_dict_def)

lemma si_apply_value:
  assumes "si_ok (es, rs)"
  shows "si_apply fp (log_value es) (si_ledger_value rs) v = and_then (si_validate_request v) (si_commit fp es rs)"
proof -
  have "wal_replay canonical_payload (log_value es) = Inr (replay_of es)" "freeze_log (log_value es) = es"
    using assms log_ok_replay by (auto simp: si_ok_def)
  moreover have "si_validate_ledger (si_ledger_value rs) es = Inr rs"
    using assms by (simp add: si_validate_ledger_def si_ledger_value_def si_check_dict si_ok_def)
  ultimately show ?thesis by (simp add: si_apply_def log_str_keyed_value Let_def)
qed

lemma si_cmd_step:
  assumes "si_ok s" "si_cmd s c = Inr t"
  shows "si_ok t \<and> si_extends s t"
proof -
  obtain es rs where s: "s = (es, rs)" by (cases s)
  show ?thesis
  proof (cases c)
    case (Si_apply fp v)
    then obtain q out r where "si_validate_request v = Inr q" "si_commit fp es rs q = Inr ((out, r), fst t, snd t)"
      using assms by (auto simp: s si_apply_value)
    then show ?thesis using si_commit_step assms(1) unfolding s by (metis prod.collapse)
  next
    case (Si_append v)
    then obtain e es' where e: "wal_append canonical_payload (log_value es) v = Inr (e, es')" "t = (es', rs)"
      using assms(2) by (auto simp: s split: sum.splits)
    have "wal_cmd canonical_payload es v = Inr es'" by (simp add: wal_cmd_def e(1))
    then obtain f where "log_ok canonical_payload es'" "es' = es @ [f]"
      using wal_cmd_step [of canonical_payload es v] assms(1) by (auto simp: s si_ok_def)
    then show ?thesis using assms(1) receipts_ok_mono by (auto simp: s e(2) si_ok_def si_extends_def)
  qed
qed

interpretation sm: guarded_machine si_cmd si_ok si_extends
proof
  fix s t u show "si_extends s t \<Longrightarrow> si_extends t u \<Longrightarrow> si_extends s u" unfolding si_extends_def by force
qed (auto dest: si_cmd_step simp: si_extends_def)

text \<open>A receipt of a valid ledger names an entry of the log.\<close>

lemma entry_at_sequence:
  assumes "log_ok c es" "1 \<le> n" "n \<le> int (length es)"
  shows "we_sequence (es ! nat (n - 1)) = n"
proof -
  have "we_sequence (es ! i) = position + int i" if "check_log vs position tip = Inr es" "i < length es" for vs position tip i and es
    using that
  proof (induction vs arbitrary: position tip es i)
    case (Cons v vs)
    then obtain f fs where f: "check_entry v position tip = Inr f" "check_log vs (position + 1) (we_id f) = Inr fs" "es = f # fs"
      by auto
    show ?case
    proof (cases i)
      case 0
      then show ?thesis using check_entry_ok [OF f(1)] f(3) by (simp add: we_ok_def)
    next
      case (Suc j)
      then show ?thesis using Cons.IH [OF f(2), of j] Cons.prems(2) f(3) by simp
    qed
  qed simp
  from this [of "map entry_value es" 1 GENESIS es "nat (n - 1)"] show ?thesis
    using assms by (simp add: log_ok_def)
qed

lemma receipt_entry:
  assumes "log_ok c es" "receipts_ok rs es seen n" "0 \<le> n" "r \<in> set rs"
  shows "\<exists>e \<in> set es. we_id e = sr_entry r \<and> we_sequence e = sr_sequence r
    \<and> si_request_fingerprint (we_op e) (we_identity e) (we_record e) = sr_fingerprint r"
  using assms(2-4)
proof (induction rs arbitrary: seen n)
  case (Cons s rs)
  have s: "sr_ok es seen n s" using Cons.prems(1) by simp
  show ?case
  proof (cases "r = s")
    case True
    have b: "1 \<le> sr_sequence r" "sr_sequence r \<le> int (length es)" using s Cons.prems(2) True by (auto simp: sr_ok_def)
    then have "es ! nat (sr_sequence r - 1) \<in> set es" by (intro nth_mem) linarith
    then show ?thesis using s entry_at_sequence [OF assms(1) b] True by (auto simp: sr_ok_def Let_def)
  next
    case False
    have "0 \<le> sr_sequence s" using s Cons.prems(2) by (auto simp: sr_ok_def)
    then show ?thesis using Cons False by auto
  qed
qed simp

lemma si_apply_cases:
  assumes "si_apply fp log ledger v = Inr ((out, r), es', rs')"
  obtains q es rs where "si_validate_request v = Inr q" "si_ok (es, rs)" "si_commit fp es rs q = Inr ((out, r), es', rs')"
proof -
  obtain q where q: "si_validate_request v = Inr q" using assms by (auto simp: si_apply_def)
  obtain rp where rp: "wal_replay canonical_payload log = Inr rp"
    using assms by (auto simp: si_apply_def q split: sum.splits)
  obtain n vs where l: "log = PList n vs" using rp by (auto simp: wal_replay_def split: pyval.splits)
  obtain es where es: "check_log vs 1 GENESIS = Inr es" "log_ok canonical_payload es"
    using wal_replay_ok [OF rp [unfolded l]] by blast
  have f: "freeze_log log = es" by (simp add: freeze_log_def l es(1))
  obtain rs where rs: "si_validate_ledger ledger es = Inr rs" "si_commit fp es rs q = Inr ((out, r), es', rs')"
    using assms by (auto simp: si_apply_def q rp f Let_def)
  have "receipts_ok rs es [] 0"
    using rs(1) by (auto simp: si_validate_ledger_def dest: si_check_read split: pyval.splits option.splits)
  then show thesis using that [OF q _ rs(2)] es(2) by (simp add: si_ok_def)
qed

text \<open>C13. Exactly once, on the durable log: once a request has been accepted, then whatever calls with
  whatever fingerprinters and whatever plain appends of other writers come in between, the same request is
  replayed. It returns the very receipt of the first time, appends nothing and leaves the ledger as it is;
  and that receipt still names the entry of the log that holds the request's operation, key and record.
  (The call is still refused if its own fingerprinter misbehaves.)\<close>

theorem store_exactly_once:
  assumes "si_apply fp log ledger v = Inr ((out, r), es1, rs1)" and "run si_cmd (es1, rs1) cs = (es2, rs2)"
  shows "\<exists>q. si_validate_request v = Inr q
    \<and> si_apply fp' (log_value es2) (si_ledger_value rs2) v = and_then (si_fingerprint fp' q) (\<lambda>_. Inr ((Replayed, r), es2, rs2))
    \<and> (\<exists>e \<in> set es2. we_id e = sr_entry r \<and> we_sequence e = sr_sequence r
        \<and> si_request_fingerprint (we_op e) (we_identity e) (we_record e) = si_request_fingerprint (sq_op q) (sq_identity q) (sq_record q))"
proof -
  obtain q es rs where q: "si_validate_request v = Inr q" "si_ok (es, rs)" "si_commit fp es rs q = Inr ((out, r), es1, rs1)"
    using assms(1) by (rule si_apply_cases)
  note st = si_commit_step [OF q(2,1,3)]
  have ok: "si_ok (es2, rs2)" and ext: "si_extends (es1, rs1) (es2, rs2)"
    using sm.run_inv [of "(es1, rs1)" cs] sm.run_le [of "(es1, rs1)" cs] st assms(2) by auto
  have r: "r \<in> set rs2" using ext st by (auto simp: si_extends_def)
  have keys: "distinct (map sr_key rs2)" using ok receipts_ok_keys by (auto simp: si_ok_def)
  have "si_stored rs2 (sq_key q) = Some r" using r st si_stored_Some [OF keys] by blast
  then have "si_commit fp' es2 rs2 q = and_then (si_fingerprint fp' q) (\<lambda>_. Inr ((Replayed, r), es2, rs2))"
    using st si_fingerprint_Inr [of fp' q] by (cases "si_fingerprint fp' q") (auto simp: si_commit_def)
  moreover have "\<exists>e \<in> set es2. we_id e = sr_entry r \<and> we_sequence e = sr_sequence r
      \<and> si_request_fingerprint (we_op e) (we_identity e) (we_record e) = sr_fingerprint r"
    using ok r receipt_entry by (auto simp: si_ok_def)
  ultimately show ?thesis using q(1) st by (simp add: si_apply_value [OF ok])
qed

text \<open>The honest fingerprinter, and a keyed put of the starting position into an empty store.\<close>

definition si_honest :: si_fingerprinter where
  "si_honest op key r = Some (PStr (si_request_fingerprint op key r))"

lemma si_honest_fingerprint: "si_fingerprint si_honest q = Inr (si_request_fingerprint (sq_op q) (sq_identity q) (sq_record q))"
  by (simp add: si_fingerprint_def si_honest_def si_request_fingerprint_def)

definition keyed_put :: "string \<Rightarrow> node_record \<Rightarrow> pyval" where
  "keyed_put key r = PDict 12 [(PStr ''idempotency_key'', PStr ''k1''), (PStr ''op'', PStr ''put''),
     (PStr ''payload'', payload_value key r)]"

lemma keyed_put_request:
  assumes "entry_ok key r"
  shows "si_validate_request (keyed_put key r) = Inr \<lparr>sq_key = ''k1'', sq_op = ''put'', sq_identity = key, sq_record = r\<rparr>"
proof -
  have put: "''put'' \<in> set WAL_OPS" by (simp add: WAL_OPS_def)
  obtain e where e: "wal_append canonical_payload (PList 0 []) (request_value ''put'' key r) = Inr (e, [e])"
    "we_op e = ''put''" "we_identity e = key" "we_record e = r"
    using honest_append [OF log_ok_Nil put assms] by (auto simp: log_value_def)
  have f: "fld (items (keyed_put key r)) ''idempotency_key'' = PStr ''k1''" "fld (items (keyed_put key r)) ''op'' = PStr ''put''"
    "fld (items (keyed_put key r)) ''payload'' = payload_value key r"
    by (simp_all add: keyed_put_def fld_simps)
  have "payload_str_keyed (payload_value key r)" by (simp add: payload_str_keyed_def payload_value_def node_dict_def)
  then show ?thesis using e f
    by (simp add: si_validate_request_def keyed_put_def keys_are_def ji_key_ok_def name_char_def request_value_def)
qed

theorem store_exactly_once_witness:
  "\<exists>v e r. si_apply si_honest (log_value [e]) (si_ledger_value [r]) v = Inr ((Replayed, r), [e], [r]) \<and> sr_entry r = we_id e"
proof -
  obtain key r where kr: "entry_ok key r" using start_entry by blast
  note q = keyed_put_request [OF kr]
  have "''put'' \<in> set WAL_OPS" by (simp add: WAL_OPS_def)
  then obtain e where "wal_append canonical_payload (log_value []) (request_value ''put'' key r) = Inr (e, [e])"
    using honest_append [OF log_ok_Nil _ kr] by fastforce
  then obtain s where "si_commit si_honest [] [] \<lparr>sq_key = ''k1'', sq_op = ''put'', sq_identity = key, sq_record = r\<rparr> = Inr ((Applied, s), [e], [s])"
    by (simp add: si_commit_def si_honest_fingerprint si_stored_def Let_def)
  then have a: "si_apply si_honest (log_value []) (si_ledger_value []) (keyed_put key r) = Inr ((Applied, s), [e], [s])"
    using si_apply_value [of "[]" "[]" si_honest "keyed_put key r"] q by (simp add: si_ok_def)
  have "run si_cmd ([e], [s]) [] = ([e], [s])" by simp
  from store_exactly_once [OF a this, of si_honest] q show ?thesis
    by (intro exI [of _ "keyed_put key r"] exI [of _ e] exI [of _ s]) (auto simp: si_honest_fingerprint)
qed

end
