(* ===== verification/Backup.thy ===== *)
theory Backup
  imports StoreLog
begin

text \<open>
  Backups of a log and their restore, \<open>src/store/backup.py\<close> and \<open>src/store/restore.py\<close> over
  \<open>src/data/contracts/backup.yaml\<close> and \<open>restore.yaml\<close>. The bundle serializer and the bundle parser are the
  caller's code: parameters that give the value they return, or None if they raise.
\<close>

subsection \<open>Backup\<close>

datatype backup_error = Malformed_backup_record | Bk_corrupt_source | Divergent_snapshot | Divergent_backup

fun backup_code :: "backup_error \<Rightarrow> string" where
  "backup_code Malformed_backup_record = ''malformed_request''"
| "backup_code Bk_corrupt_source = ''corrupt_source''"
| "backup_code Divergent_snapshot = ''divergent_snapshot''"
| "backup_code Divergent_backup = ''divergent_backup''"

definition BACKUP_FIELDS :: "string list" where
  "BACKUP_FIELDS = [''backup_id'', ''head'', ''state_id'', ''entry_count'', ''bundle'']"

definition COUNT_MAX :: int where
  "COUNT_MAX = 9223372036854775807"

definition EMPTY_STATE_ID :: string where
  "EMPTY_STATE_ID = gs_id []"

type_synonym bundle_serializer = "gstate \<Rightarrow> pyval option"

definition serialize_bundle :: "gstate \<Rightarrow> string" where
  "serialize_bundle st = concat (map (\<lambda>(key, r). key @ CHR 0x0A # record_body r @ [CHR 0x0A]) (sort_key fst st))"

record backup_receipt =
  bk_id :: string
  bk_head :: string
  bk_state_id :: string
  bk_count :: int
  bk_bundle :: string

definition derive_backup_id :: "string \<Rightarrow> string \<Rightarrow> int \<Rightarrow> string \<Rightarrow> string" where
  "derive_backup_id head sid entries bundle = tagged ''bck1'' (join_on CHR 0x0A [head, sid, int_text entries, bundle])"

definition serialized :: "bundle_serializer \<Rightarrow> gstate \<Rightarrow> (backup_error, string) result" where
  "serialized s st = (case s st of Some (PStr out) \<Rightarrow> Inr out | _ \<Rightarrow> Inl Divergent_snapshot)"

definition backup :: "bundle_serializer \<Rightarrow> pyval \<Rightarrow> (backup_error, backup_receipt) result" where
  "backup s log = (case log of PList _ _ \<Rightarrow>
       (case wal_replay canonical_payload log of Inl _ \<Rightarrow> Inl Bk_corrupt_source
        | Inr rp \<Rightarrow> and_then (serialized s (rp_state rp)) (\<lambda>bundle.
            Inr \<lparr>bk_id = derive_backup_id (rp_head rp) (rp_state_id rp) (int (rp_applied rp)) bundle,
              bk_head = rp_head rp, bk_state_id = rp_state_id rp, bk_count = int (rp_applied rp), bk_bundle = bundle\<rparr>))
     | _ \<Rightarrow> Inl Malformed_backup_record)"

text \<open>A bundle without an encoding is refused when the id is recomputed, after the count has been checked.\<close>

definition verify_backup :: "pyval \<Rightarrow> (backup_error, backup_receipt) result" where
  "verify_backup receipt = (case receipt of PDict _ d \<Rightarrow>
       require (keys_are d BACKUP_FIELDS) Malformed_backup_record
       (require (matches (tag_grammar ''bck1'') (fld d ''backup_id'') \<and> matches prior_grammar (fld d ''head'')
           \<and> matches (tag_grammar ''gs1'') (fld d ''state_id'')) Malformed_backup_record
       (require (int_in (fld d ''entry_count'') 0 COUNT_MAX) Malformed_backup_record
       (require (is_str (fld d ''bundle'')) Malformed_backup_record
       (let n = int_of (fld d ''entry_count'') in
        require (\<not> (n = 0 \<and> (fld d ''head'' \<noteq> PStr GENESIS \<or> fld d ''state_id'' \<noteq> PStr EMPTY_STATE_ID))) Divergent_backup
       (require (\<not> (n > 0 \<and> fld d ''head'' = PStr GENESIS)) Divergent_backup
       (case fld d ''bundle'' of PStr bundle \<Rightarrow>
          (let head = key_bytes (fld d ''head''); sid = key_bytes (fld d ''state_id'') in
           require (fld d ''backup_id'' = PStr (derive_backup_id head sid n bundle)) Divergent_backup
             (Inr \<lparr>bk_id = key_bytes (fld d ''backup_id''), bk_head = head, bk_state_id = sid, bk_count = n,
                bk_bundle = bundle\<rparr>))
        | _ \<Rightarrow> Inl Malformed_backup_record))))))
     | _ \<Rightarrow> Inl Malformed_backup_record)"

definition backup_value :: "backup_receipt \<Rightarrow> pyval" where
  "backup_value rc = PDict 5 [(PStr ''backup_id'', PStr (bk_id rc)), (PStr ''head'', PStr (bk_head rc)),
     (PStr ''state_id'', PStr (bk_state_id rc)), (PStr ''entry_count'', PInt (bk_count rc)),
     (PStr ''bundle'', PStr (bk_bundle rc))]"

subsection \<open>Restore\<close>

datatype restore_error = Malformed_restore_record | Unverified_backup | Divergent_parse | Divergent_state
  | Rt_state_rejected wal_error

text \<open>\<open>Rt_state_rejected\<close> is the \<open>DiffError\<close> that \<open>state_id\<close> would let through; no input leads there.\<close>

fun restore_code :: "restore_error \<Rightarrow> string" where
  "restore_code Malformed_restore_record = ''malformed_request''"
| "restore_code Unverified_backup = ''unverified_backup''"
| "restore_code Divergent_parse = ''divergent_parse''"
| "restore_code Divergent_state = ''divergent_state''"
| "restore_code (Rt_state_rejected e) = wal_code e"

type_synonym bundle_parser = "string \<Rightarrow> pyval option"

text \<open>\<open>pair.partition("=")\<close> without the separator.\<close>

definition partition_eq :: "string \<Rightarrow> string \<times> string" where
  "partition_eq s = (takeWhile (\<lambda>c. c \<noteq> CHR ''='') s, drop 1 (dropWhile (\<lambda>c. c \<noteq> CHR ''='') s))"

definition bundle_fields :: "string \<Rightarrow> pydict" where
  "bundle_fields line = foldl (\<lambda>d pair. case partition_eq pair of (field, v) \<Rightarrow> dict_set d (PStr field) (PStr v))
     [] (split_on CHR ''|'' line)"

text \<open>Two lines per record; an odd line raises.\<close>

fun parse_lines :: "string list \<Rightarrow> pydict \<Rightarrow> pydict option" where
  "parse_lines [] st = Some st"
| "parse_lines [key] st = None"
| "parse_lines (key # line # rest) st = parse_lines rest (dict_set st (PStr key) (PDict 2 (bundle_fields line)))"

definition parse_bundle :: bundle_parser where
  "parse_bundle bundle = (let lines = split_on CHR 0x0A bundle;
       lines = (if last lines = [] then butlast lines else lines) in
     map_option (PDict 1) (parse_lines lines []))"

definition derive_restore_id :: "string \<Rightarrow> string \<Rightarrow> string" where
  "derive_restore_id backup_id sid = tagged ''rst1'' (backup_id @ CHR 0x0A # sid)"

text \<open>The identity of a record, or None, with the record's content.\<close>

definition restore_record :: "pyval \<Rightarrow> (string \<times> node_record) option" where
  "restore_record rec = (case rec of PDict _ d \<Rightarrow>
       if \<not> keys_are d NODE_FIELDS then None
       else if \<not> list_all (\<lambda>k. is_str (fld d k)) NODE_FIELDS then None
       else (case exact_record (fld d ''variant'') (fld d ''snapshot_fen'') of
          Inl _ \<Rightarrow> None
        | Inr derived \<Rightarrow> (case record_identity (PDict 0 (node_dict derived)) of
            Inl _ \<Rightarrow> None
          | Inr key \<Rightarrow> if list_all (\<lambda>k. fld d k = fld (node_dict derived) k) NODE_FIELDS
              then Some (key, derived) else None))
     | _ \<Rightarrow> None)"

fun restored_state :: "pydict \<Rightarrow> gstate \<Rightarrow> (restore_error, gstate) result" where
  "restored_state [] st = Inr st"
| "restored_state ((key, rec) # entries) st = (case restore_record rec of
     Some (k, r) \<Rightarrow> require (key = PStr k) Divergent_state (restored_state entries (dict_set st k r))
   | None \<Rightarrow> Inl Divergent_state)"

record restore_receipt =
  rt_id :: string
  rt_backup :: string
  rt_state_id :: string
  rt_state :: gstate

definition parsed_bundle :: "bundle_parser \<Rightarrow> string \<Rightarrow> (restore_error, pydict) result" where
  "parsed_bundle p bundle = (case p bundle of Some (PDict _ d) \<Rightarrow> Inr d | _ \<Rightarrow> Inl Divergent_parse)"

definition restore :: "bundle_parser \<Rightarrow> pyval \<Rightarrow> (restore_error, restore_receipt) result" where
  "restore p receipt = (case verify_backup receipt of
     Inl e \<Rightarrow> Inl (if e = Malformed_backup_record then Malformed_restore_record else Unverified_backup)
   | Inr rc \<Rightarrow> and_then (parsed_bundle p (bk_bundle rc)) (\<lambda>parsed.
       and_then (restored_state parsed []) (\<lambda>st.
       case checked_state_id st of Inl e \<Rightarrow> Inl (Rt_state_rejected e)
       | Inr sid \<Rightarrow>
           require (sid = bk_state_id rc) Divergent_state
          (require (serialize_bundle st = bk_bundle rc) Divergent_parse
            (Inr \<lparr>rt_id = derive_restore_id (bk_id rc) (bk_state_id rc), rt_backup = bk_id rc,
               rt_state_id = bk_state_id rc, rt_state = st\<rparr>)))))"

end
