(* ===== verification/BackupProps.thy ===== *)
theory BackupProps
  imports Backup
begin

text \<open>
  Correctness of backup and restore: the bundle is the text that the state id hashes, the honest parser
  inverts it, so a restore gives back the state of the log; and no parser can make a restore give a
  different state.
\<close>

lemma serialize_text: "serialize_bundle st = state_text st"
  by (simp add: serialize_bundle_def state_text_def)

lemma restore_record_iff: "restore_record v = Some (key, r) \<longleftrightarrow> diff_record v = Inr (key, r)"
  unfolding wal_record_iff [symmetric]
  by (auto simp: restore_record_def wal_record_def require_def split: pyval.split sum.split)

subsection \<open>The honest parser\<close>

lemma bar_free:
  assumes "entry_ok key r"
  shows "CHR ''|'' \<notin> set (nr_variant r)" "CHR ''|'' \<notin> set (nr_digest r)" "CHR ''|'' \<notin> set (nr_snapshot r)"
proof -
  from entry_parts [OF assms] obtain a b c d where r: "split_on CHR '' '' (nr_snapshot r) = [a, b, c, d, ''0'', ''1'']"
    "list_all plain_text [nr_variant r, a, b, c, d]"
    "digest_fen (PStr (nr_variant r)) (PStr (nr_snapshot r)) = Inr (nr_digest r)" by metis
  show "CHR ''|'' \<notin> set (nr_variant r)" using r(2) by (simp add: plain_text_def)
  have "nr_snapshot r = join_on CHR '' '' [a, b, c, d, ''0'', ''1'']" using r(1) by (metis join_split)
  then show "CHR ''|'' \<notin> set (nr_snapshot r)" using r(2) by (auto simp: plain_text_def)
  have "CHR ''|'' \<notin> set (sha256_hex m)" for m
  proof
    assume "CHR ''|'' \<in> set (sha256_hex m)"
    then have "is_hex CHR ''|''" using sha256_hex_grammar [of m] by (simp only: list_all_iff)
    then show False by (simp add: is_hex_def)
  qed
  then have "CHR ''|'' \<notin> set (digest e)" for e by (simp add: digest_def tagged_def)
  moreover obtain e where "digest e = nr_digest r" using r(3) by (auto simp: digest_fen_def split: sum.splits)
  ultimately show "CHR ''|'' \<notin> set (nr_digest r)" by metis
qed

text \<open>The fields of a record in the order of the bundle.\<close>

definition sorted_dict :: "node_record \<Rightarrow> pydict" where
  "sorted_dict r = [(PStr ''digest'', PStr (nr_digest r)), (PStr ''snapshot_fen'', PStr (nr_snapshot r)),
     (PStr ''variant'', PStr (nr_variant r))]"

lemma partition_eq_field: "CHR ''='' \<notin> set field \<Longrightarrow> partition_eq (field @ CHR ''='' # v) = (field, v)"
  by (induction field) (auto simp: partition_eq_def)

lemma bundle_fields_body:
  assumes "entry_ok key r"
  shows "bundle_fields (record_body r) = sorted_dict r"
proof -
  let ?parts = "[''digest'' @ CHR ''='' # nr_digest r, ''snapshot_fen'' @ CHR ''='' # nr_snapshot r, ''variant'' @ CHR ''='' # nr_variant r]"
  have "record_body r = join_on CHR ''|'' ?parts" by (simp add: record_body_def)
  moreover have "split_on CHR ''|'' (join_on CHR ''|'' ?parts) = ?parts"
    by (rule split_join) (use bar_free [OF assms] in simp_all)
  ultimately have "bundle_fields (record_body r) = foldl (\<lambda>d pair. case partition_eq pair of (field, v) \<Rightarrow> dict_set d (PStr field) (PStr v))
     [] ?parts" by (simp only: bundle_fields_def)
  also have "\<dots> = sorted_dict r"
    using partition_eq_field [of "''digest''"] partition_eq_field [of "''snapshot_fen''"] partition_eq_field [of "''variant''"]
    by (simp add: sorted_dict_def)
  finally show ?thesis .
qed

lemma sorted_dict_record: "entry_ok key r \<Longrightarrow> diff_record (PDict 2 (sorted_dict r)) = Inr (key, r)"
proof -
  assume e: "entry_ok key r"
  have "keys_are (sorted_dict r) NODE_FIELDS" by (auto simp: keys_are_def sorted_dict_def NODE_FIELDS_def)
  then show ?thesis using e unfolding entry_ok_def diff_record_iff by (simp add: sorted_dict_def fld_simps)
qed

lemma parse_lines_entries:
  "(\<forall>(key, r) \<in> set xs. entry_ok key r) \<Longrightarrow> distinct (map fst st @ map (PStr \<circ> fst) xs) \<Longrightarrow>
    parse_lines (concat (map (\<lambda>(key, r). [key, record_body r]) xs)) st
      = Some (st @ map (\<lambda>(key, r). (PStr key, PDict 2 (sorted_dict r))) xs)"
proof (induction xs arbitrary: st)
  case (Cons x xs)
  obtain key r where x: "x = (key, r)" by (cases x)
  have new: "dict_set st (PStr key) (PDict 2 (sorted_dict r)) = st @ [(PStr key, PDict 2 (sorted_dict r))]"
    by (rule dict_set_new) (use Cons.prems(2) in \<open>auto simp: x\<close>)
  have "bundle_fields (record_body r) = sorted_dict r" using Cons.prems(1) x by (auto intro: bundle_fields_body)
  then show ?case using Cons.IH [of "st @ [(PStr key, PDict 2 (sorted_dict r))]"] Cons.prems
    by (simp add: x new)
qed simp

lemma restored_entries:
  "(\<forall>(key, r) \<in> set xs. entry_ok key r) \<Longrightarrow> distinct (map fst st @ map fst xs) \<Longrightarrow>
    restored_state (map (\<lambda>(key, r). (PStr key, PDict 2 (sorted_dict r))) xs) st = Inr (st @ xs)"
proof (induction xs arbitrary: st)
  case (Cons x xs)
  obtain key r where x: "x = (key, r)" by (cases x)
  have "restore_record (PDict 2 (sorted_dict r)) = Some (key, r)"
    unfolding restore_record_iff using Cons.prems(1) x by (auto intro: sorted_dict_record)
  moreover have "dict_set st key r = st @ [(key, r)]"
    by (rule dict_set_new) (use Cons.prems(2) in \<open>auto simp: x\<close>)
  ultimately show ?case using Cons.IH [of "st @ [(key, r)]"] Cons.prems by (simp add: x)
qed simp

lemma parse_serialized:
  assumes "gstate_ok st"
  shows "parse_bundle (serialize_bundle st)
    = Some (PDict 1 (map (\<lambda>(key, r). (PStr key, PDict 2 (sorted_dict r))) (sort_key fst st)))"
proof -
  let ?lines = "concat (map (\<lambda>(key, r). [key, record_body r]) (sort_key fst st))"
  have ok: "\<forall>(key, r) \<in> set (sort_key fst st). entry_ok key r" "distinct (map fst (sort_key fst st))"
    using assms by (simp_all add: gstate_ok_def distinct_map)
  have plain: "\<forall>l \<in> set (?lines @ [[]]). CHR 0x0A \<notin> set l"
  proof
    fix l assume "l \<in> set (?lines @ [[]])"
    then consider "l = []" | key r where "(key, r) \<in> set (sort_key fst st)" "l = key \<or> l = record_body r" by auto
    then show "CHR 0x0A \<notin> set l"
    proof cases
      case (2 key r)
      then have "entry_ok key r" using ok(1) by blast
      then show ?thesis using 2(2) entry_key_plain entry_body_plain by blast
    qed simp
  qed
  have "split_on CHR 0x0A (serialize_bundle st) = ?lines @ [[]]"
    unfolding serialize_text state_text_lines using split_join [OF _ plain] by simp
  moreover have "distinct (map (PStr \<circ> fst) (sort_key fst st))"
    using ok(2) by (simp add: distinct_map inj_on_def)
  then have "parse_lines ?lines [] = Some (map (\<lambda>(key, r). (PStr key, PDict 2 (sorted_dict r))) (sort_key fst st))"
    using parse_lines_entries [OF ok(1), of "[]"] by simp
  ultimately show ?thesis by (simp add: parse_bundle_def Let_def)
qed

subsection \<open>Round trip\<close>

definition honest_serializer :: bundle_serializer where
  "honest_serializer st = Some (PStr (serialize_bundle st))"

lemma log_ok_state: "log_ok c es \<Longrightarrow> gstate_ok (log_state es)"
  using log_state_ok check_log_entries unfolding log_ok_def by blast

lemma backup_Inr:
  assumes "backup honest_serializer log = Inr rc"
  obtains es where "log_ok canonical_payload es" "wal_replay canonical_payload log = Inr (replay_of es)"
    "rc = \<lparr>bk_id = derive_backup_id (tip_of GENESIS es) (gs_id (log_state es)) (int (length es)) (serialize_bundle (log_state es)),
       bk_head = tip_of GENESIS es, bk_state_id = gs_id (log_state es), bk_count = int (length es),
       bk_bundle = serialize_bundle (log_state es)\<rparr>"
proof -
  obtain n vs where l: "log = PList n vs" using assms by (auto simp: backup_def split: pyval.splits)
  obtain rp where rp: "wal_replay canonical_payload (PList n vs) = Inr rp"
    using assms by (auto simp: backup_def l split: sum.splits)
  then obtain es where "log_ok canonical_payload es" "rp = replay_of es" using wal_replay_ok by blast
  then show thesis using that assms rp by (auto simp: backup_def l serialized_def honest_serializer_def replay_of_def)
qed

lemma verify_value:
  assumes "bk_id rc = derive_backup_id (bk_head rc) (bk_state_id rc) (bk_count rc) (bk_bundle rc)"
    and "prior_grammar (bk_head rc)" "tag_grammar ''gs1'' (bk_state_id rc)" "0 \<le> bk_count rc" "bk_count rc \<le> COUNT_MAX"
    and "\<not> (bk_count rc = 0 \<and> (bk_head rc \<noteq> GENESIS \<or> bk_state_id rc \<noteq> EMPTY_STATE_ID))"
    and "\<not> (bk_count rc > 0 \<and> bk_head rc = GENESIS)"
  shows "verify_backup (backup_value rc) = Inr rc"
proof -
  have "keys_are [(PStr ''backup_id'', PStr (bk_id rc)), (PStr ''head'', PStr (bk_head rc)),
     (PStr ''state_id'', PStr (bk_state_id rc)), (PStr ''entry_count'', PInt (bk_count rc)),
     (PStr ''bundle'', PStr (bk_bundle rc))] BACKUP_FIELDS"
    by (auto simp: keys_are_def BACKUP_FIELDS_def)
  moreover have "tag_grammar ''bck1'' (bk_id rc)" by (simp add: assms(1) derive_backup_id_def)
  ultimately show ?thesis using assms(2-7)
    by (cases rc) (use assms(1) in \<open>auto simp: verify_backup_def backup_value_def fld_simps Let_def\<close>)
qed

lemma verify_backup_value:
  assumes "log_ok canonical_payload es" "int (length es) \<le> COUNT_MAX"
    and "rc = \<lparr>bk_id = derive_backup_id (tip_of GENESIS es) (gs_id (log_state es)) (int (length es)) bundle,
       bk_head = tip_of GENESIS es, bk_state_id = gs_id (log_state es), bk_count = int (length es), bk_bundle = bundle\<rparr>"
  shows "verify_backup (backup_value rc) = Inr rc"
proof (rule verify_value)
  have "tip_of GENESIS es \<noteq> GENESIS" if ne: "es \<noteq> []"
  proof -
    obtain fs e where es: "es = fs @ [e]" using ne by (cases es rule: rev_cases) auto
    have "we_id e = tagged ''wal1'' (entry_text e)" using honest_log_snoc [OF assms(1) [unfolded es]] by blast
    then show ?thesis unfolding es tip_of_simps using tagged_not_genesis by metis
  qed
  then show "\<not> (bk_count rc > 0 \<and> bk_head rc = GENESIS)" by (auto simp: assms(3))
  show "\<not> (bk_count rc = 0 \<and> (bk_head rc \<noteq> GENESIS \<or> bk_state_id rc \<noteq> EMPTY_STATE_ID))"
    by (auto simp: assms(3) EMPTY_STATE_ID_def)
  show "prior_grammar (bk_head rc)"
    using check_log_tip [of "map entry_value es" 1 GENESIS es] assms(1,3) by (simp add: log_ok_def prior_grammar_def)
qed (simp_all add: assms(2,3) gs_id_def)

lemma restore_serialized:
  assumes "gstate_ok st" "verify_backup v = Inr rc" "bk_bundle rc = serialize_bundle st" "bk_state_id rc = gs_id st"
  shows "restore parse_bundle v = Inr \<lparr>rt_id = derive_restore_id (bk_id rc) (bk_state_id rc), rt_backup = bk_id rc,
    rt_state_id = bk_state_id rc, rt_state = sort_key fst st\<rparr>"
proof -
  have ok: "gstate_ok (sort_key fst st)" using assms(1) by (simp add: gstate_ok_def distinct_map)
  have s: "set (sort_key fst st) = set st" by simp
  have "gs_id (sort_key fst st) = gs_id st" "serialize_bundle (sort_key fst st) = serialize_bundle st"
    unfolding serialize_text using gs_id_content [OF ok assms(1) s] state_text_content [OF ok assms(1)] s by blast+
  moreover have "checked_state_id (sort_key fst st) = Inr (gs_id (sort_key fst st))"
    by (simp add: checked_state_id_def diff_state_value [OF ok])
  moreover have "restored_state (map (\<lambda>(key, r). (PStr key, PDict 2 (sorted_dict r))) (sort_key fst st)) [] = Inr (sort_key fst st)"
    using restored_entries [of "sort_key fst st" "[]"] ok by (simp only: gstate_ok_def append_Nil list.map(1)) simp
  ultimately show ?thesis using assms(2-4) parse_serialized [OF assms(1)] by (simp add: restore_def parsed_bundle_def)
qed

text \<open>C12. Backup round trip: a backup that the honest serializer makes of any log (of at most 2^63 - 1
  entries) is accepted by verification as it is, and restoring it with the honest parser succeeds and gives
  exactly the map from keys to records, and the state id, that replaying the log gives.\<close>

theorem backup_restore_roundtrip:
  assumes "backup honest_serializer log = Inr rc" and "bk_count rc \<le> COUNT_MAX"
  shows "verify_backup (backup_value rc) = Inr rc
    \<and> (\<exists>rt rp. restore parse_bundle (backup_value rc) = Inr rt \<and> wal_replay canonical_payload log = Inr rp
        \<and> map_of (rt_state rt) = map_of (rp_state rp) \<and> rt_state_id rt = rp_state_id rp \<and> rt_backup rt = bk_id rc
        \<and> rp_head rp = bk_head rc \<and> int (rp_applied rp) = bk_count rc)"
proof -
  from assms(1) obtain es where es: "log_ok canonical_payload es" "wal_replay canonical_payload log = Inr (replay_of es)"
    "rc = \<lparr>bk_id = derive_backup_id (tip_of GENESIS es) (gs_id (log_state es)) (int (length es)) (serialize_bundle (log_state es)),
       bk_head = tip_of GENESIS es, bk_state_id = gs_id (log_state es), bk_count = int (length es),
       bk_bundle = serialize_bundle (log_state es)\<rparr>" by (rule backup_Inr)
  have v: "verify_backup (backup_value rc) = Inr rc"
    by (rule verify_backup_value [OF es(1) _ es(3)]) (use assms(2) es(3) in simp)
  note st = log_ok_state [OF es(1)]
  have "gstate_ok (sort_key fst (log_state es))" using st by (simp add: gstate_ok_def distinct_map)
  then have "map_of (sort_key fst (log_state es)) = map_of (log_state es)"
    using gstate_map_set st by (metis set_sort)
  then show ?thesis using restore_serialized [OF st v] es(2,3) v by (simp add: replay_of_def)
qed

text \<open>A log of one entry, and its backup.\<close>

lemma sample_backup:
  obtains e rc where "log_ok canonical_payload [e]" "map_of (log_state [e]) (we_identity e) = Some (we_record e)"
    "backup honest_serializer (log_value [e]) = Inr rc" "bk_count rc \<le> COUNT_MAX" "bk_count rc = 1"
    "bk_bundle rc = serialize_bundle (log_state [e])"
proof -
  obtain e where e: "log_ok canonical_payload [e]" "we_op e = ''put''" using sample_log by blast
  have "wal_replay canonical_payload (log_value [e]) = Inr (replay_of [e])" using e(1) log_ok_replay by blast
  then obtain rc where "backup honest_serializer (log_value [e]) = Inr rc" "bk_count rc = 1"
    "bk_bundle rc = serialize_bundle (log_state [e])"
    by (auto simp: backup_def log_value_def serialized_def honest_serializer_def replay_of_def)
  moreover have "map_of (log_state [e]) (we_identity e) = Some (we_record e)"
    by (simp add: log_state_def map_of_wal_effect e(2))
  ultimately show thesis using that [OF e(1)] by (simp add: COUNT_MAX_def)
qed

theorem backup_restore_roundtrip_witness:
  "\<exists>e rc rt. backup honest_serializer (log_value [e]) = Inr rc \<and> bk_count rc = 1
    \<and> restore parse_bundle (backup_value rc) = Inr rt \<and> map_of (rt_state rt) (we_identity e) = Some (we_record e)"
proof -
  obtain e rc where e: "log_ok canonical_payload [e]" "map_of (log_state [e]) (we_identity e) = Some (we_record e)"
    "backup honest_serializer (log_value [e]) = Inr rc" "bk_count rc \<le> COUNT_MAX" "bk_count rc = 1"
    by (rule sample_backup)
  have rp: "wal_replay canonical_payload (log_value [e]) = Inr (replay_of [e])" using e(1) log_ok_replay by blast
  from backup_restore_roundtrip [OF e(3,4)] obtain rt where
    "restore parse_bundle (backup_value rc) = Inr rt" "map_of (rt_state rt) = map_of (log_state [e])"
    using rp by (auto simp: replay_of_def)
  then show ?thesis using e by (metis (no_types))
qed

subsection \<open>Any parser\<close>

lemma restored_state_ok: "restored_state d st = Inr st' \<Longrightarrow> gstate_ok st \<Longrightarrow> gstate_ok st'"
proof (induction d st arbitrary: st' rule: restored_state.induct)
  case (2 key rec entries st)
  then obtain k r where kr: "restore_record rec = Some (k, r)" "restored_state entries (dict_set st k r) = Inr st'"
    by (auto split: option.splits)
  have "entry_ok k r" using kr(1) unfolding restore_record_iff by (rule diff_record_entry)
  then have "gstate_ok (dict_set st k r)"
    using wal_effect_ok [OF "2.prems"(2), of "\<lparr>we_id = [], we_sequence = 0, we_op = ''put'', we_identity = k, we_record = r, we_prior = []\<rparr>"]
    by (simp add: wal_effect_def)
  then show ?case using "2.IH" kr by (cases "key = PStr k") auto
qed simp

lemma restore_Inr:
  assumes "restore p v = Inr rt"
  obtains rc where "verify_backup v = Inr rc" "gstate_ok (rt_state rt)" "gs_id (rt_state rt) = bk_state_id rc"
    "state_text (rt_state rt) = bk_bundle rc" "rt_state_id rt = bk_state_id rc"
proof -
  obtain rc where rc: "verify_backup v = Inr rc" using assms by (auto simp: restore_def split: sum.splits)
  obtain d st where d: "parsed_bundle p (bk_bundle rc) = Inr d" "restored_state d [] = Inr st"
    using assms by (auto simp: restore_def rc)
  have ok: "gstate_ok st" by (rule restored_state_ok [OF d(2)]) (simp add: gstate_ok_def)
  have "checked_state_id st = Inr (gs_id st)" by (simp add: checked_state_id_def diff_state_value [OF ok])
  then show thesis using that [OF rc] assms ok by (auto simp: restore_def rc d serialize_text)
qed

text \<open>C18. The parser is not trusted: whatever value is given as a receipt and whatever the parser returns, an
  accepted restore gives a state of exact records whose state id is the one of the receipt, and two
  accepted restores of one value, with any two parsers, give the same map.\<close>

theorem restore_parser_irrelevant:
  assumes "restore p v = Inr rt" and "restore p' v = Inr rt'"
  shows "map_of (rt_state rt) = map_of (rt_state rt') \<and> gs_id (rt_state rt) = rt_state_id rt
    \<and> diff_state (state_value (rt_state rt)) = Inr (rt_state rt)"
proof -
  from assms(1) obtain rc where a: "verify_backup v = Inr rc" "gstate_ok (rt_state rt)" "gs_id (rt_state rt) = bk_state_id rc"
    "state_text (rt_state rt) = bk_bundle rc" "rt_state_id rt = bk_state_id rc" by (rule restore_Inr)
  from assms(2) obtain rc' where b: "verify_backup v = Inr rc'" "gstate_ok (rt_state rt')"
    "state_text (rt_state rt') = bk_bundle rc'" by (rule restore_Inr)
  have "state_text (rt_state rt) = state_text (rt_state rt')" using a(1,4) b(1,3) by simp
  then have "map_of (rt_state rt) = map_of (rt_state rt')"
    using state_text_content [OF a(2) b(2)] gstate_map_set [OF a(2) b(2)] by blast
  then show ?thesis using a(3,5) diff_state_value [OF a(2)] by simp
qed

text \<open>The honest parser, and one that gives the entries back in the opposite order.\<close>

definition reversed_parser :: bundle_parser where
  "reversed_parser bundle = (case parse_bundle bundle of Some (PDict n d) \<Rightarrow> Some (PDict n (rev d)) | _ \<Rightarrow> None)"

theorem restore_parser_irrelevant_witness:
  "\<exists>v rt rt'. restore parse_bundle v = Inr rt \<and> restore reversed_parser v = Inr rt' \<and> rt_state rt \<noteq> []
    \<and> map_of (rt_state rt) = map_of (rt_state rt')"
proof -
  obtain e rc where e: "log_ok canonical_payload [e]" "map_of (log_state [e]) (we_identity e) = Some (we_record e)"
    "backup honest_serializer (log_value [e]) = Inr rc" "bk_count rc \<le> COUNT_MAX" "bk_count rc = 1"
    "bk_bundle rc = serialize_bundle (log_state [e])"
    by (rule sample_backup)
  from e(3) obtain es where es: "log_ok canonical_payload es"
    "rc = \<lparr>bk_id = derive_backup_id (tip_of GENESIS es) (gs_id (log_state es)) (int (length es)) (serialize_bundle (log_state es)),
       bk_head = tip_of GENESIS es, bk_state_id = gs_id (log_state es), bk_count = int (length es),
       bk_bundle = serialize_bundle (log_state es)\<rparr>" by (rule backup_Inr)
  have v: "verify_backup (backup_value rc) = Inr rc"
    by (rule verify_backup_value [OF es(1) _ es(2)]) (use e(4) es(2) in simp)
  obtain f where f: "es = [f]" using e(5) es(2) by (cases es) auto
  have "length (log_state es) \<le> 1" by (simp add: f log_state_def wal_effect_def)
  then have one: "rev (sort_key fst (log_state es)) = sort_key fst (log_state es)" by (cases "log_state es") auto
  obtain rt where rt: "restore parse_bundle (backup_value rc) = Inr rt" "rt_state rt = sort_key fst (log_state es)"
    using restore_serialized [OF log_ok_state [OF es(1)] v] es(2) by auto
  have "reversed_parser (bk_bundle rc) = parse_bundle (bk_bundle rc)"
    using parse_serialized [OF log_ok_state [OF es(1)]] one es(2) by (simp add: reversed_parser_def rev_map)
  then have rt': "restore reversed_parser (backup_value rc) = Inr rt"
    using rt(1) by (simp add: restore_def v parsed_bundle_def)
  have "serialize_bundle (log_state es) = serialize_bundle (log_state [e])" using e(6) es(2) by simp
  then have "set (log_state es) = set (log_state [e])"
    using state_text_content [OF log_ok_state [OF es(1)] log_ok_state [OF e(1)]] by (simp add: serialize_text)
  then have "rt_state rt \<noteq> []" using e(2) rt(2) by (metis map_of.simps(1) option.distinct(1) set_empty set_sort sort_key_simps(1))
  then show ?thesis using restore_parser_irrelevant [OF rt(1) rt'] rt(1) rt' by blast
qed

end
