(* ===== verification/Corruption.thy ===== *)
theory Corruption
  imports StoreLog
begin

text \<open>
  The corruption scan of a log, \<open>src/store/corruption.py\<close> over \<open>src/data/contracts/corruption.yaml\<close>: a closed
  domain of values, the longest prefix that replays, found by bisection, and the salvage of that prefix.
  The quarantine sink is the caller's code: a parameter that gives the value it returns for the frozen
  suffix, or None if it raises.
\<close>

datatype corruption_error = Malformed_corruption_record | Excessive_loss | Cs_divergent_quarantine

fun corruption_code :: "corruption_error \<Rightarrow> string" where
  "corruption_code Malformed_corruption_record = ''malformed_request''"
| "corruption_code Excessive_loss = ''excessive_loss''"
| "corruption_code Cs_divergent_quarantine = ''divergent_quarantine''"

definition SCAN_MAX_DEPTH :: nat where "SCAN_MAX_DEPTH = 8"
definition SCAN_INT_BITS :: nat where "SCAN_INT_BITS = 256"

subsection \<open>The scan domain\<close>

text \<open>One pass checks the domain, makes the detached copy and the encoding, and threads the set of the
  containers met so far. A dict is walked in the order of its keys. The copy keeps the numbers of the
  containers (each occurs once).\<close>

definition frame :: "char \<Rightarrow> string \<Rightarrow> string" where
  "frame tag raw = tag # dec (length raw) @ CHR '':'' # raw"

definition list_head :: "char \<Rightarrow> nat \<Rightarrow> string" where
  "list_head tag n = tag # dec n @ '':''"

definition sorted_items :: "pydict \<Rightarrow> pydict" where
  "sorted_items d = sort_key (\<lambda>p. key_bytes (fst p)) d"

lemma size_sorted_items: "size_list (size_prod size size) (sorted_items d) = size_list (size_prod size size) d"
  by (simp add: sorted_items_def size_list_conv_sum_list flip: sum_mset_sum_list)

function (sequential)
  encode_value :: "nat \<Rightarrow> pyval \<Rightarrow> nat list \<Rightarrow> (pyval \<times> string \<times> nat list) option" and
  encode_items :: "nat \<Rightarrow> pyval list \<Rightarrow> nat list \<Rightarrow> (pyval list \<times> string \<times> nat list) option" and
  encode_pairs :: "nat \<Rightarrow> pydict \<Rightarrow> nat list \<Rightarrow> (pydict \<times> string \<times> nat list) option" where
  "encode_value depth v visited = (if depth > SCAN_MAX_DEPTH then None else (case v of
       PNone \<Rightarrow> Some (PNone, ''n'', visited)
     | PBool b \<Rightarrow> Some (PBool b, if b then ''t'' else ''f'', visited)
     | PInt n \<Rightarrow> if \<not> \<bar>n\<bar> < 2 ^ SCAN_INT_BITS then None else Some (PInt n, frame CHR ''i'' (int_text n), visited)
     | PStr s \<Rightarrow> Some (PStr s, frame CHR ''s'' s, visited)
     | PList i vs \<Rightarrow> if i \<in> set visited then None
         else map_option (\<lambda>(cs, raw, visited'). (PList i cs, list_head CHR ''l'' (length vs) @ raw, visited'))
           (encode_items (depth + 1) vs (i # visited))
     | PDict i d \<Rightarrow> if i \<in> set visited then None else if \<not> list_all is_str (map fst d) then None
         else map_option (\<lambda>(cs, raw, visited'). (PDict i cs, list_head CHR ''d'' (length d) @ raw, visited'))
           (encode_pairs (depth + 1) (sorted_items d) (i # visited))
     | _ \<Rightarrow> None))"
| "encode_items depth [] visited = Some ([], [], visited)"
| "encode_items depth (v # vs) visited = (case encode_value depth v visited of None \<Rightarrow> None
     | Some (c, raw, visited') \<Rightarrow> map_option (\<lambda>(cs, raws, visited''). (c # cs, raw @ raws, visited''))
         (encode_items depth vs visited'))"
| "encode_pairs depth [] visited = Some ([], [], visited)"
| "encode_pairs depth ((k, v) # d) visited = (case encode_value depth k visited of None \<Rightarrow> None
     | Some (_, rawk, visited') \<Rightarrow> (case encode_value depth v visited' of None \<Rightarrow> None
         | Some (c, raw, visited'') \<Rightarrow> map_option (\<lambda>(cs, raws, visited'''). ((k, c) # cs, rawk @ raw @ raws, visited'''))
             (encode_pairs depth d visited'')))"
  by pat_completeness auto

termination
  by (relation "measure (\<lambda>x. case x of Inl (_, v, _) \<Rightarrow> 2 * size v + 1
      | Inr (Inl (_, vs, _)) \<Rightarrow> 2 * size_list size vs | Inr (Inr (_, d, _)) \<Rightarrow> 2 * size_list (size_prod size size) d)")
    (auto simp: size_sorted_items)

declare encode_value.simps [simp del]

definition canonical_encoding :: "pyval \<Rightarrow> (pyval \<times> string) option" where
  "canonical_encoding v = map_option (\<lambda>(c, raw, _). (c, raw)) (encode_value 1 v [])"

text \<open>The number is that of the list object; a part of a frozen log is always in the domain.\<close>

definition quarantine_suffix :: "nat \<Rightarrow> pyval list \<Rightarrow> string option" where
  "quarantine_suffix i suffix = map_option (\<lambda>(_, raw). tagged ''qrn1'' (''qrn1|'' @ raw)) (canonical_encoding (PList i suffix))"

definition derive_scan_id :: "string \<Rightarrow> string \<Rightarrow> nat \<Rightarrow> nat \<Rightarrow> string option \<Rightarrow> string" where
  "derive_scan_id verdict head kept lost token = tagged ''crp1'' (join_on CHR 0x0A [verdict, head, dec kept, dec lost,
     (case token of Some t \<Rightarrow> t | None \<Rightarrow> ''-'')])"

subsection \<open>Bisection\<close>

definition prefix_head :: "pyval list \<Rightarrow> nat \<Rightarrow> string option" where
  "prefix_head frozen k = (if k = 0 then Some GENESIS
     else (case wal_replay canonical_payload (PList 0 (take k frozen)) of Inr rp \<Rightarrow> Some (rp_head rp) | Inl _ \<Rightarrow> None))"

text \<open>\<open>good\<close> is a length whose prefix passes the test, \<open>bad\<close> one whose prefix does not.\<close>

function bisect :: "(nat \<Rightarrow> bool) \<Rightarrow> nat \<Rightarrow> nat \<Rightarrow> nat" where
  "bisect test good bad = (if bad - good > 1
     then (let mid = (good + bad) div 2 in if \<not> test mid then bisect test good mid else bisect test mid bad)
     else good)"
  by pat_completeness auto

termination
  by (relation "measure (\<lambda>(_, good, bad). bad - good)") auto

declare bisect.simps [simp del]

definition verified_prefix :: "pyval list \<Rightarrow> nat \<times> string option" where
  "verified_prefix frozen = (case prefix_head frozen (length frozen) of
     Some head \<Rightarrow> (length frozen, Some head)
   | None \<Rightarrow> (let good = bisect (\<lambda>k. prefix_head frozen k \<noteq> None) 0 (length frozen) in (good, prefix_head frozen good)))"

subsection \<open>The scan\<close>

type_synonym suffix_sink = "pyval list \<Rightarrow> pyval option"

definition quarantine_call :: "suffix_sink \<Rightarrow> pyval list \<Rightarrow> (corruption_error, string) result" where
  "quarantine_call sink suffix = (case sink suffix of
     Some (PStr out) \<Rightarrow> require (tag_grammar ''qrn1'' out) Cs_divergent_quarantine (Inr out)
   | _ \<Rightarrow> Inl Cs_divergent_quarantine)"

record scan_receipt =
  sc_id :: string
  sc_verdict :: string
  sc_head :: string
  sc_count :: nat
  sc_lost :: nat
  sc_token :: "string option"

definition scan_receipt_for :: "string \<Rightarrow> string option \<Rightarrow> nat \<Rightarrow> nat \<Rightarrow> string option \<Rightarrow> scan_receipt" where
  "scan_receipt_for verdict head kept lost token = (let h = (case head of Some h \<Rightarrow> h | None \<Rightarrow> ''None'') in
     \<lparr>sc_id = derive_scan_id verdict h kept lost token, sc_verdict = verdict, sc_head = h, sc_count = kept,
       sc_lost = lost, sc_token = token\<rparr>)"

text \<open>The receipt and what is left of the log.\<close>

definition corruption_scan :: "suffix_sink \<Rightarrow> pyval \<Rightarrow> pyval \<Rightarrow> (corruption_error, scan_receipt \<times> pyval list) result" where
  "corruption_scan sink log request = (case request of PDict _ d \<Rightarrow>
       require (length d = 1 \<and> list_all is_str (map fst d) \<and> pget d ''max_loss'' \<noteq> None) Malformed_corruption_record
       (case fld d ''max_loss'' of PInt max_loss \<Rightarrow>
          require (\<not> max_loss < 0) Malformed_corruption_record
          (case log of PList i vs \<Rightarrow>
            (case canonical_encoding log of
               Some (PList _ frozen, _) \<Rightarrow> (case verified_prefix frozen of (kept, head) \<Rightarrow>
                 let lost = length frozen - kept in
                 if lost = 0 then Inr (scan_receipt_for ''clean'' head kept 0 None, vs)
                 else require (\<not> int lost > max_loss) Excessive_loss
                   (let suffix = drop kept frozen in
                    and_then (quarantine_call sink suffix) (\<lambda>token.
                    require (Some token = quarantine_suffix i suffix) Cs_divergent_quarantine
                      (Inr (scan_receipt_for ''salvaged'' head kept lost (Some token), take kept vs)))))
             | _ \<Rightarrow> Inl Malformed_corruption_record)
           | _ \<Rightarrow> Inl Malformed_corruption_record)
        | _ \<Rightarrow> Inl Malformed_corruption_record)
     | _ \<Rightarrow> Inl Malformed_corruption_record)"

end
