(* ===== verification/CorruptionProps.thy ===== *)
theory CorruptionProps
  imports Corruption
begin

text \<open>
  Correctness of the corruption scan: the detached copy is judged by the log as the original is, and the
  bisection finds the prefix that a search from the top would find.
\<close>

subsection \<open>The copy is the value\<close>

definition copied :: "pyval \<Rightarrow> pyval \<Rightarrow> bool" where
  "copied c v \<longleftrightarrow> (\<exists>depth seen raw seen'. encode_value depth v seen = Some (c, raw, seen'))"

lemma copiedI: "encode_value depth v seen = Some (c, raw, seen') \<Longrightarrow> copied c v"
  by (auto simp: copied_def)

lemma encode_items_copied: "encode_items depth vs seen = Some (cs, raw, seen') \<Longrightarrow> list_all2 copied cs vs"
  by (induction vs arbitrary: seen cs raw seen') (auto intro: copiedI split: option.splits)

lemma encode_pairs_copied:
  "encode_pairs depth d seen = Some (cs, raw, seen') \<Longrightarrow> list_all2 (\<lambda>(k, c) (k', v). k = k' \<and> copied c v) cs d"
  by (induction d arbitrary: seen cs raw seen') (fastforce dest: copiedI split: option.splits)+

lemma copied_scalar:
  assumes "copied c v"
  shows "(\<forall>s. c = PStr s \<longleftrightarrow> v = PStr s) \<and> (\<forall>n. c = PInt n \<longleftrightarrow> v = PInt n) \<and> is_str c = is_str v"
  using assms by (cases v) (auto simp: copied_def encode_value.simps split: if_splits)

lemma copied_list: "copied c (PList i vs) \<Longrightarrow> \<exists>cs. c = PList i cs \<and> list_all2 copied cs vs"
  by (auto simp: copied_def encode_value.simps dest: encode_items_copied split: if_splits)

text \<open>Reading a field of the sorted items.\<close>

lemma pget_sorted [simp]: "pget (sorted_items d) k = pget d k"
proof -
  have f: "map_of (filter (\<lambda>p. key_bytes (fst p) = k) xs) (PStr k) = map_of xs (PStr k)" for xs :: pydict
    by (induction xs) auto
  show ?thesis
    unfolding pget_def sorted_items_def f [of "sort_key _ d", symmetric]
    by (simp add: sort_key_stable [of "\<lambda>p. key_bytes (fst p)"] f)
qed

lemma set_sorted_items [simp]: "set (sorted_items d) = set d"
  by (simp add: sorted_items_def)

lemma copied_dict:
  assumes "copied c (PDict i d)"
  shows "\<exists>d'. c = PDict i d' \<and> (\<forall>names. keys_are d' names = keys_are d names) \<and> (\<forall>k. rel_option copied (pget d' k) (pget d k))"
proof -
  obtain depth seen cs raw seen' where c: "c = PDict i cs" "encode_pairs depth (sorted_items d) seen = Some (cs, raw, seen')"
    using assms by (auto simp: copied_def encode_value.simps split: if_splits)
  note rel = encode_pairs_copied [OF c(2)]
  have "fst ` set xs = fst ` set ys" "rel_option copied (pget xs k) (pget ys k)"
    if "list_all2 (\<lambda>(k, c) (k', v). k = k' \<and> copied c v) xs ys" for xs ys k
    using that by (induction xs ys rule: list_all2_induct) (auto simp: pget_def)
  from this [OF rel] have keys: "fst ` set cs = fst ` set d" and get: "\<And>k. rel_option copied (pget cs k) (pget d k)" by simp_all
  have "keys_are cs names = keys_are d names" for names
    by (simp only: keys_are_def list_all_iff list.set_map keys)
  then show ?thesis using c(1) get by blast
qed

lemma copied_fld: "keys_are d names \<Longrightarrow> k \<in> set names \<Longrightarrow> rel_option copied (pget d' k) (pget d k) \<Longrightarrow> copied (fld d' k) (fld d k)"
  using keys_are_pget [of d names k] by (auto simp: fld_def elim!: option.rel_cases)

lemma copied_wal_record:
  assumes "copied c v"
  shows "wal_record c = wal_record v"
proof (cases v)
  case (PDict i d)
  obtain d' where d': "c = PDict i d'" "\<And>names. keys_are d' names = keys_are d names" "\<And>k. rel_option copied (pget d' k) (pget d k)"
    using copied_dict [OF assms [unfolded PDict]] by blast
  show ?thesis
  proof (cases "keys_are d NODE_FIELDS")
    case True
    have f: "copied (fld d' k) (fld d k)" if "k \<in> set NODE_FIELDS" for k
      using copied_fld [OF True that d'(3)] .
    show ?thesis
    proof (cases "list_all (\<lambda>k. is_str (fld d k)) NODE_FIELDS")
      case all: True
      have "fld d' k = fld d k" if "k \<in> set NODE_FIELDS" for k
      proof -
        have "is_str (fld d k)" using all that by (simp only: list_all_iff)
        moreover have "fld d k \<noteq> PBadStr" using f [OF that] by (auto simp: copied_def encode_value.simps split: if_splits)
        ultimately obtain s where "fld d k = PStr s" by (cases "fld d k") auto
        then show ?thesis using copied_scalar [OF f [OF that]] by metis
      qed
      then have "fld d' ''variant'' = fld d ''variant''" "fld d' ''digest'' = fld d ''digest''" "fld d' ''snapshot_fen'' = fld d ''snapshot_fen''"
        by (simp_all add: NODE_FIELDS_def)
      then show ?thesis
        unfolding wal_record_def PDict d'(1) pyval.case d'(2) by (simp add: NODE_FIELDS_def split: sum.split)
    next
      case False
      then have "\<not> list_all (\<lambda>k. is_str (fld d' k)) NODE_FIELDS"
        using copied_scalar [OF f] by (simp only: list_all_iff) blast
      then show ?thesis using False by (simp add: wal_record_def PDict d'(1,2))
    qed
  qed (simp add: wal_record_def PDict d'(1,2))
qed (use assms in \<open>auto simp: copied_def encode_value.simps wal_record_def split: if_splits\<close>)

lemma copied_str: "copied c v \<Longrightarrow> is_str v \<Longrightarrow> c = v"
  by (cases v) (auto simp: copied_def encode_value.simps split: if_splits)

lemma copied_matches: "copied c v \<Longrightarrow> matches g c = matches g v"
  using copied_scalar [of c v] by (auto simp: matches_iff)

lemma copied_wal_payload:
  assumes "copied c v"
  shows "wal_payload c = wal_payload v"
proof (cases v)
  case (PDict i d)
  obtain d' where d': "c = PDict i d'" "\<And>names. keys_are d' names = keys_are d names" "\<And>k. rel_option copied (pget d' k) (pget d k)"
    using copied_dict [OF assms [unfolded PDict]] by blast
  show ?thesis
  proof (cases "keys_are d PAYLOAD_FIELDS")
    case True
    have f: "copied (fld d' ''identity'') (fld d ''identity'')" "copied (fld d' ''record'') (fld d ''record'')"
      using copied_fld [OF True _ d'(3)] by (simp_all add: PAYLOAD_FIELDS_def)
    show ?thesis using copied_scalar [OF f(1)] copied_wal_record [OF f(2)]
      by (simp add: wal_payload_def PDict d'(1,2) True)
  qed (simp add: wal_payload_def PDict d'(1,2))
qed (use assms in \<open>auto simp: copied_def encode_value.simps wal_payload_def split: if_splits\<close>)

lemma copied_wal_op: "copied c v \<Longrightarrow> wal_op c = wal_op v"
  using copied_str [of c v] copied_scalar [of c v] by (cases "is_str v") (auto simp: wal_op_def)

lemma case_no_int: "\<forall>n. v \<noteq> PInt n \<Longrightarrow> (case v of PInt n \<Rightarrow> f n | _ \<Rightarrow> e) = e"
  by (cases v) auto

lemma copied_check_entry:
  assumes "copied c v"
  shows "check_entry c position tip = check_entry v position tip"
proof (cases v)
  case (PDict i d)
  obtain d' where d': "c = PDict i d'" "\<And>names. keys_are d' names = keys_are d names" "\<And>k. rel_option copied (pget d' k) (pget d k)"
    using copied_dict [OF assms [unfolded PDict]] by blast
  show ?thesis
  proof (cases "keys_are d WAL_FIELDS")
    case True
    have f: "copied (fld d' k) (fld d k)" if "k \<in> set WAL_FIELDS" for k
      using copied_fld [OF True that d'(3)] .
    have g: "copied (fld d' ''op'') (fld d ''op'')" "copied (fld d' ''sequence'') (fld d ''sequence'')"
      "copied (fld d' ''entry_id'') (fld d ''entry_id'')" "copied (fld d' ''prior_entry_id'') (fld d ''prior_entry_id'')"
      "copied (fld d' ''payload'') (fld d ''payload'')"
      by (rule f; simp add: WAL_FIELDS_def)+
    have op: "wal_op (fld d' ''op'') = wal_op (fld d ''op'')" using copied_wal_op [OF g(1)] .
    have pay: "wal_payload (fld d' ''payload'') = wal_payload (fld d ''payload'')" using copied_wal_payload [OF g(5)] .
    note m = copied_matches [OF g(3)] copied_matches [OF g(4)]
    show ?thesis
    proof (cases "\<exists>n. fld d ''sequence'' = PInt n")
      case True
      then obtain n where PInt: "fld d ''sequence'' = PInt n" ..
      then have s: "fld d' ''sequence'' = PInt n" using copied_scalar [OF g(2)] by blast
      show ?thesis
      proof (cases "matches (tag_grammar ''wal1'') (fld d ''entry_id'') \<and> matches prior_grammar (fld d ''prior_entry_id'')")
        case ok: True
        then have "fld d' ''entry_id'' = fld d ''entry_id''" "fld d' ''prior_entry_id'' = fld d ''prior_entry_id''"
          using copied_str [OF g(3)] copied_str [OF g(4)] by (auto simp: matches_iff)
        then show ?thesis
          unfolding check_entry_def PDict d'(1) pyval.case d'(2) op pay s PInt by simp
      next
        case False
        then show ?thesis
          unfolding check_entry_def PDict d'(1) pyval.case d'(2) op pay s PInt m by (auto simp: require_def and_then_def split: sum.split)
      qed
    next
      case False
      then have "\<forall>n. fld d ''sequence'' \<noteq> PInt n" "\<forall>n. fld d' ''sequence'' \<noteq> PInt n"
        using copied_scalar [OF g(2)] by blast+
      then show ?thesis by (simp add: check_entry_def PDict d'(1,2) op case_no_int)
    qed
  qed (simp add: check_entry_def PDict d'(1,2))
qed (use assms in \<open>auto simp: copied_def encode_value.simps check_entry_def split: if_splits\<close>)

lemma copied_check_log: "list_all2 copied cs vs \<Longrightarrow> check_log cs position tip = check_log vs position tip"
  by (induction cs vs arbitrary: position tip rule: list_all2_induct) (simp_all add: copied_check_entry)

lemma copied_replay: "list_all2 copied cs vs \<Longrightarrow> wal_replay c (PList n (take k cs)) = wal_replay c (PList m (take k vs))"
  using copied_check_log [OF list_all2_takeI, of cs vs k] by (simp add: wal_replay_def)

subsection \<open>Bisection finds the prefix that the search from the top finds\<close>

context prefix_log
begin

lemma bisect_bounds:
  "test = (\<lambda>k. valid (take k xs)) \<Longrightarrow> test good \<Longrightarrow> \<not> test bad \<Longrightarrow> good < bad \<Longrightarrow>
     good \<le> bisect test good bad \<and> bisect test good bad < bad \<and> test (bisect test good bad) \<and> \<not> test (Suc (bisect test good bad))"
proof (induction test good bad rule: bisect.induct)
  case (1 test good bad)
  show ?case
  proof (cases "bad - good > 1")
    case False
    then have "bad = Suc good" using "1.prems"(4) by simp
    then show ?thesis using "1.prems" False by (subst (1 2 3 4) bisect.simps) simp
  next
    case True
    let ?mid = "(good + bad) div 2"
    have m: "good < ?mid" "?mid < bad" using True by simp_all
    show ?thesis
    proof (cases "test ?mid")
      case True
      then have e: "bisect test good bad = bisect test ?mid bad" using \<open>bad - good > 1\<close> by (subst bisect.simps) (simp add: Let_def)
      show ?thesis unfolding e using "1.IH"(2) [OF \<open>bad - good > 1\<close> refl _ "1.prems"(1) True "1.prems"(3) m(2)] True m by linarith
    next
      case False
      then have e: "bisect test good bad = bisect test good ?mid" using \<open>bad - good > 1\<close> by (subst bisect.simps) (simp add: Let_def)
      show ?thesis unfolding e using "1.IH"(1) [OF \<open>bad - good > 1\<close> refl False "1.prems"(1,2) False m(1)] m by linarith
    qed
  qed
qed

lemma bisect_search:
  assumes "\<not> valid (take n xs)"
  shows "search_down valid xs n = Some (bisect (\<lambda>k. valid (take k xs)) 0 n)"
proof -
  have "0 < n" using assms valid_Nil by (cases n) auto
  then have b: "bisect (\<lambda>k. valid (take k xs)) 0 n < n" "valid (take (bisect (\<lambda>k. valid (take k xs)) 0 n) xs)"
    "\<not> valid (take (Suc (bisect (\<lambda>k. valid (take k xs)) 0 n)) xs)"
    using bisect_bounds [of _ xs 0 n] assms valid_Nil by auto
  obtain k where k: "k \<le> n" "search_down valid xs n = Some k" using search_total by blast
  note l = search_longest [OF k(2)]
  have "bisect (\<lambda>k. valid (take k xs)) 0 n \<in> {..k}" using b(1,2) unfolding l [symmetric] by simp
  moreover have "Suc (bisect (\<lambda>k. valid (take k xs)) 0 n) \<notin> {..k}" using b(1,3) unfolding l [symmetric] by simp
  ultimately show ?thesis using k(2) by simp
qed

end

lemma prefix_head_replays: "prefix_head frozen k \<noteq> None \<longleftrightarrow> replays canonical_payload (take k frozen)"
  using wl.valid_Nil [of canonical_payload]
  by (auto simp: prefix_head_def replays_def accepts_iff split: sum.split)

lemma prefix_head_value:
  "wal_replay canonical_payload (PList 0 (take k frozen)) = Inr rp \<Longrightarrow> prefix_head frozen k = Some (rp_head rp)"
  by (auto simp: prefix_head_def wal_replay_def replay_entries_def and_then_def split: sum.splits)

lemma verified_prefix_search:
  "\<exists>k rp. verified_prefix frozen = (k, Some (rp_head rp)) \<and> search_down (replays canonical_payload) frozen (length frozen) = Some k
     \<and> wal_replay canonical_payload (PList 0 (take k frozen)) = Inr rp"
proof -
  let ?n = "length frozen"
  have "\<exists>k. verified_prefix frozen = (k, prefix_head frozen k) \<and> search_down (replays canonical_payload) frozen ?n = Some k"
  proof (cases "replays canonical_payload frozen")
    case True
    then obtain h where "prefix_head frozen ?n = Some h" using prefix_head_replays [of frozen ?n] by auto
    moreover have "search_down (replays canonical_payload) frozen ?n = Some ?n" using True by (cases ?n) auto
    ultimately show ?thesis by (simp add: verified_prefix_def)
  next
    case False
    then have "prefix_head frozen ?n = None" using prefix_head_replays [of frozen ?n] by simp
    then have "verified_prefix frozen = (let k = bisect (\<lambda>k. replays canonical_payload (take k frozen)) 0 ?n in (k, prefix_head frozen k))"
      unfolding verified_prefix_def prefix_head_replays by simp
    then show ?thesis using wl.bisect_search [of canonical_payload ?n frozen] False by (simp add: Let_def)
  qed
  then obtain k where k: "verified_prefix frozen = (k, prefix_head frozen k)" "search_down (replays canonical_payload) frozen ?n = Some k" by blast
  have "k \<in> {..k}" by simp
  then have "replays canonical_payload (take k frozen)" unfolding wl.search_longest [OF k(2), symmetric] by simp
  then obtain rp where "wal_replay canonical_payload (PList 0 (take k frozen)) = Inr rp" by (auto simp: replays_def accepts_iff)
  then show ?thesis using k prefix_head_value by auto
qed

lemma search_copied:
  assumes "list_all2 copied cs vs"
  shows "search_down (replays c) cs n = search_down (replays c) vs n"
proof -
  have "replays c (take k cs) = replays c (take k vs)" for k using copied_replay [OF assms, of c 0 k 0] by (simp add: replays_def)
  then show ?thesis by (induction n) simp_all
qed

text \<open>C19. The scan is exact, and its bisection agrees with a search from the top: whatever log, request and
  sink are given, an accepted scan reports the length that the linear search for the longest replayable
  prefix of the log itself finds (the prefixes that replay are those up to it) and the head of its replay,
  although it works on a detached copy and tests only some of the prefixes. It keeps exactly that prefix,
  says clean exactly if nothing is lost, never gives up more entries than the request allows, and asks the
  sink only if something is lost.\<close>

theorem corruption_scan_exact:
  assumes "corruption_scan sink log request = Inr (rc, ws)"
  shows "\<exists>i vs rp m d max_loss. log = PList i vs \<and> ws = take (sc_count rc) vs
    \<and> search_down (replays canonical_payload) vs (length vs) = Some (sc_count rc)
    \<and> {k. k \<le> length vs \<and> replays canonical_payload (take k vs)} = {..sc_count rc}
    \<and> wal_replay canonical_payload (PList 0 ws) = Inr rp \<and> sc_head rc = rp_head rp
    \<and> sc_count rc + sc_lost rc = length vs \<and> sc_verdict rc = (if sc_lost rc = 0 then ''clean'' else ''salvaged'')
    \<and> (sc_token rc = None \<longleftrightarrow> sc_lost rc = 0)
    \<and> request = PDict m d \<and> fld d ''max_loss'' = PInt max_loss \<and> int (sc_lost rc) \<le> max_loss"
proof -
  obtain m d where r: "request = PDict m d" using assms by (auto simp: corruption_scan_def split: pyval.splits)
  obtain ml where ml: "fld d ''max_loss'' = PInt ml" "0 \<le> ml" using assms by (auto simp: corruption_scan_def r split: pyval.splits)
  obtain i vs where l: "log = PList i vs" using assms by (auto simp: corruption_scan_def r ml(1) split: pyval.splits)
  obtain j frozen raw where f: "canonical_encoding log = Some (PList j frozen, raw)"
    using assms by (auto simp: corruption_scan_def r ml(1) l split: option.splits pyval.splits)
  have "copied (PList j frozen) (PList i vs)" using f by (auto simp: canonical_encoding_def l intro: copiedI)
  then have cp: "list_all2 copied frozen vs" using copied_list by auto
  then have len: "length frozen = length vs" by (rule list_all2_lengthD)
  obtain k rp where k: "verified_prefix frozen = (k, Some (rp_head rp))"
    "search_down (replays canonical_payload) frozen (length frozen) = Some k"
    "wal_replay canonical_payload (PList 0 (take k frozen)) = Inr rp" using verified_prefix_search by blast
  have s: "search_down (replays canonical_payload) vs (length vs) = Some k" using k(2) search_copied [OF cp] len by simp
  have rp: "wal_replay canonical_payload (PList 0 (take k vs)) = Inr rp" using k(3) copied_replay [OF cp, of canonical_payload 0 k 0] by simp
  have le: "k \<le> length vs" using wl.search_le [OF s] .
  have res: "sc_count rc = k" "sc_lost rc = length vs - k" "sc_head rc = rp_head rp" "ws = take k vs"
    "int (length vs - k) \<le> ml" "sc_verdict rc = (if length vs - k = 0 then ''clean'' else ''salvaged'')"
    "sc_token rc = None \<longleftrightarrow> length vs - k = 0"
    using assms le ml(2) by (auto simp: corruption_scan_def r ml(1) l f [unfolded l] k(1) len scan_receipt_for_def Let_def split: if_splits) metis
  show ?thesis
    unfolding res using l s rp r ml(1) res(5) le wl.search_longest [OF s] by auto
qed

text \<open>The honest sink, and a log of one entry with a null behind it.\<close>

definition honest_suffix_sink :: "nat \<Rightarrow> suffix_sink" where
  "honest_suffix_sink i suffix = map_option PStr (quarantine_suffix i suffix)"

lemma sorted_items_sorted: "sorted (map (\<lambda>p. key_bytes (fst p)) d) \<Longrightarrow> sorted_items d = d"
  by (simp add: sorted_items_def sort_key_id_if_sorted)

lemma encode_entry:
  assumes "\<bar>we_sequence e\<bar> < 2 ^ SCAN_INT_BITS" "i \<notin> {2, 3, 4}"
  shows "\<exists>c raw. encode_value 2 (entry_value e) [i] = Some (c, raw, [4, 3, 2, i])"
proof -
  let ?r = "we_record e"
  have "sorted_items (node_dict ?r) = [(PStr ''digest'', PStr (nr_digest ?r)), (PStr ''snapshot_fen'', PStr (nr_snapshot ?r)), (PStr ''variant'', PStr (nr_variant ?r))]"
    by (simp add: sorted_items_def node_dict_def)
  moreover have "sorted_items (entry_dict e) = [(PStr ''entry_id'', PStr (we_id e)), (PStr ''op'', PStr (we_op e)),
     (PStr ''payload'', PDict 3 [(PStr ''identity'', PStr (we_identity e)), (PStr ''record'', PDict 4 (node_dict ?r))]),
     (PStr ''prior_entry_id'', PStr (we_prior e)), (PStr ''sequence'', PInt (we_sequence e))]"
    by (simp add: sorted_items_def entry_dict_def)
  moreover have "sorted_items [(PStr ''identity'', PStr (we_identity e)), (PStr ''record'', PDict 4 (node_dict ?r))]
      = [(PStr ''identity'', PStr (we_identity e)), (PStr ''record'', PDict 4 (node_dict ?r))]"
    by (simp add: sorted_items_def)
  moreover have "list_all is_str (map fst (entry_dict e))" "list_all is_str (map fst (node_dict ?r))"
    by (simp_all add: entry_dict_def node_dict_def)
  ultimately show ?thesis using assms
    by (simp add: entry_value_def encode_value.simps SCAN_MAX_DEPTH_def)
qed

theorem corruption_scan_exact_witness:
  "\<exists>e rc. corruption_scan (honest_suffix_sink 5) (PList 5 [entry_value e, PNone]) (PDict 6 [(PStr ''max_loss'', PInt 2)])
      = Inr (rc, [entry_value e]) \<and> sc_count rc = 1 \<and> sc_verdict rc = ''salvaged''"
proof -
  obtain e where e: "log_ok canonical_payload [e]" using sample_log by blast
  then have seq: "we_sequence e = 1" using honest_log_snoc [of "[]" e] by (simp add: we_ok_def)
  obtain c raw where c: "encode_value 2 (entry_value e) [5] = Some (c, raw, [4, 3, 2, 5])"
    using encode_entry [of e 5] seq by (auto simp: SCAN_INT_BITS_def)
  let ?log = "PList 5 [entry_value e, PNone]" and ?req = "PDict 6 [(PStr ''max_loss'', PInt 2)]"
  have f: "\<exists>raw. canonical_encoding ?log = Some (PList 5 [c, PNone], raw)"
    using c by (simp add: canonical_encoding_def encode_value.simps [of _ "PList _ _"] encode_value.simps [of _ PNone] SCAN_MAX_DEPTH_def numeral_2_eq_2)
  have q: "quarantine_suffix 5 [PNone] = Some (tagged ''qrn1'' (''qrn1|'' @ list_head CHR ''l'' 1 @ ''n''))"
    by (simp add: quarantine_suffix_def canonical_encoding_def encode_value.simps SCAN_MAX_DEPTH_def)
  have cp: "list_all2 copied [c, PNone] [entry_value e, PNone]"
    using copiedI [OF c] copiedI [of 1 PNone "[]" PNone] by (simp add: encode_value.simps SCAN_MAX_DEPTH_def)
  have one: "replays canonical_payload (take 1 [entry_value e, PNone])" using replays_value [OF e] by simp
  have two: "\<not> replays canonical_payload [entry_value e, PNone]"
    using check_log_length [of "[entry_value e, PNone]"]
    by (auto simp: replays_def accepts_iff wal_replay_Inr check_entry_def [of PNone])
  have "search_down (replays canonical_payload) [entry_value e, PNone] 2 = Some 1"
    using one two by (simp add: numeral_2_eq_2)
  then have "search_down (replays canonical_payload) [c, PNone] 2 = Some 1" using search_copied [OF cp] by simp
  then obtain h where "verified_prefix [c, PNone] = (1, Some h)" using verified_prefix_search [of "[c, PNone]"]
    by (auto simp del: search_down.simps simp: numeral_2_eq_2)
  then obtain rc where rc: "corruption_scan (honest_suffix_sink 5) ?log ?req = Inr (rc, [entry_value e])"
    using f by (auto simp: corruption_scan_def fld_simps quarantine_call_def honest_suffix_sink_def q Let_def)
  from corruption_scan_exact [OF rc] obtain n where "take n [entry_value e, PNone] = [entry_value e]" "sc_count rc = n"
    "n + sc_lost rc = 2" "sc_verdict rc = (if sc_lost rc = 0 then ''clean'' else ''salvaged'')" by auto
  then show ?thesis using rc by (cases n) (auto split: nat.splits if_splits)
qed

end
