(* ===== verification/Export.thy ===== *)
theory Export
  imports StoreLog
begin

text \<open>
  Canonical export of a log's state, \<open>src/store/export.py\<close> over \<open>src/data/contracts/export.yaml\<close>. The exporter is
  the caller's code: a parameter that gives the value it returns, or None if it raises; its document must
  be the local rendering byte for byte.
\<close>

datatype export_error = Malformed_export_request | Unsupported_format | Ex_corrupt_source | Divergent_export

fun export_err_code :: "export_error \<Rightarrow> string" where
  "export_err_code Malformed_export_request = ''malformed_request''"
| "export_err_code Unsupported_format = ''unsupported_format''"
| "export_err_code Ex_corrupt_source = ''corrupt_source''"
| "export_err_code Divergent_export = ''divergent_export''"

definition FORMATS :: "string list" where
  "FORMATS = [''jsonl-v1'']"

type_synonym exporter = "gstate \<Rightarrow> string \<Rightarrow> pyval option"

definition document_line :: "string \<Rightarrow> node_record \<Rightarrow> string" where
  "document_line key r = canon False (JObj [(''identity'', JStr key), (''record'', JObj [(''digest'', JStr (nr_digest r)),
     (''snapshot_fen'', JStr (nr_snapshot r)), (''variant'', JStr (nr_variant r))])]) @ [CHR 0x0A]"

text \<open>The format is one of \<open>FORMATS\<close>; the only one is the line format.\<close>

definition render_document :: "gstate \<Rightarrow> string" where
  "render_document st = concat (map (\<lambda>(key, r). document_line key r) (sort_key fst st))"

definition derive_export_id :: "string \<Rightarrow> string \<Rightarrow> nat \<Rightarrow> string \<Rightarrow> string \<Rightarrow> string" where
  "derive_export_id head sid records fmt document =
     tagged ''exp1'' (join_on CHR 0x0A [head, sid, dec records, fmt, document])"

definition exported :: "exporter \<Rightarrow> gstate \<Rightarrow> string \<Rightarrow> (export_error, string) result" where
  "exported x st fmt = (case x st fmt of Some (PStr out) \<Rightarrow> Inr out | _ \<Rightarrow> Inl Divergent_export)"

record export_receipt =
  xp_id :: string
  xp_head :: string
  xp_state_id :: string
  xp_count :: nat
  xp_format :: string
  xp_document :: string

definition export :: "exporter \<Rightarrow> pyval \<Rightarrow> pyval \<Rightarrow> (export_error, export_receipt) result" where
  "export x log request = (case (log, request) of (PList _ _, PDict _ d) \<Rightarrow>
       require (keys_are d [''format'']) Malformed_export_request
       (require (is_str (fld d ''format'')) Malformed_export_request
       (require (matches (\<lambda>s. s \<in> set FORMATS) (fld d ''format'')) Unsupported_format
       (case wal_replay canonical_payload log of Inl _ \<Rightarrow> Inl Ex_corrupt_source
        | Inr rp \<Rightarrow> (let fmt = key_bytes (fld d ''format''); frozen = rp_state rp in
            and_then (exported x frozen fmt) (\<lambda>document.
            require (document = render_document frozen) Divergent_export
              (Inr \<lparr>xp_id = derive_export_id (rp_head rp) (rp_state_id rp) (length frozen) fmt document,
                 xp_head = rp_head rp, xp_state_id = rp_state_id rp, xp_count = length frozen, xp_format = fmt,
                 xp_document = document\<rparr>))))))
     | _ \<Rightarrow> Inl Malformed_export_request)"

subsection \<open>Correctness\<close>

text \<open>The export is canonical: two accepted exports, by any two exporters, of logs whose states are the same
  map have the same document, count and state id, however the logs came to that state.\<close>

theorem export_canonical:
  assumes "export x log request = Inr rc" and "export x' log' request' = Inr rc'"
    and "wal_replay canonical_payload log = Inr rp" and "wal_replay canonical_payload log' = Inr rp'"
    and "map_of (rp_state rp) = map_of (rp_state rp')"
  shows "xp_document rc = xp_document rc' \<and> xp_count rc = xp_count rc' \<and> xp_state_id rc = xp_state_id rc'"
proof -
  have st: "gstate_ok (rp_state rq) \<and> rp_state_id rq = gs_id (rp_state rq)" if rq: "wal_replay canonical_payload l = Inr rq" for l rq
  proof -
    obtain n vs where "l = PList n vs" using rq by (auto simp: wal_replay_def split: pyval.splits)
    then obtain es where "log_ok canonical_payload es" "rq = replay_of es" using wal_replay_ok rq by blast
    then show ?thesis using log_state_ok check_log_entries [of "map entry_value es" 1 GENESIS es]
      by (simp add: replay_of_def log_ok_def)
  qed
  have rc: "xp_document r = render_document (rp_state rq) \<and> xp_count r = length (rp_state rq) \<and> xp_state_id r = rp_state_id rq"
    if "export y l q = Inr r" "wal_replay canonical_payload l = Inr rq" for y l q r rq
    using that by (auto simp: export_def Let_def split: pyval.splits)
  let ?a = "rp_state rp" and ?b = "rp_state rp'"
  have ok: "gstate_ok ?a" "gstate_ok ?b" using st assms(3,4) by blast+
  have s: "set ?a = set ?b" using gstate_map_set [OF ok] assms(5) by blast
  have "render_document ?a = render_document ?b" using sorted_entries [OF ok s] by (simp only: render_document_def)
  moreover have "length ?a = length ?b"
    using sorted_entries [OF ok s] by (metis length_sort)
  moreover have "gs_id ?a = gs_id ?b" using gs_id_content [OF ok s] .
  ultimately show ?thesis using rc [OF assms(1,3)] rc [OF assms(2,4)] st [OF assms(3)] st [OF assms(4)] by metis
qed

end
