(* ===== verification/Migration.thy ===== *)
theory Migration
  imports WalFacts
begin

text \<open>
  Schema migration of a graph state, \<open>src/store/migration.py\<close> over \<open>src/data/contracts/migration.yaml\<close>: every
  record gets a new digest and keeps its identity. The target digest oracle is the caller's code: a
  parameter that gives the value it returns for a variant and a snapshot, or None if it raises.
\<close>

datatype migration_error = Malformed_migration_record | Unknown_migration | Conflicting_source | Divergent_target_state

fun migration_code :: "migration_error \<Rightarrow> string" where
  "migration_code Malformed_migration_record = ''malformed_request''"
| "migration_code Unknown_migration = ''unknown_migration''"
| "migration_code Conflicting_source = ''conflicting_source''"
| "migration_code Divergent_target_state = ''divergent_target''"

text \<open>Each schema with the prefix of its digests, and the registered steps.\<close>

definition SCHEMAS :: "(string \<times> string) list" where
  "SCHEMAS = [(''store-v1'', ''pdv1''), (''store-v2'', ''pdv2'')]"

definition STEPS :: "(string \<times> string) list" where
  "STEPS = [(''store-v1'', ''store-v2'')]"

definition schema_grammar :: "string \<Rightarrow> bool" where
  "schema_grammar s \<longleftrightarrow> take 7 s = ''store-v'' \<and> drop 7 s \<noteq> [] \<and> list_all is_digit (drop 7 s) \<and> hd (drop 7 s) \<noteq> CHR ''0''"

type_synonym target_oracle = "string \<Rightarrow> string \<Rightarrow> pyval option"

definition derive_migration_id :: "string \<Rightarrow> string \<Rightarrow> string \<Rightarrow> string \<Rightarrow> string" where
  "derive_migration_id from_schema to_schema source_id target_id =
     tagged ''mg1'' (join_on CHR 0x0A [from_schema, to_schema, source_id, target_id])"

definition pdv2_digest :: target_oracle where
  "pdv2_digest variant fen = Some (PStr (tagged ''pdv2'' (variant @ CHR 0x0A # fen)))"

text \<open>\<open>_record_ok\<close> under the digest prefix of a schema, with the content of the record.\<close>

definition migration_record :: "string \<Rightarrow> pyval \<Rightarrow> pyval \<Rightarrow> (string \<times> node_record) option" where
  "migration_record prefix key rec = (case rec of PDict _ d \<Rightarrow>
       if \<not> is_str key then None
       else if \<not> keys_are d NODE_FIELDS then None
       else if \<not> list_all (\<lambda>k. is_str (fld d k)) NODE_FIELDS then None
       else (case exact_record (fld d ''variant'') (fld d ''snapshot_fen'') of Inl _ \<Rightarrow> None
        | Inr derived \<Rightarrow> (case record_identity (PDict 0 (node_dict derived)) of Inl _ \<Rightarrow> None
          | Inr k \<Rightarrow>
              if fld d ''variant'' \<noteq> PStr (nr_variant derived) \<or> fld d ''snapshot_fen'' \<noteq> PStr (nr_snapshot derived) then None
              else if \<not> matches (tag_grammar prefix) (fld d ''digest'') then None
              else if key = PStr k then Some (k, derived\<lparr>nr_digest := key_bytes (fld d ''digest'')\<rparr>) else None))
     | _ \<Rightarrow> None)"

fun migration_entries :: "string \<Rightarrow> pydict \<Rightarrow> gstate option" where
  "migration_entries prefix [] = Some []"
| "migration_entries prefix ((key, rec) # entries) = (case migration_record prefix key rec of None \<Rightarrow> None
     | Some e \<Rightarrow> map_option (\<lambda>st. e # st) (migration_entries prefix entries))"

definition call_target :: "target_oracle \<Rightarrow> string \<Rightarrow> node_record \<Rightarrow> (migration_error, string) result" where
  "call_target f prefix r = (case f (nr_variant r) (nr_snapshot r) of
     Some (PStr out) \<Rightarrow> require (tag_grammar prefix out) Divergent_target_state (Inr out)
   | _ \<Rightarrow> Inl Divergent_target_state)"

fun staged_state :: "target_oracle \<Rightarrow> string \<Rightarrow> gstate \<Rightarrow> (migration_error, gstate) result" where
  "staged_state f prefix [] = Inr []"
| "staged_state f prefix ((key, r) # st) = and_then (call_target f prefix r) (\<lambda>d.
     and_then (staged_state f prefix st) (\<lambda>st'. Inr ((key, r\<lparr>nr_digest := d\<rparr>) # st')))"

record migration_receipt =
  mr_id :: string
  mr_from :: string
  mr_to :: string
  mr_source_id :: string
  mr_target_id :: string
  mr_state :: gstate

definition migrate :: "target_oracle \<Rightarrow> pyval \<Rightarrow> pyval \<Rightarrow> (migration_error, migration_receipt) result" where
  "migrate f request source = (case request of PDict _ q \<Rightarrow>
       require (keys_are q [''from_schema'', ''to_schema'', ''source_id'']) Malformed_migration_record
       (require (list_all (\<lambda>k. matches schema_grammar (fld q k) \<and> matches (\<lambda>s. s \<in> fst ` set SCHEMAS) (fld q k))
           [''from_schema'', ''to_schema'']) Malformed_migration_record
       (require (matches (tag_grammar ''gs1'') (fld q ''source_id'')) Malformed_migration_record
       (let from_schema = key_bytes (fld q ''from_schema''); to_schema = key_bytes (fld q ''to_schema'');
            source_id = key_bytes (fld q ''source_id'') in
        require ((from_schema, to_schema) \<in> set STEPS) Unknown_migration
       (let source_re = the (map_of SCHEMAS from_schema); target_re = the (map_of SCHEMAS to_schema) in
        case source of PDict _ d \<Rightarrow>
          (case migration_entries source_re d of None \<Rightarrow> Inl Malformed_migration_record
           | Some frozen \<Rightarrow>
               require (gs_id frozen = source_id) Conflicting_source
               (and_then (staged_state f target_re (sort_key fst frozen)) (\<lambda>staged.
                require (fst ` set staged = fst ` set frozen \<and> length staged = length frozen) Divergent_target_state
               (require (list_all (\<lambda>(key, r). migration_record target_re (PStr key) (PDict 0 (node_dict r)) \<noteq> None) staged)
                  Divergent_target_state
                 (Inr \<lparr>mr_id = derive_migration_id from_schema to_schema source_id (gs_id staged), mr_from = from_schema,
                    mr_to = to_schema, mr_source_id = source_id, mr_target_id = gs_id staged, mr_state = staged\<rparr>)))))
        | _ \<Rightarrow> Inl Malformed_migration_record))))
     | _ \<Rightarrow> Inl Malformed_migration_record)"

subsection \<open>Correctness\<close>

text \<open>What a record is accepted for, digest apart.\<close>

definition exact_entry :: "string \<Rightarrow> node_record \<Rightarrow> bool" where
  "exact_entry key r \<longleftrightarrow> (\<exists>d. entry_ok key (r\<lparr>nr_digest := d\<rparr>))"

lemma migration_record_iff:
  "migration_record prefix k (PDict n d) = Some (key, r) \<longleftrightarrow> k = PStr key \<and> keys_are d NODE_FIELDS
     \<and> fld d ''variant'' = PStr (nr_variant r) \<and> fld d ''digest'' = PStr (nr_digest r)
     \<and> fld d ''snapshot_fen'' = PStr (nr_snapshot r) \<and> tag_grammar prefix (nr_digest r) \<and> exact_entry key r" (is "?L \<longleftrightarrow> ?R")
proof
  assume l: ?L
  then obtain derived where ex: "exact_record (fld d ''variant'') (fld d ''snapshot_fen'') = Inr derived"
    "record_identity (PDict 0 (node_dict derived)) = Inr key" "fld d ''variant'' = PStr (nr_variant derived)"
    "fld d ''snapshot_fen'' = PStr (nr_snapshot derived)" "matches (tag_grammar prefix) (fld d ''digest'')"
    "k = PStr key" "keys_are d NODE_FIELDS" "r = derived\<lparr>nr_digest := key_bytes (fld d ''digest'')\<rparr>"
    by (auto simp: migration_record_def split: sum.splits if_splits)
  have "entry_ok key derived" by (rule derived_entry) (use ex(1-4) in simp_all)
  then have "exact_entry key r" unfolding exact_entry_def ex(8) by (intro exI [of _ "nr_digest derived"]) simp
  then show ?R using ex(3-8) by (auto simp: matches_iff)
next
  assume r: ?R
  then obtain e where e: "entry_ok key (r\<lparr>nr_digest := e\<rparr>)" unfolding exact_entry_def by blast
  have "exact_record (PStr (nr_variant r)) (PStr (nr_snapshot r)) = Inr (r\<lparr>nr_digest := e\<rparr>)"
    "record_identity (PDict 0 (node_dict (r\<lparr>nr_digest := e\<rparr>))) = Inr key"
    using exact_record_entry [OF e] by simp_all
  then show ?L using r by (simp add: migration_record_def NODE_FIELDS_def)
qed

lemma migration_entries_ok:
  "migration_entries prefix d = Some st \<Longrightarrow> (\<forall>(key, r) \<in> set st. exact_entry key r)"
proof (induction prefix d arbitrary: st rule: migration_entries.induct)
  case (2 prefix k rec entries)
  then obtain key r st' where e: "migration_record prefix k rec = Some (key, r)" "migration_entries prefix entries = Some st'" "st = (key, r) # st'"
    by (auto split: option.splits)
  obtain n d where "rec = PDict n d" using e(1) by (cases rec) (auto simp: migration_record_def)
  then have "exact_entry key r" using e(1) by (simp add: migration_record_iff)
  moreover have "\<forall>(key, r) \<in> set st'. exact_entry key r" using "2.IH" [OF e(1) e(2)] .
  ultimately show ?case using e(3) by simp
qed simp

lemma staged_state_Inr:
  "staged_state f prefix st = Inr st' \<longleftrightarrow> list_all2 (\<lambda>(key, r) (key', r'). key' = key
     \<and> call_target f prefix r = Inr (nr_digest r') \<and> r' = r\<lparr>nr_digest := nr_digest r'\<rparr>) st st'"
  by (induction f prefix st arbitrary: st' rule: staged_state.induct) (auto simp: list_all2_Cons1)

lemma exact_entry_digest: "exact_entry key (r\<lparr>nr_digest := d\<rparr>) = exact_entry key r"
  by (simp add: exact_entry_def)

lemma migrated_record:
  assumes "exact_entry key r" "call_target f prefix r = Inr d" "r' = r\<lparr>nr_digest := d\<rparr>"
  shows "migration_record prefix (PStr key) (PDict 0 (node_dict r')) = Some (key, r')"
  unfolding migration_record_iff using assms
  by (auto simp: exact_entry_digest call_target_def split: option.splits pyval.splits)

text \<open>A migration is refused after its source has been accepted only if the oracle misbehaves.\<close>

definition source_request :: "gstate \<Rightarrow> pyval" where
  "source_request st = PDict 2 [(PStr ''from_schema'', PStr ''store-v1''), (PStr ''to_schema'', PStr ''store-v2''),
     (PStr ''source_id'', PStr (gs_id st))]"

lemma migrate_source_request:
  assumes "migration_entries ''pdv1'' d = Some st"
  shows "migrate f (source_request st) (PDict n d) = and_then (staged_state f ''pdv2'' (sort_key fst st)) (\<lambda>staged.
     require (fst ` set staged = fst ` set st \<and> length staged = length st) Divergent_target_state
     (require (list_all (\<lambda>(key, r). migration_record ''pdv2'' (PStr key) (PDict 0 (node_dict r)) \<noteq> None) staged) Divergent_target_state
       (Inr \<lparr>mr_id = derive_migration_id ''store-v1'' ''store-v2'' (gs_id st) (gs_id staged), mr_from = ''store-v1'',
          mr_to = ''store-v2'', mr_source_id = gs_id st, mr_target_id = gs_id staged, mr_state = staged\<rparr>)))"
proof -
  let ?q = "[(PStr ''from_schema'', PStr ''store-v1''), (PStr ''to_schema'', PStr ''store-v2''), (PStr ''source_id'', PStr (gs_id st))]"
  have q: "keys_are ?q [''from_schema'', ''to_schema'', ''source_id'']" "schema_grammar ''store-v1''" "schema_grammar ''store-v2''"
    "tag_grammar ''gs1'' (gs_id st)"
    by (auto simp: keys_are_def schema_grammar_def is_digit_def gs_id_def)
  have f: "fld ?q ''from_schema'' = PStr ''store-v1''" "fld ?q ''to_schema'' = PStr ''store-v2''" "fld ?q ''source_id'' = PStr (gs_id st)"
    by (simp_all add: fld_simps)
  have s: "''store-v1'' \<in> fst ` set SCHEMAS" "''store-v2'' \<in> fst ` set SCHEMAS" "(''store-v1'', ''store-v2'') \<in> set STEPS"
    "map_of SCHEMAS ''store-v1'' = Some ''pdv1''" "map_of SCHEMAS ''store-v2'' = Some ''pdv2''"
    by (simp_all add: SCHEMAS_def STEPS_def)
  show ?thesis unfolding migrate_def source_request_def pyval.case f Let_def
    using q s assms by (simp only: f require_def matches.simps list.pred_inject simp_thms if_True option.case option.sel key_bytes.simps)
qed

text \<open>A staged record: the old one with the digest that the oracle gives.\<close>

definition migrated_to :: "target_oracle \<Rightarrow> string \<times> node_record \<Rightarrow> string \<times> node_record \<Rightarrow> bool" where
  "migrated_to f = (\<lambda>(key, r) (key', r'). key' = key \<and> call_target f ''pdv2'' r = Inr (nr_digest r')
     \<and> nr_variant r' = nr_variant r \<and> nr_snapshot r' = nr_snapshot r)"

lemma staged_migrated:
  assumes "staged_state f ''pdv2'' xs = Inr ys"
  shows "list_all2 (migrated_to f) xs ys"
  using assms unfolding staged_state_Inr
proof (rule list_all2_mono)
  fix x y :: "string \<times> node_record"
  assume "(\<lambda>(key, r) (key', r'). key' = key \<and> call_target f ''pdv2'' r = Inr (nr_digest r') \<and> r' = r\<lparr>nr_digest := nr_digest r'\<rparr>) x y"
  then have "fst y = fst x" "call_target f ''pdv2'' (snd x) = Inr (nr_digest (snd y))"
    and same: "snd y = (snd x)\<lparr>nr_digest := nr_digest (snd y)\<rparr>"
    by (auto simp: split_beta)
  moreover have "nr_variant (snd y) = nr_variant (snd x)" "nr_snapshot (snd y) = nr_snapshot (snd x)"
    by (subst same, simp)+
  ultimately show "migrated_to f x y" by (simp add: migrated_to_def split_beta)
qed

lemma migrated_keys: "list_all2 (migrated_to f) xs ys \<Longrightarrow> map fst ys = map fst xs"
  by (induction rule: list_all2_induct) (auto simp: migrated_to_def)

lemma migrated_lookup:
  "list_all2 (migrated_to f) xs ys \<Longrightarrow>
     rel_option (\<lambda>r r'. migrated_to f (key, r) (key, r')) (map_of xs key) (map_of ys key)"
  by (induction rule: list_all2_induct) (auto simp: migrated_to_def)

lemma migrated_records:
  "list_all2 (migrated_to f) xs ys \<Longrightarrow> \<forall>(key, r) \<in> set xs. exact_entry key r \<Longrightarrow>
     list_all (\<lambda>(key, r). migration_record ''pdv2'' (PStr key) (PDict 0 (node_dict r)) \<noteq> None) ys"
proof (induction rule: list_all2_induct)
  case (Cons x xs y ys)
  have "snd y = (snd x)\<lparr>nr_digest := nr_digest (snd y)\<rparr>" using Cons(1) by (auto simp: migrated_to_def split_beta)
  then show ?case using Cons migrated_record [of "fst x" "snd x" f "''pdv2''" "nr_digest (snd y)" "snd y"]
    by (auto simp: migrated_to_def split_beta)
qed simp

lemma staged_refused:
  "staged_state f prefix xs = Inl e \<Longrightarrow> \<exists>r \<in> snd ` set xs. call_target f prefix r = Inl Divergent_target_state \<and> e = Divergent_target_state"
proof (induction xs)
  case (Cons x xs)
  have "call_target f prefix (snd x) = Inl e' \<Longrightarrow> e' = Divergent_target_state" for e'
    by (auto simp: call_target_def require_def split: option.splits pyval.splits if_splits)
  then show ?case using Cons by (cases x) (auto simp: and_then_def split: sum.splits)
qed simp

text \<open>C20. A migration changes digests and nothing else, and only the oracle can make it fail: for a source
  value that validates to a state and a request that names its id, the registered step succeeds exactly if
  the oracle answers every record with a digest of the target schema. The result has the same keys in
  strict order, each with its variant and snapshot and the oracle's digest, and its id is the receipt's.\<close>

theorem migration_exact:
  assumes "migration_entries ''pdv1'' d = Some st" and "distinct (map fst st)"
  shows "case migrate f (source_request st) (PDict n d) of
     Inl e \<Rightarrow> e = Divergent_target_state \<and> (\<exists>r \<in> snd ` set st. call_target f ''pdv2'' r = Inl Divergent_target_state)
   | Inr rc \<Rightarrow> mr_source_id rc = gs_id st \<and> mr_target_id rc = gs_id (mr_state rc) \<and> sorted_wrt (<) (map fst (mr_state rc))
       \<and> (\<forall>key. rel_option (\<lambda>r r'. call_target f ''pdv2'' r = Inr (nr_digest r') \<and> nr_variant r' = nr_variant r
             \<and> nr_snapshot r' = nr_snapshot r) (map_of st key) (map_of (mr_state rc) key))"
proof (cases "staged_state f ''pdv2'' (sort_key fst st)")
  case (Inl e)
  from staged_refused [OF Inl] show ?thesis using Inl by (auto simp: migrate_source_request [OF assms(1)] and_then_def)
next
  case (Inr staged)
  note rel = staged_migrated [OF Inr]
  have keys: "map fst staged = map fst (sort_key fst st)" using migrated_keys [OF rel] .
  have same: "fst ` set staged = fst ` set st" "length staged = length st"
    using arg_cong [OF keys, of set] arg_cong [OF keys, of length] by simp_all
  have "list_all (\<lambda>(key, r). migration_record ''pdv2'' (PStr key) (PDict 0 (node_dict r)) \<noteq> None) staged"
    using migrated_records [OF rel] migration_entries_ok [OF assms(1)] by simp
  then obtain rc where rc: "migrate f (source_request st) (PDict n d) = Inr rc" "mr_state rc = staged"
    "mr_source_id rc = gs_id st" "mr_target_id rc = gs_id staged"
    using Inr same by (simp add: migrate_source_request [OF assms(1)] and_then_def require_def)
  have dist: "distinct (map fst (sort_key fst st))" using assms(2) by (simp add: distinct_map)
  have "map_of (sort_key fst st) = map_of st"
    by (rule map_of_inject_set [THEN iffD2]) (use dist assms(2) in simp_all)
  note get = migrated_lookup [OF rel, unfolded this migrated_to_def prod.case]
  have "sorted_wrt (<) (map fst staged)" unfolding keys using dist by (simp add: strict_sorted_iff)
  then show ?thesis using rc get by simp
qed

text \<open>The starting position, migrated with the digests of the second schema.\<close>

theorem migration_exact_witness:
  "\<exists>st v rc. length st = 1 \<and> migrate pdv2_digest (source_request st) v = Inr rc \<and> map fst (mr_state rc) = map fst st"
proof -
  obtain key r where kr: "entry_ok key r" "nr_variant r = ''standard''" using start_entry by force
  then have d: "digest_fen (PStr (nr_variant r)) (PStr (nr_snapshot r)) = Inr (nr_digest r)"
    by (simp add: entry_ok_def diff_record_iff)
  then obtain body where "tagged ''pdv1'' body = nr_digest r"
    by (auto simp: digest_fen_def digest_def split: sum.splits if_splits)
  then have "tag_grammar ''pdv1'' (nr_digest r)" by (metis tagged_grammar)
  moreover have "exact_entry key r" unfolding exact_entry_def using kr(1) by (intro exI [of _ "nr_digest r"]) simp
  ultimately have "migration_record ''pdv1'' (PStr key) (PDict 5 (node_dict r)) = Some (key, r)"
    by (simp add: migration_record_iff)
  then have e: "migration_entries ''pdv1'' [(PStr key, PDict 5 (node_dict r))] = Some [(key, r)]" by simp
  let ?v = "PDict 6 [(PStr key, PDict 5 (node_dict r))]"
  have c: "call_target pdv2_digest ''pdv2'' r = Inr (tagged ''pdv2'' (nr_variant r @ CHR 0x0A # nr_snapshot r))"
    by (simp add: call_target_def pdv2_digest_def)
  from migration_exact [OF e, of pdv2_digest 6] c
  obtain rc where rc: "migrate pdv2_digest (source_request [(key, r)]) ?v = Inr rc" by (auto split: sum.splits)
  have "map fst (mr_state rc) = [key]"
    using rc by (auto simp: migrate_source_request [OF e] and_then_def c require_def split: if_splits sum.splits)
  then show ?thesis using rc by (intro exI [of _ "[(key, r)]"] exI [of _ ?v] exI [of _ rc]) simp
qed

end
