(* ===== verification/OpeningContext.thy ===== *)
theory OpeningContext
  imports BucketTable PositionDigest "HOL-Library.Sublist"
begin

text \<open>
  Opening classification by path and the context table, \<open>src/graph/opening_context.py\<close> over
  \<open>src/data/openings/registry.yaml\<close>. A table may be built on another registry and another set of variants
  than the shipped ones, so both are part of its state. The keys of a table are pairs of a variant and a
  path; its records are what the public operations file, but nothing here assumes that they still agree
  with their keys or with the registry, the merge tests it.
\<close>

datatype context_error = Malformed_context_record | Malformed_path | Cx_unknown_variant | Unknown_opening_code
  | Conflicting_context

fun context_code :: "context_error \<Rightarrow> string" where
  "context_code Malformed_context_record = ''malformed_request''"
| "context_code Malformed_path = ''malformed_request''"
| "context_code Cx_unknown_variant = ''unknown_variant''"
| "context_code Unknown_opening_code = ''unknown_opening_code''"
| "context_code Conflicting_context = ''conflicting_context''"

record opening_entry =
  op_code :: string
  op_name :: string
  op_moves :: "string list"

record registry =
  rg_sentinel :: string
  rg_entries :: "opening_entry list"

definition OPENING_REGISTRY :: registry where
  "OPENING_REGISTRY = \<lparr>rg_sentinel = ''-'', rg_entries = [
     \<lparr>op_code = ''A04'', op_name = ''Zukertort Opening'', op_moves = [''g1f3'']\<rparr>,
     \<lparr>op_code = ''B20'', op_name = ''Sicilian Defense'', op_moves = [''e2e4'', ''c7c5'']\<rparr>,
     \<lparr>op_code = ''B90'', op_name = ''Sicilian Defense: Najdorf Variation'',
       op_moves = [''e2e4'', ''c7c5'', ''g1f3'', ''d7d6'', ''d2d4'', ''c5d4'', ''f3d4'', ''g8f6'', ''b1c3'', ''a7a6'']\<rparr>,
     \<lparr>op_code = ''C20'', op_name = ''King'' @ CHR 0x27 # ''s Pawn Game'', op_moves = [''e2e4'', ''e7e5'']\<rparr>,
     \<lparr>op_code = ''C50'', op_name = ''Italian Game'',
       op_moves = [''e2e4'', ''e7e5'', ''g1f3'', ''b8c6'', ''f1c4'', ''f8c5'']\<rparr>,
     \<lparr>op_code = ''D20'', op_name = ''Queen'' @ CHR 0x27 # ''s Gambit'', op_moves = [''d2d4'', ''d7d5'', ''c2c4'']\<rparr>,
     \<lparr>op_code = ''D06'', op_name = ''Queen'' @ CHR 0x27 # ''s Gambit Declined'',
       op_moves = [''d2d4'', ''d7d5'', ''c2c4'', ''e7e6'', ''g1f3'', ''g8f6'']\<rparr>]\<rparr>"

subsection \<open>Paths and classification\<close>

text \<open>\<open>_MOVE\<close> and the test that the squares differ; \<open>_CODE\<close>.\<close>

definition square_grammar :: "string \<Rightarrow> bool" where
  "square_grammar s \<longleftrightarrow> length s = 2 \<and> s ! 0 \<in> set ''abcdefgh'' \<and> s ! 1 \<in> set ''12345678''"

definition context_move :: "string \<Rightarrow> bool" where
  "context_move s \<longleftrightarrow> square_grammar (take 2 s) \<and> square_grammar (take 2 (drop 2 s))
     \<and> (drop 4 s = [] \<or> (\<exists>c \<in> set ''qrbn''. drop 4 s = [c])) \<and> take 2 s \<noteq> take 2 (drop 2 s)"

definition code_grammar :: "string \<Rightarrow> bool" where
  "code_grammar s \<longleftrightarrow> length s = 3 \<and> s ! 0 \<in> set ''ABCDE'' \<and> is_digit (s ! 1) \<and> is_digit (s ! 2)"

definition context_path :: "pyval \<Rightarrow> (context_error, string list) result" where
  "context_path v = (case v of PList _ ms \<Rightarrow> require (list_all (matches context_move) ms) Malformed_path (Inr (map key_bytes ms))
     | _ \<Rightarrow> Inl Malformed_path)"

text \<open>The loop of \<open>resolve\<close> over the entries, with the best one so far.\<close>

fun best_opening :: "string list \<Rightarrow> opening_entry option \<Rightarrow> opening_entry list \<Rightarrow> opening_entry option" where
  "best_opening moves best [] = best"
| "best_opening moves best (e # es) = (if take (length (op_moves e)) moves = op_moves e
       \<and> (case best of None \<Rightarrow> True | Some b \<Rightarrow> length (op_moves e) > length (op_moves b))
     then best_opening moves (Some e) es else best_opening moves best es)"

definition resolve :: "registry \<Rightarrow> string list \<Rightarrow> string \<times> string" where
  "resolve R moves = (case best_opening moves None (rg_entries R) of
     None \<Rightarrow> (rg_sentinel R, rg_sentinel R) | Some e \<Rightarrow> (op_code e, op_name e))"

subsection \<open>The table\<close>

record context_record =
  cr_variant :: string
  cr_path :: "string list"
  cr_code :: string
  cr_name :: string

type_synonym context_records = "((string \<times> string list) \<times> context_record) list"

record context_table =
  cx_registry :: registry
  cx_variants :: "string list"
  cx_records :: context_records

definition new_context_table :: "registry \<Rightarrow> string list \<Rightarrow> context_table" where
  "new_context_table R V = \<lparr>cx_registry = R, cx_variants = V, cx_records = []\<rparr>"

definition make_context :: "context_table \<Rightarrow> pyval \<Rightarrow> pyval \<Rightarrow> (context_error, context_record) result" where
  "make_context t variant path =
     require (matches (\<lambda>v. v \<in> set (cx_variants t)) variant) Cx_unknown_variant
     (and_then (context_path path) (\<lambda>moves. case resolve (cx_registry t) moves of (code, name) \<Rightarrow>
       Inr \<lparr>cr_variant = key_bytes variant, cr_path = moves, cr_code = code, cr_name = name\<rparr>))"

definition CONTEXT_FIELDS :: "string list" where
  "CONTEXT_FIELDS = [''variant'', ''path_moves'', ''opening_code'', ''opening_name'']"

text \<open>The entries by code: the last one of a code.\<close>

definition entries_by_code :: "registry \<Rightarrow> string \<Rightarrow> opening_entry option" where
  "entries_by_code R = map_of (rev (map (\<lambda>e. (op_code e, e)) (rg_entries R)))"

definition validate_context :: "context_table \<Rightarrow> pyval \<Rightarrow> (context_error, context_record) result" where
  "validate_context t rec = (case rec of PDict _ d \<Rightarrow>
       require (keys_are d CONTEXT_FIELDS) Malformed_context_record
       (require (matches (\<lambda>v. v \<in> set (cx_variants t)) (fld d ''variant'')) Cx_unknown_variant
       (and_then (context_path (fld d ''path_moves'')) (\<lambda>moves.
        let code = fld d ''opening_code''; name = fld d ''opening_name''; sentinel = PStr (rg_sentinel (cx_registry t)) in
        require (is_str code \<and> is_str name) Malformed_context_record
       (require ((code = sentinel) = (name = sentinel)) Malformed_context_record
       (require (code = sentinel \<or> matches code_grammar code) Malformed_context_record
       (require (code = sentinel \<or> entries_by_code (cx_registry t) (key_bytes code) \<noteq> None) Unknown_opening_code
       (require (code = sentinel \<or> name = PStr (op_name (the (entries_by_code (cx_registry t) (key_bytes code))))) Malformed_context_record
       (require (case resolve (cx_registry t) moves of (c, m) \<Rightarrow> code = PStr c \<and> name = PStr m) Malformed_context_record
         (Inr \<lparr>cr_variant = key_bytes (fld d ''variant''), cr_path = moves, cr_code = key_bytes code, cr_name = key_bytes name\<rparr>)))))))))
     | _ \<Rightarrow> Inl Malformed_context_record)"

definition context_key :: "context_record \<Rightarrow> string \<times> string list" where
  "context_key r = (cr_variant r, cr_path r)"

definition context_insert :: "context_table \<Rightarrow> pyval \<Rightarrow> pyval \<Rightarrow> (context_error, context_table \<times> context_record) result" where
  "context_insert t variant path = and_then (make_context t variant path) (\<lambda>r.
     case map_of (cx_records t) (context_key r) of
       Some existing \<Rightarrow> require (existing = r) Conflicting_context (Inr (t, existing))
     | None \<Rightarrow> Inr (t\<lparr>cx_records := dict_set (cx_records t) (context_key r) r\<rparr>, r))"

definition context_serialize :: "context_table \<Rightarrow> string list list" where
  "context_serialize t = sort (map (\<lambda>(_, r). [cr_variant r, join_on CHR '' '' (cr_path r), cr_code r, cr_name r]) (cx_records t))"

text \<open>The checks of types only.\<close>

definition typed_context :: "pyval \<Rightarrow> (context_error, context_record) result" where
  "typed_context rec = (case rec of PDict _ d \<Rightarrow>
       require (keys_are d CONTEXT_FIELDS) Malformed_context_record
       (case fld d ''path_moves'' of PList _ ms \<Rightarrow>
          require (list_all is_str ms) Malformed_context_record
          (require (list_all (\<lambda>k. is_str (fld d k)) [''variant'', ''opening_code'', ''opening_name'']) Malformed_context_record
            (Inr \<lparr>cr_variant = key_bytes (fld d ''variant''), cr_path = map key_bytes ms,
               cr_code = key_bytes (fld d ''opening_code''), cr_name = key_bytes (fld d ''opening_name'')\<rparr>))
        | _ \<Rightarrow> Inl Malformed_context_record)
     | _ \<Rightarrow> Inl Malformed_context_record)"

definition context_value :: "context_record \<Rightarrow> pyval" where
  "context_value r = PDict 1 [(PStr ''variant'', PStr (cr_variant r)), (PStr ''path_moves'', PList 2 (map PStr (cr_path r))),
     (PStr ''opening_code'', PStr (cr_code r)), (PStr ''opening_name'', PStr (cr_name r))]"

text \<open>One pair of \<open>_iter_pairs\<close>: its keys are exact pairs here.\<close>

definition check_pair :: "(pyval \<Rightarrow> (context_error, context_record) result) \<Rightarrow> (string \<times> string list) \<times> context_record
    \<Rightarrow> (context_error, (string \<times> string list) \<times> context_record) result" where
  "check_pair check p = (case p of (raw_key, raw) \<Rightarrow> and_then (check (context_value raw)) (\<lambda>r.
     require (raw_key = context_key r) Malformed_context_record (Inr (context_key r, r))))"

fun validated_pairs :: "(pyval \<Rightarrow> (context_error, context_record) result) \<Rightarrow> context_records \<Rightarrow> (context_error, context_records) result" where
  "validated_pairs check [] = Inr []"
| "validated_pairs check (p # ps) = and_then (check_pair check p) (\<lambda>q.
     and_then (validated_pairs check ps) (\<lambda>qs. Inr (q # qs)))"

text \<open>One source pair of the merge, on the staged table.\<close>

definition stage_context :: "context_table \<Rightarrow> (string \<times> string list) \<times> context_record \<Rightarrow> (context_error, context_table) result" where
  "stage_context t p = and_then (check_pair typed_context p) (\<lambda>(key, r).
     case map_of (cx_records t) key of
       Some existing \<Rightarrow>
         require ((cr_code r, cr_name r) = (cr_code existing, cr_name existing)) Conflicting_context
         (require (r = existing) Malformed_context_record (Inr t))
     | None \<Rightarrow> and_then (validate_context t (context_value r)) (\<lambda>r'.
         Inr (t\<lparr>cx_records := dict_set (cx_records t) key r'\<rparr>)))"

definition context_merge :: "context_table \<Rightarrow> context_table \<Rightarrow> (context_error, context_table) result" where
  "context_merge t source = and_then (validated_pairs (validate_context t) (cx_records t)) (\<lambda>pairs.
     run_all stage_context (t\<lparr>cx_records := pairs\<rparr>) (cx_records source))"

datatype context_op = Context_insert pyval pyval | Context_merge context_table

fun context_step :: "context_table \<Rightarrow> context_op \<Rightarrow> (context_error, context_table) result" where
  "context_step t (Context_insert variant path) = and_then (context_insert t variant path) (\<lambda>(t', _). Inr t')"
| "context_step t (Context_merge source) = context_merge t source"

end
