(* ===== verification/OpeningContextProps.thy ===== *)
theory OpeningContextProps
  imports OpeningContext
begin

text \<open>
  Correctness of opening contexts: the classification is by the longest line of the registry, a table is
  the classification of a set of paths, and a merge is accepted exactly if the two registries agree on
  what is merged.
\<close>

subsection \<open>Classification\<close>

definition on_path :: "string list \<Rightarrow> opening_entry \<Rightarrow> bool" where
  "on_path moves e \<longleftrightarrow> prefix (op_moves e) moves"

lemma take_prefix: "take (length xs) ys = xs \<longleftrightarrow> prefix xs ys"
  by (metis append_eq_conv_conj prefix_def)

lemma best_opening_spec:
  "(\<forall>b. best = Some b \<longrightarrow> on_path moves b) \<Longrightarrow>
   (case best_opening moves best es of
      None \<Rightarrow> best = None \<and> (\<forall>e \<in> set es. \<not> on_path moves e)
    | Some e \<Rightarrow> (best = Some e \<or> e \<in> set es) \<and> on_path moves e
        \<and> (\<forall>e' \<in> set_option best \<union> set es. on_path moves e' \<longrightarrow> length (op_moves e') \<le> length (op_moves e)))"
proof (induction moves best es rule: best_opening.induct)
  case (2 moves best e es)
  show ?case
  proof (cases "on_path moves e \<and> (\<forall>b. best = Some b \<longrightarrow> length (op_moves b) < length (op_moves e))")
    case True
    then show ?thesis using "2.IH"(1) "2.prems"
      by (cases best) (force simp: take_prefix on_path_def split: option.splits)+
  next
    case False
    then show ?thesis using "2.IH"(2) "2.prems"
      by (cases best) (force simp: take_prefix on_path_def split: option.splits)+
  qed
qed (auto split: option.splits)

text \<open>The classification is by the longest line of the registry that the path starts with: the
  sentinel pair if there is none, else code and name of a line of which no line that the path starts with
  is longer. Playing on never leads back to a shorter line.\<close>

theorem resolve_longest:
  "(\<forall>e \<in> set (rg_entries R). \<not> on_path moves e) \<and> resolve R moves = (rg_sentinel R, rg_sentinel R)
   \<or> (\<exists>e \<in> set (rg_entries R). on_path moves e \<and> resolve R moves = (op_code e, op_name e)
        \<and> (\<forall>e' \<in> set (rg_entries R). on_path moves e' \<longrightarrow> prefix (op_moves e') (op_moves e))
        \<and> (\<forall>more. \<exists>e'' \<in> set (rg_entries R). on_path (moves @ more) e''
             \<and> resolve R (moves @ more) = (op_code e'', op_name e'') \<and> prefix (op_moves e) (op_moves e'')))"
proof -
  have spec: "(case best_opening ms None (rg_entries R) of None \<Rightarrow> (\<forall>e \<in> set (rg_entries R). \<not> on_path ms e)
      | Some e \<Rightarrow> e \<in> set (rg_entries R) \<and> on_path ms e
          \<and> (\<forall>e' \<in> set (rg_entries R). on_path ms e' \<longrightarrow> prefix (op_moves e') (op_moves e)))" for ms
    using best_opening_spec [of None ms "rg_entries R"]
    by (auto split: option.splits simp: on_path_def intro: prefix_length_prefix)
  show ?thesis
  proof (cases "best_opening moves None (rg_entries R)")
    case None
    then show ?thesis using spec [of moves] by (simp add: resolve_def)
  next
    case (Some e)
    have e: "e \<in> set (rg_entries R)" "on_path moves e"
      "\<forall>e' \<in> set (rg_entries R). on_path moves e' \<longrightarrow> prefix (op_moves e') (op_moves e)"
      using spec [of moves] Some by simp_all
    have "\<exists>e'' \<in> set (rg_entries R). on_path (moves @ more) e''
             \<and> resolve R (moves @ more) = (op_code e'', op_name e'') \<and> prefix (op_moves e) (op_moves e'')" for more
    proof -
      have "on_path (moves @ more) e" using e(2) by (simp add: on_path_def)
      then show ?thesis using spec [of "moves @ more"] e(1) by (auto simp: resolve_def split: option.splits)
    qed
    then show ?thesis using e Some by (auto simp: resolve_def)
  qed
qed

subsection \<open>Tables\<close>

text \<open>What a table files for a variant and a path.\<close>

definition context_of :: "registry \<Rightarrow> string \<times> string list \<Rightarrow> context_record" where
  "context_of R = (\<lambda>(v, p). \<lparr>cr_variant = v, cr_path = p, cr_code = fst (resolve R p), cr_name = snd (resolve R p)\<rparr>)"

definition key_ok :: "string list \<Rightarrow> string \<times> string list \<Rightarrow> bool" where
  "key_ok V = (\<lambda>(v, p). v \<in> set V \<and> list_all context_move p)"

lemma context_key_of [simp]: "context_key (context_of R k) = k"
  by (simp add: context_key_def context_of_def split_beta)

lemma context_path_text [simp]:
  "context_path (PList n (map PStr p)) = require (list_all context_move p) Malformed_path (Inr p)"
  by (simp add: context_path_def list_all_iff comp_def)

lemma context_path_Inr:
  "context_path v = Inr p \<longleftrightarrow> (\<exists>n. v = PList n (map PStr p)) \<and> list_all context_move p"
proof -
  have "(list_all (matches context_move) ms \<and> map key_bytes ms = p) \<longleftrightarrow> (ms = map PStr p \<and> list_all context_move p)" for ms
  proof
    assume "ms = map PStr p \<and> list_all context_move p"
    then show "list_all (matches context_move) ms \<and> map key_bytes ms = p" by (simp add: list_all_iff comp_def)
  next
    assume ok: "list_all (matches context_move) ms \<and> map key_bytes ms = p"
    have "map PStr (map key_bytes ms) = ms \<and> list_all context_move (map key_bytes ms)"
      using ok [THEN conjunct1] by (induction ms) (auto simp: matches_iff)
    then show "ms = map PStr p \<and> list_all context_move p" using ok by simp
  qed
  then show ?thesis by (cases v) (auto simp: context_path_def)
qed

lemma make_context_eq:
  "make_context t variant path = require (matches (\<lambda>v. v \<in> set (cx_variants t)) variant) Cx_unknown_variant
     (and_then (context_path path) (\<lambda>p. Inr (context_of (cx_registry t) (key_bytes variant, p))))"
  by (simp add: make_context_def context_of_def split_beta)

lemma make_context_Inr:
  "make_context t variant path = Inr r \<longleftrightarrow> (\<exists>k. key_ok (cx_variants t) k \<and> r = context_of (cx_registry t) k
     \<and> variant = PStr (fst k) \<and> (\<exists>n. path = PList n (map PStr (snd k))))"
  by (cases variant) (auto simp: make_context_eq context_path_Inr key_ok_def)

text \<open>A registry whose codes are proper and belong to one line each.\<close>

definition registry_ok :: "registry \<Rightarrow> bool" where
  "registry_ok R \<longleftrightarrow> distinct (map op_code (rg_entries R)) \<and> (\<forall>e \<in> set (rg_entries R).
     code_grammar (op_code e) \<and> op_code e \<noteq> rg_sentinel R \<and> op_name e \<noteq> rg_sentinel R)"

definition table_ok :: "registry \<Rightarrow> string list \<Rightarrow> context_table \<Rightarrow> bool" where
  "table_ok R V t \<longleftrightarrow> cx_registry t = R \<and> cx_variants t = V \<and> distinct (map fst (cx_records t))
     \<and> (\<forall>(k, r) \<in> set (cx_records t). key_ok V k \<and> r = context_of R k)"

locale opening_registry =
  fixes R :: registry
  assumes registry_ok: "registry_ok R"
begin

lemma resolve_cases:
  "resolve R p = (rg_sentinel R, rg_sentinel R)
   \<or> (\<exists>e. entries_by_code R (op_code e) = Some e \<and> code_grammar (op_code e) \<and> op_code e \<noteq> rg_sentinel R
        \<and> op_name e \<noteq> rg_sentinel R \<and> resolve R p = (op_code e, op_name e))"
proof -
  have "entries_by_code R (op_code e) = Some e" if "e \<in> set (rg_entries R)" for e
  proof -
    have "distinct (map fst (rev (map (\<lambda>e. (op_code e, e)) (rg_entries R))))"
      using registry_ok by (simp add: registry_ok_def comp_def flip: rev_map)
    then show ?thesis using that unfolding entries_by_code_def by (intro map_of_is_SomeI) auto
  qed
  moreover have "resolve R p = (rg_sentinel R, rg_sentinel R)
      \<or> (\<exists>e \<in> set (rg_entries R). resolve R p = (op_code e, op_name e))"
    using best_opening_spec [of None p "rg_entries R"] by (auto simp: resolve_def split: option.splits)
  ultimately show ?thesis using registry_ok by (auto simp: registry_ok_def)
qed

text \<open>Validation against the registry accepts exactly its own classification.\<close>

lemma validate_value:
  assumes "cx_registry t = R"
  shows "validate_context t (context_value r) = (let code = cr_code r; name = cr_name r in
     require (cr_variant r \<in> set (cx_variants t)) Cx_unknown_variant
     (require (list_all context_move (cr_path r)) Malformed_path
     (require ((code = rg_sentinel R) = (name = rg_sentinel R)) Malformed_context_record
     (require (code = rg_sentinel R \<or> code_grammar code) Malformed_context_record
     (require (code = rg_sentinel R \<or> entries_by_code R code \<noteq> None) Unknown_opening_code
     (require (code = rg_sentinel R \<or> name = op_name (the (entries_by_code R code))) Malformed_context_record
     (require ((code, name) = resolve R (cr_path r)) Malformed_context_record (Inr r))))))))"
proof -
  have k: "keys_are [(PStr ''variant'', v1), (PStr ''path_moves'', v2), (PStr ''opening_code'', v3), (PStr ''opening_name'', v4)] CONTEXT_FIELDS"
    for v1 v2 v3 v4 by (auto simp: keys_are_def CONTEXT_FIELDS_def)
  have r: "\<lparr>cr_variant = cr_variant r, cr_path = cr_path r, cr_code = cr_code r, cr_name = cr_name r\<rparr> = r" by (cases r) simp
  show ?thesis using assms
    by (simp add: validate_context_def context_value_def k fld_simps Let_def split_beta prod_eq_iff r)
qed

lemma validate_iff:
  assumes "cx_registry t = R"
  shows "validate_context t (context_value r) = Inr r' \<longleftrightarrow>
     r' = r \<and> key_ok (cx_variants t) (context_key r) \<and> r = context_of R (context_key r)"
proof -
  have r: "r = context_of R (context_key r) \<longleftrightarrow> (cr_code r, cr_name r) = resolve R (cr_path r)"
    by (cases r) (auto simp: context_of_def context_key_def prod_eq_iff)
  show ?thesis unfolding validate_value [OF assms] r using resolve_cases [of "cr_path r"]
    by (auto simp: Let_def key_ok_def context_key_def)
qed

lemma validated_self:
  assumes "table_ok R V t"
  shows "validated_pairs (validate_context t) (cx_records t) = Inr (cx_records t)"
proof -
  have "validated_pairs (validate_context t) ps = Inr ps" if "\<forall>(k, r) \<in> set ps. key_ok V k \<and> r = context_of R k" for ps
    using that
  proof (induction ps)
    case (Cons p ps)
    then have "validate_context t (context_value (snd p)) = Inr (snd p)" "snd p = context_of R (fst p)"
      using assms by (auto simp: validate_iff table_ok_def split_beta)
    then show ?case using Cons by (cases p) (simp add: check_pair_def)
  qed simp
  then show ?thesis using assms by (simp add: table_ok_def)
qed

text \<open>One source pair: it is filed if it is a classification of this registry, of one of its variants.\<close>

lemma typed_value: "typed_context (context_value r) = Inr r"
proof -
  have k: "keys_are [(PStr ''variant'', v1), (PStr ''path_moves'', v2), (PStr ''opening_code'', v3), (PStr ''opening_name'', v4)] CONTEXT_FIELDS"
    for v1 v2 v3 v4 by (auto simp: keys_are_def CONTEXT_FIELDS_def)
  have r: "\<lparr>cr_variant = cr_variant r, cr_path = cr_path r, cr_code = cr_code r, cr_name = cr_name r\<rparr> = r" by (cases r) simp
  show ?thesis by (simp add: typed_context_def context_value_def k fld_simps r list_all_iff map_idI)
qed

lemma stage_Inr:
  assumes t: "table_ok R V t"
  shows "stage_context t (k, r) = Inr t' \<longleftrightarrow> key_ok V k \<and> r = context_of R k
     \<and> t' = (if k \<in> fst ` set (cx_records t) then t else t\<lparr>cx_records := cx_records t @ [(k, r)]\<rparr>)"
proof (cases "map_of (cx_records t) k")
  case (Some e)
  then have e: "(k, e) \<in> set (cx_records t)" by (rule map_of_SomeD)
  then have "key_ok V k" "e = context_of R k" using t by (auto simp: table_ok_def)
  moreover have "k \<in> fst ` set (cx_records t)" using e by force
  ultimately show ?thesis using Some by (auto simp: stage_context_def check_pair_def typed_value)
next
  case None
  have reg: "cx_registry t = R" "cx_variants t = V" using t by (simp_all add: table_ok_def)
  have new: "k \<notin> fst ` set (cx_records t)" using None by (simp add: map_of_eq_None_iff)
  have "stage_context t (k, r) = Inr t' \<longleftrightarrow> k = context_key r \<and> key_ok V (context_key r) \<and> r = context_of R (context_key r)
     \<and> t' = t\<lparr>cx_records := dict_set (cx_records t) k r\<rparr>"
    using None by (auto simp: stage_context_def check_pair_def typed_value validate_iff [OF reg(1)] reg)
  then show ?thesis using new context_key_of by (auto simp: dict_set_new)
qed

lemma stage_ok:
  assumes "table_ok R V t" "stage_context t p = Inr t'"
  shows "table_ok R V t' \<and> fst ` set (cx_records t') = insert (fst p) (fst ` set (cx_records t))"
proof -
  obtain k r where p: "p = (k, r)" by (cases p)
  show ?thesis using assms stage_Inr [OF assms(1), of k r t'] unfolding p
    by (auto simp: table_ok_def split: if_splits)
qed

lemma stage_run:
  "table_ok R V t \<Longrightarrow>
    (accepts (run_all stage_context t ps) \<longleftrightarrow> (\<forall>(k, r) \<in> set ps. key_ok V k \<and> r = context_of R k))
    \<and> (\<forall>t'. run_all stage_context t ps = Inr t' \<longrightarrow> table_ok R V t'
        \<and> fst ` set (cx_records t') = fst ` set (cx_records t) \<union> fst ` set ps)"
proof (induction ps arbitrary: t)
  case (Cons p ps)
  obtain k r where p: "p = (k, r)" by (cases p)
  show ?case
  proof (cases "stage_context t p")
    case (Inl e)
    then have "\<not> (key_ok V k \<and> r = context_of R k)" using stage_Inr [OF Cons.prems, of k r] p by force
    then show ?thesis using Inl p by auto
  next
    case (Inr t1)
    have "key_ok V k \<and> r = context_of R k" using stage_Inr [OF Cons.prems, of k r t1] Inr p by simp
    then show ?thesis using Cons.IH [of t1] stage_ok [OF Cons.prems Inr] Inr by (auto simp: p)
  qed
qed simp

lemma merge_run:
  assumes "table_ok R V t"
  shows "context_merge t source = run_all stage_context t (cx_records source)"
  using validated_self [OF assms] by (simp add: context_merge_def)

lemma insert_Inr:
  assumes t: "table_ok R V t"
  shows "context_insert t variant path = Inr (t', r) \<longleftrightarrow> (\<exists>k n. key_ok V k \<and> r = context_of R k \<and> variant = PStr (fst k)
     \<and> path = PList n (map PStr (snd k))
     \<and> t' = (if k \<in> fst ` set (cx_records t) then t else t\<lparr>cx_records := cx_records t @ [(k, r)]\<rparr>))"
proof -
  have reg: "cx_registry t = R" "cx_variants t = V" using t by (simp_all add: table_ok_def)
  have filed: "(case map_of (cx_records t) k of Some existing \<Rightarrow> require (existing = context_of R k) Conflicting_context (Inr (t, existing))
       | None \<Rightarrow> Inr (t\<lparr>cx_records := dict_set (cx_records t) k (context_of R k)\<rparr>, context_of R k))
     = (Inr (if k \<in> fst ` set (cx_records t) then t else t\<lparr>cx_records := cx_records t @ [(k, context_of R k)]\<rparr>, context_of R k) :: (context_error, _) result)" for k
  proof (cases "map_of (cx_records t) k")
    case None
    then have "k \<notin> fst ` set (cx_records t)" by (simp add: map_of_eq_None_iff)
    then show ?thesis using None by (simp add: dict_set_new)
  next
    case (Some e)
    then have e: "(k, e) \<in> set (cx_records t)" by (rule map_of_SomeD)
    then have "e = context_of R k" "k \<in> fst ` set (cx_records t)" using t by (auto simp: table_ok_def intro: rev_image_eqI)
    then show ?thesis using Some by simp
  qed
  show ?thesis
  proof
    assume "context_insert t variant path = Inr (t', r)"
    then obtain m where i: "context_insert t variant path = Inr (t', r)" and m: "make_context t variant path = Inr m"
      by (auto simp: context_insert_def)
    from m obtain k n where "key_ok V k" "variant = PStr (fst k)" "path = PList n (map PStr (snd k))"
      "make_context t variant path = Inr (context_of R k)"
      unfolding make_context_Inr reg by blast
    moreover from this have "Inr (t', r) = (Inr (if k \<in> fst ` set (cx_records t) then t else t\<lparr>cx_records := cx_records t @ [(k, context_of R k)]\<rparr>, context_of R k) :: (context_error, _) result)"
      unfolding i [symmetric] context_insert_def by (simp only: and_then_simps context_key_of filed)
    ultimately show "\<exists>k n. key_ok V k \<and> r = context_of R k \<and> variant = PStr (fst k) \<and> path = PList n (map PStr (snd k))
       \<and> t' = (if k \<in> fst ` set (cx_records t) then t else t\<lparr>cx_records := cx_records t @ [(k, r)]\<rparr>)" by blast
  next
    assume "\<exists>k n. key_ok V k \<and> r = context_of R k \<and> variant = PStr (fst k) \<and> path = PList n (map PStr (snd k))
       \<and> t' = (if k \<in> fst ` set (cx_records t) then t else t\<lparr>cx_records := cx_records t @ [(k, r)]\<rparr>)"
    then obtain k where k: "r = context_of R k" "make_context t variant path = Inr (context_of R k)"
      "t' = (if k \<in> fst ` set (cx_records t) then t else t\<lparr>cx_records := cx_records t @ [(k, r)]\<rparr>)"
      using make_context_Inr [of t variant path] reg by blast
    show "context_insert t variant path = Inr (t', r)"
      unfolding context_insert_def k by (simp only: and_then_simps context_key_of filed)
  qed
qed

lemma insert_returns:
  assumes t: "table_ok R V t"
  shows "(\<exists>t'. context_insert t variant path = Inr (t', r)) \<longleftrightarrow> (\<exists>k n. key_ok V k \<and> r = context_of R k \<and> variant = PStr (fst k)
     \<and> path = PList n (map PStr (snd k)))"
  unfolding insert_Inr [OF t] by blast

lemma insert_ok:
  assumes t: "table_ok R V t" and i: "context_insert t variant path = Inr (t', r)"
  shows "table_ok R V t' \<and> fst ` set (cx_records t) \<subseteq> fst ` set (cx_records t')"
proof -
  obtain k where "key_ok V k" "t' = (if k \<in> fst ` set (cx_records t) then t else t\<lparr>cx_records := cx_records t @ [(k, context_of R k)]\<rparr>)"
    using i unfolding insert_Inr [OF t] by blast
  then show ?thesis using t by (cases "k \<in> fst ` set (cx_records t)") (auto simp: table_ok_def)
qed

lemma step_ok:
  assumes "table_ok R V t" "context_step t c = Inr t'"
  shows "table_ok R V t' \<and> fst ` set (cx_records t) \<subseteq> fst ` set (cx_records t')"
proof (cases c)
  case (Context_insert variant path)
  then obtain r where "context_insert t variant path = Inr (t', r)" using assms(2) by auto
  then show ?thesis using insert_ok [OF assms(1)] by blast
next
  case (Context_merge source)
  then show ?thesis using assms stage_run [OF assms(1)] by (auto simp: merge_run [OF assms(1)])
qed

end

sublocale opening_registry \<subseteq> cm: guarded_machine context_step "table_ok R V" "\<lambda>t u. fst ` set (cx_records t) \<subseteq> fst ` set (cx_records u)"
  for V
  using step_ok by unfold_locales (blast, blast, simp, blast)

context opening_registry
begin

lemma reached: "table_ok R V (run context_step (new_context_table R V) ops)"
  by (rule cm.run_inv) (simp add: table_ok_def new_context_table_def)

lemma serialize_eq:
  assumes "table_ok R V t" "table_ok R V u" "fst ` set (cx_records t) = fst ` set (cx_records u)"
  shows "context_serialize t = context_serialize u"
proof -
  have "set (cx_records x) = (\<lambda>k. (k, context_of R k)) ` fst ` set (cx_records x)" if "table_ok R V x" for x
    using that by (force simp: table_ok_def)
  then have "set (cx_records t) = set (cx_records u)" using assms by metis
  moreover have "distinct (cx_records x)" if "table_ok R V x" for x
    using that by (simp add: table_ok_def distinct_map)
  ultimately have "mset (cx_records t) = mset (cx_records u)" using assms(1,2) set_eq_iff_mset_eq_distinct by blast
  then have "mset (map f (cx_records t)) = mset (map f (cx_records u))" for f :: "_ \<Rightarrow> string list" by simp
  then show ?thesis unfolding context_serialize_def by (intro properties_for_sort) simp_all
qed

end

interpretation shipped: opening_registry OPENING_REGISTRY
  by unfold_locales code_simp

subsection \<open>Properties\<close>

text \<open>An insertion files one thing only, the classification of the path, whatever the table has been
  through: after any run of insertions and merges (of any tables, damaged ones too) an insertion is accepted
  exactly if the variant is known and the path well-formed, never conflicts, and what it returns depends on
  variant, path and registry alone.\<close>

theorem context_insert_classifies:
  assumes "registry_ok R" and "t = run context_step (new_context_table R V) ops"
  shows "(\<exists>t'. context_insert t variant path = Inr (t', r)) \<longleftrightarrow> (\<exists>v p n. variant = PStr v \<and> path = PList n (map PStr p)
     \<and> v \<in> set V \<and> list_all context_move p \<and> r = context_of R (v, p))"
proof -
  have reg: "opening_registry R" using assms(1) by unfold_locales
  show ?thesis unfolding opening_registry.insert_returns [OF reg opening_registry.reached [OF reg, of V ops, folded assms(2)]]
    by (simp only: key_ok_def split_paired_Ex prod.case fst_conv snd_conv) blast
qed

theorem context_insert_classifies_witness:
  "(\<exists>t'. context_insert (run context_step (new_context_table OPENING_REGISTRY [''standard''])
        [Context_insert (PStr ''standard'') (PList 1 [PStr ''e2e4'', PStr ''c7c5'', PStr ''b1c3''])])
      (PStr ''standard'') (PList 2 [PStr ''e2e4'', PStr ''c7c5'']) = Inr (t', context_of OPENING_REGISTRY (''standard'', [''e2e4'', ''c7c5''])))
    \<and> context_of OPENING_REGISTRY (''standard'', [''e2e4'', ''c7c5'']) =
        \<lparr>cr_variant = ''standard'', cr_path = [''e2e4'', ''c7c5''], cr_code = ''B20'', cr_name = ''Sicilian Defense''\<rparr>"
proof -
  have "context_of OPENING_REGISTRY (''standard'', [''e2e4'', ''c7c5'']) =
      \<lparr>cr_variant = ''standard'', cr_path = [''e2e4'', ''c7c5''], cr_code = ''B20'', cr_name = ''Sicilian Defense''\<rparr>"
    "list_all context_move [''e2e4'', ''c7c5'']" by code_simp+
  moreover have "\<exists>v p n. PStr ''standard'' = PStr v \<and> PList 2 [PStr ''e2e4'', PStr ''c7c5''] = PList n (map PStr p)
     \<and> v \<in> set [''standard''] \<and> list_all context_move p \<and> context_of OPENING_REGISTRY (''standard'', [''e2e4'', ''c7c5'']) = context_of OPENING_REGISTRY (v, p)"
    using calculation(2) by (intro exI [of _ "''standard''"] exI [of _ "[''e2e4'', ''c7c5'']"] exI [of _ 2]) simp
  note made = context_insert_classifies [OF shipped.registry_ok refl, THEN iffD2, OF this]
  show ?thesis by (rule conjI [OF made calculation(1)])
qed

text \<open>C24. A merge is accepted exactly if every record of the source is filed under its own key, of a known
  variant, and classified as the receiver's registry classifies it; one other record refuses the whole
  merge. Then the result holds the union of the keys, and when the source is a table over the same
  registry and variants, both orders are accepted and serialize the same.\<close>

theorem context_merge_exact:
  assumes "registry_ok R" and "t = run context_step (new_context_table R V) ops"
  shows "(accepts (context_merge t source) \<longleftrightarrow> (\<forall>(k, r) \<in> set (cx_records source). key_ok V k \<and> r = context_of R k))
    \<and> (\<forall>t'. context_merge t source = Inr t' \<longrightarrow> fst ` set (cx_records t') = fst ` set (cx_records t) \<union> fst ` set (cx_records source)
          \<and> (\<forall>(k, r) \<in> set (cx_records t'). r = context_of R k))
    \<and> (source = run context_step (new_context_table R V) ops' \<longrightarrow> (\<exists>t' u'. context_merge t source = Inr t'
          \<and> context_merge source t = Inr u' \<and> context_serialize t' = context_serialize u'))"
proof -
  have reg: "opening_registry R" using assms(1) by unfold_locales
  note reached = opening_registry.reached [OF reg, of V]
  have t: "table_ok R V t" using reached assms(2) by simp
  have both: "\<exists>x y. context_merge t u = Inr x \<and> context_merge u t = Inr y \<and> context_serialize x = context_serialize y"
    if u: "table_ok R V u" for u
  proof -
    have "accepts (context_merge t u)" "accepts (context_merge u t)"
      unfolding opening_registry.merge_run [OF reg t] opening_registry.merge_run [OF reg u]
      using opening_registry.stage_run [OF reg t] opening_registry.stage_run [OF reg u] t u by (auto simp: table_ok_def)
    then obtain x y where xy: "context_merge t u = Inr x" "context_merge u t = Inr y" by (auto simp: accepts_iff)
    then have "table_ok R V x" "table_ok R V y" "fst ` set (cx_records x) = fst ` set (cx_records y)"
      using opening_registry.stage_run [OF reg t, of "cx_records u"] opening_registry.stage_run [OF reg u, of "cx_records t"]
      by (auto simp: opening_registry.merge_run [OF reg t] opening_registry.merge_run [OF reg u])
    from opening_registry.serialize_eq [OF reg this] show ?thesis using xy by blast
  qed
  note run = opening_registry.stage_run [OF reg t, of "cx_records source", folded opening_registry.merge_run [OF reg t, of source]]
  have "\<forall>(k, r) \<in> set (cx_records x). r = context_of R k" if "table_ok R V x" for x
    using that by (auto simp: table_ok_def)
  then show ?thesis using run both [OF reached [of ops']] by (intro conjI allI impI) (blast, blast, blast, simp)
qed

text \<open>A damaged record (the code is another line's) refuses the merge.\<close>

theorem context_merge_exact_witness:
  "let t = run context_step (new_context_table OPENING_REGISTRY [''standard'']) [Context_insert (PStr ''standard'') (PList 1 [PStr ''e2e4''])];
       k = (''standard'', [''e2e4'', ''e7e5'']); s = new_context_table OPENING_REGISTRY [] in
   accepts (context_merge t (s\<lparr>cx_records := [(k, context_of OPENING_REGISTRY k)]\<rparr>))
   \<and> \<not> accepts (context_merge t (s\<lparr>cx_records := [(k, (context_of OPENING_REGISTRY k)\<lparr>cr_code := ''B20''\<rparr>)]\<rparr>))"
proof -
  have "cr_code (context_of OPENING_REGISTRY (''standard'', [''e2e4'', ''e7e5''])) = ''C20''"
    "key_ok [''standard''] (''standard'', [''e2e4'', ''e7e5''])" by code_simp+
  moreover from this(1) have "(context_of OPENING_REGISTRY (''standard'', [''e2e4'', ''e7e5'']))\<lparr>cr_code := ''B20''\<rparr>
      \<noteq> context_of OPENING_REGISTRY (''standard'', [''e2e4'', ''e7e5''])"
    by (cases "context_of OPENING_REGISTRY (''standard'', [''e2e4'', ''e7e5''])") simp
  ultimately show ?thesis unfolding Let_def context_merge_exact [OF shipped.registry_ok refl, THEN conjunct1] by simp
qed

end
