(* ===== verification/Calendar.thy ===== *)
theory Calendar
  imports PyValue Decimal
begin

text \<open>
  Calendar dates and UTC timestamps of seconds: what \<open>datetime.date\<close> and \<open>datetime.strptime\<close> accept of a
  text whose shape a pattern has tested.
\<close>

definition leap_year :: "nat \<Rightarrow> bool" where
  "leap_year y \<longleftrightarrow> y mod 4 = 0 \<and> (y mod 100 \<noteq> 0 \<or> y mod 400 = 0)"

definition days_in_month :: "nat \<Rightarrow> nat \<Rightarrow> nat" where
  "days_in_month y m = (if m = 2 then (if leap_year y then 29 else 28) else if m \<in> {4, 6, 9, 11} then 30 else 31)"

definition date_ok :: "nat \<Rightarrow> nat \<Rightarrow> nat \<Rightarrow> bool" where
  "date_ok y m d \<longleftrightarrow> 1 \<le> y \<and> y \<le> 9999 \<and> 1 \<le> m \<and> m \<le> 12 \<and> 1 \<le> d \<and> d \<le> days_in_month y m"

text \<open>The separators of \<open>dddd-dd-ddTdd:dd:ddZ\<close> with their places, and the digits \<open>s[i:j]\<close>.\<close>

definition SEPARATORS :: "(nat \<times> char) list" where
  "SEPARATORS = [(4, CHR ''-''), (7, CHR ''-''), (10, CHR ''T''), (13, CHR '':''), (16, CHR '':''), (19, CHR ''Z'')]"

definition slice :: "nat \<Rightarrow> nat \<Rightarrow> 'a list \<Rightarrow> 'a list" where
  "slice i j s = take (j - i) (drop i s)"

text \<open>The text of an instant.\<close>

definition padded :: "nat \<Rightarrow> nat \<Rightarrow> string" where
  "padded w n = replicate (w - length (dec n)) CHR ''0'' @ dec n"

definition instant_text :: "nat \<Rightarrow> nat \<Rightarrow> nat \<Rightarrow> nat \<Rightarrow> nat \<Rightarrow> nat \<Rightarrow> string" where
  "instant_text y m d h mi sec = padded 4 y @ ''-'' @ padded 2 m @ ''-'' @ padded 2 d @ ''T'' @ padded 2 h @ '':''
     @ padded 2 mi @ '':'' @ padded 2 sec @ ''Z''"

lemma undec_zero: "undec (CHR ''0'' # s) = undec s"
  by (simp add: undec_def digit_val.simps)

lemma undec_padded [simp]: "undec (padded w n) = n"
proof -
  have "undec (replicate k CHR ''0'' @ s) = undec s" for k s by (induction k) (simp_all add: undec_zero)
  then show ?thesis by (simp add: padded_def)
qed

lemma dec_length_le: "n < 10 ^ w \<Longrightarrow> 0 < w \<Longrightarrow> length (dec n) \<le> w"
proof (induction n arbitrary: w rule: dec.induct)
  case (1 n)
  show ?case
  proof (cases "n < 10")
    case True
    then show ?thesis using 1(3) by (simp add: dec_small)
  next
    case False
    then obtain v where "w = Suc v" using 1(3) by (cases w) simp_all
    moreover have "0 < v" using calculation False 1(2) by (cases v) simp_all
    ultimately have v: "w = Suc v" "0 < v" .
    then have "n div 10 < 10 ^ v" using 1(2) by simp
    from "1.IH" [OF False this v(2)] show ?thesis using False v by (simp add: dec_big)
  qed
qed

lemma padded_length: "n < 10 ^ w \<Longrightarrow> 0 < w \<Longrightarrow> length (padded w n) = w"
  using dec_length_le by (simp add: padded_def)

lemma padded_digits: "list_all is_digit (padded w n)"
proof -
  have "is_digit CHR ''0''" by (simp add: is_digit_def)
  then have "list_all is_digit (replicate k CHR ''0'')" for k by (induction k) simp_all
  then show ?thesis using dec_digits by (simp add: padded_def)
qed

lemma undec_less: "undec s < 10 ^ length s \<or> \<not> list_all is_digit s"
proof (induction s rule: rev_induct)
  case (snoc c s)
  show ?case using snoc digit_char_val [of c] by (auto simp: undec_snoc)
qed (simp add: undec_def)

text \<open>Digits of a given width are the padded text of their number.\<close>

lemma padded_undec:
  assumes "list_all is_digit s" "s \<noteq> []"
  shows "padded (length s) (undec s) = s"
proof -
  have "s = t" if "list_all is_digit s" "list_all is_digit t" "length s = length t" "undec s = undec t" for s t
    using that
  proof (induction s arbitrary: t rule: rev_induct)
    case (snoc c s)
    then obtain e u where t: "t = u @ [e]" by (cases t rule: rev_cases) auto
    have "10 * undec s + digit_val c = 10 * undec u + digit_val e" "digit_val c < 10" "digit_val e < 10"
      using snoc.prems t digit_char_val by (auto simp: undec_snoc)
    then have "undec s = undec u" "digit_val c = digit_val e" by presburger+
    moreover from this(2) have "c = e" using snoc.prems(1,2) t digit_char_val by (metis (no_types, lifting) list_all_append list.pred_inject(2))
    ultimately show ?case using snoc t by simp
  qed simp
  moreover have "length (padded (length s) (undec s)) = length s"
    using padded_length [of "undec s" "length s"] undec_less [of s] assms by simp
  ultimately show ?thesis using assms(1) padded_digits by (metis undec_padded)
qed

end
