(* ===== verification/Provenance.thy ===== *)
theory Provenance
  imports RouteEdge GraphState Calendar
begin

text \<open>
  Provenance of graph records, \<open>src/graph/provenance.py\<close> over \<open>src/data/contracts/provenance.yaml\<close>: which
  source observations produced a node, an edge or an opening context. A record is keyed by the identity
  of its target alone, and its sources only grow. The identity of a node is the tuple whose \<open>repr\<close> is the
  key of \<open>src/graph/node.py\<close>; it is given here by that text (\<open>ast.literal_eval\<close> takes the text back to the
  tuple, and equal tuples have equal texts).
\<close>

datatype provenance_error = Malformed_provenance_record | Unknown_target_kind | Malformed_target_identity | Unknown_source

fun provenance_code :: "provenance_error \<Rightarrow> string" where
  "provenance_code Malformed_provenance_record = ''malformed_request''"
| "provenance_code Unknown_target_kind = ''unknown_target_kind''"
| "provenance_code Malformed_target_identity = ''malformed_request''"
| "provenance_code Unknown_source = ''unknown_source''"

definition TARGET_KINDS :: "string list" where
  "TARGET_KINDS = [''transposition_node'', ''route_edge'', ''opening_context'']"

definition SOURCE_IDS :: "string list" where
  "SOURCE_IDS = [''pgn-file'', ''pgn-multi'', ''pgn-folder'', ''pgn-watch'', ''lichess-public'', ''chesscom-public'', ''cbh-licensed'']"

definition RECORD_FIELDS :: "string list" where
  "RECORD_FIELDS = [''target_kind'', ''target'', ''sources'']"

definition SOURCE_FIELDS :: "string list" where
  "SOURCE_FIELDS = [''source_id'', ''game_id'', ''first_observed_at'']"

subsection \<open>Sources\<close>

record source_entry =
  se_source :: string
  se_game :: string
  se_observed :: string

definition source_key :: "source_entry \<Rightarrow> string list" where
  "source_key e = [se_source e, se_game e, se_observed e]"

definition utc_timestamp :: "string \<Rightarrow> bool" where
  "utc_timestamp s \<longleftrightarrow> length s = 20 \<and> (\<forall>(i, c) \<in> set SEPARATORS. s ! i = c)
     \<and> (\<forall>i \<in> set [0..<20]. i \<notin> fst ` set SEPARATORS \<longrightarrow> is_digit (s ! i))
     \<and> date_ok (undec (slice 0 4 s)) (undec (slice 5 7 s)) (undec (slice 8 10 s))
     \<and> undec (slice 11 13 s) < 24 \<and> undec (slice 14 16 s) < 60 \<and> undec (slice 17 19 s) < 60"

definition valid_timestamp :: "pyval \<Rightarrow> bool" where
  "valid_timestamp v = matches utc_timestamp v"

definition valid_game_id :: "pyval \<Rightarrow> bool" where
  "valid_game_id v = matches (\<lambda>s. s \<noteq> [] \<and> list_all (\<lambda>c. 0x21 \<le> (of_char c :: nat) \<and> of_char c \<le> (0x7E :: nat)) s) v"

definition read_source :: "pyval \<Rightarrow> (provenance_error, source_entry) result" where
  "read_source entry = (case entry of PDict _ d \<Rightarrow>
       require (keys_are d SOURCE_FIELDS) Malformed_provenance_record
       (require (is_str (fld d ''source_id'')) Malformed_provenance_record
       (require (matches (\<lambda>s. s \<in> set SOURCE_IDS) (fld d ''source_id'')) Unknown_source
       (require (valid_game_id (fld d ''game_id'')) Malformed_provenance_record
       (require (valid_timestamp (fld d ''first_observed_at'')) Malformed_provenance_record
         (Inr \<lparr>se_source = key_bytes (fld d ''source_id''), se_game = key_bytes (fld d ''game_id''),
            se_observed = key_bytes (fld d ''first_observed_at'')\<rparr>)))))
     | _ \<Rightarrow> Inl Malformed_provenance_record)"

text \<open>The loop, with the dict of the entries read so far.\<close>

fun unique_sources :: "(string list \<times> source_entry) list \<Rightarrow> pyval list \<Rightarrow> (provenance_error, (string list \<times> source_entry) list) result" where
  "unique_sources unique [] = Inr unique"
| "unique_sources unique (v # vs) = and_then (read_source v) (\<lambda>e. unique_sources (dict_set unique (source_key e) e) vs)"

definition canonical_sources :: "pyval \<Rightarrow> (provenance_error, source_entry list) result" where
  "canonical_sources sources = (case sources of PList _ vs \<Rightarrow>
       require (vs \<noteq> []) Malformed_provenance_record
       (and_then (unique_sources [] vs) (\<lambda>unique. Inr (map (\<lambda>k. the (map_of unique k)) (sort (map fst unique)))))
     | _ \<Rightarrow> Inl Malformed_provenance_record)"

subsection \<open>Targets\<close>

definition move_text_valid :: "pyval \<Rightarrow> bool" where
  "move_text_valid move = (case move of PStr s \<Rightarrow>
       list_all (\<lambda>c. of_char c < (128 :: nat)) s \<and> length s \<in> {4, 5}
       \<and> \<not> (\<exists>q \<in> set [take 2 s, take 2 (drop 2 s)]. q ! 0 \<notin> set FILES \<or> q ! 1 \<notin> set RANKS)
       \<and> take 2 s \<noteq> take 2 (drop 2 s)
       \<and> (length s = 4 \<or> [s ! 4] \<in> set PROMO_VALUES)
     | _ \<Rightarrow> False)"

datatype target_identity =
    Node_target string string
  | Edge_target string string string string
  | Context_target string "string list"

text \<open>The key of an exact snapshot through the node module, or None if that rejects it.\<close>

definition snapshot_key :: "pyval \<Rightarrow> pyval \<Rightarrow> string option" where
  "snapshot_key variant snapshot = (case exact_record variant snapshot of Inl _ \<Rightarrow> None
     | Inr r \<Rightarrow> if PStr (nr_snapshot r) \<noteq> snapshot then None
         else (case record_identity (PDict 0 (node_dict r)) of Inl _ \<Rightarrow> None | Inr key \<Rightarrow> Some key))"

definition node_target_identity :: "pyval \<Rightarrow> (provenance_error, target_identity) result" where
  "node_target_identity target = (case target of PDict _ d \<Rightarrow>
       require (keys_are d [''variant'', ''snapshot_fen'']) Malformed_target_identity
       (require (is_str (fld d ''variant'') \<and> is_str (fld d ''snapshot_fen'')) Malformed_target_identity
       (case snapshot_key (fld d ''variant'') (fld d ''snapshot_fen'') of None \<Rightarrow> Inl Malformed_target_identity
        | Some key \<Rightarrow> Inr (Node_target (key_bytes (fld d ''variant'')) key)))
     | _ \<Rightarrow> Inl Malformed_target_identity)"

definition edge_target_identity :: "pyval \<Rightarrow> (provenance_error, target_identity) result" where
  "edge_target_identity target = (case target of PDict _ d \<Rightarrow>
       require (keys_are d EDGE_FIELDS) Malformed_target_identity
       (require (list_all (\<lambda>k. is_str (fld d k)) EDGE_FIELDS \<and> move_text_valid (fld d ''move'')) Malformed_target_identity
       (case (snapshot_key (fld d ''variant'') (fld d ''from_snapshot_fen''), snapshot_key (fld d ''variant'') (fld d ''to_snapshot_fen'')) of
          (Some before, Some after) \<Rightarrow> Inr (Edge_target (key_bytes (fld d ''variant'')) (key_bytes (fld d ''move'')) before after)
        | _ \<Rightarrow> Inl Malformed_target_identity))
     | _ \<Rightarrow> Inl Malformed_target_identity)"

definition context_target_identity :: "pyval \<Rightarrow> (provenance_error, target_identity) result" where
  "context_target_identity target = (case target of PDict _ d \<Rightarrow>
       require (keys_are d [''variant'', ''path_moves'']) Malformed_target_identity
       (require (matches (\<lambda>v. v \<in> set VARIANTS) (fld d ''variant'')) Malformed_target_identity
       (case fld d ''path_moves'' of PList _ ms \<Rightarrow>
          require (list_all move_text_valid ms) Malformed_target_identity
            (Inr (Context_target (key_bytes (fld d ''variant'')) (map key_bytes ms)))
        | _ \<Rightarrow> Inl Malformed_target_identity))
     | _ \<Rightarrow> Inl Malformed_target_identity)"

definition target_identity_of :: "string \<Rightarrow> pyval \<Rightarrow> (provenance_error, target_identity) result" where
  "target_identity_of kind target =
     (if kind = ''transposition_node'' then node_target_identity target
      else if kind = ''route_edge'' then edge_target_identity target
      else if kind = ''opening_context'' then context_target_identity target
      else Inl Unknown_target_kind)"

subsection \<open>The table\<close>

record provenance_record =
  pv_kind :: string
  pv_target :: pyval
  pv_sources :: "source_entry list"

type_synonym provenance_table = "((string \<times> target_identity) \<times> provenance_record) list"

definition validate_provenance :: "pyval \<Rightarrow> (provenance_error, provenance_record) result" where
  "validate_provenance rec = (case rec of PDict _ d \<Rightarrow>
       require (keys_are d RECORD_FIELDS) Malformed_provenance_record
       (require (matches (\<lambda>k. k \<in> set TARGET_KINDS) (fld d ''target_kind'')) Unknown_target_kind
       (let kind = key_bytes (fld d ''target_kind'') in
        and_then (canonical_sources (fld d ''sources'')) (\<lambda>sources.
        and_then (target_identity_of kind (fld d ''target'')) (\<lambda>_.
          Inr \<lparr>pv_kind = kind, pv_target = fld d ''target'', pv_sources = sources\<rparr>))))
     | _ \<Rightarrow> Inl Malformed_provenance_record)"

definition source_value :: "source_entry \<Rightarrow> pyval" where
  "source_value e = PDict 3 [(PStr ''source_id'', PStr (se_source e)), (PStr ''game_id'', PStr (se_game e)),
     (PStr ''first_observed_at'', PStr (se_observed e))]"

definition provenance_insert :: "provenance_table \<Rightarrow> pyval \<Rightarrow> (provenance_error, provenance_table \<times> provenance_record) result" where
  "provenance_insert t rec = and_then (validate_provenance rec) (\<lambda>canonical.
     and_then (target_identity_of (pv_kind canonical) (pv_target canonical)) (\<lambda>identity.
     let key = (pv_kind canonical, identity) in
     case map_of t key of
       None \<Rightarrow> Inr (dict_set t key canonical, canonical)
     | Some existing \<Rightarrow>
         and_then (canonical_sources (PList 2 (map source_value (pv_sources existing @ pv_sources canonical)))) (\<lambda>sources.
         let t' = (if sources \<noteq> pv_sources existing then dict_set t key (existing\<lparr>pv_sources := sources\<rparr>) else t) in
         Inr (t', the (map_of t' key)))))"

definition insert_record :: "provenance_table \<Rightarrow> pyval \<Rightarrow> (provenance_error, provenance_table) result" where
  "insert_record t rec = and_then (provenance_insert t rec) (\<lambda>(t', _). Inr t')"

text \<open>What the source's \<open>records()\<close> returns, or None if there is no such call or it raises.\<close>

definition provenance_merge :: "provenance_table \<Rightarrow> pyval option \<Rightarrow> (provenance_error, provenance_table) result" where
  "provenance_merge t source = (case source of Some (PList _ incoming) \<Rightarrow> run_all insert_record t incoming
     | _ \<Rightarrow> Inl Malformed_provenance_record)"

text \<open>\<open>records()\<close> and \<open>serialize()\<close>, the latter with the \<open>repr\<close> of the key; none of its texts holds a quote.\<close>

definition provenance_value :: "provenance_record \<Rightarrow> pyval" where
  "provenance_value r = PDict 4 [(PStr ''target_kind'', PStr (pv_kind r)), (PStr ''target'', pv_target r),
     (PStr ''sources'', PList 2 (map source_value (pv_sources r)))]"

definition provenance_records :: "provenance_table \<Rightarrow> pyval" where
  "provenance_records t = PList 5 (map (provenance_value \<circ> snd) t)"

definition quoted :: "string \<Rightarrow> string" where
  "quoted s = CHR 0x27 # s @ [CHR 0x27]"

definition repr_tuple :: "string list \<Rightarrow> string" where
  "repr_tuple parts = (case parts of [p] \<Rightarrow> ''('' @ p @ '',)''
     | _ \<Rightarrow> ''('' @ concat (map (\<lambda>(i, p). if i = 0 then p else '', '' @ p) (enumerate 0 parts)) @ '')'')"

fun repr_identity :: "target_identity \<Rightarrow> string" where
  "repr_identity (Node_target v key) = repr_tuple [quoted ''transposition_node'', quoted v, key]"
| "repr_identity (Edge_target v m before after) = repr_tuple [quoted ''route_edge'', quoted v, quoted m, before, after]"
| "repr_identity (Context_target v path) = repr_tuple [quoted ''opening_context'', quoted v, repr_tuple (map quoted path)]"

definition provenance_row :: "(string \<times> target_identity) \<times> provenance_record \<Rightarrow> string list list" where
  "provenance_row = (\<lambda>((kind, identity), r). [pv_kind r] # [repr_tuple [quoted kind, repr_identity identity]] # map source_key (pv_sources r))"

definition provenance_serialize :: "provenance_table \<Rightarrow> string list list list" where
  "provenance_serialize t = sort (map provenance_row t)"

datatype provenance_op = Prov_insert pyval | Prov_merge "pyval option"

fun provenance_step :: "provenance_table \<Rightarrow> provenance_op \<Rightarrow> (provenance_error, provenance_table) result" where
  "provenance_step t (Prov_insert rec) = insert_record t rec"
| "provenance_step t (Prov_merge source) = provenance_merge t source"

end
