(* ===== verification/ProvenanceProps.thy ===== *)
theory ProvenanceProps
  imports Provenance WalFacts
begin

text \<open>
  Correctness of provenance: a table is a map from target identities to sets of sources that only grow,
  and it is determined by the set of the requests it has accepted.
\<close>

subsection \<open>Source lists are sets\<close>

definition source_ok :: "source_entry \<Rightarrow> bool" where
  "source_ok e \<longleftrightarrow> se_source e \<in> set SOURCE_IDS \<and> valid_game_id (PStr (se_game e)) \<and> utc_timestamp (se_observed e)"

definition key_source :: "string list \<Rightarrow> source_entry" where
  "key_source k = \<lparr>se_source = k ! 0, se_game = k ! 1, se_observed = k ! 2\<rparr>"

lemma key_source [simp]: "key_source (source_key e) = e"
  by (cases e) (simp add: key_source_def source_key_def)

lemma source_key_inj: "inj_on source_key A"
  by (metis inj_onI key_source)

text \<open>The canonical list of a set of sources.\<close>

definition sources_of :: "source_entry set \<Rightarrow> source_entry list" where
  "sources_of A = map key_source (sorted_list_of_set (source_key ` A))"

lemma set_sources_of [simp]: "finite A \<Longrightarrow> set (sources_of A) = A"
  by (simp add: sources_of_def image_image)

lemma read_source_ok: "read_source v = Inr e \<Longrightarrow> source_ok e"
  by (cases v) (auto simp: read_source_def source_ok_def valid_game_id_def valid_timestamp_def matches_iff)

lemma read_source_value: "source_ok e \<Longrightarrow> read_source (source_value e) = Inr e"
proof -
  have "keys_are [(PStr ''source_id'', v1), (PStr ''game_id'', v2), (PStr ''first_observed_at'', v3)] SOURCE_FIELDS"
    for v1 v2 v3 by (auto simp: keys_are_def SOURCE_FIELDS_def)
  then show "source_ok e \<Longrightarrow> ?thesis"
    by (simp add: read_source_def source_value_def fld_simps source_ok_def valid_timestamp_def)
qed

lemma unique_sources_spec:
  assumes "unique_sources u vs = Inr u'" "\<forall>(k, e) \<in> set u. k = source_key e" "distinct (map fst u)"
  shows "\<exists>es. map read_source vs = map Inr es \<and> (\<forall>(k, e) \<in> set u'. k = source_key e) \<and> distinct (map fst u')
     \<and> fst ` set u' = fst ` set u \<union> source_key ` set es"
  using assms
proof (induction u vs arbitrary: u' rule: unique_sources.induct)
  case (2 u v vs)
  then obtain e where e: "read_source v = Inr e" "unique_sources (dict_set u (source_key e) e) vs = Inr u'" by auto
  have "\<forall>(k, e) \<in> set (dict_set u (source_key e) e). k = source_key e"
    using "2.prems"(2) set_dict_set_subset [of u "source_key e" e] by blast
  from "2.IH" [OF e(2) this] "2.prems"(3) obtain es where
    "map read_source vs = map Inr es" "\<forall>(k, e) \<in> set u'. k = source_key e" "distinct (map fst u')"
    "fst ` set u' = fst ` set (dict_set u (source_key e) e) \<union> source_key ` set es" by auto
  then show ?case using e(1) by (intro exI [of _ "e # es"]) auto
qed (auto intro: exI [of _ "[]"])

lemma unique_sources_accepts: "list_all (\<lambda>v. accepts (read_source v)) vs \<Longrightarrow> accepts (unique_sources u vs)"
  by (induction u vs rule: unique_sources.induct) (auto simp: accepts_iff)

text \<open>Canonical sources are the canonical list of the set that was read.\<close>

lemma canonical_sources_Inr:
  assumes "canonical_sources v = Inr es"
  obtains n vs rs where "v = PList n vs" "map read_source vs = map Inr rs" "rs \<noteq> []" "es = sources_of (set rs)"
    "\<forall>e \<in> set rs. source_ok e"
proof -
  obtain n vs u where v: "v = PList n vs" "vs \<noteq> []" "unique_sources [] vs = Inr u"
    "es = map (\<lambda>k. the (map_of u k)) (sort (map fst u))"
    using assms by (cases v) (auto simp: canonical_sources_def)
  from unique_sources_spec [OF v(3)] obtain rs where rs: "map read_source vs = map Inr rs"
    "\<forall>(k, e) \<in> set u. k = source_key e" "distinct (map fst u)" "fst ` set u = source_key ` set rs" by auto
  have "sort (map fst u) = sorted_list_of_set (source_key ` set rs)"
    using rs(3,4) sorted_list_of_set_sort_remdups [of "map fst u"] by (simp add: distinct_remdups_id)
  moreover have "the (map_of u k) = key_source k" if k: "k \<in> fst ` set u" for k
  proof -
    from k obtain e where e: "(k, e) \<in> set u" by auto
    then have "map_of u k = Some e" "k = source_key e" using rs(2,3) by auto
    then show ?thesis by simp
  qed
  ultimately have "es = sources_of (set rs)" unfolding v(4) sources_of_def using rs(4) by simp
  moreover have "\<forall>e \<in> set rs. source_ok e"
  proof
    fix e assume "e \<in> set rs"
    then have "Inr e \<in> set (map read_source vs)" unfolding rs(1) by simp
    then show "source_ok e" using read_source_ok by force
  qed
  moreover have "rs \<noteq> []" using rs(1) v(2) by auto
  ultimately show thesis using that v(1) rs(1) by blast
qed

lemma canonical_sources_values:
  assumes "es \<noteq> []" "\<forall>e \<in> set es. source_ok e"
  shows "canonical_sources (PList n (map source_value es)) = Inr (sources_of (set es))"
proof -
  have "list_all (\<lambda>v. accepts (read_source v)) (map source_value es)"
    using assms(2) by (simp add: list_all_iff read_source_value)
  then obtain cs where c: "canonical_sources (PList n (map source_value es)) = Inr cs"
    using unique_sources_accepts [of "map source_value es" "[]"] assms(1) by (auto simp: canonical_sources_def accepts_iff)
  from canonical_sources_Inr [OF c] obtain rs where rs: "map read_source (map source_value es) = map Inr rs" "cs = sources_of (set rs)" by auto
  have "map read_source (map source_value es) = map Inr es" using assms(2) by (auto simp: read_source_value)
  then have "map Inr rs = (map Inr es :: (provenance_error, source_entry) result list)" by (rule trans [OF rs(1) [symmetric]])
  then have "rs = es" unfolding inj_map_eq_map [OF inj_Inr] .
  then show ?thesis using c rs(2) by simp
qed

subsection \<open>Tables are maps to source sets\<close>

type_synonym prov_key = "string \<times> target_identity"

definition source_map :: "provenance_table \<Rightarrow> prov_key \<Rightarrow> source_entry set" where
  "source_map t k = (case map_of t k of None \<Rightarrow> {} | Some r \<Rightarrow> set (pv_sources r))"

definition prov_record_ok :: "prov_key \<Rightarrow> provenance_record \<Rightarrow> bool" where
  "prov_record_ok k r \<longleftrightarrow> pv_kind r = fst k \<and> target_identity_of (pv_kind r) (pv_target r) = Inr (snd k)
     \<and> pv_sources r \<noteq> [] \<and> pv_sources r = sources_of (set (pv_sources r)) \<and> (\<forall>e \<in> set (pv_sources r). source_ok e)"

definition prov_inv :: "provenance_table \<Rightarrow> bool" where
  "prov_inv t \<longleftrightarrow> distinct (map fst t) \<and> (\<forall>(k, r) \<in> set t. prov_record_ok k r)"

text \<open>What a request claims: the key of its target and the set of its sources, or None if it is rejected.\<close>

definition claim_of :: "pyval \<Rightarrow> (prov_key \<times> source_entry set) option" where
  "claim_of rec = (case validate_provenance rec of Inl _ \<Rightarrow> None
     | Inr r \<Rightarrow> (case target_identity_of (pv_kind r) (pv_target r) of Inl _ \<Rightarrow> None
         | Inr i \<Rightarrow> Some ((pv_kind r, i), set (pv_sources r))))"

lemma validated_record_ok:
  assumes "validate_provenance rec = Inr r"
  obtains i where "prov_record_ok (pv_kind r, i) r" "claim_of rec = Some ((pv_kind r, i), set (pv_sources r))"
proof -
  from assms obtain v i where a: "canonical_sources v = Inr (pv_sources r)" "target_identity_of (pv_kind r) (pv_target r) = Inr i"
    by (cases rec) (auto simp: validate_provenance_def Let_def)
  from canonical_sources_Inr [OF a(1)] obtain rs where "rs \<noteq> []" "pv_sources r = sources_of (set rs)" "\<forall>e \<in> set rs. source_ok e" by metis
  then have "prov_record_ok (pv_kind r, i) r" using a(2) by (auto simp: prov_record_ok_def) (metis List.finite_set empty_set set_sources_of set_empty)
  then show thesis using that assms a(2) by (simp add: claim_of_def)
qed

lemma sources_of_eq: "finite A \<Longrightarrow> finite B \<Longrightarrow> sources_of A = sources_of B \<longleftrightarrow> A = B"
  by (metis set_sources_of)

lemma insert_claim:
  assumes t: "prov_inv t"
  shows "(case claim_of rec of None \<Rightarrow> \<not> accepts (insert_record t rec)
    | Some (k, S) \<Rightarrow> \<exists>t'. insert_record t rec = Inr t' \<and> prov_inv t' \<and> source_map t' = (source_map t)(k := source_map t k \<union> S))"
proof (cases "validate_provenance rec")
  case (Inl e)
  then show ?thesis by (simp add: claim_of_def insert_record_def provenance_insert_def)
next
  case (Inr r)
  from validated_record_ok [OF Inr] obtain i where r: "prov_record_ok (pv_kind r, i) r"
    "claim_of rec = Some ((pv_kind r, i), set (pv_sources r))" by metis
  let ?k = "(pv_kind r, i)"
  have i: "target_identity_of (pv_kind r) (pv_target r) = Inr i" using r(1) by (simp add: prov_record_ok_def)
  show ?thesis
  proof (cases "map_of t ?k")
    case None
    then have "?k \<notin> fst ` set t" by (simp add: map_of_eq_None_iff)
    then have "prov_inv (dict_set t ?k r)" using t r(1) by (auto simp: prov_inv_def dict_set_new)
    moreover have "source_map (dict_set t ?k r) = (source_map t)(?k := source_map t ?k \<union> set (pv_sources r))"
      using None by (auto simp: source_map_def fun_eq_iff)
    ultimately show ?thesis using Inr i None r(2) by (simp add: insert_record_def provenance_insert_def Let_def)
  next
    case (Some e)
    then have e: "prov_record_ok ?k e" using t map_of_SomeD by (fastforce simp: prov_inv_def)
    let ?S = "set (pv_sources e) \<union> set (pv_sources r)"
    have can: "canonical_sources (PList 2 (map source_value (pv_sources e @ pv_sources r))) = Inr (sources_of ?S)"
      using canonical_sources_values [of "pv_sources e @ pv_sources r" 2] e r(1) by (auto simp: prov_record_ok_def)
    let ?t = "if sources_of ?S \<noteq> pv_sources e then dict_set t ?k (e\<lparr>pv_sources := sources_of ?S\<rparr>) else t"
    have res: "insert_record t rec = Inr ?t"
      using Inr i Some can by (simp add: insert_record_def provenance_insert_def Let_def)
    have ok: "prov_record_ok ?k (e\<lparr>pv_sources := sources_of ?S\<rparr>)"
      using e r(1) by (auto simp: prov_record_ok_def) (metis List.finite_set Un_empty_left finite_Un set_sources_of set_empty sup_eq_bot_iff)
    have inv: "prov_inv (dict_set t ?k (e\<lparr>pv_sources := sources_of ?S\<rparr>))"
      using t ok set_dict_set_subset [of t ?k "e\<lparr>pv_sources := sources_of ?S\<rparr>"] by (auto simp: prov_inv_def)
    have "source_map ?t = (source_map t)(?k := source_map t ?k \<union> set (pv_sources r))"
    proof (cases "sources_of ?S = pv_sources e")
      case True
      then have "?S = set (pv_sources e)" by (metis List.finite_set finite_Un set_sources_of)
      then show ?thesis using True Some by (auto simp: source_map_def fun_eq_iff)
    next
      case False
      then show ?thesis using Some by (auto simp: source_map_def fun_eq_iff)
    qed
    then show ?thesis using res inv t r(2) by (auto split: if_splits)
  qed
qed

text \<open>What an operation claims: an insertion one key, a merge every key of its records, all or nothing.\<close>

fun op_claims :: "provenance_op \<Rightarrow> (prov_key \<times> source_entry set) list option" where
  "op_claims (Prov_insert rec) = map_option (\<lambda>c. [c]) (claim_of rec)"
| "op_claims (Prov_merge (Some (PList _ recs))) = those (map claim_of recs)"
| "op_claims (Prov_merge _) = None"

definition claimed :: "(prov_key \<times> source_entry set) set \<Rightarrow> prov_key \<Rightarrow> source_entry set" where
  "claimed C k = \<Union> {S. (k, S) \<in> C}"

lemma claimed_simps [simp]:
  "claimed {} k = {}" "claimed (C \<union> D) k = claimed C k \<union> claimed D k"
  "claimed (insert (j, S) C) k = (if j = k then S \<union> claimed C k else claimed C k)"
  by (auto simp: claimed_def)

lemma merge_claims:
  assumes "prov_inv t"
  shows "(case those (map claim_of recs) of None \<Rightarrow> \<not> accepts (run_all insert_record t recs)
    | Some cs \<Rightarrow> \<exists>t'. run_all insert_record t recs = Inr t' \<and> prov_inv t'
        \<and> source_map t' = (\<lambda>k. source_map t k \<union> claimed (set cs) k))"
  using assms
proof (induction recs arbitrary: t)
  case (Cons rec recs)
  show ?case
  proof (cases "claim_of rec")
    case None
    then have "\<not> accepts (insert_record t rec)" using insert_claim [OF Cons.prems, of rec] by simp
    then show ?thesis using None by (cases "insert_record t rec") simp_all
  next
    case (Some c)
    obtain k S where c: "c = (k, S)" by (cases c)
    from insert_claim [OF Cons.prems, of rec] obtain t1 where t1: "insert_record t rec = Inr t1" "prov_inv t1"
      "source_map t1 = (source_map t)(k := source_map t k \<union> S)" using Some c by auto
    show ?thesis using Cons.IH [OF t1(2)] Some t1(1,3) c
      by (auto simp: fun_eq_iff split: option.splits)
  qed
qed simp

lemma step_claims:
  assumes "prov_inv t"
  shows "(case op_claims c of None \<Rightarrow> \<not> accepts (provenance_step t c)
    | Some cs \<Rightarrow> \<exists>t'. provenance_step t c = Inr t' \<and> prov_inv t' \<and> source_map t' = (\<lambda>k. source_map t k \<union> claimed (set cs) k))"
proof (cases c rule: op_claims.cases)
  case (1 rec)
  then show ?thesis using insert_claim [OF assms, of rec] by (auto simp: fun_eq_iff split: option.splits)
next
  case (2 n recs)
  have "provenance_step t c = run_all insert_record t recs" "op_claims c = those (map claim_of recs)"
    unfolding 2 by (simp_all add: provenance_merge_def)
  then show ?thesis using merge_claims [OF assms, of recs] by (simp only:)
qed (simp_all add: provenance_merge_def)

interpretation pv: guarded_machine provenance_step prov_inv "\<lambda>t u. source_map t \<le> source_map u"
proof unfold_locales
  fix t c t'
  assume t: "prov_inv t" and st: "provenance_step t c = Inr t'"
  have "\<exists>cs. op_claims c = Some cs \<and> prov_inv t' \<and> source_map t' = (\<lambda>k. source_map t k \<union> claimed (set cs) k)"
    using step_claims [OF t, of c] st by (auto split: option.splits)
  then show "prov_inv t'" "source_map t \<le> source_map t'" by (auto simp: le_fun_def)
qed auto

lemma prov_run:
  "prov_inv t \<Longrightarrow> source_map (run provenance_step t ops)
     = (\<lambda>k. source_map t k \<union> claimed (\<Union>op \<in> set ops. \<Union> (set ` set_option (op_claims op))) k)"
proof (induction ops arbitrary: t)
  case (Cons c ops)
  have "prov_inv (step_or_stay provenance_step t c)
      \<and> source_map (step_or_stay provenance_step t c) = (\<lambda>k. source_map t k \<union> claimed (\<Union> (set ` set_option (op_claims c))) k)"
    using step_claims [OF Cons.prems, of c] Cons.prems
    by (auto simp: step_or_stay_def accepts_def split: option.splits sum.splits)
  then show ?case using Cons.IH [of "step_or_stay provenance_step t c"] by (simp add: Un_assoc)
qed simp

lemma prov_empty: "prov_inv []" "source_map [] = (\<lambda>k. {})"
  by (simp_all add: prov_inv_def source_map_def fun_eq_iff)

lemma sort_mset: "mset xs = mset ys \<Longrightarrow> sort xs = sort ys"
  by (metis sorted_list_of_multiset_mset)

lemma prov_serialize_map:
  assumes "prov_inv t" "prov_inv u" "source_map t = source_map u"
  shows "provenance_serialize t = provenance_serialize u"
proof -
  let ?row = "\<lambda>m k. [fst k] # [repr_tuple [quoted (fst k), repr_identity (snd k)]] # map source_key (sources_of (m k))"
  have row: "map provenance_row x = map (?row (source_map x)) (map fst x)" if x: "prov_inv x" for x
  proof -
    have "provenance_row (k, r) = ?row (source_map x) k" if "(k, r) \<in> set x" for k r
    proof -
      have "map_of x k = Some r" using x that by (simp add: prov_inv_def)
      moreover have "prov_record_ok k r" using x that by (auto simp: prov_inv_def)
      ultimately show ?thesis by (cases k) (simp add: provenance_row_def prov_record_ok_def source_map_def)
    qed
    then show ?thesis by auto
  qed
  have keys: "set (map fst x) = {k. source_map x k \<noteq> {}}" if x: "prov_inv x" for x
  proof -
    have "source_map x k \<noteq> {} \<longleftrightarrow> k \<in> fst ` set x" for k
    proof (cases "map_of x k")
      case None
      then have "k \<notin> fst ` set x" by (simp add: map_of_eq_None_iff)
      then show ?thesis using None by (simp add: source_map_def)
    next
      case (Some r)
      then have "(k, r) \<in> set x" by (rule map_of_SomeD)
      moreover from this have "pv_sources r \<noteq> []" using x by (auto simp: prov_inv_def prov_record_ok_def)
      ultimately show ?thesis using Some by (force simp: source_map_def)
    qed
    then show ?thesis by auto
  qed
  have "set (map fst t) = set (map fst u)" unfolding keys [OF assms(1)] keys [OF assms(2)] assms(3) ..
  then have "mset (map fst t) = mset (map fst u)"
    by (rule set_eq_iff_mset_eq_distinct [THEN iffD1, rotated 2]) (use assms in \<open>simp_all add: prov_inv_def\<close>)
  then have "mset (map f (map fst t)) = mset (map f (map fst u))" for f :: "_ \<Rightarrow> string list list" by (metis mset_map)
  then have "sort (map (?row (source_map u)) (map fst t)) = sort (map (?row (source_map u)) (map fst u))" by (rule sort_mset)
  moreover have "map provenance_row t = map (?row (source_map u)) (map fst t)" using row [OF assms(1)] unfolding assms(3) .
  ultimately show ?thesis unfolding provenance_serialize_def row [OF assms(2)] by (simp only:)
qed

subsection \<open>One target, one text\<close>

text \<open>A snapshot that the node module accepts is canonical, so its key determines it.\<close>

lemma snapshot_key_entry:
  assumes "snapshot_key v x = Some key"
  obtains r where "entry_ok key r" "v = PStr (nr_variant r)" "x = PStr (nr_snapshot r)"
proof -
  obtain r where ex: "exact_record v x = Inr r" "PStr (nr_snapshot r) = x" "record_identity (PDict 0 (node_dict r)) = Inr key"
    using assms by (auto simp: snapshot_key_def split: sum.splits if_splits)
  from exact_record_parts [OF ex(1)] have v: "v = PStr (nr_variant r)" by metis
  have "entry_ok key r" by (rule derived_entry) (use ex v in simp_all)
  then show thesis using that v ex(2) by blast
qed

lemma snapshot_key_inj: "snapshot_key v x = Some key \<Longrightarrow> snapshot_key v' x' = Some key \<Longrightarrow> v = v' \<and> x = x'"
  by (metis snapshot_key_entry entry_determined)

theorem node_target_determined:
  assumes "node_target_identity (PDict n d) = Inr i" "node_target_identity (PDict n' d') = Inr i"
  shows "fld d ''variant'' = fld d' ''variant'' \<and> fld d ''snapshot_fen'' = fld d' ''snapshot_fen''"
proof -
  have "\<exists>v key. i = Node_target v key \<and> snapshot_key (fld e ''variant'') (fld e ''snapshot_fen'') = Some key"
    if "node_target_identity (PDict m e) = Inr i" for m e
    using that by (auto simp: node_target_identity_def split: option.splits)
  from this [OF assms(1)] this [OF assms(2)] obtain v key where
    "snapshot_key (fld d ''variant'') (fld d ''snapshot_fen'') = Some key"
    "snapshot_key (fld d' ''variant'') (fld d' ''snapshot_fen'') = Some key" by auto
  then show ?thesis by (rule snapshot_key_inj)
qed

text \<open>The move texts of provenance are those of the edge table.\<close>

lemma move_text_agrees: "move_text_valid = move_ok"
  by (auto simp: fun_eq_iff move_text_valid_def move_ok_def split: pyval.split)

text \<open>The text of an instant is a timestamp.\<close>

lemma instant_timestamp:
  assumes "date_ok y m d" "h < 24" "mi < 60" "sec < 60"
  shows "utc_timestamp (instant_text y m d h mi sec)"
proof -
  have m: "m \<le> 12" "d \<le> 31" "y \<le> 9999"
    using assms(1) by (auto simp: date_ok_def days_in_month_def split: if_splits)
  have two: "\<exists>a b. padded 2 n = [a, b] \<and> is_digit a \<and> is_digit b" if "n < 100" for n
  proof -
    have "length (padded 2 n) = 2" using that by (intro padded_length) simp_all
    then show ?thesis using padded_digits [of 2 n] by (auto simp: length_Suc_conv eval_nat_numeral)
  qed
  have "length (padded 4 y) = 4" using m(3) by (intro padded_length) simp_all
  then obtain a b c e where y: "padded 4 y = [a, b, c, e]" "is_digit a" "is_digit b" "is_digit c" "is_digit e"
    using padded_digits [of 4 y] by (auto simp: length_Suc_conv eval_nat_numeral)
  obtain m1 m2 d1 d2 h1 h2 i1 i2 s1 s2 where p: "padded 2 m = [m1, m2]" "padded 2 d = [d1, d2]" "padded 2 h = [h1, h2]"
    "padded 2 mi = [i1, i2]" "padded 2 sec = [s1, s2]" "list_all is_digit [m1, m2, d1, d2, h1, h2, i1, i2, s1, s2]"
    using two [of m] two [of d] two [of h] two [of mi] two [of sec] m assms(2-4) by auto
  have u: "undec [a, b, c, e] = y" "undec [m1, m2] = m" "undec [d1, d2] = d" "undec [h1, h2] = h" "undec [i1, i2] = mi" "undec [s1, s2] = sec"
    unfolding y(1) [symmetric] p(1-5) [symmetric] by simp_all
  show ?thesis unfolding utc_timestamp_def instant_text_def y(1) p(1-5)
    using y(2-5) p(6) assms u by (simp add: SEPARATORS_def slice_def upt_rec eval_nat_numeral)
qed

subsection \<open>Properties\<close>

text \<open>C23. Complete and additive attribution: after any run of insertions and merges, the sources of a target
  are exactly the union of the sources that the accepted requests claimed for it; whether a request is
  accepted does not depend on the table, so two runs of the same set of requests, in any order and with any
  repetitions, serialize the same.\<close>

theorem provenance_union:
  "source_map (run provenance_step [] ops) k = \<Union> {S. \<exists>op \<in> set ops. \<exists>cs. op_claims op = Some cs \<and> (k, S) \<in> set cs}
   \<and> (\<forall>c. accepts (provenance_step (run provenance_step [] ops) c) \<longleftrightarrow> op_claims c \<noteq> None)
   \<and> (\<forall>ops'. set ops' = set ops \<longrightarrow>
        provenance_serialize (run provenance_step [] ops') = provenance_serialize (run provenance_step [] ops))"
proof (intro conjI allI impI)
  show "source_map (run provenance_step [] ops) k = \<Union> {S. \<exists>op \<in> set ops. \<exists>cs. op_claims op = Some cs \<and> (k, S) \<in> set cs}"
    unfolding prov_run [OF prov_empty(1)] by (auto simp: prov_empty(2) claimed_def)
next
  fix c
  show "accepts (provenance_step (run provenance_step [] ops) c) \<longleftrightarrow> op_claims c \<noteq> None"
    using step_claims [OF pv.run_inv [OF prov_empty(1)], of ops c] by (auto simp: accepts_iff split: option.splits)
next
  fix ops'
  assume "set ops' = set ops"
  then have "source_map (run provenance_step [] ops') = source_map (run provenance_step [] ops)"
    unfolding prov_run [OF prov_empty(1)] by simp
  then show "provenance_serialize (run provenance_step [] ops') = provenance_serialize (run provenance_step [] ops)"
    by (intro prov_serialize_map pv.run_inv [OF prov_empty(1)])
qed

definition sample_source :: "string \<Rightarrow> pyval" where
  "sample_source game = source_value \<lparr>se_source = ''pgn-file'', se_game = game, se_observed = ''2024-02-29T12:00:00Z''\<rparr>"

definition sample_claim :: "string list \<Rightarrow> pyval list \<Rightarrow> pyval" where
  "sample_claim path sources = PDict 7 [(PStr ''target_kind'', PStr ''opening_context''),
     (PStr ''target'', PDict 8 [(PStr ''variant'', PStr ''standard''), (PStr ''path_moves'', PList 9 (map PStr path))]),
     (PStr ''sources'', PList 10 sources)]"

theorem provenance_union_witness:
  "source_map (run provenance_step [] [Prov_insert (sample_claim [''e2e4''] [sample_source ''g1'', sample_source ''g2'']),
       Prov_merge (Some (PList 11 [sample_claim [''e2e4''] [sample_source ''g1''], sample_claim [''d2d4''] []])),
       Prov_insert (sample_claim [''e2e4''] [sample_source ''g3''])]) (''opening_context'', Context_target ''standard'' [''e2e4''])
     = {\<lparr>se_source = ''pgn-file'', se_game = g, se_observed = ''2024-02-29T12:00:00Z''\<rparr> | g. g \<in> {''g1'', ''g2'', ''g3''}}"
proof -
  let ?ops = "[Prov_insert (sample_claim [''e2e4''] [sample_source ''g1'', sample_source ''g2'']),
       Prov_merge (Some (PList 11 [sample_claim [''e2e4''] [sample_source ''g1''], sample_claim [''d2d4''] []])),
       Prov_insert (sample_claim [''e2e4''] [sample_source ''g3''])]"
  let ?e = "\<lambda>g. \<lparr>se_source = ''pgn-file'', se_game = g, se_observed = ''2024-02-29T12:00:00Z''\<rparr>"
  let ?k = "(''opening_context'', Context_target ''standard'' [''e2e4''])"
  have "map op_claims ?ops = [Some [(?k, {?e ''g1'', ?e ''g2''})], None, Some [(?k, {?e ''g3''})]]" by code_simp
  then show ?thesis unfolding provenance_union [THEN conjunct1, of ?ops] by auto
qed

text \<open>The accepted timestamps are the texts of the instants of the calendar, without leap seconds: four
  digits of a year from 1, a day that its month has in that year, an hour below 24.\<close>

theorem timestamp_instants:
  "valid_timestamp v \<longleftrightarrow> (\<exists>y m d h mi sec. v = PStr (instant_text y m d h mi sec) \<and> date_ok y m d \<and> h < 24 \<and> mi < 60 \<and> sec < 60)"
proof
  assume "valid_timestamp v"
  then obtain s where v: "v = PStr s" and s: "utc_timestamp s" by (auto simp: valid_timestamp_def matches_iff)
  have len: "length s = 20" using s by (simp add: utc_timestamp_def)
  then obtain a b c d e f g h i j k l m n p q r t u w where sp: "s = [a, b, c, d, e, f, g, h, i, j, k, l, m, n, p, q, r, t, u, w]"
    by (auto simp: length_Suc_conv eval_nat_numeral)
  have sep: "e = CHR ''-''" "h = CHR ''-''" "k = CHR ''T''" "n = CHR '':''" "r = CHR '':''" "w = CHR ''Z''"
    using s unfolding utc_timestamp_def sp by (simp_all add: SEPARATORS_def eval_nat_numeral)
  have dig: "list_all is_digit [a, b, c, d]" "list_all is_digit [f, g]" "list_all is_digit [i, j]" "list_all is_digit [l, m]"
    "list_all is_digit [p, q]" "list_all is_digit [t, u]"
    using s unfolding utc_timestamp_def sp by (simp_all add: SEPARATORS_def upt_rec eval_nat_numeral)
  have sl: "slice 0 4 s = [a, b, c, d]" "slice 5 7 s = [f, g]" "slice 8 10 s = [i, j]" "slice 11 13 s = [l, m]"
    "slice 14 16 s = [p, q]" "slice 17 19 s = [t, u]"
    by (simp_all add: sp slice_def eval_nat_numeral)
  have pad: "padded 4 (undec [a, b, c, d]) = [a, b, c, d]" "padded 2 (undec [f, g]) = [f, g]" "padded 2 (undec [i, j]) = [i, j]"
    "padded 2 (undec [l, m]) = [l, m]" "padded 2 (undec [p, q]) = [p, q]" "padded 2 (undec [t, u]) = [t, u]"
    using dig [THEN padded_undec] by (simp_all add: eval_nat_numeral)
  have "s = instant_text (undec [a, b, c, d]) (undec [f, g]) (undec [i, j]) (undec [l, m]) (undec [p, q]) (undec [t, u])"
    by (simp add: instant_text_def pad sp sep)
  then show "\<exists>y m d h mi sec. v = PStr (instant_text y m d h mi sec) \<and> date_ok y m d \<and> h < 24 \<and> mi < 60 \<and> sec < 60"
    using s unfolding utc_timestamp_def sl v by blast
qed (auto simp: valid_timestamp_def instant_timestamp)

end
