(* ===== verification/VersionStoreProps.thy ===== *)
theory VersionStoreProps
  imports VersionStore "HOL-Library.Multiset"
begin

text \<open>
  Correctness of the version store: it is a rooted acyclic graph whose timestamps do not decrease along
  its edges as texts (as instants only if they are written in ASCII), every merge returns, and a merge is
  the union of two stores that agree.
\<close>

subsection \<open>Records\<close>

definition version_ok :: "int list \<Rightarrow> version_record \<Rightarrow> bool" where
  "version_ok zeros r \<longleftrightarrow> validate_version zeros (version_value r) = Inr r"

lemma version_fields:
  "set (map fst [(PStr ''version_id'', v1), (PStr ''parent_ids'', v2), (PStr ''graph_digest'', v3), (PStr ''created_at'', v4),
     (PStr ''label'', v5)]) = set (map PStr VERSION_FIELDS)"
  by (auto simp: VERSION_FIELDS_def)

lemma version_parents_text [simp]:
  "version_parents (PList n (map PStr ps)) = require (list_all (tag_grammar ''gv1'') ps) Malformed_version_record (Inr (sort (remdups ps)))"
  by (simp add: version_parents_def list_all_iff comp_def)

lemma version_parents_Inr:
  assumes "version_parents v = Inr ps"
  shows "list_all (tag_grammar ''gv1'') ps \<and> sort (remdups ps) = ps"
proof -
  obtain n vs where v: "v = PList n vs" "list_all (matches (tag_grammar ''gv1'')) vs" "ps = sort (remdups (map key_bytes vs))"
    using assms by (cases v) (auto simp: version_parents_def)
  have "list_all (tag_grammar ''gv1'') (map key_bytes vs)"
    using v(2) by (induction vs) (auto simp: matches_iff)
  then show ?thesis unfolding v(3) by (simp add: list_all_iff distinct_remdups_id sort_key_id_if_sorted)
qed

text \<open>The parents of a validated record are strictly sorted; validation of such a record is exact.\<close>

definition version_shape :: "int list \<Rightarrow> version_record \<Rightarrow> bool" where
  "version_shape zeros r \<longleftrightarrow> list_all (tag_grammar ''gv1'') (vr_parents r) \<and> sort (remdups (vr_parents r)) = vr_parents r
     \<and> tag_grammar ''gdv1'' (vr_digest r) \<and> version_timestamp zeros (vr_created r) \<and> version_label (vr_label r)
     \<and> vr_id r = tagged ''gv1'' (version_body (vr_parents r) (vr_digest r))"

lemma validate_shape:
  assumes "validate_version zeros rec = Inr r"
  shows "version_shape zeros r"
proof -
  obtain n d where rec: "rec = PDict n d" using assms by (cases rec) (auto simp: validate_version_def)
  then obtain ps where ps: "version_parents (fld d ''parent_ids'') = Inr ps" "vr_parents r = ps"
    using assms by (auto simp: validate_version_def)
  show ?thesis using assms version_parents_Inr [OF ps(1)] unfolding rec validate_version_def version_shape_def
    by (auto simp: version_id_def matches_iff ps)
qed

lemma validate_value_eq:
  "validate_version zeros (version_value r) = (let q = r\<lparr>vr_parents := sort (remdups (vr_parents r))\<rparr> in
     require (list_all (tag_grammar ''gv1'') (vr_parents r)) Malformed_version_record
     (require (tag_grammar ''gv1'' (vr_id r)) Malformed_version_record
     (require (tag_grammar ''gdv1'' (vr_digest r)) Malformed_version_record
     (require (version_timestamp zeros (vr_created r) \<and> version_label (vr_label r)) Malformed_version_record
     (require (vr_id r = tagged ''gv1'' (version_body (vr_parents q) (vr_digest r))) Malformed_version_record (Inr q))))))"
proof -
  have "validate_version zeros (version_value r) = and_then (version_parents (PList 1 (map PStr (vr_parents r)))) (\<lambda>parents.
     require (tag_grammar ''gv1'' (vr_id r)) Malformed_version_record
     (require (tag_grammar ''gdv1'' (vr_digest r)) Malformed_version_record
     (require (version_timestamp zeros (vr_created r) \<and> version_label (vr_label r)) Malformed_version_record
     (and_then (version_id (PList 1 (map PStr (vr_parents r))) (PStr (vr_digest r))) (\<lambda>vid.
        require (vr_id r = vid) Malformed_version_record
          (Inr (r\<lparr>vr_id := vid, vr_parents := parents\<rparr>)))))))"
    unfolding validate_version_def version_value_def pyval.case version_fields by (cases r) (simp add: fld_simps)
  then show ?thesis by (cases r) (simp add: version_id_def Let_def require_def)
qed

lemma validate_version_value:
  "validate_version zeros (version_value r) = Inr q \<longleftrightarrow>
     version_shape zeros q \<and> q = r\<lparr>vr_parents := sort (remdups (vr_parents r))\<rparr>"
proof -
  have "sort (remdups (sort (remdups ps))) = sort (remdups ps)" for ps :: "string list"
    by (simp add: distinct_remdups_id sort_key_id_if_sorted)
  moreover have "list_all (tag_grammar ''gv1'') (sort (remdups ps)) = list_all (tag_grammar ''gv1'') ps" for ps
    by (simp add: list_all_iff)
  ultimately show ?thesis unfolding validate_value_eq version_shape_def Let_def by auto
qed

lemma version_ok_iff: "version_ok zeros r \<longleftrightarrow> version_shape zeros r"
proof
  assume "version_ok zeros r"
  then show "version_shape zeros r" unfolding version_ok_def by (rule validate_shape)
next
  assume s: "version_shape zeros r"
  then have "r = r\<lparr>vr_parents := sort (remdups (vr_parents r))\<rparr>" by (simp add: version_shape_def)
  then show "version_ok zeros r" using s unfolding version_ok_def validate_version_value by blast
qed

subsection \<open>The invariant\<close>

text \<open>Records in the order of their insertion: every parent comes earlier and is not younger, the ids are
  the keys, and a record without parents is the one root.\<close>

fun lineage :: "(string \<times> version_record) list \<Rightarrow> bool" where
  "lineage [] \<longleftrightarrow> True"
| "lineage ((k, r) # older) \<longleftrightarrow> lineage older \<and> k \<notin> fst ` set older
     \<and> (\<forall>p \<in> set (vr_parents r). \<exists>q. map_of older p = Some q \<and> vr_created q \<le> vr_created r)"

definition store_ok :: "int list \<Rightarrow> version_store \<Rightarrow> bool" where
  "store_ok zeros s \<longleftrightarrow> lineage (rev (vs_records s)) \<and> (\<forall>(k, r) \<in> set (vs_records s). k = vr_id r \<and> version_shape zeros r)
     \<and> (\<forall>k. vs_root s = Some k \<longleftrightarrow> (\<exists>r. (k, r) \<in> set (vs_records s) \<and> vr_parents r = []))"

lemma lineage_distinct: "lineage xs \<Longrightarrow> distinct (map fst xs)"
  by (induction xs rule: lineage.induct) auto

lemma store_distinct: "store_ok zeros s \<Longrightarrow> distinct (map fst (vs_records s))"
  using lineage_distinct [of "rev (vs_records s)"] by (simp add: store_ok_def rev_map [symmetric])

lemma lineage_parents:
  "lineage xs \<Longrightarrow> (k, r) \<in> set xs \<Longrightarrow> p \<in> set (vr_parents r) \<Longrightarrow> \<exists>q. map_of xs p = Some q \<and> vr_created q \<le> vr_created r"
proof (induction xs rule: lineage.induct)
  case (2 j s older)
  show ?case
  proof (cases "(k, r) = (j, s)")
    case True
    then obtain q where q: "map_of older p = Some q" "vr_created q \<le> vr_created r" using 2 by auto
    then have "p \<noteq> j" using "2.prems"(1) map_of_SomeD by force
    then show ?thesis using q by auto
  next
    case False
    then obtain q where q: "map_of older p = Some q" "vr_created q \<le> vr_created r" using 2 by auto
    then have "p \<noteq> j" using "2.prems"(1) map_of_SomeD by force
    then show ?thesis using q by auto
  qed
qed simp

lemma map_of_rev_distinct: "distinct (map fst xs) \<Longrightarrow> map_of (rev xs) = map_of xs"
  by (rule map_of_inject_set [THEN iffD2]) (simp_all add: rev_map [symmetric])

lemma store_parents:
  assumes "store_ok zeros s" "(k, r) \<in> set (vs_records s)" "p \<in> set (vr_parents r)"
  shows "\<exists>q. map_of (vs_records s) p = Some q \<and> vr_created q \<le> vr_created r"
  using lineage_parents [of "rev (vs_records s)" k r p] map_of_rev_distinct [OF store_distinct [OF assms(1)]] assms
  by (simp add: store_ok_def)

lemma check_parents_Inr:
  "check_parents s created ps = Inr u \<longleftrightarrow> (\<forall>p \<in> set ps. \<exists>q. map_of (vs_records s) p = Some q \<and> vr_created q \<le> created)"
  by (induction ps) (auto simp: not_less split: option.splits)

text \<open>What an accepted insertion of a record does.\<close>

definition insertable :: "version_store \<Rightarrow> version_record \<Rightarrow> bool" where
  "insertable s r \<longleftrightarrow> (case map_of (vs_records s) (vr_id r) of Some stored \<Rightarrow> stored = r
     | None \<Rightarrow> (if vr_parents r = [] then vs_root s = None
         else \<forall>p \<in> set (vr_parents r). \<exists>q. map_of (vs_records s) p = Some q \<and> vr_created q \<le> vr_created r))"

definition with_record :: "version_store \<Rightarrow> version_record \<Rightarrow> version_store" where
  "with_record s r = (if vr_id r \<in> fst ` set (vs_records s) then s
     else \<lparr>vs_records = vs_records s @ [(vr_id r, r)], vs_root = (if vr_parents r = [] then Some (vr_id r) else vs_root s)\<rparr>)"

lemma version_insert_Inr:
  "version_insert zeros s rec = Inr (s', q) \<longleftrightarrow>
     (\<exists>r. validate_version zeros rec = Inr r \<and> insertable s r \<and> s' = with_record s r \<and> q = r)"
proof (cases "validate_version zeros rec")
  case (Inl e)
  then show ?thesis by (simp add: version_insert_def)
next
  case (Inr r)
  show ?thesis
  proof (cases "map_of (vs_records s) (vr_id r)")
    case None
    then have "vr_id r \<notin> fst ` set (vs_records s)" by (simp add: map_of_eq_None_iff)
    then have "with_record s r = s\<lparr>vs_records := dict_set (vs_records s) (vr_id r) r,
        vs_root := (if vr_parents r = [] then Some (vr_id r) else vs_root s)\<rparr>"
      by (simp add: with_record_def dict_set_new)
    moreover have "version_insert zeros s rec = Inr (s', q) \<longleftrightarrow> insertable s r \<and> q = r \<and> s' = s\<lparr>vs_records := dict_set (vs_records s) (vr_id r) r,
        vs_root := (if vr_parents r = [] then Some (vr_id r) else vs_root s)\<rparr>"
      using Inr None by (auto simp: version_insert_def insertable_def check_parents_Inr)
    ultimately show ?thesis using Inr by auto
  next
    case (Some stored)
    then have "vr_id r \<in> fst ` set (vs_records s)" by (metis map_of_SomeD fst_conv image_eqI)
    then show ?thesis using Inr Some by (auto simp: version_insert_def insertable_def with_record_def)
  qed
qed

lemma with_record_ok:
  assumes s: "store_ok zeros s" and r: "version_shape zeros r" "insertable s r"
  shows "store_ok zeros (with_record s r)"
proof (cases "vr_id r \<in> fst ` set (vs_records s)")
  case True
  then show ?thesis using s by (simp add: with_record_def)
next
  case False
  then have none: "map_of (vs_records s) (vr_id r) = None" by (simp add: map_of_eq_None_iff)
  have "lineage (rev (vs_records s @ [(vr_id r, r)]))"
    using s r(2) False none map_of_rev_distinct [OF store_distinct [OF s]]
    by (auto simp: store_ok_def insertable_def split: if_splits)
  moreover have "vs_root s = None" if "vr_parents r = []" using r(2) none that by (simp add: insertable_def)
  ultimately show ?thesis using s r(1) False unfolding store_ok_def with_record_def
    by (auto split: if_splits)
qed

lemma set_with_record:
  assumes "insertable s r"
  shows "set (vs_records (with_record s r)) = insert (vr_id r, r) (set (vs_records s))"
proof (cases "map_of (vs_records s) (vr_id r)")
  case None
  then have "vr_id r \<notin> fst ` set (vs_records s)" by (simp add: map_of_eq_None_iff)
  then show ?thesis by (simp add: with_record_def)
next
  case (Some stored)
  then have "(vr_id r, r) \<in> set (vs_records s)" using assms map_of_SomeD by (fastforce simp: insertable_def)
  then show ?thesis by (force simp: with_record_def)
qed

subsection \<open>The merge\<close>

definition sorted_parents :: "version_record \<Rightarrow> version_record" where
  "sorted_parents r = r\<lparr>vr_parents := sort (remdups (vr_parents r))\<rparr>"

definition entry_of :: "version_record \<Rightarrow> string \<times> version_record" where
  "entry_of r = (vr_id r, sorted_parents r)"

lemma entry_of_shape [simp]: "version_shape zeros r \<Longrightarrow> entry_of r = (vr_id r, r)"
  by (simp add: entry_of_def sorted_parents_def version_shape_def)

lemma version_insert_spec:
  assumes "store_ok zeros s" "version_insert zeros s (version_value r) = Inr (s', q)"
  shows "store_ok zeros s' \<and> set (vs_records s') = insert (entry_of r) (set (vs_records s))"
proof -
  have q: "validate_version zeros (version_value r) = Inr q" "insertable s q" "s' = with_record s q"
    using assms(2) unfolding version_insert_Inr by blast+
  then have "version_shape zeros q" "q = sorted_parents r" unfolding validate_version_value sorted_parents_def by blast+
  then show ?thesis using with_record_ok [OF assms(1) _ q(2)] set_with_record [OF q(2)] q(3)
    by (simp add: entry_of_def sorted_parents_def)
qed

lemma round_spec:
  "store_ok zeros s \<Longrightarrow> merge_round zeros s pending ready = Inr (s', pending') \<Longrightarrow>
     store_ok zeros s' \<and> set (vs_records s') = entry_of ` set ready \<union> set (vs_records s)
     \<and> set pending' \<subseteq> set pending \<and> set pending \<subseteq> set pending' \<union> set ready \<and> length pending' \<le> length pending
     \<and> (ready \<noteq> [] \<and> set ready \<subseteq> set pending \<longrightarrow> length pending' < length pending)"
proof (induction ready arbitrary: s pending)
  case (Cons r ready)
  obtain s1 q where i: "version_insert zeros s (version_value r) = Inr (s1, q)"
    and m: "merge_round zeros s1 (remove1 r pending) ready = Inr (s', pending')" using Cons.prems(2) by auto
  note one = version_insert_spec [OF Cons.prems(1) i]
  note IH = Cons.IH [OF one [THEN conjunct1] m]
  have "set (remove1 r pending) \<subseteq> set pending" by (rule set_remove1_subset)
  moreover have "set pending \<subseteq> insert r (set (remove1 r pending))" by (induction pending) auto
  moreover have "length (remove1 r pending) \<le> length pending" by (simp add: length_remove1)
  moreover have "r \<in> set pending \<longrightarrow> length (remove1 r pending) < length pending" by (auto simp: length_remove1 dest: length_pos_if_in_set)
  ultimately show ?case using IH one by auto
qed simp

text \<open>If no pending record is ready, the insertion of the first one is refused, so no round is idle.\<close>

lemma stuck_refused:
  assumes s: "store_ok zeros s" and "pending \<noteq> []" "ready_records s pending = []"
  shows "\<not> accepts (version_insert zeros s (version_value (hd pending)))"
proof
  let ?r = "hd pending"
  assume "accepts (version_insert zeros s (version_value ?r))"
  then obtain q where q: "validate_version zeros (version_value ?r) = Inr q" "insertable s q"
    by (auto simp: accepts_iff version_insert_Inr)
  have same: "set (vr_parents q) = set (vr_parents ?r)" using q(1) unfolding validate_version_value by (simp add: set_eq_iff)
  have "?r \<notin> set (ready_records s pending)" using assms(3) by simp
  then obtain p where p: "p \<in> set (vr_parents q)" "p \<notin> fst ` set (vs_records s)"
    using assms(2) same by (auto simp: ready_records_def)
  have "\<exists>x. map_of (vs_records s) p = Some x"
  proof (cases "map_of (vs_records s) (vr_id q)")
    case None
    then show ?thesis using q(2) p(1) by (auto simp: insertable_def split: if_splits)
  next
    case (Some stored)
    then have "(vr_id q, q) \<in> set (vs_records s)" using q(2) map_of_SomeD by (fastforce simp: insertable_def)
    from store_parents [OF s this p(1)] show ?thesis by blast
  qed
  then show False using p(2) map_of_SomeD by force
qed

lemma merge_loop_unfold:
  assumes s: "store_ok zeros s"
  shows "merge_loop zeros s pending = (if pending = [] then Some (Inr s)
     else if ready_records s pending = [] then (case version_insert zeros s (version_value (hd pending)) of Inl e \<Rightarrow> Some (Inl e) | Inr _ \<Rightarrow> None)
     else (case merge_round zeros s pending (ready_records s pending) of Inl e \<Rightarrow> Some (Inl e)
       | Inr (s', pending') \<Rightarrow> merge_loop zeros s' pending'))"
  using stuck_refused [OF s, of pending] by (subst merge_loop.simps) (auto simp: Let_def accepts_def split: sum.splits)

text \<open>Every merge into a well-formed store returns, whatever the source; if it is accepted the result is
  well-formed and its records are the union.\<close>

lemma merge_loop_returns:
  "store_ok zeros s \<Longrightarrow> \<exists>res. merge_loop zeros s pending = Some res \<and> (\<forall>t. res = Inr t \<longrightarrow>
     store_ok zeros t \<and> set (vs_records t) = set (vs_records s) \<union> entry_of ` set pending)"
proof (induction "length pending" arbitrary: s pending rule: less_induct)
  case less
  consider (empty) "pending = []" | (stuck) "pending \<noteq> []" "ready_records s pending = []" | (going) "ready_records s pending \<noteq> []" "pending \<noteq> []"
    by (cases pending) auto
  then show ?case
  proof cases
    case empty
    then show ?thesis using less.prems by (simp add: merge_loop_unfold)
  next
    case stuck
    then obtain e where "version_insert zeros s (version_value (hd pending)) = Inl e"
      using stuck_refused [OF less.prems stuck] by (cases "version_insert zeros s (version_value (hd pending))") auto
    then show ?thesis using stuck by (simp add: merge_loop_unfold [OF less.prems])
  next
    case going
    show ?thesis
    proof (cases "merge_round zeros s pending (ready_records s pending)")
      case (Inl e)
      then show ?thesis using going by (simp add: merge_loop_unfold [OF less.prems])
    next
      case (Inr res)
      obtain s' pending' where r: "merge_round zeros s pending (ready_records s pending) = Inr (s', pending')" using Inr by (cases res) simp
      have sub: "set (ready_records s pending) \<subseteq> set pending" by (auto simp: ready_records_def)
      note spec = round_spec [OF less.prems r]
      have "length pending' < length pending" using spec sub going(1) by blast
      from less.hyps [OF this spec [THEN conjunct1]] obtain res' where res': "merge_loop zeros s' pending' = Some res'"
        "\<forall>t. res' = Inr t \<longrightarrow> store_ok zeros t \<and> set (vs_records t) = set (vs_records s') \<union> entry_of ` set pending'" by blast
      moreover have "set (vs_records s') \<union> entry_of ` set pending' = set (vs_records s) \<union> entry_of ` set pending"
        using spec sub by auto
      ultimately show ?thesis using r going by (simp add: merge_loop_unfold [OF less.prems])
    qed
  qed
qed

lemma merge_returns:
  assumes "store_ok zeros s"
  shows "\<exists>res. version_merge zeros s source = Some res \<and> (\<forall>t. res = Inr t \<longrightarrow> store_ok zeros t
     \<and> set (vs_records t) = set (vs_records s) \<union> entry_of ` snd ` set (vs_records source))"
  using merge_loop_returns [OF assms, of "map snd (sort_key fst (vs_records source))"]
  by (auto simp: version_merge_def Let_def)

subsection \<open>Merges of stores that agree\<close>

definition compatible :: "version_store \<Rightarrow> version_store \<Rightarrow> bool" where
  "compatible s u \<longleftrightarrow> (\<forall>k q r. map_of (vs_records s) k = Some q \<longrightarrow> map_of (vs_records u) k = Some r \<longrightarrow> q = r)
     \<and> (vs_root s = None \<or> vs_root u = None \<or> vs_root s = vs_root u)"

lemma store_root: "store_ok zeros s \<Longrightarrow> vs_root s = Some k \<longleftrightarrow> (\<exists>r. (k, r) \<in> set (vs_records s) \<and> vr_parents r = [])"
  by (simp add: store_ok_def)

lemma store_entry: "store_ok zeros s \<Longrightarrow> (k, r) \<in> set (vs_records s) \<longleftrightarrow> map_of (vs_records s) k = Some r"
  by (rule map_of_mem_distinct [OF store_distinct])

text \<open>Among some records of a store one has no parent among them.\<close>

lemma lineage_source:
  "lineage xs \<Longrightarrow> Q \<subseteq> set xs \<Longrightarrow> Q \<noteq> {} \<Longrightarrow> \<exists>(k, r) \<in> Q. \<forall>p \<in> set (vr_parents r). p \<notin> fst ` Q"
proof (induction xs arbitrary: Q rule: lineage.induct)
  case (2 j s older)
  have key: "p \<in> fst ` set older" if "p \<in> set (vr_parents r)" "(k, r) \<in> set ((j, s) # older)" for p k r
  proof -
    have "\<exists>q. map_of older p = Some q" using that "2.prems"(1) lineage_parents [of older k r p] by auto
    then show ?thesis using map_of_SomeD by force
  qed
  have j: "j \<notin> fst ` set older" using "2.prems"(1) by simp
  show ?case
  proof (cases "Q \<inter> set older = {}")
    case True
    then have "Q = {(j, s)}" using "2.prems"(2,3) by auto
    then show ?thesis using key [of _ s j] j by auto
  next
    case False
    then obtain k r where kr: "(k, r) \<in> Q" "(k, r) \<in> set older" "\<forall>p \<in> set (vr_parents r). p \<notin> fst ` (Q \<inter> set older)"
      using "2.IH" [of "Q \<inter> set older"] "2.prems"(1) by auto
    have "p \<notin> fst ` Q" if "p \<in> set (vr_parents r)" for p
    proof -
      have "p \<in> fst ` set older" using key [where k = k, OF that] kr(2) by simp
      then show ?thesis using kr(3) that j "2.prems"(2) by force
    qed
    then show ?thesis using kr(1) by blast
  qed
qed simp

text \<open>A store between two compatible ones takes every record of the second whose parents it has.\<close>

lemma between_insertable:
  assumes s: "store_ok zeros s" and u: "store_ok zeros u" and c: "compatible s u"
    and t: "store_ok zeros t" "set (vs_records t) \<subseteq> set (vs_records s) \<union> set (vs_records u)"
    and r: "(k, r) \<in> set (vs_records u)" "\<forall>p \<in> set (vr_parents r). p \<in> fst ` set (vs_records t)"
  shows "insertable t r"
proof -
  have k: "k = vr_id r" using u r(1) by (auto simp: store_ok_def)
  have agree: "q = q'" if "(p, q) \<in> set (vs_records t)" "(p, q') \<in> set (vs_records u)" for p q q'
    using that t(2) c by (auto simp: compatible_def store_entry [OF s] store_entry [OF u])
  show ?thesis
  proof (cases "map_of (vs_records t) (vr_id r)")
    case (Some stored)
    then show ?thesis using agree r(1) k map_of_SomeD by (fastforce simp: insertable_def)
  next
    case None
    have "vs_root t = None" if "vr_parents r = []"
    proof (rule ccontr)
      assume "vs_root t \<noteq> None"
      then obtain j x where x: "(j, x) \<in> set (vs_records t)" "vr_parents x = []" using t(1) by (auto simp: store_ok_def)
      have "vs_root u = Some k" using u r(1) that by (auto simp: store_ok_def)
      moreover have "vs_root s = Some j \<or> vs_root u = Some j" using x t(2) s u by (auto simp: store_ok_def)
      ultimately have "j = k" using c by (auto simp: compatible_def)
      then show False using None k x(1) by (force simp: map_of_eq_None_iff)
    qed
    moreover have "\<exists>q. map_of (vs_records t) p = Some q \<and> vr_created q \<le> vr_created r" if p: "p \<in> set (vr_parents r)" for p
    proof -
      obtain q where q: "(p, q) \<in> set (vs_records t)" using r(2) p by auto
      obtain q' where "map_of (vs_records u) p = Some q'" "vr_created q' \<le> vr_created r" using store_parents [OF u r(1) p] by blast
      then show ?thesis using agree [OF q] q by (auto simp: store_entry [OF u] store_entry [OF t(1)])
    qed
    ultimately show ?thesis using None by (simp add: insertable_def)
  qed
qed

lemma between_round:
  assumes "store_ok zeros s" "store_ok zeros u" "compatible s u"
  shows "store_ok zeros t \<Longrightarrow> set (vs_records t) \<subseteq> set (vs_records s) \<union> set (vs_records u) \<Longrightarrow> set ready \<subseteq> snd ` set (vs_records u) \<Longrightarrow>
    \<forall>r \<in> set ready. \<forall>p \<in> set (vr_parents r). p \<in> fst ` set (vs_records t) \<Longrightarrow> accepts (merge_round zeros t pending ready)"
proof (induction ready arbitrary: t pending)
  case (Cons r ready)
  obtain k where k: "(k, r) \<in> set (vs_records u)" using Cons.prems(3) by auto
  have shape: "version_shape zeros r" and key: "k = vr_id r" using assms(2) k by (auto simp: store_ok_def)
  have ins: "insertable t r" using between_insertable [OF assms Cons.prems(1,2) k] Cons.prems(4) by simp
  have "validate_version zeros (version_value r) = Inr r" using shape version_ok_iff version_ok_def by blast
  then have i: "version_insert zeros t (version_value r) = Inr (with_record t r, r)" using ins unfolding version_insert_Inr by blast
  note set = set_with_record [OF ins]
  have "accepts (merge_round zeros (with_record t r) (remove1 r pending) ready)"
    using Cons.prems k key set by (intro Cons.IH with_record_ok [OF Cons.prems(1) shape ins]) auto
  then show ?case using i by simp
qed simp

lemma cover_step: "U \<subseteq> T \<union> P \<Longrightarrow> P \<subseteq> Q \<union> E \<Longrightarrow> U \<subseteq> (E \<union> T) \<union> Q"
  by blast

lemma between_loop:
  assumes s: "store_ok zeros s" and u: "store_ok zeros u" and c: "compatible s u"
  shows "store_ok zeros t \<Longrightarrow> set (vs_records t) \<subseteq> set (vs_records s) \<union> set (vs_records u) \<Longrightarrow> set pending \<subseteq> snd ` set (vs_records u) \<Longrightarrow>
    set (vs_records u) \<subseteq> set (vs_records t) \<union> entry_of ` set pending \<Longrightarrow> \<exists>t'. merge_loop zeros t pending = Some (Inr t')"
proof (induction "length pending" arbitrary: t pending rule: less_induct)
  case less
  have shape: "entry_of r \<in> set (vs_records u) \<and> version_shape zeros r" if r: "r \<in> set pending" for r
  proof -
    obtain k where k: "(k, r) \<in> set (vs_records u)" using less.prems(3) r by auto
    then have "version_shape zeros r" "k = vr_id r" using u by (auto simp: store_ok_def)
    then show ?thesis using k by simp
  qed
  show ?case
  proof (cases "pending = []")
    case True
    then show ?thesis using less.prems(1) by (simp add: merge_loop_unfold)
  next
    case False
    let ?Q = "entry_of ` set pending"
    have sub: "?Q \<subseteq> set (rev (vs_records u))" using shape by auto
    have lin: "lineage (rev (vs_records u))" using u by (simp add: store_ok_def)
    have ne: "?Q \<noteq> {}" using False by simp
    note source = lineage_source [OF lin sub ne]
    from source obtain e where e: "e \<in> ?Q" "case e of (k, r) \<Rightarrow> \<forall>p \<in> set (vr_parents r). p \<notin> fst ` ?Q" by (rule bexE)
    obtain k r where kr: "e = (k, r)" by (cases e)
    have r: "(k, r) \<in> ?Q" "\<forall>p \<in> set (vr_parents r). p \<notin> fst ` ?Q" using e unfolding kr by simp_all
    obtain x where x: "x \<in> set pending" "entry_of x = (k, r)" using r(1) by auto
    have ru: "(k, r) \<in> set (vs_records u)" "r \<in> set pending"
      using shape [OF x(1)] x entry_of_shape [of zeros x] by auto
    have "p \<in> fst ` set (vs_records t)" if p: "p \<in> set (vr_parents r)" for p
    proof -
      obtain q where q: "(p, q) \<in> set (vs_records u)" using store_parents [OF u ru(1) p] store_entry [OF u] by metis
      have "p \<notin> fst ` ?Q" using r(2) p by (rule bspec)
      then have "(p, q) \<notin> ?Q" by (metis fst_conv image_eqI)
      then have "(p, q) \<in> set (vs_records t)" using subsetD [OF less.prems(4) q] by blast
      then show ?thesis by (metis fst_conv image_eqI)
    qed
    then have ready: "ready_records t pending \<noteq> []" using ru(2) by (auto simp: ready_records_def filter_empty_conv)
    have sub: "set (ready_records t pending) \<subseteq> set pending" by (auto simp: ready_records_def)
    have "accepts (merge_round zeros t pending (ready_records t pending))"
      by (rule between_round [OF s u c less.prems(1,2)]) (use less.prems(3) in \<open>auto simp: ready_records_def\<close>)
    then obtain t1 pending1 where m: "merge_round zeros t pending (ready_records t pending) = Inr (t1, pending1)" by (auto simp: accepts_iff)
    note spec = round_spec [OF less.prems(1) m]
    let ?E = "entry_of ` set (ready_records t pending)"
    from spec have t1: "store_ok zeros t1" "set (vs_records t1) = ?E \<union> set (vs_records t)" "set pending1 \<subseteq> set pending"
      "set pending \<subseteq> set pending1 \<union> set (ready_records t pending)" "ready_records t pending \<noteq> [] \<and> set (ready_records t pending) \<subseteq> set pending \<longrightarrow> length pending1 < length pending"
      by - (elim conjE, assumption)+
    have less: "length pending1 < length pending" using t1(5) ready sub by (rule mp [OF _ conjI])
    have "entry_of ` set pending \<subseteq> entry_of ` set pending1 \<union> ?E" using image_mono [OF t1(4), of entry_of] by (simp add: image_Un)
    then have all: "set (vs_records u) \<subseteq> set (vs_records t1) \<union> entry_of ` set pending1"
      unfolding t1(2) by (rule cover_step [OF less.prems(4)])
    have "?E \<subseteq> set (vs_records u)" using shape sub by (auto simp del: entry_of_shape)
    then have "set (vs_records t1) \<subseteq> set (vs_records s) \<union> set (vs_records u)"
      unfolding t1(2) by (rule Un_least [OF le_supI2 less.prems(2)])
    then have "\<exists>t'. merge_loop zeros t1 pending1 = Some (Inr t')"
      by (rule less.hyps [OF less t1(1) _ order_trans [OF t1(3) less.prems(3)] all])
    then show ?thesis using m ready False by (simp add: merge_loop_unfold [OF less.prems(1)])
  qed
qed

lemma merge_exact:
  assumes s: "store_ok zeros s" and u: "store_ok zeros u"
  shows "(\<exists>t. version_merge zeros s u = Some (Inr t)) \<longleftrightarrow> compatible s u"
    and "version_merge zeros s u = Some (Inr t) \<Longrightarrow> store_ok zeros t \<and> set (vs_records t) = set (vs_records s) \<union> set (vs_records u)"
proof -
  have shape: "\<forall>x \<in> set (vs_records u). version_shape zeros (snd x) \<and> entry_of (snd x) = x"
    using u by (auto simp: store_ok_def)
  have valid: "list_all (\<lambda>r. accepts (validate_version zeros (version_value r))) (map snd (sort_key fst (vs_records u)))"
    using shape version_ok_iff by (auto simp: list_all_iff version_ok_def accepts_iff)
  have entries: "entry_of ` snd ` set (vs_records u) = set (vs_records u)" using shape by force
  have union: "store_ok zeros t \<and> set (vs_records t) = set (vs_records s) \<union> set (vs_records u)"
    if "version_merge zeros s u = Some (Inr t)" for t
    using merge_returns [OF s, of u] that entries by auto
  show "version_merge zeros s u = Some (Inr t) \<Longrightarrow> store_ok zeros t \<and> set (vs_records t) = set (vs_records s) \<union> set (vs_records u)"
    by (rule union)
  show "(\<exists>t. version_merge zeros s u = Some (Inr t)) \<longleftrightarrow> compatible s u"
  proof
    assume "\<exists>t. version_merge zeros s u = Some (Inr t)"
    then obtain t where t: "store_ok zeros t" "set (vs_records t) = set (vs_records s) \<union> set (vs_records u)" using union by blast
    have "vs_root t = vs_root x" if x: "store_ok zeros x" "set (vs_records x) \<subseteq> set (vs_records t)" "vs_root x \<noteq> None" for x
    proof -
      obtain k where k: "vs_root x = Some k" using x(3) by auto
      then have "vs_root t = Some k" using x(2) unfolding store_root [OF x(1)] store_root [OF t(1)] by blast
      then show ?thesis using k by simp
    qed
    then have "vs_root s = None \<or> vs_root u = None \<or> vs_root s = vs_root u" using s u t(2) by (metis Un_upper1 Un_upper2)
    moreover have "q = r" if "(k, q) \<in> set (vs_records s)" "(k, r) \<in> set (vs_records u)" for k q r
      using that t(2) store_entry [OF t(1), of k q] store_entry [OF t(1), of k r] by simp
    ultimately show "compatible s u" by (auto simp: compatible_def store_entry [OF s] store_entry [OF u])
  next
    assume c: "compatible s u"
    show "\<exists>t. version_merge zeros s u = Some (Inr t)"
      using between_loop [OF s u c s, of "map snd (sort_key fst (vs_records u))"] valid entries
      by (simp add: version_merge_def Let_def)
  qed
qed

subsection \<open>Runs\<close>

lemma version_step_spec:
  assumes "store_ok zeros s" "version_step zeros s c = Inr s'"
  shows "store_ok zeros s' \<and> set (vs_records s) \<subseteq> set (vs_records s')"
proof (cases c)
  case (Version_insert rec)
  then obtain q where i: "version_insert zeros s rec = Inr (s', q)" using assms(2) by auto
  then have v: "validate_version zeros rec = Inr q" "insertable s q" "s' = with_record s q" unfolding version_insert_Inr by auto
  have "store_ok zeros s'" unfolding v(3) by (rule with_record_ok [OF assms(1) validate_shape [OF v(1)] v(2)])
  then show ?thesis using set_with_record [OF v(2)] v(3) by auto
next
  case (Version_merge source)
  then show ?thesis using assms merge_returns [OF assms(1), of source] by auto
qed

interpretation vs: guarded_machine "version_step zeros" "store_ok zeros" "\<lambda>s t. set (vs_records s) \<subseteq> set (vs_records t)" for zeros
  using version_step_spec by unfold_locales (blast, blast, simp, blast)

lemma empty_store_ok: "store_ok zeros empty_versions"
  by (simp add: store_ok_def empty_versions_def)

lemmas reached_store = vs.run_inv [OF empty_store_ok]

lemma lineage_rank:
  "lineage xs \<Longrightarrow> \<exists>rank :: string \<Rightarrow> nat. \<forall>(k, r) \<in> set xs. \<forall>p \<in> set (vr_parents r). rank p < rank k"
proof (induction xs rule: lineage.induct)
  case (2 j s older)
  then obtain rank :: "string \<Rightarrow> nat" where rank: "\<forall>(k, r) \<in> set older. \<forall>p \<in> set (vr_parents r). rank p < rank k" by auto
  let ?top = "Suc (\<Sum>k \<in> fst ` set older. rank k)"
  have stored: "p \<in> fst ` set older" if p: "p \<in> set (vr_parents r)" "(k, r) \<in> set ((j, s) # older)" for k r p
  proof -
    have "\<exists>q. map_of older p = Some q" using p "2.prems" lineage_parents [of older k r p] by auto
    then show ?thesis using map_of_SomeD by force
  qed
  have j: "j \<notin> fst ` set older" using "2.prems" by simp
  have "(rank(j := ?top)) p < (rank(j := ?top)) k" if p: "(k, r) \<in> set ((j, s) # older)" "p \<in> set (vr_parents r)" for k r p
  proof (cases "k = j")
    case True
    have "rank p \<le> (\<Sum>k \<in> fst ` set older. rank k)" by (rule member_le_sum) (use stored [OF p(2,1)] in simp_all)
    then show ?thesis using True stored [OF p(2,1)] j by auto
  next
    case False
    then have "(k, r) \<in> set older" using p(1) by auto
    then show ?thesis using rank p stored [OF p(2,1)] j False by auto
  qed
  then show ?case by (intro exI [of _ "rank(j := ?top)"]) blast
qed simp

lemma lineage_oldest: "lineage xs \<Longrightarrow> xs \<noteq> [] \<Longrightarrow> \<exists>(k, r) \<in> set xs. vr_parents r = []"
proof (induction xs rule: lineage.induct)
  case (2 j s older)
  then show ?case by (cases older) auto
qed simp

subsection \<open>Timestamps as instants\<close>

text \<open>The six numbers of a timestamp, ordered lexicographically: its instant.\<close>

definition instant :: "int list \<Rightarrow> string \<Rightarrow> int list" where
  "instant zeros s = (let v = code_points s in map (\<lambda>(i, j). digits_value zeros (slice i j v))
     [(0, 4), (5, 7), (8, 10), (11, 13), (14, 16), (17, 19)])"

definition ascii_text :: "string \<Rightarrow> bool" where
  "ascii_text s \<longleftrightarrow> list_all (\<lambda>c. (of_char c :: int) < 0x80) s"

text \<open>The digits of ASCII are one run, that of \<open>0\<close>.\<close>

definition ascii_digits :: "int list \<Rightarrow> bool" where
  "ascii_digits zeros \<longleftrightarrow> filter (\<lambda>z. z < 0x80) zeros = [0x30]"

lemma ascii_code_points: "ascii_text s \<Longrightarrow> code_points s = map of_char s"
  by (induction s) (simp_all add: ascii_text_def Let_def)

lemma ascii_digit_at:
  assumes "ascii_digits zeros" "cp < 0x80"
  shows "digit_at zeros cp = (if 0x30 \<le> cp \<and> cp < 0x3A then Some (cp - 0x30) else None)"
proof -
  have "find (\<lambda>z. z \<le> cp \<and> cp < z + 10) zs = find (\<lambda>z. z \<le> cp \<and> cp < z + 10) (filter (\<lambda>z. z < 0x80) zs)" for zs
    by (induction zs) (use assms(2) in auto)
  from this [of zeros] show ?thesis using assms(1) by (simp add: digit_at_def ascii_digits_def)
qed

abbreviation read_digits :: "int \<Rightarrow> string \<Rightarrow> int" where
  "read_digits n s \<equiv> foldl (\<lambda>n c. 10 * n + (of_char c - 0x30)) n s"

abbreviation ascii_digit :: "char \<Rightarrow> bool" where
  "ascii_digit c \<equiv> (0x30 :: int) \<le> of_char c \<and> of_char c < (0x3A :: int)"

lemma ascii_digits_value:
  assumes z: "ascii_digits zeros" and s: "list_all ascii_digit s"
  shows "digits_value zeros (map of_char s) = read_digits 0 s"
proof -
  have "foldl (\<lambda>n cp. 10 * n + (case digit_at zeros cp of Some d \<Rightarrow> d | None \<Rightarrow> 0)) n (map of_char s) = read_digits n s" for n
    using s by (induction s arbitrary: n) (simp_all add: ascii_digit_at [OF z])
  then show ?thesis by (simp add: digits_value_def)
qed

lemma char_less_int: "c < d \<longleftrightarrow> (of_char c :: int) < of_char d"
proof -
  have "(of_char c :: int) = int (of_char c)" for c :: char by (simp add: of_nat_of_char)
  then show ?thesis by (simp add: less_char_def)
qed

lemma read_digits_strict:
  "length s = length t \<Longrightarrow> list_all ascii_digit s \<Longrightarrow> list_all ascii_digit t \<Longrightarrow> n < m \<or> n = m \<and> s < t \<Longrightarrow> read_digits n s < read_digits m t"
proof (induction s t arbitrary: n m rule: list_induct2)
  case (Cons c s d t)
  show ?case unfolding foldl_Cons
    by (rule Cons.IH) (use Cons.prems in \<open>auto simp: char_less_int\<close>)
qed simp

lemma append_le_iff: "length a = length b \<Longrightarrow> a @ x \<le> b @ y \<longleftrightarrow> a < b \<or> a = b \<and> x \<le> (y :: string)"
  by (induction a b rule: list_induct2) auto

lemma version_timestamp_shape:
  assumes z: "ascii_digits zeros" and s: "version_timestamp zeros s" "ascii_text s"
  shows "\<exists>a b c d e f. s = a @ CHR ''-'' # b @ CHR ''-'' # c @ CHR ''T'' # d @ CHR '':'' # e @ CHR '':'' # f @ ''Z''
    \<and> length a = 4 \<and> length b = 2 \<and> length c = 2 \<and> length d = 2 \<and> length e = 2 \<and> length f = 2
    \<and> list_all (list_all ascii_digit) [a, b, c, d, e, f] \<and> instant zeros s = map (read_digits 0) [a, b, c, d, e, f]"
proof -
  note cp = ascii_code_points [OF s(2)]
  have len: "length s = 20" and seps: "\<forall>(i, c) \<in> set SEPARATORS. map of_char s ! i = (of_char c :: int)"
    and digs: "\<forall>i \<in> set [0..<20]. i \<notin> fst ` set SEPARATORS \<longrightarrow> digit_at zeros (map of_char s ! i) \<noteq> None"
    using s(1) unfolding version_timestamp_def Let_def cp length_map by blast+
  have dig: "ascii_digit (s ! i)" if "i < 20" "i \<notin> fst ` set SEPARATORS" for i
  proof -
    have "(of_char (s ! i) :: int) < 0x80" using s(2) that len by (simp add: ascii_text_def list_all_length)
    then show ?thesis using digs that len by (auto simp: ascii_digit_at [OF z] split: if_splits)
  qed
  have sep: "s ! i = c" if "(i, c) \<in> set SEPARATORS" for i c
  proof -
    have "i < 20" using that by (auto simp: SEPARATORS_def)
    then show ?thesis using bspec [OF seps that] len by (simp add: of_char_eq_iff)
  qed
  obtain a1 a2 a3 a4 h1 b1 b2 h2 c1 c2 h3 d1 d2 h4 e1 e2 h5 f1 f2 h6
    where sp: "s = [a1, a2, a3, a4, h1, b1, b2, h2, c1, c2, h3, d1, d2, h4, e1, e2, h5, f1, f2, h6]"
    using len by (auto simp: length_Suc_conv eval_nat_numeral)
  have hs: "h1 = CHR ''-''" "h2 = CHR ''-''" "h3 = CHR ''T''" "h4 = CHR '':''" "h5 = CHR '':''" "h6 = CHR ''Z''"
    using sep [of 4] sep [of 7] sep [of 10] sep [of 13] sep [of 16] sep [of 19] by (simp_all add: SEPARATORS_def sp)
  let ?fs = "[[a1, a2, a3, a4], [b1, b2], [c1, c2], [d1, d2], [e1, e2], [f1, f2]]"
  have ds: "list_all (list_all ascii_digit) ?fs"
    using dig [of 0] dig [of 1] dig [of 2] dig [of 3] dig [of 5] dig [of 6] dig [of 8] dig [of 9] dig [of 11] dig [of 12]
      dig [of 14] dig [of 15] dig [of 17] dig [of 18] by (simp add: SEPARATORS_def sp)
  have "instant zeros s = map (\<lambda>x. digits_value zeros (map of_char x)) ?fs"
    unfolding instant_def Let_def cp unfolding sp by (simp add: slice_def)
  also have "\<dots> = map (read_digits 0) ?fs"
    using ds unfolding list_all_iff [where P = "list_all ascii_digit"]
    by (intro map_cong refl ascii_digits_value [OF z]) (rule bspec)
  finally have "instant zeros s = map (read_digits 0) ?fs" .
  moreover have "s = [a1, a2, a3, a4] @ CHR ''-'' # [b1, b2] @ CHR ''-'' # [c1, c2] @ CHR ''T'' # [d1, d2] @ CHR '':''
      # [e1, e2] @ CHR '':'' # [f1, f2] @ ''Z''" unfolding sp hs append.simps ..
  ultimately show ?thesis using ds by (intro exI conjI) (assumption | (simp; fail))+
qed

text \<open>Between timestamps in ASCII the order of the texts is that of the instants.\<close>

lemma instant_mono:
  assumes z: "ascii_digits zeros" and s: "version_timestamp zeros s" "ascii_text s" and t: "version_timestamp zeros t" "ascii_text t"
    and le: "s \<le> t"
  shows "instant zeros s \<le> instant zeros t"
proof -
  obtain a b c d e f where 1: "s = a @ CHR ''-'' # b @ CHR ''-'' # c @ CHR ''T'' # d @ CHR '':'' # e @ CHR '':'' # f @ ''Z''"
    "length a = 4" "length b = 2" "length c = 2" "length d = 2" "length e = 2" "length f = 2"
    "list_all (list_all ascii_digit) [a, b, c, d, e, f]" "instant zeros s = map (read_digits 0) [a, b, c, d, e, f]"
    using version_timestamp_shape [OF z s] by blast
  obtain a' b' c' d' e' f' where 2: "t = a' @ CHR ''-'' # b' @ CHR ''-'' # c' @ CHR ''T'' # d' @ CHR '':'' # e' @ CHR '':'' # f' @ ''Z''"
    "length a' = 4" "length b' = 2" "length c' = 2" "length d' = 2" "length e' = 2" "length f' = 2"
    "list_all (list_all ascii_digit) [a', b', c', d', e', f']" "instant zeros t = map (read_digits 0) [a', b', c', d', e', f']"
    using version_timestamp_shape [OF z t] by blast
  have num: "read_digits 0 x < read_digits 0 y" if "x < y" "length x = length y" "list_all ascii_digit x" "list_all ascii_digit y" for x y
    by (rule read_digits_strict) (use that in simp_all)
  have "a < a' \<or> a = a' \<and> (b < b' \<or> b = b' \<and> (c < c' \<or> c = c' \<and> (d < d' \<or> d = d' \<and> (e < e' \<or> e = e' \<and> (f < f' \<or> f = f')))))"
    using le 1(2-7) 2(2-7) unfolding 1(1) 2(1) by (simp add: append_le_iff)
  then show ?thesis using num 1(2-8) 2(2-8) unfolding 1(9) 2(9) by auto
qed

subsection \<open>Timestamps are compared as texts\<close>

text \<open>A root of 2024 and a child of the year 1, its year in full-width digits.\<close>

definition zero_digest :: string where
  "zero_digest = ''gdv1:'' @ replicate 64 CHR ''0''"

definition root_version :: version_record where
  "root_version = \<lparr>vr_id = tagged ''gv1'' (version_body [] zero_digest), vr_parents = [], vr_digest = zero_digest,
     vr_created = ''2024-01-01T00:00:00Z'', vr_label = ''root''\<rparr>"

definition wide_year :: string where
  "wide_year = concat (map (\<lambda>d. [CHR 0xEF, CHR 0xBC, d]) [CHR 0x90, CHR 0x90, CHR 0x90, CHR 0x91]) @ ''-01-01T00:00:00Z''"

definition wide_child :: version_record where
  "wide_child = \<lparr>vr_id = tagged ''gv1'' (version_body [vr_id root_version] zero_digest), vr_parents = [vr_id root_version],
     vr_digest = zero_digest, vr_created = wide_year, vr_label = ''child''\<rparr>"

lemma sample_times:
  "version_timestamp [0x30, 0xFF10] ''2024-01-01T00:00:00Z''" "version_timestamp [0x30, 0xFF10] wide_year"
  "digits_value [0x30, 0xFF10] (slice 0 4 (code_points wide_year)) = 1"
  "digits_value [0x30, 0xFF10] (slice 0 4 (code_points ''2024-01-01T00:00:00Z'')) = 2024"
  "version_label ''root''" "version_label ''child''" "tag_grammar ''gdv1'' zero_digest" "''2024-01-01T00:00:00Z'' \<le> wide_year"
  "instant [0x30, 0xFF10] wide_year < instant [0x30, 0xFF10] ''2024-01-01T00:00:00Z''"
  by code_simp+

lemma sample_fields:
  "vr_created root_version = ''2024-01-01T00:00:00Z''" "vr_label root_version = ''root''" "vr_label wide_child = ''child''"
  "vr_parents root_version = []" "vr_digest root_version = zero_digest" "vr_id root_version = tagged ''gv1'' (version_body [] zero_digest)"
  "vr_parents wide_child = [vr_id root_version]" "vr_digest wide_child = zero_digest" "vr_created wide_child = wide_year"
  "vr_id wide_child = tagged ''gv1'' (version_body [vr_id root_version] zero_digest)"
  by (simp_all add: root_version_def wide_child_def)

lemma sample_valid:
  "validate_version [0x30, 0xFF10] (version_value root_version) = Inr root_version"
  "validate_version [0x30, 0xFF10] (version_value wide_child) = Inr wide_child"
proof -
  have "version_shape [0x30, 0xFF10] root_version" "version_shape [0x30, 0xFF10] wide_child"
    using sample_times(1,2,5-7) unfolding version_shape_def sample_fields by simp_all
  then show "validate_version [0x30, 0xFF10] (version_value root_version) = Inr root_version"
    "validate_version [0x30, 0xFF10] (version_value wide_child) = Inr wide_child"
    using version_ok_iff version_ok_def by blast+
qed

lemma sample_insert:
  "version_insert [0x30, 0xFF10] empty_versions (version_value root_version) = Inr (with_record empty_versions root_version, root_version)"
  "vs_records (with_record empty_versions root_version) = [(vr_id root_version, root_version)]"
  "vs_root (with_record empty_versions root_version) = Some (vr_id root_version)"
proof -
  have "insertable empty_versions root_version" by (simp add: insertable_def empty_versions_def root_version_def)
  then show "version_insert [0x30, 0xFF10] empty_versions (version_value root_version) = Inr (with_record empty_versions root_version, root_version)"
    using sample_valid(1) unfolding version_insert_Inr by blast
  show "vs_records (with_record empty_versions root_version) = [(vr_id root_version, root_version)]"
    "vs_root (with_record empty_versions root_version) = Some (vr_id root_version)"
    by (simp_all add: with_record_def empty_versions_def sample_fields)
qed

lemma sample_run:
  "run (version_step [0x30, 0xFF10]) empty_versions [Version_insert (version_value root_version)] = with_record empty_versions root_version"
  by (simp add: step_or_stay_def sample_insert(1))

lemma sample_child_run:
  assumes "insertable (with_record empty_versions root_version) r" "validate_version [0x30, 0xFF10] (version_value r) = Inr r"
  shows "run (version_step [0x30, 0xFF10]) empty_versions [Version_insert (version_value root_version), Version_insert (version_value r)]
     = with_record (with_record empty_versions root_version) r"
proof -
  have "version_insert [0x30, 0xFF10] (with_record empty_versions root_version) (version_value r)
      = Inr (with_record (with_record empty_versions root_version) r, r)"
    using assms unfolding version_insert_Inr by blast
  then show ?thesis by (simp add: step_or_stay_def sample_insert(1))
qed

text \<open>The store accepts a child that is older than its parent: the pattern admits the decimal digits of
  every script but the comparison is that of texts, so under an interpreter that knows the full-width
  digits the store takes a root of the year 2024 and then a child of the year 1 (or the two records have
  colliding addresses).\<close>

lemma version_older_child:
  "vr_id wide_child = vr_id root_version
   \<or> (let s = run (version_step [0x30, 0xFF10]) empty_versions [Version_insert (version_value root_version), Version_insert (version_value wide_child)] in
       set (vs_records s) = {(vr_id root_version, root_version), (vr_id wide_child, wide_child)}
       \<and> vr_parents wide_child = [vr_id root_version]
       \<and> instant [0x30, 0xFF10] (vr_created wide_child) < instant [0x30, 0xFF10] (vr_created root_version))"
proof (cases "vr_id wide_child = vr_id root_version")
  case False
  then have ins: "insertable (with_record empty_versions root_version) wide_child"
    using sample_times(8) by (simp only: insertable_def sample_insert(2) sample_fields map_of.simps) (simp add: sample_fields)
  show ?thesis unfolding Let_def sample_child_run [OF ins sample_valid(2)] set_with_record [OF ins] sample_insert(2)
    using sample_times(9) by (auto simp: sample_fields)
qed simp

lemma store_edge:
  assumes ok: "store_ok zeros s" and kr: "(k, r) \<in> set (vs_records s)"
  shows "k = vr_id r \<and> k = tagged ''gv1'' (version_body (vr_parents r) (vr_digest r))
       \<and> (\<forall>p \<in> set (vr_parents r). \<exists>q. (p, q) \<in> set (vs_records s) \<and> vr_created q \<le> vr_created r
           \<and> (ascii_digits zeros \<and> ascii_text (vr_created q) \<and> ascii_text (vr_created r)
               \<longrightarrow> instant zeros (vr_created q) \<le> instant zeros (vr_created r)))"
proof (intro conjI ballI)
  have entry: "j = vr_id q \<and> version_shape zeros q" if "(j, q) \<in> set (vs_records s)" for j q
    using ok that by (auto simp: store_ok_def)
  show "k = vr_id r" "k = tagged ''gv1'' (version_body (vr_parents r) (vr_digest r))"
    using entry [OF kr] by (simp_all add: version_shape_def)
  fix p
  assume "p \<in> set (vr_parents r)"
  then obtain q where q: "(p, q) \<in> set (vs_records s)" "vr_created q \<le> vr_created r"
    using store_parents [OF ok kr] map_of_SomeD by metis
  have "version_timestamp zeros (vr_created q)" "version_timestamp zeros (vr_created r)"
    using entry [OF q(1)] entry [OF kr] by (simp_all add: version_shape_def)
  then show "\<exists>q. (p, q) \<in> set (vs_records s) \<and> vr_created q \<le> vr_created r
         \<and> (ascii_digits zeros \<and> ascii_text (vr_created q) \<and> ascii_text (vr_created r)
             \<longrightarrow> instant zeros (vr_created q) \<le> instant zeros (vr_created r))"
    using q instant_mono by blast
qed

lemma store_acyclic:
  assumes "store_ok zeros s"
  shows "acyclic {(p, k). \<exists>r. (k, r) \<in> set (vs_records s) \<and> p \<in> set (vr_parents r)}"
proof -
  have "lineage (rev (vs_records s))" using assms by (simp add: store_ok_def)
  from lineage_rank [OF this] obtain rank :: "string \<Rightarrow> nat"
    where "\<forall>(k, r) \<in> set (vs_records s). \<forall>p \<in> set (vr_parents r). rank p < rank k" by auto
  then have "{(p, k). \<exists>r. (k, r) \<in> set (vs_records s) \<and> p \<in> set (vr_parents r)} \<subseteq> measure rank" by auto
  then show ?thesis by (rule acyclic_subset [OF wf_acyclic [OF wf_measure]])
qed

lemma store_one_root:
  assumes ok: "store_ok zeros s"
  shows "if vs_records s = [] then vs_root s = None
      else \<exists>k. vs_root s = Some k \<and> (\<forall>(j, r) \<in> set (vs_records s). vr_parents r = [] \<longleftrightarrow> j = k)"
proof (cases "vs_records s = []")
  case True
  then have "vs_root s \<noteq> Some k" for k using store_root [OF ok, of k] by simp
  then have "vs_root s = None" by (metis not_None_eq)
  then show ?thesis using True by simp
next
  case False
  then obtain k r where kr: "(k, r) \<in> set (vs_records s)" "vr_parents r = []"
    using lineage_oldest [of "rev (vs_records s)"] ok by (auto simp: store_ok_def)
  then have k: "vs_root s = Some k" unfolding store_root [OF ok] by blast
  have "vr_parents q = [] \<longleftrightarrow> j = k" if j: "(j, q) \<in> set (vs_records s)" for j q
  proof
    assume "vr_parents q = []"
    then have "vs_root s = Some j" using j unfolding store_root [OF ok] by blast
    then show "j = k" using k by simp
  next
    assume "j = k"
    then have "q = r" using j kr(1) by (simp add: store_entry [OF ok])
    then show "vr_parents q = []" using kr(2) by simp
  qed
  then show ?thesis using False k by auto
qed

subsection \<open>Properties\<close>

text \<open>C21. The store is a rooted acyclic graph with content addresses, and what it guarantees of the times:
  after any run of insertions and merges (of any stores, damaged ones too) every record is filed under the
  address of its content, its parents are stored, the parent relation is acyclic, and a store with records
  has exactly one record without parents, which is the root. The timestamp of a parent is not greater than
  that of the child as a text. As instants they are ordered only if both are written in ASCII: under an
  interpreter that knows the full-width digits there is a run after which a child of the year 1 stands
  under a parent of the year 2024 (or their addresses collide).\<close>

theorem version_store_dag:
  fixes zeros ops
  defines "s \<equiv> run (version_step zeros) empty_versions ops"
  shows "(\<forall>(k, r) \<in> set (vs_records s). k = vr_id r \<and> k = tagged ''gv1'' (version_body (vr_parents r) (vr_digest r))
       \<and> (\<forall>p \<in> set (vr_parents r). \<exists>q. (p, q) \<in> set (vs_records s) \<and> vr_created q \<le> vr_created r
           \<and> (ascii_digits zeros \<and> ascii_text (vr_created q) \<and> ascii_text (vr_created r)
               \<longrightarrow> instant zeros (vr_created q) \<le> instant zeros (vr_created r))))
   \<and> acyclic {(p, k). \<exists>r. (k, r) \<in> set (vs_records s) \<and> p \<in> set (vr_parents r)}
   \<and> (if vs_records s = [] then vs_root s = None
      else \<exists>k. vs_root s = Some k \<and> (\<forall>(j, r) \<in> set (vs_records s). vr_parents r = [] \<longleftrightarrow> j = k))
   \<and> (vr_id wide_child = vr_id root_version
      \<or> (let t = run (version_step [0x30, 0xFF10]) empty_versions [Version_insert (version_value root_version), Version_insert (version_value wide_child)] in
          set (vs_records t) = {(vr_id root_version, root_version), (vr_id wide_child, wide_child)}
          \<and> vr_parents wide_child = [vr_id root_version]
          \<and> instant [0x30, 0xFF10] (vr_created wide_child) < instant [0x30, 0xFF10] (vr_created root_version)))"
proof -
  have ok: "store_ok zeros s" unfolding s_def by (rule reached_store)
  show ?thesis using store_edge [OF ok] store_acyclic [OF ok] store_one_root [OF ok] version_older_child by blast
qed

text \<open>C22. Merging always returns and is the union: a merge into a reached store never loops, whatever the
  source holds; between two reached stores it is accepted exactly if they agree on the records they share
  and on the root, then both orders are accepted with the same canonical view and the same record for every
  id, the records being those of either store.\<close>

theorem version_merge_union:
  fixes zeros ops ops'
  defines "s \<equiv> run (version_step zeros) empty_versions ops" and "u \<equiv> run (version_step zeros) empty_versions ops'"
  shows "(\<forall>source. version_merge zeros s source \<noteq> None)
    \<and> (\<exists>t. version_merge zeros s u = Some (Inr t)) = compatible s u
    \<and> (compatible s u \<longrightarrow> (\<exists>t t'. version_merge zeros s u = Some (Inr t) \<and> version_merge zeros u s = Some (Inr t')
         \<and> set (vs_records t) = set (vs_records s) \<union> set (vs_records u) \<and> map_of (vs_records t) = map_of (vs_records t')
         \<and> canonical_view t = canonical_view t' \<and> vs_root t = vs_root t'))"
proof -
  have s: "store_ok zeros s" and u: "store_ok zeros u" unfolding s_def u_def by (rule reached_store)+
  have both: "\<exists>t t'. version_merge zeros s u = Some (Inr t) \<and> version_merge zeros u s = Some (Inr t')
         \<and> set (vs_records t) = set (vs_records s) \<union> set (vs_records u) \<and> map_of (vs_records t) = map_of (vs_records t')
         \<and> canonical_view t = canonical_view t' \<and> vs_root t = vs_root t'" if c: "compatible s u"
  proof -
    have "compatible u s" using c unfolding compatible_def by metis
    then obtain t t' where m: "version_merge zeros s u = Some (Inr t)" "version_merge zeros u s = Some (Inr t')"
      using c merge_exact(1) [OF s u] merge_exact(1) [OF u s] by blast
    then have t: "store_ok zeros t" "store_ok zeros t'" "set (vs_records t) = set (vs_records s) \<union> set (vs_records u)"
      "set (vs_records t') = set (vs_records t)"
      using merge_exact(2) [OF s u] merge_exact(2) [OF u s] by (simp_all add: Un_commute)
    note d = store_distinct [OF t(1)] store_distinct [OF t(2)]
    have "map_of (vs_records t) = map_of (vs_records t')" using map_of_inject_set [OF d] t(4) by simp
    moreover have "mset (map fst (vs_records t)) = mset (map fst (vs_records t'))"
      using set_eq_iff_mset_eq_distinct [OF d] t(4) by simp
    then have "canonical_view t = canonical_view t'" unfolding canonical_view_def by (metis sorted_list_of_multiset_mset)
    moreover have "vs_root t = vs_root t'" using store_root [OF t(1)] store_root [OF t(2)] t(4) by (metis option.exhaust)
    ultimately show ?thesis using m t(3) by blast
  qed
  have "version_merge zeros s source \<noteq> None" for source using merge_returns [OF s, of source] by auto
  then show ?thesis using merge_exact(1) [OF s u] both by blast
qed

subsection \<open>Witnesses\<close>

definition later_child :: version_record where
  "later_child = wide_child\<lparr>vr_created := ''2025-06-30T12:00:00Z''\<rparr>"

lemma later_times:
  "version_timestamp [0x30, 0xFF10] ''2025-06-30T12:00:00Z''" "''2024-01-01T00:00:00Z'' \<le> ''2025-06-30T12:00:00Z''"
  "ascii_digits [0x30, 0xFF10]" "ascii_text ''2024-01-01T00:00:00Z''" "ascii_text ''2025-06-30T12:00:00Z''"
  "instant [0x30, 0xFF10] ''2025-06-30T12:00:00Z'' = [2025, 6, 30, 12, 0, 0]" "instant [0x30, 0xFF10] ''2024-01-01T00:00:00Z'' = [2024, 1, 1, 0, 0, 0]"
  by code_simp+

lemma later_fields:
  "vr_id later_child = vr_id wide_child" "vr_parents later_child = [vr_id root_version]" "vr_digest later_child = zero_digest"
  "vr_created later_child = ''2025-06-30T12:00:00Z''" "vr_label later_child = ''child''"
  by (simp_all add: later_child_def sample_fields)

text \<open>A root and a child, both timestamps in ASCII.\<close>

theorem version_store_dag_witness:
  "vr_id later_child = vr_id root_version
   \<or> (let s = run (version_step [0x30, 0xFF10]) empty_versions [Version_insert (version_value root_version), Version_insert (version_value later_child)] in
       set (vs_records s) = {(vr_id root_version, root_version), (vr_id later_child, later_child)}
       \<and> (\<exists>q. (vr_id root_version, q) \<in> set (vs_records s) \<and> instant [0x30, 0xFF10] (vr_created q) \<le> [2025, 6, 30, 12, 0, 0])
       \<and> acyclic {(p, k). \<exists>r. (k, r) \<in> set (vs_records s) \<and> p \<in> set (vr_parents r)})"
proof (cases "vr_id later_child = vr_id root_version")
  case False
  have "version_shape [0x30, 0xFF10] later_child"
    using later_times(1) sample_times(6,7) unfolding version_shape_def later_fields sample_fields by simp
  then have valid: "validate_version [0x30, 0xFF10] (version_value later_child) = Inr later_child"
    using version_ok_iff version_ok_def by blast
  have ins: "insertable (with_record empty_versions root_version) later_child"
    using False later_times(2) by (simp only: insertable_def sample_insert(2) later_fields map_of.simps) (simp add: sample_fields)
  note r = sample_child_run [OF ins valid]
  have records: "set (vs_records (with_record (with_record empty_versions root_version) later_child))
      = {(vr_id root_version, root_version), (vr_id later_child, later_child)}"
    unfolding set_with_record [OF ins] sample_insert(2) by auto
  note dag = version_store_dag [of "[0x30, 0xFF10]" "[Version_insert (version_value root_version), Version_insert (version_value later_child)]",
      unfolded r records]
  have "\<exists>q. (vr_id root_version, q) \<in> {(vr_id root_version, root_version), (vr_id later_child, later_child)}
      \<and> instant [0x30, 0xFF10] (vr_created q) \<le> instant [0x30, 0xFF10] (vr_created later_child)"
  proof -
    have "(vr_id later_child, later_child) \<in> {(vr_id root_version, root_version), (vr_id later_child, later_child)}" by blast
    note edge = bspec [OF conjunct1 [OF dag] this, unfolded prod.case, THEN conjunct2, THEN conjunct2]
    have "vr_id root_version \<in> set (vr_parents later_child)" unfolding later_fields by simp
    from bspec [OF edge this] obtain q where q: "(vr_id root_version, q) \<in> {(vr_id root_version, root_version), (vr_id later_child, later_child)}"
      "ascii_digits [0x30, 0xFF10] \<and> ascii_text (vr_created q) \<and> ascii_text (vr_created later_child)
         \<longrightarrow> instant [0x30, 0xFF10] (vr_created q) \<le> instant [0x30, 0xFF10] (vr_created later_child)" by blast
    have "q = root_version" using q(1) False unfolding insert_iff empty_iff prod.inject by metis
    then have "ascii_text (vr_created q)" using later_times(4) by (simp only: sample_fields)
    then show ?thesis using q later_times(3,5) unfolding later_fields by blast
  qed
  then show ?thesis using conjunct1 [OF conjunct2 [OF dag]] unfolding Let_def r records later_fields later_times by blast
qed simp

theorem version_merge_union_witness:
  "\<exists>t. version_merge [0x30, 0xFF10] empty_versions (with_record empty_versions root_version) = Some (Inr t)
     \<and> set (vs_records t) = {(vr_id root_version, root_version)}"
proof -
  have start: "run (version_step zeros) empty_versions [] = empty_versions" for zeros by simp
  have "compatible empty_versions (with_record empty_versions root_version)" by (simp add: compatible_def empty_versions_def)
  then obtain t where "version_merge [0x30, 0xFF10] empty_versions (with_record empty_versions root_version) = Some (Inr t)"
    "set (vs_records t) = set (vs_records empty_versions) \<union> set (vs_records (with_record empty_versions root_version))"
    using version_merge_union [of "[0x30, 0xFF10]" "[]" "[Version_insert (version_value root_version)]"]
    unfolding sample_run start by blast
  moreover have "vs_records empty_versions = []" by (simp add: empty_versions_def)
  ultimately show ?thesis using sample_insert(2) by auto
qed

end
