(* ===== verification/Spec2Isabelle.thy ===== *)
theory Spec2Isabelle
  imports Turn LegalMovesProps CastlingFacts EnPassantFacts FenFacts QueueProps Retry LimitProps Progress
    DeadLetter Restart JobsIdempotencyProps RouteEdgeProps VariantProps GraphDiffProps GraphConflictProps
    Rollback CrashResumeProps StoreIdempotencyProps BackupProps
    CorruptionProps Export Migration OpeningContextProps ProvenanceProps VersionStoreProps
begin

text \<open>
  \<^bold>\<open>openchess: the contract-driven runtimes.\<close>

  The repository keeps the rules of its services as contract documents (\<open>src/data/contracts/*.yaml\<close>) and
  implements each by a small Python runtime that is total over hostile input and fails closed with a
  typed error. This library models those runtimes and proves what makes them correct, alone and where
  they meet. A runtime reads its contract once, so the contract's values are constants here.

  \<^bold>\<open>Conventions.\<close> A caller's argument is an arbitrary Python object tree (\<open>PyValue\<close>): exact types are
  constructors, everything else is \<open>POther\<close>; a \<open>str\<close> is its UTF-8 bytes. A raised typed error is \<open>Inl\<close>, a
  returned value \<open>Inr\<close>, and \<open>require\<close> is \<open>if not cond: fail(...)\<close>, in the order of the code (\<open>Prelude\<close>).
  Error messages are not modelled, error classes and codes are. A stateful runtime is a function from
  the old state to the new one; \<open>run\<close> goes on after a rejected request with the state as it was. The
  locale \<open>guarded_machine\<close> is the contract of such machines, interpreted on every stateful component.

  \<^bold>\<open>Chess.\<close>
  \<^item> \<open>Turn\<close>: \<open>src/tools/turn_runtime.py\<close>, the side to move, the two clocks and termination; any list of
    declared moves is accepted, one ply each.
  \<^item> \<open>Board\<close>, \<open>LegalMoves\<close>, \<open>LegalMovesFacts\<close>, \<open>LegalMovesProps\<close>: \<open>src/tools/legal_moves_runtime.py\<close>, attacks,
    generation, the validated transition and the terminal status. The generated list holds exactly the
    moves that the transition accepts; status is stated by check and accepted moves.
  \<^item> \<open>Castling\<close>, \<open>CastlingFacts\<close>: \<open>src/tools/castling_runtime.py\<close>; rights never come back, an accepted castle
    relocates king and rook and nothing else.
  \<^item> \<open>EnPassant\<close>, \<open>AttackGeometry\<close>, \<open>EnPassantFacts\<close>: \<open>src/graph/en_passant.py\<close>; the capture transition, the
    life of a target, and the agreement of its own attack test with the legal-moves one.
  \<^item> \<open>Decimal\<close>, \<open>Fen\<close>, \<open>FenFacts\<close>: \<open>src/graph/fen.py\<close>; parse and emit are inverse, and an accepted position is
    a valid state of the legal-moves, castling and en-passant runtimes.
  \<^item> \<open>VariantRuntime\<close>, \<open>VariantFacts\<close>, \<open>VariantProps\<close>: \<open>src/tools/variant_runtime.py\<close> with the FEN check of
    \<open>src/tools/variant_contract_lint.py\<close>, against the FEN parser. Which texts that the parser accepts
    the runtime accepts is described exactly: it bounds the counters to ten digits, it wants the en-passant
    capture to be playable, and in both stages the pawn test of \<open>_attacks\<close> looks at the row behind instead
    of the row in front (\<open>variant_pawn_direction\<close> shows both wrong verdicts at the entry point).

  \<^bold>\<open>The route graph.\<close>
  \<^item> \<open>PositionDigest\<close>, \<open>PositionIdentity\<close>: \<open>src/graph/position_digest.py\<close>; the en-passant identity agrees with
    the en-passant runtime, and the canonical encoding is injective on identities. SHA-256 is defined in
    \<open>SHA256\<close> from its standard; no theorem relies on collisions being absent.
  \<^item> \<open>BucketTable\<close> (the contract of digest buckets), \<open>TranspositionNode\<close>, \<open>TranspositionProps\<close>:
    \<open>src/graph/transposition_node.py\<close>; \<open>RouteEdge\<close>, \<open>RouteEdgeProps\<close>: \<open>src/graph/route_edge.py\<close>. The digest oracle
    is the caller's, a parameter \<open>f\<close> of the definitions: a function of its arguments that may fail, answer
    anything and collide. Nodes rely only on \<open>respects_identity f\<close> (locale \<open>node_oracle\<close>), edges for the merge
    on an oracle that answers (locale \<open>edge_oracle\<close>); both locales are interpreted on the digest runtime.
    Nodes are merge points of identities, edges a partial function from sources to targets; merges are
    unions and do not depend on the order.
  \<^item> \<open>GraphState\<close>, \<open>GraphStateFacts\<close> (\<open>src/graph/node.py\<close>, keys and identifiers of states), \<open>GraphDiff\<close>,
    \<open>GraphDiffProps\<close> (\<open>src/graph/diff.py\<close>): a computed diff takes its base to its target; \<open>GraphConflict\<close>,
    \<open>GraphConflictProps\<close> (\<open>src/graph/conflict.py\<close>): conflicts are exactly the keys that both sides changed to
    different values.
  \<^item> \<open>OpeningContext\<close>, \<open>OpeningContextProps\<close>: \<open>src/graph/opening_context.py\<close>; classification is by the longest
    registered line, and a merge is accepted exactly if the receiver's registry classifies the source's
    records as they are filed (locale \<open>opening_registry\<close>, interpreted on the shipped registry).
  \<^item> \<open>Calendar\<close>, \<open>Provenance\<close>, \<open>ProvenanceProps\<close>: \<open>src/graph/provenance.py\<close>; a table is a map from target
    identities to source sets, determined by the set of the requests it has accepted.
  \<^item> \<open>VersionStore\<close>, \<open>VersionStoreProps\<close>: \<open>src/graph/version_store.py\<close>; a rooted acyclic graph of
    content-addressed records. The merge loop need not end on damaged stores in general, so it is a
    partial function; into a reached store it always returns. The decimal digits of \<open>\d\<close> depend on the
    interpreter's Unicode table, a parameter \<open>zeros\<close>. The order along the edges is that of
    the texts; for timestamps in ASCII it is that of the instants (\<open>instant_mono\<close>), and \<open>version_older_child\<close>
    shows a child that is older than its parent being accepted, written in full-width digits.

  \<^bold>\<open>The durable store.\<close> A log of content-addressed put and delete entries of exact node records.
  \<^item> \<open>Wal\<close>, \<open>WalFacts\<close>, \<open>WalProps\<close>: \<open>src/store/wal.py\<close>. The payload canonicalizer is the caller's, a parameter.
    Append extends exactly the logs that replay; a run of appends implements updates of a finite map; under
    the honest canonicalizer the head pins the whole log, up to a collision that the theorem exhibits.
  \<^item> \<open>StoreLog\<close>: the locale \<open>prefix_log\<close> (a validity that is closed under prefixes, and the search from the top
    for the longest valid one), interpreted on replay and on admission; the length-framed texts of tokens.
  \<^item> \<open>Rollback\<close>: \<open>src/store/rollback.py\<close>, the inverse of the appends since the target. \<open>CrashResume\<close>,
    \<open>CrashResumeProps\<close>: \<open>src/store/crash_resume.py\<close>, recovery keeps the longest valid prefix and never loses an
    entry before the damage. \<open>StoreIdempotency\<close>, \<open>StoreIdempotencyProps\<close>: \<open>src/store/idempotency.py\<close>, keyed appends
    happen once, among other writers. \<open>Backup\<close>, \<open>BackupProps\<close>: \<open>src/store/backup.py\<close> and
    \<open>src/store/restore.py\<close>, a restore gives back the state of the log and does not trust the parser.
  \<^item> \<open>Corruption\<close>, \<open>CorruptionProps\<close>: \<open>src/store/corruption.py\<close>, the scan by bisection keeps what the search from
    the top would keep. \<open>Export\<close>: \<open>src/store/export.py\<close>, documents do not depend on how a state was reached.
    \<open>Migration\<close>: \<open>src/store/migration.py\<close>, digests change and nothing else does.

  \<^bold>\<open>Jobs.\<close>
  \<^item> \<open>Json\<close>, \<open>Payload\<close>, \<open>Queue\<close>, \<open>QueueFacts\<close>, \<open>QueueProps\<close>: \<open>src/server/jobs_queue.py\<close>; validation of states and
    payloads, enqueue, claim, ack and nack, the life cycle of a job, exclusiveness of leases, idempotent
    enqueueing, delivery.
  \<^item> \<open>JobRecord\<close> (the locale \<open>sealed_record\<close> of records that a caller carries), \<open>Retry\<close>, \<open>Limit\<close>, \<open>LimitProps\<close>,
    \<open>Progress\<close>, \<open>Cancel\<close>, \<open>DeadLetter\<close>, \<open>Restart\<close>: \<open>src/server/jobs_{retry,limit,progress,cancel,dead_letter,restart}.py\<close>.
  \<^item> \<open>JobsIdempotency\<close>, \<open>JobsIdempotencyProps\<close>: \<open>src/server/jobs_idempotency.py\<close> over the queue; the request
    fingerprint function is a parameter. Requests are applied exactly once, and the queue is what the
    ledger accounts for.

  \<^bold>\<open>Termination and bounds.\<close> Every loop is a total function: recursion over lists, or a walk on the board
  with the measure \<open>ray_room\<close>; a conjunct of a walk's guard that only excludes the zero direction is
  marked where it stands (no declared direction is zero). The one loop that need not end, the merge of
  versions, is a \<open>partial_function\<close> with a proof that it returns. Nothing runs on fuel. Python's integers are
  \<open>int\<close> or \<open>nat\<close>; the limits the code checks are the constants of its contracts; SHA-256 works on 32-bit
  words.

  \<^bold>\<open>Not modelled.\<close> The identity of returned containers (a caller who mutates a record that a table handed
  out), cyclic payloads (values are finite trees), error messages, stateful oracles, strings past their
  encoding (\<open>PBadStr\<close> has no content), reading of the contract files. Of the repository: ingestion and rights (\<open>src/ingest\<close>,
  \<open>src/importers\<close>), the control-plane server and mock, desktop privacy, the backtest, and the development
  tools (lints, fixture generators, gates), which check documents and never run in the product.
\<close>

end
